(* ===== verification/Collector_Prelude.thy ===== *)
theory Collector_Prelude
  imports Main "HOL-Library.Word"
begin

unbundle bit_operations_syntax

text \<open>
  Shared material of the development.

  \<^item> Names for the machine integers of the C++ sources and the byte-order macros
    \<^verbatim>\<open>htonll\<close>, \<^verbatim>\<open>ntohll\<close>, \<^verbatim>\<open>htonl\<close>, \<^verbatim>\<open>ntohl\<close> on a little-endian host (x86\_64, aarch64,
    ppc64le). An \<^verbatim>\<open>int64_t\<close> on which the code only computes without overflow is an \<^typ>\<open>int\<close>.
  \<^item> A model of \<^verbatim>\<open>std::unordered_map<K, V, Hasher, E>\<close>: an association list searched with the
    key equality the table realises. The order of the list stands for the unspecified iteration
    order of the table, so a statement about lookups alone does not depend on it.
  \<^item> The locale \<open>key_equality\<close>, the contract a key type owes to the table, with the laws of
    lookup after insertion, overwriting, erasing and iteration proved once for every key type.
\<close>

section \<open>Named theorem collections\<close>

named_theorems net_simps \<open>unfolding rules for the address and network operations\<close>
named_theorems um_simps \<open>lookup laws of the unordered map operations\<close>

section \<open>Machine integers and byte order\<close>

type_synonym u8 = "8 word"
type_synonym u16 = "16 word"
type_synonym u32 = "32 word"
type_synonym u64 = "64 word"
type_synonym i64 = int
type_synonym bytes = "u8 list"

definition byte_of :: "nat \<Rightarrow> u64 \<Rightarrow> u64" where
  "byte_of k w = drop_bit (8 * k) w AND mask 8"

definition bswap64 :: "u64 \<Rightarrow> u64" where
  "bswap64 w =
     push_bit 56 (byte_of 0 w) OR push_bit 48 (byte_of 1 w) OR
     push_bit 40 (byte_of 2 w) OR push_bit 32 (byte_of 3 w) OR
     push_bit 24 (byte_of 4 w) OR push_bit 16 (byte_of 5 w) OR
     push_bit 8 (byte_of 6 w) OR byte_of 7 w"

definition htonll :: "u64 \<Rightarrow> u64" where
  "htonll w = bswap64 w"

definition ntohll :: "u64 \<Rightarrow> u64" where
  "ntohll w = bswap64 w"

definition bswap32 :: "u32 \<Rightarrow> u32" where
  "bswap32 w =
     push_bit 24 (w AND mask 8) OR push_bit 8 (w AND push_bit 8 (mask 8)) OR
     (drop_bit 8 w AND push_bit 8 (mask 8)) OR (drop_bit 24 w AND mask 8)"

definition htonl :: "u32 \<Rightarrow> u32" where
  "htonl w = bswap32 w"

definition ntohl :: "u32 \<Rightarrow> u32" where
  "ntohl w = bswap32 w"

text \<open>The bytes of a 64-bit object in memory order, and the object a byte sequence stores.\<close>

definition mem_bytes :: "u64 \<Rightarrow> bytes" where
  "mem_bytes w = map (\<lambda>k. ucast (drop_bit (8 * k) w)) [0..<8]"

fun word_of_mem :: "bytes \<Rightarrow> u64" where
  "word_of_mem [] = 0"
| "word_of_mem (b # bs) = ucast b OR push_bit 8 (word_of_mem bs)"

section \<open>Unordered maps\<close>

type_synonym ('k, 'v) umap = "('k \<times> 'v) list"

fun um_find :: "('k \<Rightarrow> 'k \<Rightarrow> bool) \<Rightarrow> ('k, 'v) umap \<Rightarrow> 'k \<Rightarrow> 'v option" where
  "um_find eq [] k = None"
| "um_find eq ((k', v) # m) k = (if eq k' k then Some v else um_find eq m k)"

text \<open>Overwrite the mapped value of an element that is already there; the key object stays.\<close>

fun um_set :: "('k \<Rightarrow> 'k \<Rightarrow> bool) \<Rightarrow> ('k, 'v) umap \<Rightarrow> 'k \<Rightarrow> 'v \<Rightarrow> ('k, 'v) umap" where
  "um_set eq [] k v = []"
| "um_set eq ((k', v') # m) k v =
     (if eq k' k then (k', v) # m else (k', v') # um_set eq m k v)"

text \<open>\<^verbatim>\<open>insert\<close> and \<^verbatim>\<open>emplace\<close>: no effect on an element that is already there; the flag tells.\<close>

definition um_emplace :: "('k \<Rightarrow> 'k \<Rightarrow> bool) \<Rightarrow> ('k, 'v) umap \<Rightarrow> 'k \<Rightarrow> 'v \<Rightarrow> ('k, 'v) umap \<times> bool" where
  "um_emplace eq m k v =
     (case um_find eq m k of None \<Rightarrow> (m @ [(k, v)], True) | Some _ \<Rightarrow> (m, False))"

text \<open>\<^verbatim>\<open>m[k] = v\<close>.\<close>

definition um_assign :: "('k \<Rightarrow> 'k \<Rightarrow> bool) \<Rightarrow> ('k, 'v) umap \<Rightarrow> 'k \<Rightarrow> 'v \<Rightarrow> ('k, 'v) umap" where
  "um_assign eq m k v =
     (case um_find eq m k of None \<Rightarrow> m @ [(k, v)] | Some _ \<Rightarrow> um_set eq m k v)"

definition um_erase :: "('k \<Rightarrow> 'k \<Rightarrow> bool) \<Rightarrow> ('k, 'v) umap \<Rightarrow> 'k \<Rightarrow> ('k, 'v) umap" where
  "um_erase eq m k = filter (\<lambda>(k', _). \<not> eq k' k) m"

text \<open>No two elements of a table have equal keys.\<close>

fun um_inv :: "('k \<Rightarrow> 'k \<Rightarrow> bool) \<Rightarrow> ('k, 'v) umap \<Rightarrow> bool" where
  "um_inv eq [] = True"
| "um_inv eq ((k, v) # m) = (um_find eq m k = None \<and> um_inv eq m)"

section \<open>Byte order: the laws\<close>

lemma bit_byte_of: "bit (byte_of k w) n \<longleftrightarrow> n < 8 \<and> bit w (8 * k + n)"
  by (auto simp: byte_of_def bit_simps)

lemma bit_bswap64_byte:
  assumes "r < 8" and "q < 8"
  shows "bit (bswap64 w) (8 * q + r) \<longleftrightarrow> bit w (8 * (7 - q) + r)"
proof -
  from assms(2) consider "q = 0" | "q = 1" | "q = 2" | "q = 3" | "q = 4" | "q = 5" | "q = 6" | "q = 7"
    by linarith
  then show ?thesis
    using assms(1) by cases (simp_all add: bswap64_def bit_or_iff bit_push_bit_iff bit_byte_of)
qed

lemma bit_bswap64:
  assumes "n < 64"
  shows "bit (bswap64 w) n \<longleftrightarrow> bit w (8 * (7 - n div 8) + n mod 8)"
  using bit_bswap64_byte [of "n mod 8" "n div 8" w] assms by simp

lemma bswap64_involutive: "bswap64 (bswap64 w) = w"
proof (rule bit_word_eqI)
  fix n assume "n < LENGTH(64)"
  then have n: "n < 64" by simp
  define m where "m = 8 * (7 - n div 8) + n mod 8"
  have m: "m < 64" "8 * (7 - m div 8) + m mod 8 = n" using n unfolding m_def by auto
  show "bit (bswap64 (bswap64 w)) n \<longleftrightarrow> bit w n"
    using n m by (simp add: bit_bswap64 m_def [symmetric])
qed

lemma ntohll_htonll [simp]: "ntohll (htonll w) = w"
  by (simp add: ntohll_def htonll_def bswap64_involutive)

lemma htonll_ntohll [simp]: "htonll (ntohll w) = w"
  by (simp add: ntohll_def htonll_def bswap64_involutive)

lemma htonll_inject [simp]: "htonll v = htonll w \<longleftrightarrow> v = w"
  by (metis ntohll_htonll)

lemma ntohll_inject [simp]: "ntohll v = ntohll w \<longleftrightarrow> v = w"
  by (metis htonll_ntohll)

lemma bswap64_0 [simp]: "bswap64 0 = 0"
  by (simp add: bswap64_def byte_of_def)

lemma htonll_0 [simp]: "htonll 0 = 0" and ntohll_0 [simp]: "ntohll 0 = 0"
  by (simp_all add: htonll_def ntohll_def)

lemma htonll_eq_0 [simp]: "htonll w = 0 \<longleftrightarrow> w = 0"
  by (metis htonll_0 htonll_inject)

lemma ntohll_eq_0 [simp]: "ntohll w = 0 \<longleftrightarrow> w = 0"
  by (metis ntohll_0 ntohll_inject)

text \<open>Byte swapping commutes with the bitwise operations the masks are built with.\<close>

lemma ntohll_and: "ntohll (v AND w) = ntohll v AND ntohll w"
  by (rule bit_word_eqI) (simp add: ntohll_def bit_bswap64 bit_and_iff)

lemma bswap32_involutive: "bswap32 (bswap32 w) = w"
proof (rule bit_word_eqI)
  fix n assume "n < LENGTH(32)"
  then consider "n < 8" | "8 \<le> n" "n < 16" | "16 \<le> n" "n < 24" | "24 \<le> n" "n < 32"
    by fastforce
  then show "bit (bswap32 (bswap32 w)) n \<longleftrightarrow> bit w n"
    by cases (auto simp: bswap32_def bit_simps)
qed

lemma ntohl_htonl [simp]: "ntohl (htonl w) = w"
  by (simp add: ntohl_def htonl_def bswap32_involutive)

lemma htonl_ntohl [simp]: "htonl (ntohl w) = w"
  by (simp add: ntohl_def htonl_def bswap32_involutive)

section \<open>Unordered maps: the laws\<close>

lemma um_find_append:
  "um_find eq (m @ m') k = (case um_find eq m k of None \<Rightarrow> um_find eq m' k | Some v \<Rightarrow> Some v)"
  by (induction eq m k rule: um_find.induct) auto

lemma um_find_None_iff: "um_find eq m k = None \<longleftrightarrow> (\<forall>(k', v) \<in> set m. \<not> eq k' k)"
  by (induction eq m k rule: um_find.induct) auto

lemma um_find_SomeD: "um_find eq m k = Some v \<Longrightarrow> \<exists>k'. (k', v) \<in> set m \<and> eq k' k"
  by (induction eq m k rule: um_find.induct) (auto split: if_splits)

lemma um_find_map_values: "um_find eq (map (\<lambda>(k, v). (k, f v)) m) j = map_option f (um_find eq m j)"
  by (induction eq m j rule: um_find.induct) auto

lemma um_find_set_other: "um_find eq m k = None \<Longrightarrow> um_set eq m k v = m"
  by (induction eq m k v rule: um_set.induct) (auto split: if_splits)

lemma um_set_same_keys: "um_find eq (um_set eq m k v) j = None \<longleftrightarrow> um_find eq m j = None"
  by (induction eq m k v rule: um_set.induct) auto

lemma um_inv_map_values: "um_inv eq (map (\<lambda>(k, v). (k, f v)) m) = um_inv eq m"
  by (induction eq m rule: um_inv.induct) (auto simp: um_find_map_values)

lemma um_inv_set: "um_inv eq m \<Longrightarrow> um_inv eq (um_set eq m k v)"
  by (induction eq m k v rule: um_set.induct) (auto simp: um_set_same_keys)

lemma um_inv_filter: "um_inv eq m \<Longrightarrow> um_inv eq (filter P m)"
  by (induction eq m rule: um_inv.induct) (auto simp: um_find_None_iff)

lemma length_um_set [simp]: "length (um_set eq m k v) = length m"
  by (induction eq m k v rule: um_set.induct) auto

locale key_equality =
  fixes keq :: "'k \<Rightarrow> 'k \<Rightarrow> bool"
  assumes keq_refl: "keq k k"
    and keq_sym: "keq j k \<Longrightarrow> keq k j"
    and keq_trans: "keq i j \<Longrightarrow> keq j k \<Longrightarrow> keq i k"
begin

lemma keq_cong: "keq j k \<Longrightarrow> keq i j = keq i k"
  by (blast intro: keq_sym keq_trans)

lemma keq_cong_left: "keq j k \<Longrightarrow> keq j i = keq k i"
  by (blast intro: keq_sym keq_trans)

lemma find_cong: "keq j k \<Longrightarrow> um_find keq m j = um_find keq m k"
  by (induction m) (auto dest: keq_cong)

lemma find_emplace:
  "um_find keq (fst (um_emplace keq m k v)) j =
     (case um_find keq m j of Some x \<Rightarrow> Some x | None \<Rightarrow> if keq k j then Some v else None)"
  by (auto simp: um_emplace_def um_find_append find_cong split: option.splits)

lemma snd_emplace: "snd (um_emplace keq m k v) \<longleftrightarrow> um_find keq m k = None"
  by (simp add: um_emplace_def split: option.split)

lemma find_set:
  "um_find keq (um_set keq m k v) j =
     (if keq k j then map_option (\<lambda>_. v) (um_find keq m j) else um_find keq m j)"
proof (induction m)
  case Nil
  then show ?case by simp
next
  case (Cons a m)
  obtain k' v' where a: "a = (k', v')" by (cases a)
  show ?case
  proof (cases "keq k' k")
    case True
    then show ?thesis by (simp add: a keq_cong_left [OF True])
  next
    case False
    then have "keq k j \<Longrightarrow> \<not> keq k' j" using keq_sym keq_trans by blast
    then show ?thesis using Cons.IH False by (auto simp: a)
  qed
qed

lemma find_assign:
  "um_find keq (um_assign keq m k v) j = (if keq k j then Some v else um_find keq m j)"
  by (auto simp: um_assign_def um_find_append find_set find_cong split: option.splits)

lemma find_erase:
  "um_find keq (um_erase keq m k) j = (if keq k j then None else um_find keq m j)"
proof (induction m)
  case Nil
  then show ?case by (simp add: um_erase_def)
next
  case (Cons a m)
  obtain k' v' where a: "a = (k', v')" by (cases a)
  show ?case
  proof (cases "keq k' k")
    case True
    then show ?thesis using Cons.IH by (simp add: a um_erase_def keq_cong_left [OF True])
  next
    case False
    then have "keq k j \<Longrightarrow> \<not> keq k' j" using keq_sym keq_trans by blast
    then show ?thesis using Cons.IH False by (auto simp: a um_erase_def)
  qed
qed

lemma inv_emplace: "um_inv keq m \<Longrightarrow> um_inv keq (fst (um_emplace keq m k v))"
proof (induction m)
  case Nil
  then show ?case by (simp add: um_emplace_def)
next
  case (Cons a m)
  then show ?case
    by (cases a) (auto simp: um_emplace_def um_find_append keq_sym split: option.splits if_splits)
qed

lemma inv_assign: "um_inv keq m \<Longrightarrow> um_inv keq (um_assign keq m k v)"
  using inv_emplace [of m k v]
  by (auto simp: um_assign_def um_emplace_def um_inv_set split: option.splits)

lemma inv_erase: "um_inv keq m \<Longrightarrow> um_inv keq (um_erase keq m k)"
  by (simp add: um_erase_def um_inv_filter)

lemma find_filter:
  assumes "um_inv keq m"
    and "\<And>i j v. keq i j \<Longrightarrow> P (i, v) = P (j, v)"
  shows "um_find keq (filter P m) j =
     (case um_find keq m j of None \<Rightarrow> None | Some v \<Rightarrow> if P (j, v) then Some v else None)"
  using assms(1)
proof (induction m)
  case Nil
  then show ?case by simp
next
  case (Cons a m)
  obtain k v where a: "a = (k, v)" by (cases a)
  show ?case
  proof (cases "keq k j")
    case True
    then have "um_find keq m j = None" using Cons.prems find_cong [of k j m] by (simp add: a)
    then show ?thesis using Cons True assms(2) [OF True] by (simp add: a)
  next
    case False
    then show ?thesis using Cons by (simp add: a)
  qed
qed

lemma find_map_keyed:
  assumes "\<And>i j v. keq i j \<Longrightarrow> f i v = f j v"
  shows "um_find keq (map (\<lambda>(k, v). (k, f k v)) m) j = map_option (f j) (um_find keq m j)"
  by (induction m) (auto simp: assms)

lemma find_in_set:
  assumes "um_inv keq m" and "(k, v) \<in> set m"
  shows "um_find keq m k = Some v"
  using assms
proof (induction m)
  case Nil
  then show ?case by simp
next
  case (Cons a m)
  then show ?case by (cases a) (auto simp: um_find_None_iff keq_refl dest: keq_sym)
qed

text \<open>
  A loop over the elements of a table whose body for an element touches, in the accumulated
  table, only the entry of that element's key: the effect on the entry of \<open>j\<close> is the body's
  effect for the one element with a key equal to \<open>j\<close>, if there is one.
\<close>

lemma find_fold_local:
  assumes "um_inv keq m"
    and step: "\<And>k s d j. um_find keq (step k s d) j =
      (if keq k j then g j s (um_find keq d j) else um_find keq d j)"
  shows "um_find keq (fold (\<lambda>(k, s). step k s) m d) j =
     (case um_find keq m j of None \<Rightarrow> um_find keq d j | Some s \<Rightarrow> g j s (um_find keq d j))"
  using assms(1)
proof (induction m arbitrary: d)
  case Nil
  then show ?case by simp
next
  case (Cons a m)
  obtain k s where a: "a = (k, s)" by (cases a)
  have IH: "um_find keq (fold (\<lambda>(k, s). step k s) m (step k s d)) j =
     (case um_find keq m j of None \<Rightarrow> um_find keq (step k s d) j
       | Some s' \<Rightarrow> g j s' (um_find keq (step k s d) j))"
    using Cons by (simp add: a)
  show ?case
  proof (cases "keq k j")
    case True
    then have "um_find keq m j = None" using Cons.prems find_cong [of k j m] by (simp add: a)
    then show ?thesis using IH True by (simp add: a step)
  next
    case False
    then show ?thesis using IH by (simp add: a step split: option.split)
  qed
qed

lemma inv_fold:
  assumes "\<And>k s d. um_inv keq d \<Longrightarrow> um_inv keq (step k s d)"
  shows "um_inv keq d \<Longrightarrow> um_inv keq (fold (\<lambda>(k, s). step k s) m d)"
  by (induction m arbitrary: d) (auto simp: assms)

lemmas find_laws = find_emplace find_set find_assign find_erase um_find_map_values
lemmas inv_laws = inv_emplace inv_assign inv_erase um_inv_set um_inv_filter

end

text \<open>HOL equality is a key equality; it serves the tables keyed by plain values.\<close>

interpretation val_key: key_equality "(=)"
  by unfold_locales auto

end
