(* ===== verification/Net_Address.thy ===== *)
theory Net_Address
  imports Collector_Prelude
begin

text \<open>
  \<^verbatim>\<open>class Address\<close> of \<^verbatim>\<open>collector/lib/NetworkConnection.h\<close>: an address family and sixteen bytes in
  network order, kept in two 64-bit words of host memory. The operations are those of the
  class. The reading function \<open>addr_bit\<close> numbers the bits of an address from the most
  significant one, and \<open>wf_Address\<close> says that the bytes past the length of the family are
  zero, as every constructor but the one from two raw words leaves them.
\<close>

section \<open>Families\<close>

datatype Family = FUnknown | IPV4 | IPV6

fun family_code :: "Family \<Rightarrow> nat" where
  "family_code FUnknown = 0"
| "family_code IPV4 = 1"
| "family_code IPV6 = 2"

lemma family_code_inject: "family_code f = family_code g \<longleftrightarrow> f = g"
  by (cases f; cases g) auto

instantiation Family :: linorder
begin

definition less_eq_Family :: "Family \<Rightarrow> Family \<Rightarrow> bool" where
  "less_eq_Family f g \<longleftrightarrow> family_code f \<le> family_code g"

definition less_Family :: "Family \<Rightarrow> Family \<Rightarrow> bool" where
  "less_Family f g \<longleftrightarrow> family_code f < family_code g"

instance
  by standard (auto simp: less_eq_Family_def less_Family_def family_code_inject)

end

fun Address_Length :: "Family \<Rightarrow> nat" where
  "Address_Length IPV4 = 4"
| "Address_Length IPV6 = 16"
| "Address_Length FUnknown = 0"

section \<open>Addresses\<close>

record Address =
  addr_data :: "u64 \<times> u64"
  addr_family :: Family

definition Address_any :: "Family \<Rightarrow> Address" where
  "Address_any family = \<lparr>addr_data = (0, 0), addr_family = family\<rparr>"

definition Address_default :: Address where
  "Address_default = Address_any FUnknown"

definition Address_ipv4 :: "u32 \<Rightarrow> Address" where
  "Address_ipv4 ipv4 =
     \<lparr>addr_data = (htonll (push_bit 32 (ucast (ntohl ipv4))), 0), addr_family = IPV4\<rparr>"

definition Address_quad :: "u8 \<Rightarrow> u8 \<Rightarrow> u8 \<Rightarrow> u8 \<Rightarrow> Address" where
  "Address_quad a b c d =
     Address_ipv4 (htonl (push_bit 24 (ucast a) OR push_bit 16 (ucast b) OR
                          push_bit 8 (ucast c) OR ucast d))"

definition Address_bytes :: "Family \<Rightarrow> bytes \<Rightarrow> Address" where
  "Address_bytes family bs =
     (let mem = take (Address_Length family) bs @ replicate (16 - Address_Length family) 0
      in \<lparr>addr_data = (word_of_mem (take 8 mem), word_of_mem (drop 8 mem)), addr_family = family\<rparr>)"

definition Address_u64 :: "Family \<Rightarrow> u64 \<times> u64 \<Rightarrow> Address" where
  "Address_u64 family ws = \<lparr>addr_data = ws, addr_family = family\<rparr>"

text \<open>Four network-encoded words: \<^verbatim>\<open>memcpy\<close> puts two consecutive ones into each 64-bit word.\<close>

definition Address_ipv6_u32 :: "u32 \<Rightarrow> u32 \<Rightarrow> u32 \<Rightarrow> u32 \<Rightarrow> Address" where
  "Address_ipv6_u32 w0 w1 w2 w3 =
     \<lparr>addr_data = (ucast w0 OR push_bit 32 (ucast w1), ucast w2 OR push_bit 32 (ucast w3)),
      addr_family = IPV6\<rparr>"

definition Address_ipv6 :: "u64 \<Rightarrow> u64 \<Rightarrow> Address" where
  "Address_ipv6 high low = \<lparr>addr_data = (high, low), addr_family = IPV6\<rparr>"

definition addr_length :: "Address \<Rightarrow> nat" where
  "addr_length a = Address_Length (addr_family a)"

definition Address_eq :: "Address \<Rightarrow> Address \<Rightarrow> bool" where
  "Address_eq a b \<longleftrightarrow> addr_family a = addr_family b \<and> addr_data a = addr_data b"

text \<open>The sixteen bytes at \<^verbatim>\<open>data()\<close>, and \<^verbatim>\<open>memcmp\<close> on byte sequences of equal length.\<close>

definition addr_mem :: "Address \<Rightarrow> bytes" where
  "addr_mem a = mem_bytes (fst (addr_data a)) @ mem_bytes (snd (addr_data a))"

fun memcmp :: "bytes \<Rightarrow> bytes \<Rightarrow> int" where
  "memcmp (x # xs) (y # ys) =
     (if x = y then memcmp xs ys else if x < y then - 1 else 1)"
| "memcmp _ _ = 0"

definition Address_gt :: "Address \<Rightarrow> Address \<Rightarrow> bool" where
  "Address_gt a b \<longleftrightarrow>
     (if addr_family a \<noteq> addr_family b then addr_family a > addr_family b
      else memcmp (take (addr_length a) (addr_mem a)) (take (addr_length a) (addr_mem b)) > 0)"

definition Address_IsNull :: "Address \<Rightarrow> bool" where
  "Address_IsNull a \<longleftrightarrow> fst (addr_data a) = 0 \<and> snd (addr_data a) = 0"

definition ToV6 :: "Address \<Rightarrow> Address" where
  "ToV6 a =
     (case addr_family a of
        IPV6 \<Rightarrow> a
      | IPV4 \<Rightarrow>
          (let low = htonll (0x0000ffff00000000 OR drop_bit 32 (ntohll (fst (addr_data a))))
           in Address_ipv6 0 low)
      | FUnknown \<Rightarrow> Address_default)"

definition IsLocal :: "Address \<Rightarrow> bool" where
  "IsLocal a =
     (case addr_family a of
        IPV4 \<Rightarrow> fst (addr_data a) AND htonll 0xff00000000000000 = htonll 0x7f00000000000000
      | IPV6 \<Rightarrow>
          (if fst (addr_data a) \<noteq> 0 then False
           else snd (addr_data a) = htonll 1 \<or>
                snd (addr_data a) AND htonll 0xffffffffff000000 = htonll 0x0000ffff7f000000)
      | FUnknown \<Rightarrow> False)"

definition IsCanonicalExternalIp :: "Address \<Rightarrow> bool" where
  "IsCanonicalExternalIp a =
     (case addr_family a of
        IPV4 \<Rightarrow> fst (addr_data a) AND htonll 0xffffffff00000000 = htonll 0xffffffff00000000
      | IPV6 \<Rightarrow> fst (addr_data a) = 0xffffffffffffffff \<and> snd (addr_data a) = 0xffffffffffffffff
      | FUnknown \<Rightarrow> False)"

section \<open>Reading an address bit by bit\<close>

definition addr_bit :: "Address \<Rightarrow> nat \<Rightarrow> bool" where
  "addr_bit a i =
     bit (ntohll (if i < 64 then fst (addr_data a) else snd (addr_data a))) (63 - i mod 64)"

definition wf_Address :: "Address \<Rightarrow> bool" where
  "wf_Address a \<longleftrightarrow>
     (case addr_family a of
        IPV4 \<Rightarrow> ntohll (fst (addr_data a)) AND mask 32 = 0 \<and> snd (addr_data a) = 0
      | IPV6 \<Rightarrow> True
      | FUnknown \<Rightarrow> addr_data a = (0, 0))"

lemma Address_eq_iff: "Address_eq a b \<longleftrightarrow> a = b"
  by (cases a; cases b) (auto simp: Address_eq_def)

lemma and_htonll_iff: "x AND htonll m = htonll v \<longleftrightarrow> ntohll x AND m = v"
  by (metis ntohll_and ntohll_htonll ntohll_inject)

lemma addr_length_simps [simp]:
  "addr_family a = IPV4 \<Longrightarrow> addr_length a = 4"
  "addr_family a = IPV6 \<Longrightarrow> addr_length a = 16"
  "addr_family a = FUnknown \<Longrightarrow> addr_length a = 0"
  by (simp_all add: addr_length_def)

lemma addr_length_le: "addr_length a \<le> 16"
  by (cases "addr_family a") auto

lemma addr_family_constructors [simp]:
  "addr_family (Address_any f) = f"
  "addr_family Address_default = FUnknown"
  "addr_family (Address_ipv4 w) = IPV4"
  "addr_family (Address_quad b0 b1 b2 b3) = IPV4"
  "addr_family (Address_bytes f bs) = f"
  "addr_family (Address_u64 f ws) = f"
  "addr_family (Address_ipv6_u32 w0 w1 w2 w3) = IPV6"
  "addr_family (Address_ipv6 h l) = IPV6"
  by (simp_all add: Address_any_def Address_default_def Address_ipv4_def Address_quad_def
      Address_bytes_def Address_u64_def Address_ipv6_u32_def Address_ipv6_def Let_def)

text \<open>The bits of an address determine it.\<close>

lemma word_eq_from_top:
  fixes v w :: u64
  assumes "\<And>i. i < 64 \<Longrightarrow> bit v (63 - i) = bit w (63 - i)"
  shows "v = w"
proof (rule bit_word_eqI)
  fix n assume "n < LENGTH(64)"
  then have "n = 63 - (63 - n)" "63 - n < 64" by auto
  then show "bit v n = bit w n" using assms [of "63 - n"] by simp
qed

lemma Address_eqI:
  assumes "addr_family a = addr_family b" and "\<And>i. i < 128 \<Longrightarrow> addr_bit a i = addr_bit b i"
  shows "a = b"
proof -
  have "ntohll (fst (addr_data a)) = ntohll (fst (addr_data b))"
  proof (rule word_eq_from_top)
    fix i :: nat assume "i < 64"
    then show "bit (ntohll (fst (addr_data a))) (63 - i) = bit (ntohll (fst (addr_data b))) (63 - i)"
      using assms(2) [of i] by (simp add: addr_bit_def)
  qed
  moreover have "ntohll (snd (addr_data a)) = ntohll (snd (addr_data b))"
  proof (rule word_eq_from_top)
    fix i :: nat assume "i < 64"
    then show "bit (ntohll (snd (addr_data a))) (63 - i) = bit (ntohll (snd (addr_data b))) (63 - i)"
      using assms(2) [of "64 + i"] by (simp add: addr_bit_def)
  qed
  ultimately show ?thesis using assms(1) by (cases a; cases b) (auto simp: prod_eq_iff)
qed

text \<open>Bits past the length of the family are clear exactly in the well-formed addresses.\<close>

lemma and_mask_0_iff:
  fixes w :: u64
  assumes "n \<le> 64"
  shows "w AND mask n = 0 \<longleftrightarrow> (\<forall>i < n. \<not> bit w i)"
proof -
  have "w AND mask n = 0 \<longleftrightarrow> (\<forall>i < 64. bit w i \<longrightarrow> \<not> i < n)"
    by (auto simp: bit_eq_iff bit_and_iff bit_mask_iff)
  also have "\<dots> \<longleftrightarrow> (\<forall>i < n. \<not> bit w i)"
    using assms by (meson less_le_trans)
  finally show ?thesis .
qed

lemma all_low_bits_iff: "(\<forall>k < n. P k) \<longleftrightarrow> (\<forall>i. 64 - n \<le> i \<and> i < 64 \<longrightarrow> P (63 - i))"
  if "n \<le> 64" for P :: "nat \<Rightarrow> bool"
proof (intro iffI allI impI)
  fix k assume *: "\<forall>i. 64 - n \<le> i \<and> i < 64 \<longrightarrow> P (63 - i)" and k: "k < n"
  have "64 - n \<le> 63 - k" "63 - k < 64" "63 - (63 - k) = k" using k that by auto
  then show "P k" using * by metis
qed (use that in auto)

lemma word_0_iff_top: "(w :: u64) = 0 \<longleftrightarrow> (\<forall>i < 64. \<not> bit w (63 - i))"
  by (auto intro!: word_eq_from_top [of w 0])

lemma all_shifted_iff: "(\<forall>i < n. P (m + i)) \<longleftrightarrow> (\<forall>i. m \<le> i \<and> i < m + n \<longrightarrow> P i)" for m n :: nat
proof (intro iffI allI impI)
  fix i assume *: "\<forall>i < n. P (m + i)" and i: "m \<le> i \<and> i < m + n"
  then obtain k where "i = m + k" by (auto simp: le_iff_add)
  then show "P i" using * i by auto
qed auto

lemma snd_0_iff: "snd (addr_data a) = 0 \<longleftrightarrow> (\<forall>i. 64 \<le> i \<and> i < 128 \<longrightarrow> \<not> addr_bit a i)"
proof -
  have "snd (addr_data a) = 0 \<longleftrightarrow> (\<forall>i < 64. \<not> addr_bit a (64 + i))"
    using word_0_iff_top [of "ntohll (snd (addr_data a))"] by (simp add: addr_bit_def)
  also have "\<dots> \<longleftrightarrow> (\<forall>i. 64 \<le> i \<and> i < 128 \<longrightarrow> \<not> addr_bit a i)"
    using all_shifted_iff [of 64 "\<lambda>i. \<not> addr_bit a i" 64] by simp
  finally show ?thesis .
qed

lemma fst_0_iff: "fst (addr_data a) = 0 \<longleftrightarrow> (\<forall>i < 64. \<not> addr_bit a i)"
  using word_0_iff_top [of "ntohll (fst (addr_data a))"] by (simp add: addr_bit_def)

lemma wf_Address_iff:
  "wf_Address a \<longleftrightarrow> (\<forall>i. 8 * addr_length a \<le> i \<and> i < 128 \<longrightarrow> \<not> addr_bit a i)"
proof (cases "addr_family a")
  case IPV4
  have "ntohll (fst (addr_data a)) AND mask 32 = 0 \<longleftrightarrow>
        (\<forall>i. 32 \<le> i \<and> i < 64 \<longrightarrow> \<not> addr_bit a i)"
    using all_low_bits_iff [of 32 "\<lambda>k. \<not> bit (ntohll (fst (addr_data a))) k"]
    by (simp add: and_mask_0_iff addr_bit_def)
  then show ?thesis using IPV4 by (auto simp: wf_Address_def snd_0_iff) (metis not_le)
next
  case IPV6
  then show ?thesis by (auto simp: wf_Address_def)
next
  case FUnknown
  then show ?thesis
    by (auto simp: wf_Address_def prod_eq_iff fst_0_iff snd_0_iff) (metis not_le)
qed

section \<open>The bytes of an address\<close>

lemma bit_word_of_mem_Cons:
  "bit (word_of_mem (b # bs)) n \<longleftrightarrow>
     (if n < 8 then bit b n else n < 64 \<and> bit (word_of_mem bs) (n - 8))"
  using bit_imp_le_length [of b n] by (auto simp: bit_or_iff bit_push_bit_iff bit_ucast_iff)

lemma bit_word_of_mem:
  "length bs \<le> 8 \<Longrightarrow>
   bit (word_of_mem bs) n \<longleftrightarrow> n div 8 < length bs \<and> bit (bs ! (n div 8)) (n mod 8)"
proof (induction bs arbitrary: n)
  case Nil
  then show ?case by simp
next
  case (Cons b bs)
  show ?case
  proof (cases "n < 8")
    case True
    then show ?thesis by (simp add: bit_word_of_mem_Cons del: word_of_mem.simps)
  next
    case False
    then have "n div 8 = Suc ((n - 8) div 8)" "n mod 8 = (n - 8) mod 8"
      by (simp_all add: le_div_geq le_mod_geq)
    moreover have "n div 8 < length (b # bs) \<Longrightarrow> n < 64" using Cons.prems by simp
    ultimately show ?thesis using Cons False
      by (auto simp: bit_word_of_mem_Cons simp del: word_of_mem.simps)
  qed
qed

lemma length_mem_bytes [simp]: "length (mem_bytes w) = 8"
  by (simp add: mem_bytes_def)

lemma bit_mem_bytes:
  "k < 8 \<Longrightarrow> bit (mem_bytes w ! k) n \<longleftrightarrow> n < 8 \<and> bit w (8 * k + n)"
  by (auto simp: mem_bytes_def bit_ucast_iff bit_drop_bit_eq)

lemma word_of_mem_bytes [simp]: "word_of_mem (mem_bytes w) = w"
  by (rule bit_word_eqI) (auto simp: bit_word_of_mem bit_mem_bytes)

lemma mem_bytes_of_word [simp]: "length bs = 8 \<Longrightarrow> mem_bytes (word_of_mem bs) = bs"
  by (auto intro!: nth_equalityI bit_word_eqI simp: bit_mem_bytes bit_word_of_mem)

lemma length_addr_mem [simp]: "length (addr_mem a) = 16"
  by (simp add: addr_mem_def)

lemma bit_addr_mem:
  assumes "k < 16" and "j < 8"
  shows "bit (addr_mem a ! k) (7 - j) \<longleftrightarrow> addr_bit a (8 * k + j)"
proof -
  have top: "bit (mem_bytes w ! k) (7 - j) \<longleftrightarrow> bit (ntohll w) (63 - (8 * k + j))"
    if "k < 8" for w k
  proof -
    have "63 - (8 * k + j) = 8 * (7 - k) + (7 - j)" using that assms(2) by simp
    then show ?thesis using that assms(2) bit_bswap64_byte [of "7 - j" "7 - k" w]
      by (auto simp: bit_mem_bytes ntohll_def)
  qed
  show ?thesis
  proof (cases "k < 8")
    case True
    then show ?thesis using assms(2) by (simp add: addr_mem_def nth_append top addr_bit_def)
  next
    case False
    then have "8 * k + j = 64 + (8 * (k - 8) + j)" "8 * (k - 8) + j < 64"
      using assms by simp_all
    then have "(8 * k + j) mod 64 = 8 * (k - 8) + j" "\<not> 8 * k + j < 64"
      by (metis mod_add_self1 mod_less) (use False in simp)
    then show ?thesis using False assms
      by (simp add: addr_mem_def nth_append top addr_bit_def)
  qed
qed

lemma byte_eq_from_top:
  fixes v w :: u8
  assumes "\<And>j. j < 8 \<Longrightarrow> bit v (7 - j) = bit w (7 - j)"
  shows "v = w"
proof (rule bit_word_eqI)
  fix n assume "n < LENGTH(8)"
  then have "n = 7 - (7 - n)" "7 - n < 8" by auto
  then show "bit v n = bit w n" using assms [of "7 - n"] by simp
qed

text \<open>Writing and reading the bytes of an address.\<close>

lemma addr_mem_Address_bytes:
  assumes "length bs = Address_Length f"
  shows "addr_mem (Address_bytes f bs) = bs @ replicate (16 - Address_Length f) 0"
proof -
  let ?mem = "bs @ replicate (16 - Address_Length f) 0"
  have "Address_Length f \<le> 16" by (cases f) simp_all
  then have "length (take 8 ?mem) = 8" "length (drop 8 ?mem) = 8" using assms by simp_all
  moreover have "take (Address_Length f) bs = bs" using assms by simp
  ultimately show ?thesis
    by (simp only: Address_bytes_def addr_mem_def Let_def Address.simps fst_conv snd_conv mem_bytes_of_word
        append_take_drop_id)
qed

lemma addr_mem_wf:
  assumes "wf_Address a"
  shows "addr_mem a = take (addr_length a) (addr_mem a) @ replicate (16 - addr_length a) 0"
proof -
  have "drop (addr_length a) (addr_mem a) = replicate (16 - addr_length a) 0"
  proof (rule nth_equalityI)
    fix k assume "k < length (drop (addr_length a) (addr_mem a))"
    then have k: "addr_length a + k < 16" by simp
    have "\<not> bit (addr_mem a ! (addr_length a + k)) (7 - j)" if "j < 8" for j
      using bit_addr_mem [OF k that] assms k that by (simp add: wf_Address_iff)
    then show "drop (addr_length a) (addr_mem a) ! k = replicate (16 - addr_length a) 0 ! k"
      using k by (auto intro!: byte_eq_from_top)
  qed simp
  then show ?thesis by (metis append_take_drop_id)
qed

lemma Address_bytes_of_mem:
  assumes "wf_Address a"
  shows "Address_bytes (addr_family a) (take (addr_length a) (addr_mem a)) = a"
proof (rule Address_eqI)
  let ?b = "Address_bytes (addr_family a) (take (addr_length a) (addr_mem a))"
  have mem: "addr_mem ?b = addr_mem a"
    using addr_mem_Address_bytes [of "take (addr_length a) (addr_mem a)" "addr_family a"] addr_mem_wf [OF assms]
      addr_length_le [of a] by (simp flip: addr_length_def)
  fix i :: nat assume "i < 128"
  then have "i div 8 < 16" "i mod 8 < 8" by auto
  then show "addr_bit ?b i = addr_bit a i"
    using bit_addr_mem [of "i div 8" "i mod 8" ?b] bit_addr_mem [of "i div 8" "i mod 8" a] mem by simp
qed (simp add: Address_bytes_def Let_def)

text \<open>A well-formed address is determined by its family and its first bytes.\<close>

lemma wf_Address_eqI:
  assumes "wf_Address a" "wf_Address b" "addr_family a = addr_family b"
    and mem: "take (addr_length a) (addr_mem a) = take (addr_length a) (addr_mem b)"
  shows "a = b"
proof (rule Address_eqI [OF assms(3)])
  fix i :: nat assume i: "i < 128"
  have len: "addr_length b = addr_length a" using assms(3) by (simp add: addr_length_def)
  show "addr_bit a i = addr_bit b i"
  proof (cases "i < 8 * addr_length a")
    case True
    then have "addr_mem a ! (i div 8) = addr_mem b ! (i div 8)"
      using mem by (metis less_mult_imp_div_less mult.commute nth_take)
    moreover have "bit (addr_mem c ! (i div 8)) (7 - i mod 8) = addr_bit c i" for c
      using i bit_addr_mem [of "i div 8" "i mod 8" c] by simp
    ultimately show ?thesis by metis
  next
    case False
    then show ?thesis using assms(1,2) i by (simp add: wf_Address_iff len)
  qed
qed

section \<open>Properties\<close>

lemma wf_Address_constructors [simp, intro]:
  "wf_Address (Address_any f)"
  "wf_Address Address_default"
  "wf_Address (Address_ipv4 w)"
  "wf_Address (Address_quad b0 b1 b2 b3)"
  "wf_Address (Address_ipv6 h l)"
  "wf_Address (Address_ipv6_u32 w0 w1 w2 w3)"
proof -
  have "wf_Address (Address_any f)" for f
    by (cases f) (simp_all add: wf_Address_def Address_any_def)
  then show "wf_Address (Address_any f)" "wf_Address Address_default"
    by (simp_all add: Address_default_def)
  have "wf_Address (Address_ipv4 w)" for w
    by (auto simp: wf_Address_def Address_ipv4_def bit_eq_iff bit_simps)
  then show "wf_Address (Address_ipv4 w)" "wf_Address (Address_quad b0 b1 b2 b3)"
    by (simp_all add: Address_quad_def)
qed (simp_all add: wf_Address_def Address_ipv6_def Address_ipv6_u32_def)

lemma memcmp_swap: "memcmp ys xs = - memcmp xs ys"
  by (induction xs ys rule: memcmp.induct) auto

lemma memcmp_self [simp]: "memcmp xs xs = 0"
  by (induction xs) auto

lemma memcmp_0_iff: "length xs = length ys \<Longrightarrow> memcmp xs ys = 0 \<longleftrightarrow> xs = ys"
  by (induction xs ys rule: memcmp.induct) (auto split: if_splits)

lemma memcmp_Cons_pos_iff:
  "memcmp (x # xs) (y # ys) > 0 \<longleftrightarrow> y < x \<or> y = x \<and> memcmp xs ys > 0"
  by auto

lemma memcmp_trans:
  "length xs = length ys \<Longrightarrow> length ys = length zs \<Longrightarrow>
   memcmp xs ys > 0 \<Longrightarrow> memcmp ys zs > 0 \<Longrightarrow> memcmp xs zs > 0"
proof (induction xs arbitrary: ys zs)
  case Nil
  then show ?case by simp
next
  case (Cons x xs)
  then obtain y ys' z zs' where "ys = y # ys'" "zs = z # zs'" by (metis length_Suc_conv)
  with Cons.prems Cons.IH [of ys' zs'] show ?case
    by (auto simp: memcmp_Cons_pos_iff simp del: memcmp.simps)
qed

text \<open>
  \<^verbatim>\<open>Address::operator>\<close> is a strict total order on the addresses the constructors build, whose bytes
  past the length of the family are zero: no address is greater than itself, the order is
  transitive, and of two different addresses one is greater.
\<close>

theorem Address_gt_strict_total:
  assumes "wf_Address a" "wf_Address b" "wf_Address c"
  shows "\<not> Address_gt a a \<and>
         (Address_gt a b \<and> Address_gt b c \<longrightarrow> Address_gt a c) \<and>
         (a = b \<or> Address_gt a b \<or> Address_gt b a)"
proof (intro conjI impI)
  show "\<not> Address_gt a a" by (simp add: Address_gt_def)
next
  assume "Address_gt a b \<and> Address_gt b c"
  then show "Address_gt a c"
    by (auto simp: Address_gt_def addr_length_def split: if_splits elim!: memcmp_trans [rotated 2])
next
  show "a = b \<or> Address_gt a b \<or> Address_gt b a"
  proof (cases "addr_family a = addr_family b")
    case True
    let ?m = "memcmp (take (addr_length a) (addr_mem a)) (take (addr_length a) (addr_mem b))"
    have len: "addr_length b = addr_length a" using True by (simp add: addr_length_def)
    have "?m = 0 \<Longrightarrow> a = b"
      using wf_Address_eqI [OF assms(1,2) True] by (simp add: memcmp_0_iff)
    then show ?thesis
      using True memcmp_swap [of "take (addr_length a) (addr_mem b)" "take (addr_length a) (addr_mem a)"]
      by (fastforce simp: Address_gt_def len)
  qed (auto simp: Address_gt_def)
qed

theorem Address_gt_strict_total_witness:
  "\<not> Address_gt (Address_quad 10 0 0 1) (Address_quad 10 0 0 1) \<and>
   (Address_quad 10 0 0 1 = Address_quad 10 0 0 2 \<or> Address_gt (Address_quad 10 0 0 1) (Address_quad 10 0 0 2) \<or>
    Address_gt (Address_quad 10 0 0 2) (Address_quad 10 0 0 1))"
  using Address_gt_strict_total [of "Address_quad 10 0 0 1" "Address_quad 10 0 0 2" "Address_quad 10 0 0 1"]
  by blast

end
