(* ===== verification/Net_IPNet.thy ===== *)
theory Net_IPNet
  imports Net_Address
begin

text \<open>
  \<^verbatim>\<open>class IPNet\<close> of \<^verbatim>\<open>collector/lib/NetworkConnection.h\<close>, the private networks of the same header
  and \<^verbatim>\<open>Address::IsPublic\<close> of \<^verbatim>\<open>NetworkConnection.cpp\<close>. The two loops of the class run over the two
  words of an address; they are recursions over the list of these words. The reference for
  \<^verbatim>\<open>Contains\<close> is agreement of the leading bits of two addresses.
\<close>

section \<open>Networks\<close>

record IPNet =
  ipn_address :: Address
  ipn_mask :: "u64 \<times> u64"
  ipn_bits :: nat
  ipn_is_addr :: bool

fun words2 :: "u64 \<times> u64 \<Rightarrow> u64 list" where
  "words2 (w0, w1) = [w0, w1]"

fun of_words2 :: "u64 list \<Rightarrow> u64 \<times> u64" where
  "of_words2 (w0 # w1 # ws) = (w0, w1)"
| "of_words2 ws = (0, 0)"

definition last_mask :: "nat \<Rightarrow> u64" where
  "last_mask n = NOT (drop_bit n (NOT 0))"

fun mask_loop :: "nat \<Rightarrow> u64 list \<Rightarrow> u64 list" where
  "mask_loop bits_left [] = []"
| "mask_loop bits_left (w # ws) =
     (if bits_left \<ge> 64 then w # mask_loop (bits_left - 64) ws
      else (if bits_left > 0 then ntohll w AND last_mask bits_left else 0) # map (\<lambda>_. 0) ws)"

definition mk_IPNet :: "Address \<Rightarrow> nat \<Rightarrow> bool \<Rightarrow> IPNet" where
  "mk_IPNet address bits is_addr =
     (let bits' = (if bits > Address_Length (addr_family address) * 8
                   then Address_Length (addr_family address) * 8 else bits)
      in \<lparr>ipn_address = address, ipn_mask = of_words2 (mask_loop bits' (words2 (addr_data address))),
          ipn_bits = bits', ipn_is_addr = is_addr\<rparr>)"

definition IPNet_default :: IPNet where
  "IPNet_default = mk_IPNet Address_default 0 False"

definition IPNet_of_address :: "Address \<Rightarrow> IPNet" where
  "IPNet_of_address address = mk_IPNet address (8 * addr_length address) True"

definition ipn_family :: "IPNet \<Rightarrow> Family" where
  "ipn_family n = addr_family (ipn_address n)"

definition net_mask_array :: "IPNet \<Rightarrow> u64 \<times> u64" where
  "net_mask_array n =
     (if ipn_bits n < 64 then (NOT (drop_bit (ipn_bits n) 0xFFFFFFFFFFFFFFFF), 0)
      else if ipn_bits n = 128 then (0xFFFFFFFFFFFFFFFF, 0xFFFFFFFFFFFFFFFF)
      else (0xFFFFFFFFFFFFFFFF, NOT (drop_bit (ipn_bits n mod 64) 0xFFFFFFFFFFFFFFFF)))"

fun contains_loop :: "nat \<Rightarrow> u64 list \<Rightarrow> u64 list \<Rightarrow> bool" where
  "contains_loop bits_left (a # as) (m # ms) =
     (if bits_left \<ge> 64 then (if a \<noteq> m then False else contains_loop (bits_left - 64) as ms)
      else if bits_left > 0 then ntohll a AND last_mask bits_left = m
      else True)"
| "contains_loop bits_left _ _ = True"

definition Contains :: "IPNet \<Rightarrow> Address \<Rightarrow> bool" where
  "Contains n address =
     (if addr_family address \<noteq> addr_family (ipn_address n) then False
      else contains_loop (ipn_bits n) (words2 (addr_data address)) (words2 (ipn_mask n)))"

definition IPNet_IsNull :: "IPNet \<Rightarrow> bool" where
  "IPNet_IsNull n \<longleftrightarrow> ipn_bits n = 0 \<and> Address_IsNull (ipn_address n)"

definition IPNet_eq :: "IPNet \<Rightarrow> IPNet \<Rightarrow> bool" where
  "IPNet_eq a b =
     (if ipn_bits a \<noteq> ipn_bits b then False
      else if ipn_is_addr a then Address_eq (ipn_address a) (ipn_address b)
      else ipn_mask a = ipn_mask b)"

definition IPNet_gt :: "IPNet \<Rightarrow> IPNet \<Rightarrow> bool" where
  "IPNet_gt a b =
     (if ipn_bits a \<noteq> ipn_bits b then ipn_bits a > ipn_bits b
      else Address_gt (ipn_address a) (ipn_address b))"

text \<open>
  \<^verbatim>\<open>IPNet::Hash\<close> as the sequence of values it hands to \<^verbatim>\<open>HashAll\<close>. The development takes
  \<^verbatim>\<open>HashAll\<close> to be free of collisions, so two objects hash alike when the sequences agree.
\<close>

definition IPNet_Hash :: "IPNet \<Rightarrow> u64 list list" where
  "IPNet_Hash n =
     (if ipn_is_addr n
      then [words2 (addr_data (ipn_address n)), words2 (ipn_mask n), [of_nat (ipn_bits n)]]
      else [words2 (ipn_mask n), [of_nat (ipn_bits n)]])"

section \<open>Private networks\<close>

definition PrivateIPv4Networks :: "IPNet list" where
  "PrivateIPv4Networks =
     [mk_IPNet (Address_quad 10 0 0 0) 8 False,
      mk_IPNet (Address_quad 100 64 0 0) 10 False,
      mk_IPNet (Address_quad 169 254 0 0) 16 False,
      mk_IPNet (Address_quad 172 16 0 0) 12 False,
      mk_IPNet (Address_quad 192 168 0 0) 16 False]"

definition PrivateIPv6Networks :: "IPNet list" where
  "PrivateIPv6Networks =
     mk_IPNet (Address_ipv6 (htonll 0xfd00000000000000) 0) 8 False #
     map (\<lambda>net. mk_IPNet (ToV6 (ipn_address net)) (ipn_bits net + 96) False) PrivateIPv4Networks"

definition PrivateNetworks_of :: "Family \<Rightarrow> IPNet list" where
  "PrivateNetworks_of family =
     (case family of IPV4 \<Rightarrow> PrivateIPv4Networks | IPV6 \<Rightarrow> PrivateIPv6Networks | FUnknown \<Rightarrow> [])"

definition PrivateNetworks :: "IPNet list" where
  "PrivateNetworks = PrivateIPv4Networks @ PrivateIPv6Networks"

fun is_public_loop :: "IPNet list \<Rightarrow> Address \<Rightarrow> bool" where
  "is_public_loop [] a = True"
| "is_public_loop (net # nets) a = (if Contains net a then False else is_public_loop nets a)"

definition IsPublic :: "Address \<Rightarrow> bool" where
  "IsPublic a = is_public_loop (PrivateNetworks_of (addr_family a)) a"

section \<open>Masks and leading bits\<close>

text \<open>The 128 bits of an address as they follow one another on the wire.\<close>

definition byte_bits :: "u8 \<Rightarrow> bool list" where
  "byte_bits b = map (\<lambda>j. bit b (7 - j)) [0..<8]"

definition net_bits :: "Address \<Rightarrow> bool list" where
  "net_bits a = concat (map byte_bits (addr_mem a))"

text \<open>Agreement of the first \<open>n\<close> bits of two addresses.\<close>

definition same_prefix :: "nat \<Rightarrow> Address \<Rightarrow> Address \<Rightarrow> bool" where
  "same_prefix n a b \<longleftrightarrow> (\<forall>i < n. addr_bit a i = addr_bit b i)"

lemma bit_last_mask: "bit (last_mask n) i \<longleftrightarrow> i < 64 \<and> 64 - n \<le> i"
  by (auto simp: last_mask_def bit_simps)

lemma and_last_mask_eq_iff:
  assumes "n \<le> 64"
  shows "v AND last_mask n = w AND last_mask n \<longleftrightarrow> (\<forall>i < n. bit v (63 - i) = bit w (63 - i))"
proof -
  have "v AND last_mask n = w AND last_mask n \<longleftrightarrow>
        (\<forall>k < 64. 64 - n \<le> k \<longrightarrow> bit v k = bit w k)"
    by (auto simp: bit_eq_iff bit_and_iff bit_last_mask)
  also have "\<dots> \<longleftrightarrow> (\<forall>i < n. bit v (63 - i) = bit w (63 - i))"
    (is "?L \<longleftrightarrow> ?R")
  proof
    assume ?L
    then show ?R using assms by simp
  next
    assume R: ?R
    show ?L
    proof (intro allI impI)
      fix k :: nat assume k: "k < 64" "64 - n \<le> k"
      have "63 - k < n" "63 - (63 - k) = k" using k assms by auto
      then show "bit v k = bit w k" using R by metis
    qed
  qed
  finally show ?thesis .
qed

lemma word_eq_top_iff: "(v :: u64) = w \<longleftrightarrow> (\<forall>i < 64. bit v (63 - i) = bit w (63 - i))"
  by (auto intro: word_eq_from_top)

text \<open>The bits of a sequence of words, most significant bit of the first word first.\<close>

definition words_bit :: "u64 list \<Rightarrow> nat \<Rightarrow> bool" where
  "words_bit ws i = bit (ntohll (ws ! (i div 64))) (63 - i mod 64)"

lemma words_bit_Cons:
  "words_bit (w # ws) i = (if i < 64 then bit (ntohll w) (63 - i) else words_bit ws (i - 64))"
  by (auto simp: words_bit_def not_less le_div_geq le_mod_geq)

lemma addr_bit_words: "i < 128 \<Longrightarrow> addr_bit a i = words_bit (words2 (addr_data a)) i"
  by (cases "addr_data a") (auto simp: addr_bit_def words_bit_Cons le_mod_geq)

lemma all_less_split_64:
  fixes P :: "nat \<Rightarrow> bool"
  assumes "64 \<le> n"
  shows "(\<forall>i < n. P i) \<longleftrightarrow> (\<forall>i < 64. P i) \<and> (\<forall>j < n - 64. P (64 + j))"
  unfolding all_shifted_iff using assms
  by (metis le_add_diff_inverse less_le_trans linorder_not_less)

lemma contains_mask_loop:
  "length bs = length ws \<Longrightarrow> n \<le> 64 * length ws \<Longrightarrow>
   contains_loop n bs (mask_loop n ws) \<longleftrightarrow> (\<forall>i < n. words_bit bs i = words_bit ws i)"
proof (induction ws arbitrary: bs n)
  case Nil
  then show ?case by simp
next
  case (Cons w ws)
  then obtain b bs' where bs: "bs = b # bs'" by (cases bs) auto
  show ?case
  proof (cases "64 \<le> n")
    case True
    have "b = w \<longleftrightarrow> (\<forall>i < 64. bit (ntohll b) (63 - i) = bit (ntohll w) (63 - i))"
      using word_eq_top_iff [of "ntohll b" "ntohll w"] by simp
    moreover have "contains_loop (n - 64) bs' (mask_loop (n - 64) ws) \<longleftrightarrow>
        (\<forall>i < n - 64. words_bit bs' i = words_bit ws i)"
      using Cons by (simp add: bs)
    ultimately show ?thesis
      unfolding all_less_split_64 [OF True] using True by (simp add: bs words_bit_Cons)
  next
    case False
    then show ?thesis by (auto simp: bs words_bit_Cons and_last_mask_eq_iff)
  qed
qed

lemma length_mask_loop [simp]: "length (mask_loop n ws) = length ws"
  by (induction n ws rule: mask_loop.induct) auto

lemma words2_of_words2: "length ws = 2 \<Longrightarrow> words2 (of_words2 ws) = ws"
  by (cases ws rule: of_words2.cases) auto

lemma length_words2 [simp]: "length (words2 d) = 2"
  by (cases d) simp

lemma mk_IPNet_sel [simp]:
  "ipn_address (mk_IPNet a n f) = a"
  "ipn_is_addr (mk_IPNet a n f) = f"
  "ipn_bits (mk_IPNet a n f) = min n (8 * addr_length a)"
  "ipn_family (mk_IPNet a n f) = addr_family a"
  by (auto simp: mk_IPNet_def Let_def addr_length_def ipn_family_def)

lemma mk_IPNet_mask:
  "words2 (ipn_mask (mk_IPNet a n f)) =
     mask_loop (min n (8 * addr_length a)) (words2 (addr_data a))"
  by (auto simp: mk_IPNet_def Let_def addr_length_def words2_of_words2 min_def mult.commute)

lemma Contains_mk_IPNet:
  "Contains (mk_IPNet a n f) b \<longleftrightarrow>
     addr_family b = addr_family a \<and> same_prefix (min n (8 * addr_length a)) a b"
proof -
  have len: "min n (8 * addr_length a) \<le> 128" using addr_length_le [of a] by simp
  have "contains_loop (min n (8 * addr_length a)) (words2 (addr_data b))
          (mask_loop (min n (8 * addr_length a)) (words2 (addr_data a))) \<longleftrightarrow>
        same_prefix (min n (8 * addr_length a)) a b"
    using len by (subst contains_mask_loop) (auto simp: same_prefix_def addr_bit_words)
  then show ?thesis by (simp add: Contains_def mk_IPNet_mask)
qed

lemma length_byte_bits [simp]: "length (byte_bits b) = 8"
  by (simp add: byte_bits_def)

lemma nth_concat_map_byte_bits:
  "i < 8 * length bs \<Longrightarrow> concat (map byte_bits bs) ! i = bit (bs ! (i div 8)) (7 - i mod 8)"
proof (induction bs arbitrary: i)
  case Nil
  then show ?case by simp
next
  case (Cons b bs)
  then show ?case
    by (cases "i < 8") (auto simp: nth_append byte_bits_def le_div_geq le_mod_geq not_less)
qed

lemma length_net_bits [simp]: "length (net_bits a) = 128"
  by (simp add: net_bits_def length_concat comp_def sum_list_triv)

lemma nth_net_bits: "i < 128 \<Longrightarrow> net_bits a ! i = addr_bit a i"
  using bit_addr_mem [of "i div 8" "i mod 8" a]
  by (simp add: net_bits_def nth_concat_map_byte_bits)

lemma take_net_bits_eq_iff:
  "n \<le> 128 \<Longrightarrow> take n (net_bits a) = take n (net_bits b) \<longleftrightarrow> same_prefix n a b"
  by (auto simp: list_eq_iff_nth_eq nth_net_bits same_prefix_def)

lemma Address_eq_net_bits: "a = b \<longleftrightarrow> addr_family a = addr_family b \<and> net_bits a = net_bits b"
  using take_net_bits_eq_iff [of 128 a b] Address_eqI [of a b] by (auto simp: same_prefix_def)

text \<open>The bits of an IPv4-mapped IPv6 address.\<close>

lemma ToV6_IPV4:
  assumes "addr_family a = IPV4"
  shows "ToV6 a =
    Address_ipv6 0 (htonll (push_bit 32 (mask 16) OR drop_bit 32 (ntohll (fst (addr_data a)))))"
proof -
  have "(0x0000ffff00000000 :: u64) = push_bit 32 (mask 16)"
    by (simp add: mask_eq_exp_minus_1)
  then show ?thesis using assms by (simp only: ToV6_def Let_def Family.case)
qed

lemma addr_bit_ToV6:
  assumes "addr_family a = IPV4" and "i < 128"
  shows "addr_bit (ToV6 a) i \<longleftrightarrow> 80 \<le> i \<and> i < 96 \<or> 96 \<le> i \<and> addr_bit a (i - 96)"
proof -
  let ?low = "push_bit 32 (mask 16) OR drop_bit 32 (ntohll (fst (addr_data a)))"
  consider "i < 64" | "64 \<le> i" "i < 96" | "96 \<le> i" by linarith
  then show ?thesis
  proof cases
    case 1
    then show ?thesis using assms by (simp add: ToV6_IPV4 addr_bit_def Address_ipv6_def)
  next
    case 2
    then have "addr_bit (ToV6 a) i = bit ?low (127 - i)"
      using assms by (simp add: ToV6_IPV4 addr_bit_def Address_ipv6_def le_mod_geq)
    also have "\<dots> \<longleftrightarrow> 80 \<le> i"
      using 2 bit_imp_le_length [of "ntohll (fst (addr_data a))" "159 - i"]
      by (auto simp: bit_or_iff bit_drop_bit_eq bit_push_bit_iff bit_mask_iff)
    finally show ?thesis using 2 by simp
  next
    case 3
    then have "addr_bit (ToV6 a) i = bit ?low (127 - i)"
      using assms by (simp add: ToV6_IPV4 addr_bit_def Address_ipv6_def le_mod_geq)
    also have "\<dots> = bit (ntohll (fst (addr_data a))) (159 - i)"
      using 3 assms(2) by (auto simp: bit_or_iff bit_drop_bit_eq bit_push_bit_iff bit_mask_iff)
    also have "\<dots> = addr_bit a (i - 96)"
      using 3 assms(2) by (auto simp: addr_bit_def)
    finally show ?thesis using 3 by simp
  qed
qed

lemma same_prefix_ToV6:
  assumes "addr_family a = IPV4" "addr_family b = IPV4" "n \<le> 32"
  shows "same_prefix (n + 96) (ToV6 a) (ToV6 b) \<longleftrightarrow> same_prefix n a b"
proof -
  have "addr_bit (ToV6 a) i = addr_bit (ToV6 b) i \<longleftrightarrow>
        (96 \<le> i \<longrightarrow> addr_bit a (i - 96) = addr_bit b (i - 96))" if "i < n + 96" for i
    using that assms by (auto simp: addr_bit_ToV6)
  then have "same_prefix (n + 96) (ToV6 a) (ToV6 b) \<longleftrightarrow>
        (\<forall>i. 96 \<le> i \<and> i < 96 + n \<longrightarrow> addr_bit a (i - 96) = addr_bit b (i - 96))"
    by (auto simp: same_prefix_def add.commute)
  also have "\<dots> \<longleftrightarrow> same_prefix n a b"
    using all_shifted_iff [of n "\<lambda>i. addr_bit a (i - 96) = addr_bit b (i - 96)" 96]
    by (simp add: same_prefix_def)
  finally show ?thesis .
qed

lemma addr_family_ToV6: "addr_family a = IPV4 \<Longrightarrow> addr_family (ToV6 a) = IPV6"
  by (simp add: ToV6_IPV4)

lemma Contains_ToV6:
  assumes "addr_family p = IPV4" "addr_family a = IPV4" "n \<le> 32"
  shows "Contains (mk_IPNet (ToV6 p) (n + 96) f) (ToV6 a) \<longleftrightarrow> Contains (mk_IPNet p n f) a"
  using assms same_prefix_ToV6 [of p a n]
  by (simp add: Contains_mk_IPNet addr_family_ToV6 min_def)

lemma is_public_loop_iff: "is_public_loop nets a \<longleftrightarrow> (\<forall>n \<in> set nets. \<not> Contains n a)"
  by (induction nets a rule: is_public_loop.induct) auto

lemma ULA_not_mapped:
  assumes "addr_family a = IPV4"
  shows "\<not> Contains (mk_IPNet (Address_ipv6 (htonll 0xfd00000000000000) 0) 8 False) (ToV6 a)"
proof -
  have "addr_bit (Address_ipv6 (htonll 0xfd00000000000000) 0) 0"
    by (simp add: addr_bit_def Address_ipv6_def)
  moreover have "\<not> addr_bit (ToV6 a) 0" using assms by (simp add: addr_bit_ToV6)
  ultimately show ?thesis by (auto simp: Contains_mk_IPNet same_prefix_def intro!: exI [of _ 0])
qed

lemma PrivateIPv4Networks_shape:
  "net \<in> set PrivateIPv4Networks \<Longrightarrow>
   \<exists>p n. net = mk_IPNet p n False \<and> addr_family p = IPV4 \<and> n \<le> 32"
  unfolding PrivateIPv4Networks_def by force

lemma IsPublic_ToV6:
  assumes "addr_family a = IPV4"
  shows "IsPublic (ToV6 a) = IsPublic a"
proof -
  have "Contains (mk_IPNet (ToV6 (ipn_address net)) (ipn_bits net + 96) False) (ToV6 a) =
        Contains net a" if net: "net \<in> set PrivateIPv4Networks" for net
  proof -
    obtain p n where "net = mk_IPNet p n False" "addr_family p = IPV4" "n \<le> 32"
      using PrivateIPv4Networks_shape [OF net] by blast
    then show ?thesis using Contains_ToV6 [of p a n False] assms by simp
  qed
  then show ?thesis using assms ULA_not_mapped [of a]
    by (auto simp: IsPublic_def is_public_loop_iff PrivateNetworks_of_def addr_family_ToV6
        PrivateIPv6Networks_def)
qed

section \<open>Properties\<close>

lemma loopback_mask: "last_mask 8 = 0xff00000000000000" "last_mask 40 = 0xffffffffff000000"
  by (simp_all add: last_mask_def mask_eq_exp_minus_1)

lemma loopback_word: "ntohll (fst (addr_data (Address_quad 127 0 0 0))) = 0x7f00000000000000"
  by (simp add: Address_quad_def Address_ipv4_def)

lemma Contains_loopback4:
  "Contains (mk_IPNet (Address_quad 127 0 0 0) 8 False) a \<longleftrightarrow>
     addr_family a = IPV4 \<and> ntohll (fst (addr_data a)) AND 0xff00000000000000 = 0x7f00000000000000"
  by (cases "addr_data a"; cases "addr_data (Address_quad 127 0 0 0)")
     (use loopback_word in \<open>simp add: Contains_def mk_IPNet_mask loopback_mask
       flip: ipn_family_def\<close>)

lemma Contains_loopback_mapped:
  "Contains (mk_IPNet (ToV6 (Address_quad 127 0 0 0)) 104 False) a \<longleftrightarrow>
     addr_family a = IPV6 \<and> fst (addr_data a) = 0 \<and>
     ntohll (snd (addr_data a)) AND 0xffffffffff000000 = 0x0000ffff7f000000"
proof -
  have "ToV6 (Address_quad 127 0 0 0) = Address_ipv6 0 (htonll 0x0000ffff7f000000)"
    by (simp add: ToV6_def loopback_word)
  then show ?thesis
    by (cases "addr_data a") (simp add: Contains_def mk_IPNet_mask loopback_mask Address_ipv6_def
        flip: ipn_family_def)
qed

lemma IsLocal_iff:
  "IsLocal a \<longleftrightarrow>
     Contains (mk_IPNet (Address_quad 127 0 0 0) 8 False) a \<or>
     a = Address_ipv6 0 (htonll 1) \<or>
     Contains (mk_IPNet (ToV6 (Address_quad 127 0 0 0)) 104 False) a"
proof -
  have "a = Address_ipv6 0 (htonll 1) \<longleftrightarrow>
        addr_family a = IPV6 \<and> fst (addr_data a) = 0 \<and> snd (addr_data a) = htonll 1"
    by (cases a) (auto simp: Address_ipv6_def prod_eq_iff)
  then show ?thesis
    by (cases "addr_family a")
       (auto simp: IsLocal_def Contains_loopback4 Contains_loopback_mapped and_htonll_iff)
qed

text \<open>
  A network contains an address exactly when the two have the same family and the first
  \<^verbatim>\<open>bits\<close> bits of the address on the wire (never more than the family has) are those of the
  network's address: the word-wise comparison of \<^verbatim>\<open>Contains\<close> against the precomputed mask, with its
  last word kept in host order, is prefix comparison.
\<close>

theorem Contains_iff_leading_bits:
  "Contains (mk_IPNet a n f) b \<longleftrightarrow>
     addr_family b = addr_family a \<and>
     take (min n (8 * addr_length a)) (net_bits b) = take (min n (8 * addr_length a)) (net_bits a)"
  using addr_length_le [of a] take_net_bits_eq_iff [of "min n (8 * addr_length a)" a b]
  by (auto simp: Contains_mk_IPNet)

text \<open>
  \<^verbatim>\<open>IsLocal\<close> holds exactly for the loopback addresses: 127.0.0.0/8, ::1, and the
  IPv4-mapped block ::ffff:127.0.0.0/104.
\<close>

theorem IsLocal_iff_loopback:
  "IsLocal a \<longleftrightarrow>
     addr_family a = IPV4 \<and> take 8 (net_bits a) = byte_bits 127 \<or>
     addr_family a = IPV6 \<and>
       (net_bits a = replicate 127 False @ [True] \<or>
        take 104 (net_bits a) = replicate 80 False @ replicate 16 True @ byte_bits 127)"
proof -
  let ?lo = "Address_quad 127 0 0 0"
  have bits: "take 8 (net_bits ?lo) = byte_bits 127"
    "take 104 (net_bits (ToV6 ?lo)) = replicate 80 False @ replicate 16 True @ byte_bits 127"
    "net_bits (Address_ipv6 0 (htonll 1)) = replicate 127 False @ [True]"
    by code_simp+
  have "Contains (mk_IPNet ?lo 8 False) a \<longleftrightarrow> addr_family a = IPV4 \<and> take 8 (net_bits a) = byte_bits 127"
    using take_net_bits_eq_iff [of 8 ?lo a] bits(1) by (auto simp: Contains_mk_IPNet)
  moreover have "Contains (mk_IPNet (ToV6 ?lo) 104 False) a \<longleftrightarrow> addr_family a = IPV6 \<and>
      take 104 (net_bits a) = replicate 80 False @ replicate 16 True @ byte_bits 127"
    using take_net_bits_eq_iff [of 104 "ToV6 ?lo" a] bits(2)
    by (auto simp: Contains_mk_IPNet addr_family_ToV6)
  moreover have "a = Address_ipv6 0 (htonll 1) \<longleftrightarrow>
      addr_family a = IPV6 \<and> net_bits a = replicate 127 False @ [True]"
    using Address_eq_net_bits [of a "Address_ipv6 0 (htonll 1)"] bits(3) by simp
  ultimately show ?thesis unfolding IsLocal_iff by blast
qed

text \<open>
  Mapping an IPv4 address into IPv6 with \<^verbatim>\<open>ToV6\<close> changes neither whether it is a loopback
  address nor whether it is public: the IPv6 list of private networks is the image of the IPv4
  list, and the unique-local block fd00::/8 meets no mapped address.
\<close>

theorem ToV6_transparent:
  assumes "addr_family a = IPV4"
  shows "addr_family (ToV6 a) = IPV6 \<and> IsLocal (ToV6 a) = IsLocal a \<and> IsPublic (ToV6 a) = IsPublic a"
proof -
  let ?lo = "Address_quad 127 0 0 0"
  have "\<not> addr_bit (Address_ipv6 0 (htonll 1)) 80"
    by (simp add: addr_bit_def Address_ipv6_def)
  then have "ToV6 a \<noteq> Address_ipv6 0 (htonll 1)"
    using addr_bit_ToV6 [OF assms, of 80] by auto
  moreover have "a \<noteq> Address_ipv6 0 (htonll 1)" using assms by auto
  moreover have "\<not> Contains (mk_IPNet ?lo 8 False) (ToV6 a)"
    "\<not> Contains (mk_IPNet (ToV6 ?lo) 104 False) a"
    using assms by (simp_all add: Contains_mk_IPNet addr_family_ToV6)
  ultimately show ?thesis
    using assms Contains_ToV6 [of ?lo a 8 False]
    by (simp add: IsLocal_iff IsPublic_ToV6 addr_family_ToV6)
qed

theorem ToV6_transparent_witness:
  "IsLocal (ToV6 (Address_quad 127 0 0 1)) \<and> \<not> IsPublic (ToV6 (Address_quad 10 0 0 1))"
proof -
  have "IsLocal (Address_quad 127 0 0 1)"
    by (simp add: IsLocal_def Address_quad_def Address_ipv4_def and_htonll_iff)
  moreover have "\<not> IsPublic (Address_quad 10 0 0 1)"
    by (simp add: IsPublic_def PrivateNetworks_of_def PrivateIPv4Networks_def Contains_def mk_IPNet_def
        Let_def Address_quad_def Address_ipv4_def last_mask_def mask_eq_exp_minus_1)
  ultimately show ?thesis
    using ToV6_transparent [of "Address_quad 127 0 0 1"] ToV6_transparent [of "Address_quad 10 0 0 1"]
    by simp
qed

text \<open>
  The equality of networks is not an equality of networks: \<^verbatim>\<open>operator==\<close> decides by the kind of
  its left operand which members it compares, so it is not symmetric between an address with a
  prefix (8.8.8.8 in /8) and the network itself (8.0.0.0/8), and it ignores the family, so the
  IPv4 network 10.0.0.0/8 equals the IPv6 network a00::/8.
\<close>

theorem IPNet_eq_not_equivalence:
  "IPNet_eq (mk_IPNet (Address_quad 8 0 0 0) 8 False) (mk_IPNet (Address_quad 8 8 8 8) 8 True) \<and>
   \<not> IPNet_eq (mk_IPNet (Address_quad 8 8 8 8) 8 True) (mk_IPNet (Address_quad 8 0 0 0) 8 False) \<and>
   IPNet_eq (mk_IPNet (Address_quad 10 0 0 0) 8 False)
            (mk_IPNet (Address_ipv6 (htonll 0x0a00000000000000) 0) 8 False)"
  by (simp add: IPNet_eq_def Address_eq_def mk_IPNet_def Let_def Address_quad_def Address_ipv4_def
      Address_ipv6_def last_mask_def mask_eq_exp_minus_1)

end
