(* ===== verification/NRadix.thy ===== *)
theory NRadix
  imports Net_IPNet "HOL-Library.Sublist"
begin

text \<open>
  The network radix tree of \<^verbatim>\<open>collector/lib/NRadix.h\<close> and \<^verbatim>\<open>NRadix.cpp\<close>. A node owns an optional
  network and two optional children; a null pointer is \<open>NullNode\<close>, a tree is its root node. The
  loops of \<^verbatim>\<open>Insert\<close> and \<^verbatim>\<open>Find\<close> move a cursor (the one-bit mask \<^verbatim>\<open>bit\<close>, the counter \<^verbatim>\<open>i\<close>, the
  position of \<^verbatim>\<open>addr_p\<close> and \<^verbatim>\<open>net_mask_p\<close>) down the tree; the cursor is kept, and the mutation of
  nodes in place is the rebuilding of the path to them. The two loops of \<^verbatim>\<open>Insert\<close> are
  \<open>insert_walk\<close>, down the nodes that exist, and \<open>insert_grow\<close>, which makes the missing ones.

  The second half relates the tree to an abstract one indexed by bit lists and derives the
  longest-prefix-match behaviour.
\<close>

section \<open>Nodes and the walking cursor\<close>

datatype nRadixNode =
    NullNode
  | RNode "IPNet option" nRadixNode nRadixNode

definition empty_node :: nRadixNode where
  "empty_node = RNode None NullNode NullNode"

record cursor =
  cur_bit :: u64
  cur_i :: nat
  cur_w :: nat

definition cur_init :: cursor where
  "cur_init = \<lparr>cur_bit = 0x8000000000000000, cur_i = 0, cur_w = 0\<rparr>"

definition word_at :: "u64 \<times> u64 \<Rightarrow> nat \<Rightarrow> u64" where
  "word_at ws k = (if k = 0 then fst ws else snd ws)"

definition cur_in_mask :: "IPNet \<Rightarrow> cursor \<Rightarrow> bool" where
  "cur_in_mask network c \<longleftrightarrow> cur_bit c AND word_at (net_mask_array network) (cur_w c) \<noteq> 0"

definition cur_goes_right :: "IPNet \<Rightarrow> cursor \<Rightarrow> bool" where
  "cur_goes_right network c \<longleftrightarrow>
     ntohll (word_at (addr_data (ipn_address network)) (cur_w c)) AND cur_bit c \<noteq> 0"

text \<open>\<^verbatim>\<open>bit >>= 1\<close> and, when the word is used up, the move to the lower word; \<open>None\<close> is the break
  after 128 bits.\<close>

definition cur_next :: "IPNet \<Rightarrow> cursor \<Rightarrow> cursor option" where
  "cur_next network c =
     (let b = drop_bit 1 (cur_bit c) in
      if b \<noteq> 0 then Some (c\<lparr>cur_bit := b\<rparr>)
      else if cur_i c + 1 \<ge> 2 then None
      else Some \<lparr>cur_bit = 0x8000000000000000, cur_i = cur_i c + 1,
                 cur_w = (if ipn_bits network \<ge> 64 then cur_w c + 1 else cur_w c)\<rparr>)"

section \<open>Operations\<close>

text \<open>Filling the node the walk ended at; it stays as it is when it has a value already.\<close>

fun node_set_value :: "IPNet \<Rightarrow> nRadixNode \<Rightarrow> nRadixNode \<times> bool" where
  "node_set_value network NullNode = (NullNode, False)"
| "node_set_value network (RNode (Some v) l r) = (RNode (Some v) l r, False)"
| "node_set_value network (RNode None l r) = (RNode (Some network) l r, True)"

function insert_grow :: "IPNet \<Rightarrow> cursor \<Rightarrow> nRadixNode" where
  "insert_grow network c =
     (if cur_in_mask network c then
        (let next = (case cur_next network c of
                       None \<Rightarrow> RNode (Some network) NullNode NullNode
                     | Some c' \<Rightarrow> insert_grow network c')
         in if cur_goes_right network c then RNode None NullNode next else RNode None next NullNode)
      else RNode (Some network) NullNode NullNode)"
  by pat_completeness auto
termination
proof (relation "measure (\<lambda>(network, c). (2 - cur_i c) * 2 ^ 64 + unat (cur_bit c))", goal_cases)
  case 1
  then show ?case by simp
next
  case (2 network c c')
  have "cur_bit c \<noteq> 0" using 2(1) by (auto simp: cur_in_mask_def)
  then have pos: "0 < unat (cur_bit c)" by (simp add: unat_gt_0)
  have half: "unat (drop_bit 1 (cur_bit c)) = unat (cur_bit c) div 2"
    by (metis drop_bit_eq_div power_one_right unat_drop_bit_eq)
  show ?case
  proof (cases "drop_bit 1 (cur_bit c) = 0")
    case False
    then have "c' = c\<lparr>cur_bit := drop_bit 1 (cur_bit c)\<rparr>" using 2(2) by (simp add: cur_next_def)
    then show ?thesis using pos half by simp
  next
    case True
    then have "cur_i c < 1" "cur_i c' = cur_i c + 1" "cur_bit c' = 0x8000000000000000"
      using 2(2) by (auto simp: cur_next_def Let_def split: if_splits)
    then show ?thesis using pos by simp
  qed
qed

fun insert_walk :: "IPNet \<Rightarrow> nRadixNode \<Rightarrow> cursor \<Rightarrow> nRadixNode \<times> bool" where
  "insert_walk network NullNode c = (NullNode, False)"
| "insert_walk network (RNode v l r) c =
     (if cur_in_mask network c then
        (if cur_goes_right network c then
           (let (r', ok) =
              (case cur_next network c of
                 None \<Rightarrow> if r = NullNode then (RNode (Some network) NullNode NullNode, True)
                         else node_set_value network r
               | Some c' \<Rightarrow> if r = NullNode then (insert_grow network c', True)
                           else insert_walk network r c')
            in (RNode v l r', ok))
         else
           (let (l', ok) =
              (case cur_next network c of
                 None \<Rightarrow> if l = NullNode then (RNode (Some network) NullNode NullNode, True)
                         else node_set_value network l
               | Some c' \<Rightarrow> if l = NullNode then (insert_grow network c', True)
                           else insert_walk network l c')
            in (RNode v l' r, ok)))
      else node_set_value network (RNode v l r))"

definition Insert :: "nRadixNode \<Rightarrow> IPNet \<Rightarrow> nRadixNode \<times> bool" where
  "Insert root network =
     (if IPNet_IsNull network then (root, False)
      else if ipn_bits network < 1 \<or> ipn_bits network > 128 then (root, False)
      else insert_walk network root cur_init)"

text \<open>The constructor from a list of networks logs a failed insertion and goes on.\<close>

definition NRadixTree :: "IPNet list \<Rightarrow> nRadixNode" where
  "NRadixTree networks = fold (\<lambda>network root. fst (Insert root network)) networks empty_node"

fun find_walk :: "IPNet \<Rightarrow> nRadixNode \<Rightarrow> cursor \<Rightarrow> IPNet \<Rightarrow> IPNet" where
  "find_walk network NullNode c ret = ret"
| "find_walk network (RNode v l r) c ret =
     (let ret' = (case v of Some x \<Rightarrow> x | None \<Rightarrow> ret) in
      if cur_goes_right network c then
        (if \<not> cur_in_mask network c then ret'
         else case cur_next network c of
                None \<Rightarrow> (case r of RNode (Some x) _ _ \<Rightarrow> x | _ \<Rightarrow> ret')
              | Some c' \<Rightarrow> find_walk network r c' ret')
      else
        (if \<not> cur_in_mask network c then ret'
         else case cur_next network c of
                None \<Rightarrow> (case l of RNode (Some x) _ _ \<Rightarrow> x | _ \<Rightarrow> ret')
              | Some c' \<Rightarrow> find_walk network l c' ret'))"

definition Find :: "nRadixNode \<Rightarrow> IPNet \<Rightarrow> IPNet" where
  "Find root network =
     (if IPNet_IsNull network then IPNet_default
      else if ipn_bits network = 0 then IPNet_default
      else (let ret = find_walk network root cur_init IPNet_default
            in if ipn_family network = ipn_family ret then ret else IPNet_default))"

definition Find_addr :: "nRadixNode \<Rightarrow> Address \<Rightarrow> IPNet" where
  "Find_addr root addr = Find root (IPNet_of_address addr)"

fun getAll :: "nRadixNode \<Rightarrow> IPNet list \<Rightarrow> IPNet list" where
  "getAll NullNode ret = ret"
| "getAll (RNode v l r) ret =
     getAll r (getAll l (case v of Some x \<Rightarrow> ret @ [x] | None \<Rightarrow> ret))"

definition GetAll :: "nRadixNode \<Rightarrow> IPNet list" where
  "GetAll root = getAll root []"

definition IsEmpty :: "nRadixNode \<Rightarrow> bool" where
  "IsEmpty root = (case root of RNode v l r \<Rightarrow> l = NullNode \<and> r = NullNode \<and> v = None | NullNode \<Rightarrow> False)"

definition subset_found :: "Family \<Rightarrow> IPNet option \<Rightarrow> IPNet option \<Rightarrow> bool" where
  "subset_found family cg cd =
     (case (cg, cd) of
        (Some g, Some d) \<Rightarrow>
          (if family = FUnknown then ipn_family g = ipn_family d
           else ipn_family g = family \<and> ipn_family d = family)
      | _ \<Rightarrow> False)"

fun isAnyIPNetSubsetUtil ::
  "Family \<Rightarrow> nRadixNode \<Rightarrow> nRadixNode \<Rightarrow> IPNet option \<Rightarrow> IPNet option \<Rightarrow> bool" where
  "isAnyIPNetSubsetUtil family n1 NullNode cg cd =
     subset_found family cg cd"
| "isAnyIPNetSubsetUtil family (RNode v1 l1 r1) (RNode v2 l2 r2) cg cd =
     (if subset_found family cg cd then True
      else (let cg' = (case v1 of Some x \<Rightarrow> Some x | None \<Rightarrow> cg);
                cd' = (case v2 of Some x \<Rightarrow> Some x | None \<Rightarrow> cd)
            in isAnyIPNetSubsetUtil family l1 l2 cg' cd' \<or>
               isAnyIPNetSubsetUtil family r1 r2 cg' cd'))"
| "isAnyIPNetSubsetUtil family NullNode (RNode v2 l2 r2) cg cd =
     (if subset_found family cg cd then True
      else (let cd' = (case v2 of Some x \<Rightarrow> Some x | None \<Rightarrow> cd)
            in isAnyIPNetSubsetUtil family NullNode l2 cg cd' \<or>
               isAnyIPNetSubsetUtil family NullNode r2 cg cd'))"

definition IsAnyIPNetSubset_family :: "nRadixNode \<Rightarrow> Family \<Rightarrow> nRadixNode \<Rightarrow> bool" where
  "IsAnyIPNetSubset_family root family other = isAnyIPNetSubsetUtil family root other None None"

definition IsAnyIPNetSubset :: "nRadixNode \<Rightarrow> nRadixNode \<Rightarrow> bool" where
  "IsAnyIPNetSubset root other = IsAnyIPNetSubset_family root FUnknown other"

declare insert_grow.simps [simp del]

section \<open>The abstract tree\<close>

text \<open>The same nodes, addressed by the list of turns from the root.\<close>

definition path :: "IPNet \<Rightarrow> bool list" where
  "path n = take (ipn_bits n) (net_bits (ipn_address n))"

fun t_lookup :: "nRadixNode \<Rightarrow> bool list \<Rightarrow> IPNet option" where
  "t_lookup NullNode bs = None"
| "t_lookup (RNode v l r) [] = v"
| "t_lookup (RNode v l r) (b # bs) = t_lookup (if b then r else l) bs"

fun t_single :: "bool list \<Rightarrow> IPNet \<Rightarrow> nRadixNode" where
  "t_single [] n = RNode (Some n) NullNode NullNode"
| "t_single (b # bs) n =
     (if b then RNode None NullNode (t_single bs n) else RNode None (t_single bs n) NullNode)"

fun t_insert :: "bool list \<Rightarrow> IPNet \<Rightarrow> nRadixNode \<Rightarrow> nRadixNode \<times> bool" where
  "t_insert bs n NullNode = (t_single bs n, True)"
| "t_insert [] n (RNode v l r) = node_set_value n (RNode v l r)"
| "t_insert (b # bs) n (RNode v l r) =
     (if b then (RNode v l (fst (t_insert bs n r)), snd (t_insert bs n r))
      else (RNode v (fst (t_insert bs n l)) r, snd (t_insert bs n l)))"

text \<open>The value met last on the way down a path.\<close>

fun t_find :: "nRadixNode \<Rightarrow> bool list \<Rightarrow> IPNet \<Rightarrow> IPNet" where
  "t_find NullNode bs ret = ret"
| "t_find (RNode v l r) [] ret = (case v of Some x \<Rightarrow> x | None \<Rightarrow> ret)"
| "t_find (RNode v l r) (b # bs) ret =
     t_find (if b then r else l) bs (case v of Some x \<Rightarrow> x | None \<Rightarrow> ret)"

text \<open>The cursor after \<open>d\<close> steps.\<close>

definition cur_at :: "IPNet \<Rightarrow> nat \<Rightarrow> cursor" where
  "cur_at n d = \<lparr>cur_bit = 2 ^ (63 - d mod 64), cur_i = d div 64,
                 cur_w = (if ipn_bits n \<ge> 64 then d div 64 else 0)\<rparr>"

abbreviation cur_ok :: "IPNet \<Rightarrow> nat \<Rightarrow> bool" where
  "cur_ok n d \<equiv> d < 64 \<or> 64 \<le> ipn_bits n \<and> d < 128"

lemma and_single_bit: "w AND (2 :: u64) ^ k \<noteq> 0 \<longleftrightarrow> bit w k"
  by (simp add: and_exp_eq_0_iff_not_bit)

lemma cur_init_at: "cur_init = cur_at n 0"
  by (simp add: cur_init_def cur_at_def)

lemma all_ones: "(0xFFFFFFFFFFFFFFFF :: u64) = NOT 0"
  by simp

lemma cur_in_mask_at:
  assumes "cur_ok n d" and "ipn_bits n \<le> 128"
  shows "cur_in_mask n (cur_at n d) \<longleftrightarrow> d < ipn_bits n"
proof -
  have mask: "cur_in_mask n (cur_at n d) \<longleftrightarrow>
      bit (word_at (net_mask_array n) (cur_w (cur_at n d))) (63 - d mod 64)"
    unfolding cur_in_mask_def by (subst and.commute) (simp add: cur_at_def and_single_bit)
  consider "ipn_bits n < 64" "d < 64" | "64 \<le> ipn_bits n" "d < 64"
    | "64 \<le> ipn_bits n" "ipn_bits n < 128" "64 \<le> d" | "ipn_bits n = 128" "64 \<le> d"
    using assms by linarith
  then show ?thesis
  proof cases
    case 1
    then show ?thesis unfolding mask net_mask_array_def all_ones
      by (auto simp: cur_at_def word_at_def bit_not_iff bit_mask_iff)
  next
    case 2
    then show ?thesis unfolding mask net_mask_array_def all_ones
      by (auto simp: cur_at_def word_at_def)
  next
    case 3
    then have "d div 64 = 1" "d mod 64 = d - 64" "ipn_bits n mod 64 = ipn_bits n - 64"
      using assms by (auto simp: le_mod_geq div_nat_eqI)
    then show ?thesis using 3 assms unfolding mask net_mask_array_def all_ones
      by (auto simp: cur_at_def word_at_def bit_not_iff bit_mask_iff)
  next
    case 4
    then have "d div 64 = 1" using assms by (simp add: div_nat_eqI)
    then show ?thesis using 4 assms unfolding mask net_mask_array_def all_ones
      by (auto simp: cur_at_def word_at_def)
  qed
qed

lemma cur_goes_right_at:
  assumes "cur_ok n d"
  shows "cur_goes_right n (cur_at n d) \<longleftrightarrow> net_bits (ipn_address n) ! d"
proof -
  have "d div 64 = 1" if "64 \<le> d" using that assms by (auto simp: div_nat_eqI)
  then have "word_at (addr_data (ipn_address n)) (cur_w (cur_at n d)) =
      (if d < 64 then fst (addr_data (ipn_address n)) else snd (addr_data (ipn_address n)))"
    using assms by (auto simp: cur_at_def word_at_def)
  moreover have "d < 128" using assms by auto
  ultimately show ?thesis
    unfolding cur_goes_right_def
    by (simp add: cur_at_def and_single_bit nth_net_bits addr_bit_def)
qed

lemma cur_next_at:
  assumes "cur_ok n d" and "d < 63 \<or> 64 \<le> ipn_bits n"
  shows "cur_next n (cur_at n d) = (if d = 127 then None else Some (cur_at n (Suc d)))"
proof -
  have step: "drop_bit 1 ((2 :: u64) ^ (63 - d mod 64)) =
      (if d mod 64 = 63 then 0 else 2 ^ (63 - Suc d mod 64))"
    by (rule bit_word_eqI) (auto simp: bit_drop_bit_eq bit_exp_iff mod_Suc)
  have "d < 128" using assms(1) by auto
  then have "d mod 64 \<noteq> 63 \<or> d = 63 \<or> d = 127" by (cases "d < 64") (auto simp: le_mod_geq)
  then consider "d mod 64 \<noteq> 63" | "d = 63" | "d = 127" by blast
  then show ?thesis
  proof cases
    case 1
    then have same: "Suc d div 64 = d div 64" by (simp add: div_Suc mod_Suc)
    have "d \<noteq> 127" using 1 by auto
    have nz: "(2 :: u64) ^ (63 - Suc d mod 64) \<noteq> 0" by (simp add: exp_eq_zero_iff)
    have "drop_bit 1 ((2 :: u64) ^ (63 - d mod 64)) = 2 ^ (63 - Suc d mod 64)"
      using 1 step by simp
    then show ?thesis using same nz \<open>d \<noteq> 127\<close>
      by (simp add: cur_next_def cur_at_def Let_def)
  next
    case 2
    then show ?thesis using assms step by (simp add: cur_next_def cur_at_def Let_def)
  next
    case 3
    then show ?thesis using step by (simp add: cur_next_def cur_at_def Let_def)
  qed
qed

section \<open>Refinement to the abstract tree\<close>

lemma length_path [simp]: "ipn_bits n \<le> 128 \<Longrightarrow> length (path n) = ipn_bits n"
  by (simp add: path_def)

lemma drop_path:
  "ipn_bits n \<le> 128 \<Longrightarrow> d < ipn_bits n \<Longrightarrow>
   drop d (path n) = (net_bits (ipn_address n) ! d) # drop (Suc d) (path n)"
  by (simp add: path_def Cons_nth_drop_Suc [symmetric])

lemma cur_step:
  assumes "cur_ok n d" "ipn_bits n \<le> 128" "d < ipn_bits n"
  shows "cur_next n (cur_at n d) = (if d = 127 then None else Some (cur_at n (Suc d)))"
    and "d \<noteq> 127 \<Longrightarrow> cur_ok n (Suc d)" and "d = 127 \<Longrightarrow> drop (Suc d) (path n) = []"
proof -
  have "d < 63 \<or> 64 \<le> ipn_bits n" using assms by auto
  then show "cur_next n (cur_at n d) = (if d = 127 then None else Some (cur_at n (Suc d)))"
    using assms(1) by (rule cur_next_at [rotated])
qed (use assms in \<open>auto simp: path_def\<close>)

lemma insert_grow_eq:
  "cur_ok n d \<Longrightarrow> ipn_bits n \<le> 128 \<Longrightarrow> d \<le> ipn_bits n \<Longrightarrow>
   insert_grow n (cur_at n d) = t_single (drop d (path n)) n"
proof (induction "ipn_bits n - d" arbitrary: d)
  case 0
  then show ?case by (simp add: insert_grow.simps cur_in_mask_at)
next
  case (Suc k)
  then have d: "d < ipn_bits n" by simp
  show ?case
  proof (cases "d = 127")
    case True
    then show ?thesis using Suc d cur_step [of d n]
      by (subst insert_grow.simps) (simp add: cur_in_mask_at cur_goes_right_at drop_path)
  next
    case False
    then have "insert_grow n (cur_at n (Suc d)) = t_single (drop (Suc d) (path n)) n"
      using Suc d cur_step(2) [of d n] by (intro Suc.hyps) auto
    then show ?thesis using Suc d False cur_step(1) [of d n]
      by (simp add: insert_grow.simps [of n "cur_at n d"] cur_in_mask_at cur_goes_right_at drop_path)
  qed
qed

lemma t_insert_Nil: "t \<noteq> NullNode \<Longrightarrow> t_insert [] n t = node_set_value n t"
  by (cases t) auto

lemma insert_walk_eq:
  "cur_ok n d \<Longrightarrow> ipn_bits n \<le> 128 \<Longrightarrow> d \<le> ipn_bits n \<Longrightarrow> t \<noteq> NullNode \<Longrightarrow>
   insert_walk n t (cur_at n d) = t_insert (drop d (path n)) n t"
proof (induction t arbitrary: d)
  case NullNode
  then show ?case by simp
next
  case (RNode v l r)
  show ?case
  proof (cases "d < ipn_bits n")
    case False
    then have "drop d (path n) = []" using RNode.prems by simp
    then show ?thesis using False RNode.prems by (simp add: cur_in_mask_at)
  next
    case True
    note step = cur_step [OF RNode.prems(1,2) True]
    have child: "(case cur_next n (cur_at n d) of
         None \<Rightarrow> if t = NullNode then (RNode (Some n) NullNode NullNode, True) else node_set_value n t
       | Some c' \<Rightarrow> if t = NullNode then (insert_grow n c', True) else insert_walk n t c') =
       t_insert (drop (Suc d) (path n)) n t" if "t = l \<or> t = r" for t
    proof (cases "d = 127")
      case True
      then show ?thesis using step by (simp add: t_insert_Nil)
    next
      case False
      then show ?thesis using step that True RNode.IH RNode.prems
        by (auto simp: insert_grow_eq)
    qed
    show ?thesis using True RNode.prems child [of l] child [of r]
      by (simp add: cur_in_mask_at cur_goes_right_at drop_path split_beta)
  qed
qed

lemma t_find_Nil: "t_find t [] ret = (case t of RNode (Some x) _ _ \<Rightarrow> x | _ \<Rightarrow> ret)"
  by (cases t) (auto split: option.split)

lemma find_walk_eq:
  "cur_ok n d \<Longrightarrow> ipn_bits n \<le> 128 \<Longrightarrow> d \<le> ipn_bits n \<Longrightarrow>
   find_walk n t (cur_at n d) ret = t_find t (drop d (path n)) ret"
proof (induction t arbitrary: d ret)
  case NullNode
  then show ?case by simp
next
  case (RNode v l r)
  show ?case
  proof (cases "d < ipn_bits n")
    case False
    then have "drop d (path n) = []" using RNode.prems by simp
    then show ?thesis using False RNode.prems by (simp add: cur_in_mask_at split: option.split)
  next
    case True
    note step = cur_step [OF RNode.prems(1,2) True]
    have child: "(case cur_next n (cur_at n d) of
         None \<Rightarrow> (case t of RNode (Some x) _ _ \<Rightarrow> x | _ \<Rightarrow> ret')
       | Some c' \<Rightarrow> find_walk n t c' ret') = t_find t (drop (Suc d) (path n)) ret'"
      if "t = l \<or> t = r" for t ret'
    proof (cases "d = 127")
      case True
      then show ?thesis using step by (simp add: t_find_Nil)
    next
      case False
      then show ?thesis using step that True RNode.IH RNode.prems by auto
    qed
    show ?thesis using True RNode.prems child [of l] child [of r]
      by (simp add: cur_in_mask_at cur_goes_right_at drop_path Let_def)
  qed
qed

definition insertable :: "IPNet \<Rightarrow> bool" where
  "insertable n \<longleftrightarrow> \<not> IPNet_IsNull n \<and> 1 \<le> ipn_bits n \<and> ipn_bits n \<le> 128"

lemma Insert_eq:
  assumes "root \<noteq> NullNode"
  shows "Insert root n = (if insertable n then t_insert (path n) n root else (root, False))"
  using assms insert_walk_eq [of 0 n root]
  by (auto simp: Insert_def insertable_def cur_init_at [of n])

lemma Find_eq:
  assumes "ipn_bits n \<le> 128"
  shows "Find root n =
    (if ipn_bits n = 0 then IPNet_default
     else let ret = t_find root (path n) IPNet_default
          in if ipn_family n = ipn_family ret then ret else IPNet_default)"
  using assms find_walk_eq [of 0 n root IPNet_default]
  by (auto simp: Find_def IPNet_IsNull_def cur_init_at [of n])

section \<open>Laws of the abstract tree\<close>

lemma t_lookup_single: "t_lookup (t_single bs n) cs = (if cs = bs then Some n else None)"
proof (induction bs arbitrary: cs)
  case Nil
  then show ?case by (cases cs) auto
next
  case (Cons b bs)
  then show ?case by (cases cs) auto
qed

lemma t_lookup_insert:
  "t_lookup (fst (t_insert bs n t)) cs =
     (if cs = bs \<and> t_lookup t bs = None then Some n else t_lookup t cs)"
proof (induction bs n t arbitrary: cs rule: t_insert.induct)
  case (1 bs n)
  then show ?case by (simp add: t_lookup_single)
next
  case (2 n v l r)
  then show ?case by (cases v; cases cs) auto
next
  case (3 b bs n v l r)
  then show ?case by (cases cs) auto
qed

lemma t_insert_ok: "snd (t_insert bs n t) \<longleftrightarrow> t_lookup t bs = None"
proof (induction bs n t rule: t_insert.induct)
  case (2 n v l r)
  then show ?case by (cases v) auto
qed auto

lemma t_insert_refused: "\<not> snd (t_insert bs n t) \<Longrightarrow> fst (t_insert bs n t) = t"
proof (induction bs n t rule: t_insert.induct)
  case (2 n v l r)
  then show ?case by (cases v) auto
qed auto

lemma t_insert_not_Null [simp]: "fst (t_insert bs n t) \<noteq> NullNode"
proof -
  have "t_single bs n \<noteq> NullNode" by (cases bs) auto
  moreover have "fst (node_set_value n (RNode v l r)) \<noteq> NullNode" for v l r by (cases v) auto
  ultimately show ?thesis by (cases "(bs, n, t)" rule: t_insert.cases) auto
qed

lemma t_find_longest:
  "(\<exists>p. prefix p bs \<and> t_lookup t p = Some (t_find t bs ret) \<and>
      (\<forall>q. prefix q bs \<and> t_lookup t q \<noteq> None \<longrightarrow> length q \<le> length p)) \<or>
   t_find t bs ret = ret \<and> (\<forall>q. prefix q bs \<longrightarrow> t_lookup t q = None)"
proof (induction t bs ret rule: t_find.induct)
  case (1 bs ret)
  then show ?case by simp
next
  case (2 v l r ret)
  then show ?case by (cases v) auto
next
  case (3 v l r b bs ret)
  let ?c = "if b then r else l" and ?ret = "case v of Some x \<Rightarrow> x | None \<Rightarrow> ret"
  have deep: "t_lookup (RNode v l r) (b # q) = t_lookup ?c q" for q by simp
  from 3 consider (found) p where "prefix p bs" "t_lookup ?c p = Some (t_find ?c bs ?ret)"
      "\<And>q. prefix q bs \<Longrightarrow> t_lookup ?c q \<noteq> None \<Longrightarrow> length q \<le> length p"
    | (none) "t_find ?c bs ?ret = ?ret" "\<And>q. prefix q bs \<Longrightarrow> t_lookup ?c q = None"
    by blast
  then show ?case
  proof cases
    case found
    have "length q \<le> length (b # p)"
      if "prefix q (b # bs)" "t_lookup (RNode v l r) q \<noteq> None" for q
      using that found(3) deep by (cases q) auto
    then show ?thesis using found(1,2) deep [of p] by (intro disjI1 exI [of _ "b # p"]) auto
  next
    case none
    have below: "q = []" if "prefix q (b # bs)" "t_lookup (RNode v l r) q \<noteq> None" for q
      using that none(2) deep by (cases q) auto
    show ?thesis
    proof (cases v)
      case None
      then show ?thesis using none(1) below by fastforce
    next
      case (Some x)
      then show ?thesis using none(1) below by (intro disjI1 exI [of _ "[]"]) auto
    qed
  qed
qed

lemma t_find_stored:
  assumes "t_lookup t bs = Some n"
  shows "t_find t bs ret = n"
proof -
  have "p = bs" if "prefix p bs" "length bs \<le> length p" for p
    using that by (auto simp: prefix_def)
  then show ?thesis using t_find_longest [of bs t ret] assms by fastforce
qed

lemma getAll_append: "getAll t ret = ret @ getAll t []"
proof (induction t arbitrary: ret)
  case NullNode
  then show ?case by simp
next
  case (RNode v l r)
  have "getAll r (getAll l xs) = xs @ getAll l [] @ getAll r []" for xs
    using RNode(1) [of xs] RNode(2) [of "xs @ getAll l []"] by simp
  note this [simp]
  show ?case by (cases v) (simp_all del: append.simps add: RNode(1)[of "[_]"])
qed

lemma set_GetAll: "set (GetAll t) = {n. \<exists>p. t_lookup t p = Some n}"
proof (induction t)
  case NullNode
  then show ?case by (simp add: GetAll_def)
next
  case (RNode v l r)
  have split: "(\<exists>p. t_lookup (RNode v l r) p = Some n) \<longleftrightarrow>
      v = Some n \<or> (\<exists>p. t_lookup l p = Some n) \<or> (\<exists>p. t_lookup r p = Some n)" (is "?L \<longleftrightarrow> ?R") for n
  proof
    assume ?L
    then obtain p where "t_lookup (RNode v l r) p = Some n" ..
    then show ?R by (cases p) (auto split: if_splits)
  next
    assume ?R
    then show ?L
      by (metis t_lookup.simps(2) t_lookup.simps(3) [of v l r False] t_lookup.simps(3) [of v l r True])
  qed
  have "GetAll (RNode v l r) = (case v of Some x \<Rightarrow> [x] | None \<Rightarrow> []) @ GetAll l @ GetAll r"
    unfolding GetAll_def getAll.simps(2)
    by (subst getAll_append, subst getAll_append) (simp split: option.split)
  then show ?case using RNode by (auto simp: split split: option.splits)
qed

lemma Insert_not_Null [simp]: "root \<noteq> NullNode \<Longrightarrow> fst (Insert root n) \<noteq> NullNode"
  by (simp add: Insert_eq)

lemma t_lookup_fold_Insert:
  "root \<noteq> NullNode \<Longrightarrow>
   t_lookup (fold (\<lambda>n root. fst (Insert root n)) nets root) p =
     (case t_lookup root p of Some x \<Rightarrow> Some x
      | None \<Rightarrow> find (\<lambda>n. insertable n \<and> path n = p) nets)"
proof (induction nets arbitrary: root)
  case Nil
  then show ?case by (simp split: option.split)
next
  case (Cons n nets)
  then show ?case by (auto simp: Insert_eq t_lookup_insert split: option.split)
qed

lemma t_lookup_NRadixTree:
  "t_lookup (NRadixTree nets) p = find (\<lambda>n. insertable n \<and> path n = p) nets"
proof -
  have "t_lookup empty_node p = None" by (cases p) (simp_all add: empty_node_def)
  then show ?thesis unfolding NRadixTree_def
    by (subst t_lookup_fold_Insert) (simp_all add: empty_node_def)
qed

lemma NRadixTree_not_Null [simp]: "NRadixTree nets \<noteq> NullNode"
proof -
  have "root \<noteq> NullNode \<Longrightarrow> fold (\<lambda>n root. fst (Insert root n)) nets root \<noteq> NullNode" for root
    by (induction nets arbitrary: root) simp_all
  then show ?thesis by (simp add: NRadixTree_def empty_node_def)
qed

section \<open>Comparing two trees\<close>

text \<open>Every node below the root of a tree built by insertion leads to a value.\<close>

fun live :: "nRadixNode \<Rightarrow> bool" where
  "live NullNode = True"
| "live (RNode v l r) = ((v \<noteq> None \<or> l \<noteq> NullNode \<or> r \<noteq> NullNode) \<and> live l \<and> live r)"

definition live_tree :: "nRadixNode \<Rightarrow> bool" where
  "live_tree t \<longleftrightarrow> (case t of NullNode \<Rightarrow> False | RNode v l r \<Rightarrow> live l \<and> live r)"

lemma live_single: "live (t_single bs n)"
proof (induction bs)
  case (Cons b bs)
  moreover have "t_single bs n \<noteq> NullNode" by (cases bs) auto
  ultimately show ?case by simp
qed simp

lemma live_insert: "live t \<Longrightarrow> live (fst (t_insert bs n t))"
proof (induction bs n t rule: t_insert.induct)
  case (2 n v l r)
  then show ?case by (cases v) auto
qed (auto simp: live_single)

lemma live_tree_insert: "live_tree t \<Longrightarrow> live_tree (fst (t_insert bs n t))"
proof (cases "(bs, n, t)" rule: t_insert.cases)
  case (2 n v l r)
  then show "live_tree t \<Longrightarrow> ?thesis" by (cases v) (auto simp: live_tree_def)
qed (auto simp: live_tree_def live_insert)

lemma live_tree_NRadixTree: "live_tree (NRadixTree nets)"
proof -
  have "root \<noteq> NullNode \<Longrightarrow> live_tree root \<Longrightarrow>
      live_tree (fold (\<lambda>n root. fst (Insert root n)) nets root)" for root
    by (induction nets arbitrary: root) (simp_all add: Insert_eq live_tree_insert)
  then show ?thesis by (simp add: NRadixTree_def empty_node_def live_tree_def)
qed

lemma live_has_value: "live t \<Longrightarrow> t \<noteq> NullNode \<Longrightarrow> \<exists>q. t_lookup t q \<noteq> None"
proof (induction t)
  case (RNode v l r)
  show ?case
  proof (cases "v = None")
    case False
    then show ?thesis by (intro exI [of _ "[]"]) simp
  next
    case True
    then have "\<exists>q. t_lookup l q \<noteq> None \<or> t_lookup r q \<noteq> None" using RNode by fastforce
    then show ?thesis
      by (metis t_lookup.simps(3) [of v l r False] t_lookup.simps(3) [of v l r True])
  qed
qed simp

definition of_family :: "Family \<Rightarrow> nRadixNode \<Rightarrow> bool" where
  "of_family F t \<longleftrightarrow> (\<forall>n \<in> set (GetAll t). ipn_family n = F)"

definition below :: "nRadixNode \<Rightarrow> nRadixNode \<Rightarrow> bool" where
  "below t1 t2 \<longleftrightarrow> (\<exists>p q. t_lookup t1 p \<noteq> None \<and> t_lookup t2 q \<noteq> None \<and> prefix p q)"

lemma of_family_RNode:
  assumes "of_family F (RNode v l r)"
  shows "of_family F l" "of_family F r" "\<And>x. v = Some x \<Longrightarrow> ipn_family x = F"
proof -
  have all: "ipn_family n = F" if "t_lookup (RNode v l r) p = Some n" for n p
    using assms that by (auto simp: of_family_def set_GetAll)
  show "of_family F l" using all [of "False # _"] by (auto simp: of_family_def set_GetAll)
  show "of_family F r" using all [of "True # _"] by (auto simp: of_family_def set_GetAll)
  show "\<And>x. v = Some x \<Longrightarrow> ipn_family x = F" using all [of "[]"] by simp
qed

lemma below_Null [simp]: "\<not> below NullNode t" "\<not> below t NullNode"
  by (simp_all add: below_def)

lemma below_RNode:
  "below (RNode v1 l1 r1) (RNode v2 l2 r2) \<longleftrightarrow>
     (v1 \<noteq> None \<and> (\<exists>q. t_lookup (RNode v2 l2 r2) q \<noteq> None)) \<or> below l1 l2 \<or> below r1 r2" (is "?L \<longleftrightarrow> ?R")
proof
  assume ?L
  then obtain p q where pq: "t_lookup (RNode v1 l1 r1) p \<noteq> None" "t_lookup (RNode v2 l2 r2) q \<noteq> None"
    "prefix p q" unfolding below_def by blast
  show ?R
  proof (cases p)
    case Nil
    then show ?thesis using pq by auto
  next
    case (Cons b p')
    then obtain q' where "q = b # q'" "prefix p' q'" using pq(3) by (cases q) auto
    then have "below (if b then r1 else l1) (if b then r2 else l2)"
      unfolding below_def using pq(1,2) Cons by (intro exI [of _ p'] exI [of _ q']) simp
    then show ?thesis by (cases b) simp_all
  qed
next
  assume ?R
  then consider (root) q where "v1 \<noteq> None" "t_lookup (RNode v2 l2 r2) q \<noteq> None"
    | (left) "below l1 l2" | (right) "below r1 r2" by blast
  then show ?L
  proof cases
    case root
    then show ?thesis unfolding below_def by (intro exI [of _ "[]"] exI [of _ q]) simp
  next
    case left
    then obtain p q where "t_lookup l1 p \<noteq> None" "t_lookup l2 q \<noteq> None" "prefix p q"
      unfolding below_def by blast
    then show ?thesis unfolding below_def
      by (intro exI [of _ "False # p"] exI [of _ "False # q"]) simp
  next
    case right
    then obtain p q where "t_lookup r1 p \<noteq> None" "t_lookup r2 q \<noteq> None" "prefix p q"
      unfolding below_def by blast
    then show ?thesis unfolding below_def
      by (intro exI [of _ "True # p"] exI [of _ "True # q"]) simp
  qed
qed

lemma isAnyIPNetSubsetUtil_iff:
  assumes "live n2" "of_family F n1" "of_family F n2" "family = FUnknown \<or> family = F"
    and "\<And>x. cg = Some x \<Longrightarrow> ipn_family x = F" "\<And>x. cd = Some x \<Longrightarrow> ipn_family x = F"
  shows "isAnyIPNetSubsetUtil family n1 n2 cg cd \<longleftrightarrow>
    (cg \<noteq> None \<and> (cd \<noteq> None \<or> n2 \<noteq> NullNode)) \<or> below n1 n2"
  using assms
proof (induction family n1 n2 cg cd rule: isAnyIPNetSubsetUtil.induct)
  case (1 family n1 cg cd)
  then show ?case by (auto simp: subset_found_def split: option.splits)
next
  case (2 family v1 l1 r1 v2 l2 r2 cg cd)
  let ?cg = "case v1 of Some x \<Rightarrow> Some x | None \<Rightarrow> cg" and ?cd = "case v2 of Some x \<Rightarrow> Some x | None \<Rightarrow> cd"
  have found: "subset_found family cg cd \<longleftrightarrow> cg \<noteq> None \<and> cd \<noteq> None"
    using "2.prems" by (auto simp: subset_found_def split: option.splits)
  note fam = of_family_RNode [OF "2.prems"(2)] of_family_RNode [OF "2.prems"(3)]
  have live: "live l2" "live r2" "v2 \<noteq> None \<or> l2 \<noteq> NullNode \<or> r2 \<noteq> NullNode" using "2.prems"(1) by auto
  have cgd: "\<And>x. ?cg = Some x \<Longrightarrow> ipn_family x = F" "\<And>x. ?cd = Some x \<Longrightarrow> ipn_family x = F"
    using fam "2.prems"(5,6) by (auto split: option.splits)
  have stored: "\<exists>q. t_lookup (RNode v2 l2 r2) q \<noteq> None" using "2.prems"(1) by (intro live_has_value) auto
  show ?case
  proof (cases "subset_found family cg cd")
    case True
    then show ?thesis using found by simp
  next
    case False
    note IH = "2.IH"(1) [OF False refl refl live(1) fam(1) fam(4) "2.prems"(4) cgd]
      "2.IH"(2) [OF False refl refl live(2) fam(2) fam(5) "2.prems"(4) cgd]
    show ?thesis using IH False live(3) stored unfolding found below_RNode
      by (cases v1; cases v2) (auto simp: found)
  qed
next
  case (3 family v2 l2 r2 cg cd)
  let ?cd = "case v2 of Some x \<Rightarrow> Some x | None \<Rightarrow> cd"
  have found: "subset_found family cg cd \<longleftrightarrow> cg \<noteq> None \<and> cd \<noteq> None"
    using "3.prems" by (auto simp: subset_found_def split: option.splits)
  note fam = of_family_RNode [OF "3.prems"(3)]
  have live: "live l2" "live r2" "v2 \<noteq> None \<or> l2 \<noteq> NullNode \<or> r2 \<noteq> NullNode" using "3.prems"(1) by auto
  have cd: "\<And>x. ?cd = Some x \<Longrightarrow> ipn_family x = F" using fam "3.prems"(6) by (auto split: option.splits)
  show ?case
  proof (cases "subset_found family cg cd")
    case True
    then show ?thesis using found by simp
  next
    case False
    note IH = "3.IH"(1) [OF False refl live(1) "3.prems"(2) fam(1) "3.prems"(4,5) cd]
      "3.IH"(2) [OF False refl live(2) "3.prems"(2) fam(2) "3.prems"(4,5) cd]
    show ?thesis using IH False live(3) unfolding found by (cases v2) (auto simp: found)
  qed
qed

section \<open>Paths and containment\<close>

text \<open>Networks as the constructor of the class builds them.\<close>

definition wf_IPNet :: "IPNet \<Rightarrow> bool" where
  "wf_IPNet n \<longleftrightarrow> n = mk_IPNet (ipn_address n) (ipn_bits n) (ipn_is_addr n)"

lemma wf_mk_IPNet [simp]: "wf_IPNet (mk_IPNet a k f)"
  by (simp add: wf_IPNet_def mk_IPNet_def Let_def addr_length_def)

lemma wf_IPNet_bits: "wf_IPNet n \<Longrightarrow> ipn_bits n \<le> 8 * addr_length (ipn_address n)"
  by (metis min.cobounded2 mk_IPNet_sel(1) mk_IPNet_sel(3) wf_IPNet_def)

lemma wf_IPNet_bits128: "wf_IPNet n \<Longrightarrow> ipn_bits n \<le> 128"
  using wf_IPNet_bits [of n] addr_length_le [of "ipn_address n"] by linarith

lemma prefix_path:
  assumes "wf_IPNet n" "wf_IPNet q"
  shows "prefix (path n) (path q) \<longleftrightarrow> ipn_bits n \<le> ipn_bits q \<and>
    same_prefix (ipn_bits n) (ipn_address n) (ipn_address q)"
proof -
  have "prefix (path n) (path q) \<longleftrightarrow> ipn_bits n \<le> ipn_bits q \<and> path n = take (ipn_bits n) (path q)"
    using assms [THEN wf_IPNet_bits128] by (metis length_path prefix_length_le take_is_prefix
        append_eq_conv_conj prefix_def)
  also have "\<dots> \<longleftrightarrow> ipn_bits n \<le> ipn_bits q \<and>
      take (ipn_bits n) (net_bits (ipn_address n)) = take (ipn_bits n) (net_bits (ipn_address q))"
    by (auto simp: path_def min_absorb1)
  finally show ?thesis using take_net_bits_eq_iff assms(1) [THEN wf_IPNet_bits128] by simp
qed

lemma Contains_path:
  assumes "wf_IPNet n" "wf_IPNet q"
  shows "prefix (path n) (path q) \<and> ipn_family n = ipn_family q \<longleftrightarrow>
    ipn_bits n \<le> ipn_bits q \<and> Contains n (ipn_address q)"
proof -
  have "Contains n (ipn_address q) \<longleftrightarrow> ipn_family q = ipn_family n \<and>
      same_prefix (ipn_bits n) (ipn_address n) (ipn_address q)"
    using Contains_mk_IPNet [of "ipn_address n" "ipn_bits n" "ipn_is_addr n" "ipn_address q"]
      assms(1) wf_IPNet_bits [OF assms(1)]
    by (simp add: wf_IPNet_def [symmetric] ipn_family_def) (metis min_absorb1 wf_IPNet_def)
  then show ?thesis using prefix_path [OF assms] by auto
qed

lemma NRadixTree_lookupD:
  "t_lookup (NRadixTree nets) p = Some n \<Longrightarrow> n \<in> set nets \<and> insertable n \<and> path n = p"
  by (auto simp: t_lookup_NRadixTree find_Some_iff)

lemma NRadixTree_lookup_None:
  "t_lookup (NRadixTree nets) p = None \<longleftrightarrow> (\<forall>n \<in> set nets. \<not> (insertable n \<and> path n = p))"
  by (auto simp: t_lookup_NRadixTree find_None_iff)

lemma IPNet_default_family [simp]: "ipn_family IPNet_default = FUnknown"
  by (simp add: IPNet_default_def)

lemma insertable_family:
  assumes "wf_IPNet n" "insertable n"
  shows "ipn_family n \<noteq> FUnknown"
  using assms wf_IPNet_bits [of n] by (auto simp: insertable_def ipn_family_def)

lemma Find_NRadixTree:
  assumes nets: "\<And>n. n \<in> set nets \<Longrightarrow> wf_IPNet n \<and> (insertable n \<and> prefix (path n) (path q) \<longrightarrow> ipn_family n = ipn_family q)"
    and q: "wf_IPNet q" "ipn_bits q \<noteq> 0"
  defines "r \<equiv> Find (NRadixTree nets) q"
  shows "(r \<in> set nets \<and> insertable r \<and> prefix (path r) (path q) \<and>
            (\<forall>n \<in> set nets. insertable n \<and> prefix (path n) (path q) \<longrightarrow> ipn_bits n \<le> ipn_bits r)) \<or>
         (r = IPNet_default \<and> (\<forall>n \<in> set nets. \<not> (insertable n \<and> prefix (path n) (path q))))"
proof -
  let ?t = "NRadixTree nets"
  let ?x = "t_find ?t (path q) IPNet_default"
  have r: "r = (if ipn_family q = ipn_family ?x then ?x else IPNet_default)"
    unfolding r_def using q wf_IPNet_bits128 [of q] by (simp add: Find_eq Let_def)
  from t_find_longest [of "path q" ?t IPNet_default]
  consider (found) p where "prefix p (path q)" "t_lookup ?t p = Some ?x"
      "\<And>p'. prefix p' (path q) \<Longrightarrow> t_lookup ?t p' \<noteq> None \<Longrightarrow> length p' \<le> length p"
    | (none) "?x = IPNet_default" "\<And>p'. prefix p' (path q) \<Longrightarrow> t_lookup ?t p' = None"
    by blast
  then show ?thesis
  proof cases
    case found
    have x: "?x \<in> set nets" "insertable ?x" "path ?x = p" using NRadixTree_lookupD [OF found(2)] by auto
    have "ipn_bits n \<le> ipn_bits ?x" if "n \<in> set nets" "insertable n" "prefix (path n) (path q)" for n
    proof -
      have "t_lookup ?t (path n) \<noteq> None" using that NRadixTree_lookup_None by blast
      then have "length (path n) \<le> length (path ?x)" using found(3) [OF that(3)] x(3) by simp
      then show ?thesis using nets that(1) x(1) by (simp add: wf_IPNet_bits128)
    qed
    then show ?thesis using x found(1) nets by (simp add: r)
  next
    case none
    then show ?thesis using NRadixTree_lookup_None by (auto simp: r)
  qed
qed

text \<open>Whatever else is in the tree, an answer is a stored network of the right family that contains the query.\<close>

lemma Find_sound:
  assumes "wf_IPNet q" "\<not> IPNet_IsNull (Find (NRadixTree nets) q)"
  defines "r \<equiv> Find (NRadixTree nets) q"
  shows "r \<in> set nets \<and> insertable r \<and> ipn_family r = ipn_family q \<and> prefix (path r) (path q)"
proof -
  let ?x = "t_find (NRadixTree nets) (path q) IPNet_default"
  have null: "IPNet_IsNull IPNet_default"
    by (simp add: IPNet_IsNull_def IPNet_default_def Address_IsNull_def Address_default_def Address_any_def)
  have r: "r = ?x" "ipn_family q = ipn_family ?x" "?x \<noteq> IPNet_default"
    using assms(2) wf_IPNet_bits128 [OF assms(1)] null
    by (auto simp: r_def Find_eq Let_def split: if_splits)
  then obtain p where "prefix p (path q)" "t_lookup (NRadixTree nets) p = Some ?x"
    using t_find_longest [of "path q" "NRadixTree nets" IPNet_default] by blast
  then show ?thesis using NRadixTree_lookupD r by metis
qed

lemma Find_addr_sound:
  assumes "\<forall>n \<in> set nets. wf_IPNet n" "\<not> IPNet_IsNull (Find_addr (NRadixTree nets) a)"
  shows "Find_addr (NRadixTree nets) a \<in> set nets \<and> Contains (Find_addr (NRadixTree nets) a) a"
proof -
  let ?q = "IPNet_of_address a"
  have q: "wf_IPNet ?q" "ipn_address ?q = a" by (simp_all add: IPNet_of_address_def)
  have r: "Find_addr (NRadixTree nets) a \<in> set nets"
      "ipn_family (Find_addr (NRadixTree nets) a) = ipn_family ?q"
      "prefix (path (Find_addr (NRadixTree nets) a)) (path ?q)"
    using Find_sound [OF q(1)] assms(2) by (auto simp: Find_addr_def)
  then show ?thesis using Contains_path [of "Find_addr (NRadixTree nets) a" ?q] q assms(1) by auto
qed

section \<open>Properties\<close>

text \<open>
  (C3) Longest prefix match. \<^verbatim>\<open>Find\<close> returns the smallest stored network that contains the queried one,
  where a network is stored if it is not null and has between 1 and 128 bits; when no stored network
  contains it, \<^verbatim>\<open>Find\<close> returns the null network. The tree may hold networks of both families, but none
  of the family the query is not of may have its leading bits equal to those of the query; that is
  always so in a tree of one family. \<open>Find_loses_other_family\<close> below shows what happens otherwise.
\<close>

theorem Find_longest_prefix_match:
  assumes "\<forall>n \<in> set nets. wf_IPNet n \<and>
      (same_prefix (ipn_bits n) (ipn_address n) (ipn_address q) \<longrightarrow> ipn_family n = ipn_family q)"
    and "wf_IPNet q" "ipn_bits q \<noteq> 0"
  shows "let r = Find (NRadixTree nets) q;
             covers = (\<lambda>n. insertable n \<and> ipn_bits n \<le> ipn_bits q \<and> Contains n (ipn_address q))
         in if \<exists>n \<in> set nets. covers n
            then r \<in> set nets \<and> covers r \<and> (\<forall>n \<in> set nets. covers n \<longrightarrow> ipn_bits n \<le> ipn_bits r)
            else r = IPNet_default"
proof -
  have covers: "insertable n \<and> ipn_bits n \<le> ipn_bits q \<and> Contains n (ipn_address q) \<longleftrightarrow>
        insertable n \<and> prefix (path n) (path q)" if "n \<in> set nets" for n
    using Contains_path [of n q] prefix_path [of n q] assms that by auto
  have "wf_IPNet n \<and> (insertable n \<and> prefix (path n) (path q) \<longrightarrow> ipn_family n = ipn_family q)" if "n \<in> set nets" for n
    using prefix_path [of n q] assms that by auto
  then show ?thesis
    using Find_NRadixTree [of nets q] assms(2,3) covers unfolding Let_def by auto
qed

theorem Find_longest_prefix_match_witness:
  "Find (NRadixTree [mk_IPNet (Address_quad 10 0 0 0) 8 False, mk_IPNet (Address_quad 10 1 0 0) 16 False,
                     mk_IPNet (Address_ipv6 (htonll 0xfe80000000000000) 0) 10 False])
        (IPNet_of_address (Address_quad 10 1 2 3)) = mk_IPNet (Address_quad 10 1 0 0) 16 False"
proof -
  let ?n8 = "mk_IPNet (Address_quad 10 0 0 0) 8 False"
    and ?n16 = "mk_IPNet (Address_quad 10 1 0 0) 16 False"
    and ?m = "mk_IPNet (Address_ipv6 (htonll 0xfe80000000000000) 0) 10 False"
    and ?q = "IPNet_of_address (Address_quad 10 1 2 3)"
  have "addr_bit (ipn_address ?m) 0 \<noteq> addr_bit (ipn_address ?q) 0" by code_simp
  then have "\<not> same_prefix (ipn_bits ?m) (ipn_address ?m) (ipn_address ?q)"
    unfolding same_prefix_def by (auto intro!: exI [of _ 0])
  then have "\<forall>n \<in> set [?n8, ?n16, ?m]. wf_IPNet n \<and>
      (same_prefix (ipn_bits n) (ipn_address n) (ipn_address ?q) \<longrightarrow> ipn_family n = ipn_family ?q)"
    "wf_IPNet ?q" "ipn_bits ?q \<noteq> 0"
    by (auto simp: IPNet_of_address_def)
  note lpm = Find_longest_prefix_match [OF this]
  have "Contains ?n16 (ipn_address ?q)" "\<not> Contains ?m (ipn_address ?q)" by code_simp+
  moreover have "insertable ?n16" "ipn_bits ?n16 \<le> ipn_bits ?q" "ipn_bits ?n8 < ipn_bits ?n16"
    by (simp_all add: insertable_def IPNet_IsNull_def IPNet_of_address_def)
  ultimately show ?thesis using lpm unfolding Let_def by (auto split: if_splits)
qed

text \<open>
  \<^verbatim>\<open>Insert\<close> reports success exactly when the network is storable and no network with the same
  leading bits is in the tree; a refused insertion leaves the tree unchanged, and after a successful
  one \<^verbatim>\<open>Find\<close> on the network returns the network itself while every other path keeps its value.
\<close>

theorem Insert_then_Find:
  assumes "root \<noteq> NullNode" "wf_IPNet n"
  shows "(snd (Insert root n) \<longleftrightarrow> insertable n \<and> t_lookup root (path n) = None) \<and>
         (\<not> snd (Insert root n) \<longrightarrow> fst (Insert root n) = root) \<and>
         (snd (Insert root n) \<longrightarrow> Find (fst (Insert root n)) n = n \<and>
            (\<forall>p. p \<noteq> path n \<longrightarrow> t_lookup (fst (Insert root n)) p = t_lookup root p))"
proof (intro conjI impI)
  show "snd (Insert root n) \<longleftrightarrow> insertable n \<and> t_lookup root (path n) = None"
    using assms by (simp add: Insert_eq t_insert_ok)
  show "\<not> snd (Insert root n) \<Longrightarrow> fst (Insert root n) = root"
    using assms t_insert_refused by (auto simp: Insert_eq split: if_splits)
  assume ok: "snd (Insert root n)"
  then have n: "insertable n" "t_lookup root (path n) = None"
    using assms by (auto simp: Insert_eq t_insert_ok split: if_splits)
  then show "\<forall>p. p \<noteq> path n \<longrightarrow> t_lookup (fst (Insert root n)) p = t_lookup root p"
    using assms by (simp add: Insert_eq t_lookup_insert)
  let ?t = "fst (Insert root n)"
  have here: "t_lookup ?t (path n) = Some n"
    using n assms by (simp add: Insert_eq t_lookup_insert)
  have "t_find ?t (path n) IPNet_default = n"
    using t_find_stored [OF here] .
  then show "Find ?t n = n"
    using n wf_IPNet_bits128 [OF assms(2)] by (simp add: Find_eq insertable_def)
qed

theorem Insert_then_Find_witness:
  "Find (fst (Insert empty_node (mk_IPNet (Address_quad 10 0 0 0) 8 False)))
        (mk_IPNet (Address_quad 10 0 0 0) 8 False) = mk_IPNet (Address_quad 10 0 0 0) 8 False"
proof -
  let ?n = "mk_IPNet (Address_quad 10 0 0 0) 8 False"
  have "empty_node \<noteq> NullNode" "wf_IPNet ?n" by (simp_all add: empty_node_def)
  note law = Insert_then_Find [OF this]
  have "insertable ?n" by (simp add: insertable_def IPNet_IsNull_def)
  moreover have "t_lookup empty_node (path ?n) = None"
    by (cases "path ?n") (simp_all add: empty_node_def)
  ultimately show ?thesis using law by blast
qed

lemma lookup_prefix_NRadixTree:
  "below (NRadixTree nets1) (NRadixTree nets2) \<longleftrightarrow>
     (\<exists>a \<in> set nets1. \<exists>b \<in> set nets2. insertable a \<and> insertable b \<and> prefix (path a) (path b))"
  unfolding below_def NRadixTree_lookup_None by blast

lemma IsAnyIPNetSubset_below:
  assumes "live_tree t1" "live_tree t2" "of_family F t1" "of_family F t2" "family = FUnknown \<or> family = F"
    and "t_lookup t1 [] = None" "t_lookup t2 [] = None"
  shows "IsAnyIPNetSubset_family t1 family t2 \<longleftrightarrow> below t1 t2"
proof -
  obtain l1 r1 l2 r2 where t: "t1 = RNode None l1 r1" "t2 = RNode None l2 r2"
    using assms by (cases t1; cases t2) (auto simp: live_tree_def)
  have "live l2" "live r2" using assms(2) t by (auto simp: live_tree_def)
  moreover note of_family_RNode [OF assms(3) [unfolded t]] of_family_RNode [OF assms(4) [unfolded t]]
  ultimately show ?thesis
    using assms(5) isAnyIPNetSubsetUtil_iff [of l2 F l1 family None None]
      isAnyIPNetSubsetUtil_iff [of r2 F r1 family None None]
    by (simp add: t IsAnyIPNetSubset_family_def subset_found_def below_RNode)
qed

lemma NRadixTree_root_empty: "t_lookup (NRadixTree nets) [] = None"
proof -
  have "path n \<noteq> []" if "insertable n" for n
    using that length_path [of n] by (auto simp: insertable_def simp flip: length_0_conv)
  then show ?thesis by (auto simp: NRadixTree_lookup_None)
qed

lemma of_family_NRadixTree:
  "\<forall>n \<in> set nets. ipn_family n = F \<Longrightarrow> of_family F (NRadixTree nets)"
  by (auto simp: of_family_def set_GetAll dest: NRadixTree_lookupD)

text \<open>
  (C16) \<^verbatim>\<open>IsAnyIPNetSubset\<close> on two trees all of whose networks are of one family, asked for that family or
  for any, answers whether some network stored in the other tree is contained in a network stored in
  this one. The single downward pass of the code, which remembers one containing and one contained
  network, misses no pair and invents none. \<open>IsAnyIPNetSubset_mixed_wrong\<close> below shows that the condition
  on the families is needed.
\<close>

theorem IsAnyIPNetSubset_iff_contained:
  assumes "\<forall>n \<in> set nets1 \<union> set nets2. wf_IPNet n \<and> ipn_family n = F"
    and "family = FUnknown \<or> family = F"
  shows "IsAnyIPNetSubset_family (NRadixTree nets1) family (NRadixTree nets2) \<longleftrightarrow>
    (\<exists>a \<in> set nets1. \<exists>b \<in> set nets2.
       insertable a \<and> insertable b \<and> ipn_bits a \<le> ipn_bits b \<and> Contains a (ipn_address b))"
proof -
  have "IsAnyIPNetSubset_family (NRadixTree nets1) family (NRadixTree nets2) \<longleftrightarrow>
      below (NRadixTree nets1) (NRadixTree nets2)"
    using assms of_family_NRadixTree
    by (intro IsAnyIPNetSubset_below live_tree_NRadixTree NRadixTree_root_empty) auto
  also have "\<dots> \<longleftrightarrow> (\<exists>a \<in> set nets1. \<exists>b \<in> set nets2. insertable a \<and> insertable b \<and>
      ipn_bits a \<le> ipn_bits b \<and> Contains a (ipn_address b))"
    unfolding lookup_prefix_NRadixTree
  proof (intro bex_cong refl)
    fix a b assume "a \<in> set nets1" "b \<in> set nets2"
    then show "(insertable a \<and> insertable b \<and> prefix (path a) (path b)) \<longleftrightarrow>
        (insertable a \<and> insertable b \<and> ipn_bits a \<le> ipn_bits b \<and> Contains a (ipn_address b))"
      using Contains_path [of a b] assms(1) by simp
  qed
  finally show ?thesis .
qed

theorem IsAnyIPNetSubset_iff_contained_witness:
  "IsAnyIPNetSubset_family (NRadixTree [mk_IPNet (Address_quad 10 0 0 0) 8 False]) FUnknown
     (NRadixTree [mk_IPNet (Address_quad 10 1 0 0) 16 False]) \<and>
   \<not> IsAnyIPNetSubset_family (NRadixTree [mk_IPNet (Address_quad 10 1 0 0) 16 False]) FUnknown
     (NRadixTree [mk_IPNet (Address_quad 10 0 0 0) 8 False])"
proof -
  let ?n8 = "mk_IPNet (Address_quad 10 0 0 0) 8 False"
    and ?n16 = "mk_IPNet (Address_quad 10 1 0 0) 16 False"
  have fam: "\<forall>n \<in> set [?n8] \<union> set [?n16]. wf_IPNet n \<and> ipn_family n = IPV4"
    "\<forall>n \<in> set [?n16] \<union> set [?n8]. wf_IPNet n \<and> ipn_family n = IPV4"
    "FUnknown = FUnknown \<or> FUnknown = IPV4"
    by simp_all
  have "Contains ?n8 (ipn_address ?n16)" by code_simp
  moreover have "insertable ?n8" "insertable ?n16" "ipn_bits ?n8 \<le> ipn_bits ?n16"
      "\<not> ipn_bits ?n16 \<le> ipn_bits ?n8"
    by (simp_all add: insertable_def IPNet_IsNull_def)
  ultimately show ?thesis
    using IsAnyIPNetSubset_iff_contained [OF fam(1,3)] IsAnyIPNetSubset_iff_contained [OF fam(2,3)]
    by simp
qed

text \<open>
  On trees of mixed families the answer can be wrong: asked about IPv4, the walk finds 160.0.0.0/4 in
  this tree while it still remembers 160.0.0.0/3 of the other one and goes on towards the IPv6 network
  a000::/5, and takes the larger IPv4 network to be contained in the smaller.
\<close>

theorem IsAnyIPNetSubset_mixed_wrong:
  "let a = mk_IPNet (Address_quad 160 0 0 0) 4 False;
       b = mk_IPNet (Address_quad 160 0 0 0) 3 False;
       c = mk_IPNet (Address_ipv6 (htonll 0xa000000000000000) 0) 5 False
   in IsAnyIPNetSubset_family (NRadixTree [a]) IPV4 (NRadixTree [b, c]) \<and>
      \<not> (ipn_bits a \<le> ipn_bits b \<and> Contains a (ipn_address b)) \<and> \<not> Contains a (ipn_address c)"
proof -
  let ?a = "mk_IPNet (Address_quad 160 0 0 0) 4 False" and ?b = "mk_IPNet (Address_quad 160 0 0 0) 3 False"
    and ?c = "mk_IPNet (Address_ipv6 (htonll 0xa000000000000000) 0) 5 False"
  have "path ?a = [True, False, True, False]" "path ?b = [True, False, True]" "path ?c = [True, False, True, False, False]"
    by code_simp+
  moreover have "insertable ?a" "insertable ?b" "insertable ?c" by (simp_all add: insertable_def IPNet_IsNull_def)
  moreover have "wf_IPNet ?a" "wf_IPNet ?b" "wf_IPNet ?c" by simp_all
  moreover have "ipn_family ?a = IPV4" "ipn_family ?b = IPV4" by simp_all
  ultimately have "IsAnyIPNetSubset_family (NRadixTree [?a]) IPV4 (NRadixTree [?b, ?c])"
    by (simp add: NRadixTree_def Insert_eq empty_node_def IsAnyIPNetSubset_family_def subset_found_def Let_def
        del: mk_IPNet_sel)
  moreover have "\<not> Contains ?a (ipn_address ?c)" by code_simp
  ultimately show ?thesis by (simp add: Let_def)
qed

text \<open>
  The families share one tree, and that shows: with the IPv4 network 10.0.0.0/8 and the IPv6
  network a01::/16 both stored, \<^verbatim>\<open>Find\<close> on the IPv4 address 10.1.2.3 meets the longer IPv6 network
  on its way, drops the IPv4 one and answers that no network contains the address; and the IPv6
  network a00::/8 cannot be stored beside 10.0.0.0/8.
\<close>

theorem Find_loses_other_family:
  "let n4 = mk_IPNet (Address_quad 10 0 0 0) 8 False;
       n6 = mk_IPNet (Address_ipv6 (htonll 0x0a01000000000000) 0) 16 False;
       a = Address_quad 10 1 2 3
   in n4 \<in> set (GetAll (NRadixTree [n4, n6])) \<and> Contains n4 a \<and>
      Find_addr (NRadixTree [n4, n6]) a = IPNet_default \<and>
      \<not> snd (Insert (NRadixTree [n4]) (mk_IPNet (Address_ipv6 (htonll 0x0a00000000000000) 0) 8 False))"
proof -
  let ?n4 = "mk_IPNet (Address_quad 10 0 0 0) 8 False"
    and ?n6 = "mk_IPNet (Address_ipv6 (htonll 0x0a01000000000000) 0) 16 False"
    and ?m6 = "mk_IPNet (Address_ipv6 (htonll 0x0a00000000000000) 0) 8 False"
    and ?q = "IPNet_of_address (Address_quad 10 1 2 3)"
  let ?t = "NRadixTree [?n4, ?n6]"
  let ?x = "t_find ?t (path ?q) IPNet_default"
  have ins: "insertable ?n4" "insertable ?n6" "insertable ?m6"
    by (simp_all add: insertable_def IPNet_IsNull_def)
  have len: "length (path ?n4) = 8" "length (path ?n6) = 16"
    by (simp_all add: IPNet_of_address_def)
  have "\<And>x y :: bool list. length x = 8 \<Longrightarrow> length y = 16 \<Longrightarrow> x \<noteq> y" by auto
  then have ne: "path ?n4 \<noteq> path ?n6" using len by blast
  have p4: "path ?m6 = path ?n4" by code_simp
  have p6: "prefix (path ?n6) (path ?q)" by code_simp
  have lookup4: "t_lookup ?t (path ?n4) = Some ?n4" using ins by (simp add: t_lookup_NRadixTree)
  have lookup6: "t_lookup ?t (path ?n6) = Some ?n6" using ins ne by (auto simp: t_lookup_NRadixTree)
  obtain p where p: "t_lookup ?t p = Some ?x" "16 \<le> length p"
    using t_find_longest [of "path ?q" ?t IPNet_default] p6 lookup6 len by fastforce
  then have "?x = ?n6" using NRadixTree_lookupD [OF p(1)] len by auto
  then have "Find_addr ?t (Address_quad 10 1 2 3) = IPNet_default"
    by (simp add: Find_addr_def Find_eq IPNet_of_address_def Let_def)
  moreover have "?n4 \<in> set (GetAll ?t)" using lookup4 by (auto simp: set_GetAll)
  moreover have "Contains ?n4 (Address_quad 10 1 2 3)" by code_simp
  moreover have "\<not> snd (Insert (NRadixTree [?n4]) ?m6)"
    using ins p4 by (simp add: Insert_eq t_insert_ok t_lookup_NRadixTree NRadixTree_not_Null)
  ultimately show ?thesis by (simp add: Let_def)
qed

end
