(* ===== verification/External_IPs.thy ===== *)
theory External_IPs
  imports Collector_Prelude
begin

text \<open>
  The External-IPs switch of \<^verbatim>\<open>collector/lib/ExternalIPsConfig.h\<close> and \<^verbatim>\<open>ExternalIPsConfig.cpp\<close>. The
  runtime configuration is a protobuf message whose schema is outside the repository; the record
  holds the fields the collector reads. Protobuf enumerations are open, so the values the code does
  not name are kept as numbers.
\<close>

datatype Direction = NONE | INGRESS | EGRESS | BOTH

fun direction_bits :: "Direction \<Rightarrow> u32" where
  "direction_bits NONE = 0"
| "direction_bits INGRESS = push_bit 0 1"
| "direction_bits EGRESS = push_bit 1 1"
| "direction_bits BOTH = push_bit 0 1 OR push_bit 1 1"

record ExternalIPsConfig =
  direction_enabled :: Direction

datatype pb_enabled = PB_ENABLED | PB_not_enabled int
datatype pb_direction = PB_INGRESS | PB_EGRESS | PB_direction int

record runtime_config =
  rc_external_ips_enabled :: pb_enabled
  rc_external_ips_direction :: pb_direction
  rc_max_connections_per_minute :: int

text \<open>The assertion \<^verbatim>\<open>direction != NONE\<close> documents a precondition; all calls pass one direction.\<close>

definition IsEnabled :: "ExternalIPsConfig \<Rightarrow> Direction \<Rightarrow> bool" where
  "IsEnabled c direction \<longleftrightarrow>
     direction_bits direction AND direction_bits (direction_enabled c) = direction_bits direction"

definition ExternalIPsConfig_default :: ExternalIPsConfig where
  "ExternalIPsConfig_default = \<lparr>direction_enabled = NONE\<rparr>"

definition mk_ExternalIPsConfig :: "runtime_config option \<Rightarrow> bool \<Rightarrow> ExternalIPsConfig" where
  "mk_ExternalIPsConfig rc default_enabled =
     (case rc of
        None \<Rightarrow> \<lparr>direction_enabled = (if default_enabled then BOTH else NONE)\<rparr>
      | Some r \<Rightarrow>
          if rc_external_ips_enabled r \<noteq> PB_ENABLED then \<lparr>direction_enabled = NONE\<rparr>
          else \<lparr>direction_enabled =
                  (case rc_external_ips_direction r of
                     PB_INGRESS \<Rightarrow> INGRESS
                   | PB_EGRESS \<Rightarrow> EGRESS
                   | _ \<Rightarrow> BOTH)\<rparr>)"

fun Direction_name :: "Direction \<Rightarrow> string" where
  "Direction_name NONE = ''NONE''"
| "Direction_name INGRESS = ''INGRESS''"
| "Direction_name EGRESS = ''EGRESS''"
| "Direction_name BOTH = ''BOTH''"

definition print_ExternalIPsConfig :: "ExternalIPsConfig \<Rightarrow> string" where
  "print_ExternalIPsConfig c = ''direction('' @ Direction_name (direction_enabled c) @ '')''"

lemma IsEnabled_simps [simp]:
  "IsEnabled c INGRESS \<longleftrightarrow> direction_enabled c = INGRESS \<or> direction_enabled c = BOTH"
  "IsEnabled c EGRESS \<longleftrightarrow> direction_enabled c = EGRESS \<or> direction_enabled c = BOTH"
  "IsEnabled c BOTH \<longleftrightarrow> direction_enabled c = BOTH"
  by (cases "direction_enabled c"; simp add: IsEnabled_def)+

text \<open>
  The switch is determined by its two directions: \<^verbatim>\<open>BOTH\<close> is enabled exactly when ingress and egress
  are, every combination of the two is reached by one value, an unset runtime configuration falls
  back to the default for both directions, and a set one overrides the default.
\<close>

theorem IsEnabled_directions:
  "(IsEnabled c BOTH \<longleftrightarrow> IsEnabled c INGRESS \<and> IsEnabled c EGRESS) \<and>
   (c = d \<longleftrightarrow> IsEnabled c INGRESS = IsEnabled d INGRESS \<and> IsEnabled c EGRESS = IsEnabled d EGRESS) \<and>
   (IsEnabled (mk_ExternalIPsConfig None dflt) INGRESS = dflt) \<and>
   (IsEnabled (mk_ExternalIPsConfig None dflt) EGRESS = dflt) \<and>
   (IsEnabled (mk_ExternalIPsConfig (Some r) dflt) INGRESS \<longleftrightarrow>
      rc_external_ips_enabled r = PB_ENABLED \<and> rc_external_ips_direction r \<noteq> PB_EGRESS) \<and>
   (IsEnabled (mk_ExternalIPsConfig (Some r) dflt) EGRESS \<longleftrightarrow>
      rc_external_ips_enabled r = PB_ENABLED \<and> rc_external_ips_direction r \<noteq> PB_INGRESS)"
proof (intro conjI)
  show "c = d \<longleftrightarrow> IsEnabled c INGRESS = IsEnabled d INGRESS \<and> IsEnabled c EGRESS = IsEnabled d EGRESS"
    by (cases "direction_enabled c"; cases "direction_enabled d") auto
qed (auto simp: mk_ExternalIPsConfig_def split: pb_direction.splits)

end
