(* ===== verification/Conn_Status.thy ===== *)
theory Conn_Status
  imports Collector_Prelude
begin

text \<open>
  \<^verbatim>\<open>ConnStatus\<close> of \<^verbatim>\<open>collector/lib/ConnTracker.h\<close>: the time a connection was last seen, in microseconds,
  packed with the active flag in the top bit of one 64-bit word. Times are \<open>int\<close>; the constructor
  reduces them to the word as the cast in the code does.
\<close>

datatype ConnStatus = ConnStatus (cs_data: u64)

definition kActiveFlag :: u64 where
  "kActiveFlag = push_bit 63 1"

definition MakeActive :: "u64 \<Rightarrow> bool \<Rightarrow> u64" where
  "MakeActive d active = (if active then d OR kActiveFlag else d AND NOT kActiveFlag)"

definition ConnStatus_default :: ConnStatus where
  "ConnStatus_default = ConnStatus 0"

definition mk_ConnStatus :: "int \<Rightarrow> bool \<Rightarrow> ConnStatus" where
  "mk_ConnStatus microtimestamp active = ConnStatus (MakeActive (word_of_int microtimestamp) active)"

definition LastActiveTime :: "ConnStatus \<Rightarrow> int" where
  "LastActiveTime s = uint (cs_data s AND NOT kActiveFlag)"

definition IsActive :: "ConnStatus \<Rightarrow> bool" where
  "IsActive s \<longleftrightarrow> cs_data s AND kActiveFlag \<noteq> 0"

definition SetActive :: "ConnStatus \<Rightarrow> bool \<Rightarrow> ConnStatus" where
  "SetActive s active = ConnStatus (MakeActive (cs_data s) active)"

definition MergeFrom :: "ConnStatus \<Rightarrow> ConnStatus \<Rightarrow> ConnStatus" where
  "MergeFrom s other = ConnStatus (max (cs_data s) (cs_data other))"

definition WithStatus :: "ConnStatus \<Rightarrow> bool \<Rightarrow> ConnStatus" where
  "WithStatus s active = ConnStatus (MakeActive (cs_data s) active)"

definition IsInAfterglowPeriod :: "ConnStatus \<Rightarrow> int \<Rightarrow> int \<Rightarrow> bool" where
  "IsInAfterglowPeriod s time_micros afterglow_period_micros \<longleftrightarrow>
     time_micros - LastActiveTime s < afterglow_period_micros"

definition WasRecentlyActive :: "ConnStatus \<Rightarrow> int \<Rightarrow> int \<Rightarrow> bool" where
  "WasRecentlyActive s time_micros afterglow_period_micros \<longleftrightarrow>
     IsActive s \<or> IsInAfterglowPeriod s time_micros afterglow_period_micros"

section \<open>The packed word\<close>

named_theorems status_simps

lemma kActiveFlag_exp: "kActiveFlag = 2 ^ 63"
  by (simp add: kActiveFlag_def)

lemma bit_kActiveFlag: "bit kActiveFlag n \<longleftrightarrow> n = 63"
  by (simp only: kActiveFlag_exp bit_exp_iff) auto

lemma IsActive_bit: "IsActive s \<longleftrightarrow> bit (cs_data s) 63"
  by (simp only: IsActive_def kActiveFlag_exp and_exp_eq_0_iff_not_bit) simp

lemma and_not_flag: "w AND NOT kActiveFlag = take_bit 63 w"
  by (rule bit_word_eqI) (auto simp: bit_simps bit_kActiveFlag)

lemma LastActiveTime_take: "LastActiveTime s = take_bit 63 (uint (cs_data s))"
  by (simp add: LastActiveTime_def and_not_flag unsigned_take_bit_eq)

lemma LastActiveTime_bounds: "0 \<le> LastActiveTime s \<and> LastActiveTime s < 2 ^ 63"
  using take_bit_int_less_exp [of 63 "uint (cs_data s)"] by (simp add: LastActiveTime_take)

lemma LastActiveTime_range [simp]: "0 \<le> LastActiveTime s" "LastActiveTime s < 9223372036854775808"
  using LastActiveTime_bounds [of s] by simp_all

lemma bit_MakeActive: "n < 64 \<Longrightarrow> bit (MakeActive d a) n \<longleftrightarrow> (if n = 63 then a else bit d n)"
  by (auto simp: MakeActive_def bit_simps bit_kActiveFlag)

lemma take_MakeActive: "take_bit 63 (MakeActive d a) = take_bit 63 d"
  by (rule bit_word_eqI) (auto simp: bit_take_bit_iff bit_MakeActive)

lemma IsActive_MakeActive: "bit (MakeActive d a) 63 = a"
  by (simp add: bit_MakeActive)

lemma SetActive_simps [simp, status_simps]:
  "IsActive (SetActive s a) = a" "LastActiveTime (SetActive s a) = LastActiveTime s"
  by (simp_all add: SetActive_def IsActive_bit bit_MakeActive LastActiveTime_def and_not_flag take_MakeActive)

lemma LastActiveTime_mk: "LastActiveTime (mk_ConnStatus t a) = take_bit 63 t"
  by (simp add: mk_ConnStatus_def LastActiveTime_def and_not_flag take_MakeActive
      unsigned_take_bit_eq uint_word_of_int_eq)

lemma mk_ConnStatus_simps [simp, status_simps]:
  "IsActive (mk_ConnStatus t a) = a"
  "0 \<le> t \<Longrightarrow> t < 2 ^ 63 \<Longrightarrow> LastActiveTime (mk_ConnStatus t a) = t"
  by (simp_all add: LastActiveTime_mk) (simp_all add: mk_ConnStatus_def IsActive_bit bit_MakeActive
      take_bit_int_eq_self)

lemma ConnStatus_eq_iff:
  "s = s' \<longleftrightarrow> IsActive s = IsActive s' \<and> LastActiveTime s = LastActiveTime s'"
proof
  assume eq: "IsActive s = IsActive s' \<and> LastActiveTime s = LastActiveTime s'"
  have "cs_data s = cs_data s'"
  proof (rule bit_word_eqI)
    fix n assume "n < LENGTH(64)"
    then consider "n = 63" | "n < 63" by fastforce
    then show "bit (cs_data s) n \<longleftrightarrow> bit (cs_data s') n"
    proof cases
      case 2
      have "take_bit 63 (cs_data s) = take_bit 63 (cs_data s')"
        using eq by (simp add: LastActiveTime_def and_not_flag word_uint_eq_iff)
      then show ?thesis using 2 by (metis bit_take_bit_iff)
    qed (use eq in \<open>simp add: IsActive_bit\<close>)
  qed
  then show "s = s'" by (cases s; cases s') simp
qed simp

lemma mk_ConnStatus_eta [simp]: "mk_ConnStatus (LastActiveTime s) (IsActive s) = s"
  by (simp add: ConnStatus_eq_iff [of _ s])

lemma mk_LastActiveTime [simp]: "LastActiveTime (mk_ConnStatus (LastActiveTime s) a) = LastActiveTime s"
  by simp

lemma SetActive_mk: "SetActive s a = mk_ConnStatus (LastActiveTime s) a"
  by (simp add: ConnStatus_eq_iff)

lemma cs_data_value: "uint (cs_data s) = (if IsActive s then 2 ^ 63 else 0) + LastActiveTime s"
proof -
  have "uint (cs_data s) = take_bit 64 (uint (cs_data s))"
    using uint_lt2p [of "cs_data s"] by (simp add: take_bit_int_eq_self)
  also have "\<dots> = (if bit (uint (cs_data s)) 63 then 2 ^ 63 else 0) + take_bit 63 (uint (cs_data s))"
    by (simp add: take_bit_Suc_from_most [of 63, simplified])
  finally show ?thesis by (simp add: IsActive_bit LastActiveTime_take bit_uint_iff)
qed

section \<open>Merging\<close>

text \<open>The order of the packed words compares the flag first and the time second.\<close>

instantiation ConnStatus :: linorder
begin

definition less_eq_ConnStatus :: "ConnStatus \<Rightarrow> ConnStatus \<Rightarrow> bool" where
  "less_eq_ConnStatus s t \<longleftrightarrow> cs_data s \<le> cs_data t"

definition less_ConnStatus :: "ConnStatus \<Rightarrow> ConnStatus \<Rightarrow> bool" where
  "less_ConnStatus s t \<longleftrightarrow> cs_data s < cs_data t"

instance
  by standard (auto simp: less_eq_ConnStatus_def less_ConnStatus_def ConnStatus.expand)

end

lemma ConnStatus_le_iff:
  "s \<le> t \<longleftrightarrow> (\<not> IsActive s \<and> IsActive t) \<or> (IsActive s = IsActive t \<and> LastActiveTime s \<le> LastActiveTime t)"
  using LastActiveTime_bounds [of s] LastActiveTime_bounds [of t]
  by (auto simp: less_eq_ConnStatus_def word_le_def cs_data_value simp del: LastActiveTime_range)

lemma MergeFrom_max: "MergeFrom s t = max s t"
  by (auto simp: MergeFrom_def max_def less_eq_ConnStatus_def)

lemma IsActive_max [simp]: "IsActive (max s t) \<longleftrightarrow> IsActive s \<or> IsActive t"
  by (auto simp: max_def ConnStatus_le_iff)

section \<open>Properties\<close>

text \<open>
  Packing is faithful: for a time between 0 and 2^63, which covers every timestamp in
  microseconds since the epoch for the next 290,000 years, the constructed status gives back time
  and flag; setting the flag keeps the time; every status arises this way, and two are equal
  exactly when time and flag agree.
\<close>

theorem ConnStatus_roundtrip:
  assumes "0 \<le> t" "t < 2 ^ 63"
  shows "LastActiveTime (mk_ConnStatus t a) = t \<and> IsActive (mk_ConnStatus t a) = a \<and>
    SetActive (mk_ConnStatus t a) b = mk_ConnStatus t b \<and> WithStatus (mk_ConnStatus t a) b = mk_ConnStatus t b \<and>
    s = mk_ConnStatus (LastActiveTime s) (IsActive s)"
  using assms by (simp add: SetActive_mk) (simp add: WithStatus_def SetActive_def [symmetric] SetActive_mk)

theorem ConnStatus_roundtrip_witness:
  "LastActiveTime (mk_ConnStatus 1700000000000000 True) = 1700000000000000"
  using ConnStatus_roundtrip [of 1700000000000000] by simp

text \<open>
  Merging two statuses is a maximum: it is commutative, associative and idempotent, an active
  status prevails over an inactive one whatever the times, and among statuses with the same flag the
  later time prevails. The result never depends on the order in which statuses are merged.
\<close>

theorem MergeFrom_semilattice:
  "MergeFrom s t = MergeFrom t s \<and> MergeFrom (MergeFrom s t) u = MergeFrom s (MergeFrom t u) \<and>
   MergeFrom s s = s \<and> (IsActive (MergeFrom s t) \<longleftrightarrow> IsActive s \<or> IsActive t) \<and>
   LastActiveTime (MergeFrom s t) =
     (if IsActive s = IsActive t then max (LastActiveTime s) (LastActiveTime t)
      else if IsActive s then LastActiveTime s else LastActiveTime t)"
proof (intro conjI)
  show "LastActiveTime (MergeFrom s t) =
     (if IsActive s = IsActive t then max (LastActiveTime s) (LastActiveTime t)
      else if IsActive s then LastActiveTime s else LastActiveTime t)"
    by (auto simp: MergeFrom_max max_def ConnStatus_le_iff)
qed (simp_all add: MergeFrom_max ac_simps)

text \<open>
  The subtraction in the afterglow test stays within a signed 64-bit integer for every
  non-negative current time, and a connection in the afterglow of a period stays so for any longer
  period and any earlier time.
\<close>

theorem afterglow_bounds_mono:
  assumes "0 \<le> time" "time < 2 ^ 63" "period \<le> period'" "time' \<le> time"
  shows "- (2 ^ 63) \<le> time - LastActiveTime s \<and> time - LastActiveTime s < 2 ^ 63 \<and>
    (IsInAfterglowPeriod s time period \<longrightarrow> IsInAfterglowPeriod s time' period') \<and>
    (WasRecentlyActive s time period \<longrightarrow> WasRecentlyActive s time' period')"
  using assms LastActiveTime_bounds [of s]
  by (auto simp: IsInAfterglowPeriod_def WasRecentlyActive_def simp del: LastActiveTime_range)

theorem afterglow_bounds_mono_witness:
  "IsInAfterglowPeriod (mk_ConnStatus 90 False) 100 20 \<and> IsInAfterglowPeriod (mk_ConnStatus 90 False) 95 30"
proof -
  have *: "IsInAfterglowPeriod (mk_ConnStatus 90 False) 100 20" by (simp add: IsInAfterglowPeriod_def)
  have "IsInAfterglowPeriod (mk_ConnStatus 90 False) 95 30"
    using afterglow_bounds_mono [of 100 20 30 95 "mk_ConnStatus 90 False"] * by simp
  with * show ?thesis ..
qed

end
