(* ===== verification/Net_Connection.thy ===== *)
theory Net_Connection
  imports Net_IPNet
begin

text \<open>
  The values the connection tracker stores, from \<^verbatim>\<open>collector/lib/NetworkConnection.h\<close>: endpoints, layer-4
  protocols, listening endpoints of containers, connections, and the predicates on them. A shared
  pointer to a process is an optional record whose \<open>pr_id\<close> stands for the address of the object.

  A hash table of the standard library identifies two keys when they hash alike and compare equal.
  That relation is defined here for each key type of the tracker's tables, with the hash as the
  value given to \<^verbatim>\<open>HashAll\<close>, and shown to be a key equality; this is what makes the laws of the
  unordered maps available although \<^verbatim>\<open>IPNet::operator==\<close> alone is no equivalence.
\<close>

section \<open>Endpoints\<close>

record Endpoint =
  ep_network :: IPNet
  ep_port :: u16

definition Endpoint_default :: Endpoint where
  "Endpoint_default = \<lparr>ep_network = IPNet_default, ep_port = 0\<rparr>"

definition Endpoint_of_address :: "Address \<Rightarrow> u16 \<Rightarrow> Endpoint" where
  "Endpoint_of_address a p = \<lparr>ep_network = IPNet_of_address a, ep_port = p\<rparr>"

definition mk_Endpoint :: "IPNet \<Rightarrow> u16 \<Rightarrow> Endpoint" where
  "mk_Endpoint n p = \<lparr>ep_network = n, ep_port = p\<rparr>"

definition Endpoint_Hash :: "Endpoint \<Rightarrow> u64 list list \<times> u16" where
  "Endpoint_Hash e = (IPNet_Hash (ep_network e), ep_port e)"

definition Endpoint_eq :: "Endpoint \<Rightarrow> Endpoint \<Rightarrow> bool" where
  "Endpoint_eq e e' \<longleftrightarrow> ep_port e = ep_port e' \<and> IPNet_eq (ep_network e) (ep_network e')"

definition ep_address :: "Endpoint \<Rightarrow> Address" where
  "ep_address e = ipn_address (ep_network e)"

definition Endpoint_IsNull :: "Endpoint \<Rightarrow> bool" where
  "Endpoint_IsNull e \<longleftrightarrow> ep_port e = 0 \<and> IPNet_IsNull (ep_network e)"

section \<open>Layer-4 protocols\<close>

datatype L4Proto = L4Unknown | TCP | UDP | ICMP

fun L4Proto_u8 :: "L4Proto \<Rightarrow> u8" where
  "L4Proto_u8 L4Unknown = 0"
| "L4Proto_u8 TCP = 1"
| "L4Proto_u8 UDP = 2"
| "L4Proto_u8 ICMP = 3"

text \<open>The cast back from the underlying integer; the class only casts what \<open>L4Proto_u8\<close> gave.\<close>

definition L4Proto_of_u8 :: "u8 \<Rightarrow> L4Proto" where
  "L4Proto_of_u8 w = (if w = 1 then TCP else if w = 2 then UDP else if w = 3 then ICMP else L4Unknown)"

type_synonym L4ProtoPortPair = "L4Proto \<times> u16"

section \<open>Endpoints of containers\<close>

record process_ref =
  pr_id :: nat
  pr_comm :: string
  pr_exe_path :: string
  pr_args :: string

record ContainerEndpoint =
  cep_container :: string
  cep_endpoint :: Endpoint
  cep_l4proto :: L4Proto
  cep_originator :: "process_ref option"

definition ContainerEndpoint_eq :: "ContainerEndpoint \<Rightarrow> ContainerEndpoint \<Rightarrow> bool" where
  "ContainerEndpoint_eq c d \<longleftrightarrow> cep_container c = cep_container d \<and>
     Endpoint_eq (cep_endpoint c) (cep_endpoint d) \<and> cep_l4proto c = cep_l4proto d \<and>
     map_option pr_id (cep_originator c) = map_option pr_id (cep_originator d)"

definition ContainerEndpoint_Hash ::
  "ContainerEndpoint \<Rightarrow> string \<times> (u64 list list \<times> u16) \<times> u8" where
  "ContainerEndpoint_Hash c =
     (cep_container c, Endpoint_Hash (cep_endpoint c), L4Proto_u8 (cep_l4proto c))"

section \<open>Connections\<close>

record Connection =
  conn_container :: string
  conn_local :: Endpoint
  conn_remote :: Endpoint
  conn_flags :: u8

definition Connection_default :: Connection where
  "Connection_default = \<lparr>conn_container = [], conn_local = Endpoint_default,
     conn_remote = Endpoint_default, conn_flags = 0\<rparr>"

definition mk_Connection :: "string \<Rightarrow> Endpoint \<Rightarrow> Endpoint \<Rightarrow> L4Proto \<Rightarrow> bool \<Rightarrow> Connection" where
  "mk_Connection container l r l4proto is_server =
     \<lparr>conn_container = container, conn_local = l, conn_remote = r,
      conn_flags = push_bit 1 (L4Proto_u8 l4proto) OR (if is_server then 1 else 0)\<rparr>"

definition conn_is_server :: "Connection \<Rightarrow> bool" where
  "conn_is_server c \<longleftrightarrow> conn_flags c AND 1 \<noteq> 0"

definition conn_l4proto :: "Connection \<Rightarrow> L4Proto" where
  "conn_l4proto c = L4Proto_of_u8 (drop_bit 1 (conn_flags c))"

definition Connection_eq :: "Connection \<Rightarrow> Connection \<Rightarrow> bool" where
  "Connection_eq c d \<longleftrightarrow> conn_container c = conn_container d \<and> Endpoint_eq (conn_local c) (conn_local d) \<and>
     Endpoint_eq (conn_remote c) (conn_remote d) \<and> conn_flags c = conn_flags d"

definition Connection_Hash ::
  "Connection \<Rightarrow> string \<times> (u64 list list \<times> u16) \<times> (u64 list list \<times> u16) \<times> u8" where
  "Connection_Hash c = (conn_container c, Endpoint_Hash (conn_local c), Endpoint_Hash (conn_remote c), conn_flags c)"

definition IsRelevantConnection :: "Connection \<Rightarrow> bool" where
  "IsRelevantConnection c \<longleftrightarrow> \<not> IsLocal (ep_address (conn_remote c))"

definition IsRelevantEndpoint :: "Endpoint \<Rightarrow> bool" where
  "IsRelevantEndpoint e \<longleftrightarrow> \<not> IsLocal (ep_address e)"

definition IsEphemeralPort :: "u16 \<Rightarrow> int" where
  "IsEphemeralPort port =
     (if port \<ge> 49152 then 4
      else if port \<ge> 32768 then 3
      else if port \<ge> 1025 \<and> port \<le> 5000 then 2
      else if port = 1024 then 1
      else 0)"

text \<open>\<^verbatim>\<open>AdvertisedEndpointEquality\<close> of \<^verbatim>\<open>ConnTracker.cpp\<close> looks into the originators.\<close>

definition AdvertisedEndpointEquality :: "ContainerEndpoint \<Rightarrow> ContainerEndpoint \<Rightarrow> bool" where
  "AdvertisedEndpointEquality lhs rhs =
     (case (cep_originator lhs, cep_originator rhs) of
        (None, Some _) \<Rightarrow> False
      | (Some _, None) \<Rightarrow> False
      | (lo, ro) \<Rightarrow>
          (case (lo, ro) of
             (Some p, Some q) \<Rightarrow>
               \<not> (pr_comm p \<noteq> pr_comm q \<or> pr_exe_path p \<noteq> pr_exe_path q \<or> pr_args p \<noteq> pr_args q)
           | _ \<Rightarrow> True) \<and>
          cep_container lhs = cep_container rhs \<and>
          Endpoint_eq (cep_endpoint lhs) (cep_endpoint rhs) \<and> cep_l4proto lhs = cep_l4proto rhs)"

section \<open>Key equalities of the tables\<close>

definition IPNet_keq :: "IPNet \<Rightarrow> IPNet \<Rightarrow> bool" where
  "IPNet_keq m n \<longleftrightarrow> IPNet_Hash m = IPNet_Hash n \<and> IPNet_eq m n"

definition Endpoint_keq :: "Endpoint \<Rightarrow> Endpoint \<Rightarrow> bool" where
  "Endpoint_keq d e \<longleftrightarrow> Endpoint_Hash d = Endpoint_Hash e \<and> Endpoint_eq d e"

definition Connection_keq :: "Connection \<Rightarrow> Connection \<Rightarrow> bool" where
  "Connection_keq c d \<longleftrightarrow> Connection_Hash c = Connection_Hash d \<and> Connection_eq c d"

definition ContainerEndpoint_keq :: "ContainerEndpoint \<Rightarrow> ContainerEndpoint \<Rightarrow> bool" where
  "ContainerEndpoint_keq c d \<longleftrightarrow> ContainerEndpoint_Hash c = ContainerEndpoint_Hash d \<and> ContainerEndpoint_eq c d"

definition AdvertisedEndpoint_keq :: "ContainerEndpoint \<Rightarrow> ContainerEndpoint \<Rightarrow> bool" where
  "AdvertisedEndpoint_keq c d \<longleftrightarrow>
     ContainerEndpoint_Hash c = ContainerEndpoint_Hash d \<and> AdvertisedEndpointEquality c d"

text \<open>What the tables tell apart, in closed form.\<close>

definition net_ident :: "IPNet \<Rightarrow> bool \<times> nat \<times> (u64 \<times> u64) \<times> Address" where
  "net_ident n = (ipn_is_addr n, ipn_bits n, ipn_mask n, if ipn_is_addr n then ipn_address n else Address_default)"

definition ep_ident :: "Endpoint \<Rightarrow> u16 \<times> (bool \<times> nat \<times> (u64 \<times> u64) \<times> Address)" where
  "ep_ident e = (ep_port e, net_ident (ep_network e))"

definition advertised_process :: "process_ref option \<Rightarrow> (string \<times> string \<times> string) option" where
  "advertised_process p = map_option (\<lambda>q. (pr_comm q, pr_exe_path q, pr_args q)) p"

lemma words2_inject [simp]: "words2 p = words2 q \<longleftrightarrow> p = q"
  by (cases p; cases q) simp

lemma IPNet_keq_ident: "IPNet_keq m n \<longleftrightarrow> net_ident m = net_ident n"
  by (auto simp: IPNet_keq_def IPNet_Hash_def IPNet_eq_def net_ident_def Address_eq_iff)

lemma Endpoint_keq_ident: "Endpoint_keq d e \<longleftrightarrow> ep_ident d = ep_ident e"
  unfolding Endpoint_keq_def Endpoint_Hash_def Endpoint_eq_def ep_ident_def
  using IPNet_keq_ident [of "ep_network d" "ep_network e"] by (auto simp: IPNet_keq_def)

lemma L4Proto_u8_inject [simp]: "L4Proto_u8 p = L4Proto_u8 q \<longleftrightarrow> p = q"
  by (cases p; cases q) simp_all

lemma Connection_keq_iff:
  "Connection_keq c d \<longleftrightarrow> conn_container c = conn_container d \<and> ep_ident (conn_local c) = ep_ident (conn_local d) \<and>
     ep_ident (conn_remote c) = ep_ident (conn_remote d) \<and> conn_flags c = conn_flags d"
  by (auto simp: Connection_keq_def Connection_Hash_def Connection_eq_def Endpoint_keq_ident [symmetric] Endpoint_keq_def)

lemma ContainerEndpoint_keq_iff:
  "ContainerEndpoint_keq c d \<longleftrightarrow> cep_container c = cep_container d \<and>
     ep_ident (cep_endpoint c) = ep_ident (cep_endpoint d) \<and> cep_l4proto c = cep_l4proto d \<and>
     map_option pr_id (cep_originator c) = map_option pr_id (cep_originator d)"
  by (auto simp: ContainerEndpoint_keq_def ContainerEndpoint_Hash_def ContainerEndpoint_eq_def
      Endpoint_keq_ident [symmetric] Endpoint_keq_def)

lemma AdvertisedEndpoint_keq_iff:
  "AdvertisedEndpoint_keq c d \<longleftrightarrow> cep_container c = cep_container d \<and>
     ep_ident (cep_endpoint c) = ep_ident (cep_endpoint d) \<and> cep_l4proto c = cep_l4proto d \<and>
     advertised_process (cep_originator c) = advertised_process (cep_originator d)"
  by (auto simp: AdvertisedEndpoint_keq_def ContainerEndpoint_Hash_def AdvertisedEndpointEquality_def
      advertised_process_def Endpoint_keq_ident [symmetric] Endpoint_keq_def split: option.splits)

interpretation conn_key: key_equality Connection_keq
  by unfold_locales (auto simp: Connection_keq_iff)

interpretation cep_key: key_equality ContainerEndpoint_keq
  by unfold_locales (auto simp: ContainerEndpoint_keq_iff)

interpretation adv_key: key_equality AdvertisedEndpoint_keq
  by unfold_locales (auto simp: AdvertisedEndpoint_keq_iff)

section \<open>Properties\<close>

lemma L4Proto_roundtrip [simp]: "L4Proto_of_u8 (L4Proto_u8 p) = p"
  by (cases p) (simp_all add: L4Proto_of_u8_def)

lemma mk_Connection_sel [simp]:
  "conn_container (mk_Connection ct l r p s) = ct" "conn_local (mk_Connection ct l r p s) = l"
  "conn_remote (mk_Connection ct l r p s) = r"
  "conn_flags (mk_Connection ct l r p s) = push_bit 1 (L4Proto_u8 p) OR (if s then 1 else 0)"
  by (simp_all add: mk_Connection_def)

lemma conn_is_server_mk [simp]: "conn_is_server (mk_Connection ct l r p s) = s"
  by (cases p; cases s) (simp_all add: conn_is_server_def)

lemma conn_l4proto_mk [simp]: "conn_l4proto (mk_Connection ct l r p s) = p"
  by (cases p; cases s) (simp_all add: conn_l4proto_def L4Proto_of_u8_def)

lemma conn_flags_inject:
  "push_bit 1 (L4Proto_u8 p) OR (if s then 1 else 0) = push_bit 1 (L4Proto_u8 q) OR (if t then 1 else 0)
   \<longleftrightarrow> p = q \<and> s = t"
  by (cases p; cases q; cases s; cases t) simp_all

text \<open>
  The packed flags of a connection lose nothing: a constructed connection gives back its role
  and its protocol, and two constructed connections are the same table key exactly when container,
  protocol and role agree and the endpoints have the same port and the same network identity.
\<close>

theorem Connection_flags_roundtrip:
  "conn_is_server (mk_Connection ct l r p s) = s \<and> conn_l4proto (mk_Connection ct l r p s) = p \<and>
   (Connection_keq (mk_Connection ct l r p s) (mk_Connection ct' l' r' p' s') \<longleftrightarrow>
      ct = ct' \<and> p = p' \<and> s = s' \<and> ep_ident l = ep_ident l' \<and> ep_ident r = ep_ident r')"
  using conn_flags_inject [of p s p' s'] by (auto simp: Connection_keq_iff)

text \<open>
  Hash and comparison together identify keys consistently: for connections, for listening
  endpoints and for advertised endpoints the relation the hash table decides by is an equivalence,
  although the comparison of networks it contains is not symmetric.
\<close>

theorem table_keys_equivalence:
  "equivp Connection_keq \<and> equivp ContainerEndpoint_keq \<and> equivp AdvertisedEndpoint_keq"
  by (auto intro!: equivpI reflpI sympI transpI
      simp: Connection_keq_iff ContainerEndpoint_keq_iff AdvertisedEndpoint_keq_iff)

text \<open>
  The advertised table is coarser than the tracker's own: when one object stands for one
  process (the process store's promise, here for the two originators at hand), endpoints that share
  a key in the tracker share one in the advertised table.
\<close>

theorem advertised_coarser:
  assumes "ContainerEndpoint_keq c d"
    and "\<forall>p q. cep_originator c = Some p \<and> cep_originator d = Some q \<and> pr_id p = pr_id q \<longrightarrow> p = q"
  shows "AdvertisedEndpoint_keq c d"
  using assms
  by (cases "cep_originator c"; cases "cep_originator d")
    (auto simp: ContainerEndpoint_keq_iff AdvertisedEndpoint_keq_iff advertised_process_def)

theorem advertised_coarser_witness:
  "let p = \<lparr>pr_id = 1, pr_comm = ''sh'', pr_exe_path = ''/bin/sh'', pr_args = []\<rparr>;
       c = \<lparr>cep_container = ''c'', cep_endpoint = Endpoint_of_address (Address_quad 10 0 0 1) 80,
            cep_l4proto = TCP, cep_originator = Some p\<rparr>
   in AdvertisedEndpoint_keq c c"
  unfolding Let_def by (rule advertised_coarser) (simp_all add: cep_key.keq_refl)

end
