(* ===== verification/Conn_Delta.thy ===== *)
theory Conn_Delta
  imports Conn_Status Net_Connection
begin

text \<open>
  The table algorithms of the connection tracker, which the code writes as templates over the key
  type: the two ways to compute a delta between scrapes and the helpers of the afterglow variant,
  the update of the old state, closing connections, inserting a sighting and fetching the state
  (\<^verbatim>\<open>collector/lib/ConnTracker.h\<close> and \<^verbatim>\<open>ConnTracker.cpp\<close>). The key equality of the table is the first
  argument of each definition; their laws are proved once for every key equality.
\<close>

type_synonym 'k state = "('k, ConnStatus) umap"

section \<open>Definitions\<close>

definition old_state_step :: "('k \<Rightarrow> 'k \<Rightarrow> bool) \<Rightarrow> 'k \<Rightarrow> ConnStatus \<Rightarrow> 'k state \<Rightarrow> 'k state" where
  "old_state_step keq k s m =
     (let (m', inserted) = um_emplace keq m k s
      in if \<not> inserted then um_set keq m' k s else m')"

definition UpdateOldState ::
  "('k \<Rightarrow> 'k \<Rightarrow> bool) \<Rightarrow> 'k state \<Rightarrow> 'k state \<Rightarrow> int \<Rightarrow> int \<Rightarrow> 'k state" where
  "UpdateOldState keq old_state new_state time_micros afterglow_period_micros =
     fold (\<lambda>(k, s). old_state_step keq k s) new_state
       (filter (\<lambda>(k, s). IsInAfterglowPeriod s time_micros afterglow_period_micros) old_state)"

text \<open>The body of the first loop of \<^verbatim>\<open>ComputeDelta\<close>, and its second loop.\<close>

definition delta_insert_step :: "('k \<Rightarrow> 'k \<Rightarrow> bool) \<Rightarrow> 'k \<Rightarrow> ConnStatus \<Rightarrow> 'k state \<Rightarrow> 'k state" where
  "delta_insert_step keq k s m =
     (let (m', inserted) = um_emplace keq m k s in
      if inserted then m'
      else case um_find keq m' k of
        None \<Rightarrow> m'
      | Some old \<Rightarrow>
          if IsActive s \<noteq> IsActive old then um_set keq m' k s
          else if IsActive s then um_erase keq m' k
          else if LastActiveTime old < LastActiveTime s then um_set keq m' k s
          else um_erase keq m' k)"

fun delta_close_loop :: "('k \<Rightarrow> 'k \<Rightarrow> bool) \<Rightarrow> 'k state \<Rightarrow> 'k state \<Rightarrow> 'k state" where
  "delta_close_loop keq new_state [] = []"
| "delta_close_loop keq new_state ((k, s) # m) =
     (if um_find keq new_state k \<noteq> None then (k, s) # delta_close_loop keq new_state m
      else if IsActive s then (k, SetActive s False) # delta_close_loop keq new_state m
      else delta_close_loop keq new_state m)"

definition ComputeDelta :: "('k \<Rightarrow> 'k \<Rightarrow> bool) \<Rightarrow> 'k state \<Rightarrow> 'k state \<Rightarrow> 'k state" where
  "ComputeDelta keq new_state old_state =
     delta_close_loop keq new_state (fold (\<lambda>(k, s). delta_insert_step keq k s) new_state old_state)"

definition ChangeConnToActiveIfNeeded ::
  "'k \<times> ConnStatus \<Rightarrow> 'k \<Rightarrow> ConnStatus \<Rightarrow> bool \<Rightarrow> 'k \<times> ConnStatus" where
  "ChangeConnToActiveIfNeeded new_conn conn_key conn_status new_recently_active =
     (if new_recently_active \<and> \<not> IsActive conn_status
      then (conn_key, mk_ConnStatus (LastActiveTime conn_status) True)
      else new_conn)"

definition ComputeDeltaForAConnectionInOldAndNewStates ::
  "('k \<Rightarrow> 'k \<Rightarrow> bool) \<Rightarrow> 'k \<times> ConnStatus \<Rightarrow> ConnStatus \<Rightarrow> 'k state \<Rightarrow> int \<Rightarrow> int \<Rightarrow> int \<Rightarrow> 'k state" where
  "ComputeDeltaForAConnectionInOldAndNewStates keq new_conn old_conn_status delta
     time_micros time_at_last_scrape afterglow_period_micros =
     (let (conn_key, conn_status) = new_conn;
          new_recently_active = WasRecentlyActive conn_status time_micros afterglow_period_micros;
          old_recently_active = WasRecentlyActive old_conn_status time_at_last_scrape afterglow_period_micros
      in if new_recently_active \<noteq> old_recently_active then
           (let (k, s) = ChangeConnToActiveIfNeeded new_conn conn_key conn_status new_recently_active
            in fst (um_emplace keq delta k s))
         else if \<not> new_recently_active then
           (if LastActiveTime old_conn_status < LastActiveTime conn_status
            then fst (um_emplace keq delta conn_key conn_status) else delta)
         else delta)"

definition ComputeDeltaForAConnectionInNewState ::
  "('k \<Rightarrow> 'k \<Rightarrow> bool) \<Rightarrow> 'k \<times> ConnStatus \<Rightarrow> 'k state \<Rightarrow> int \<Rightarrow> int \<Rightarrow> 'k state" where
  "ComputeDeltaForAConnectionInNewState keq new_conn delta time_micros afterglow_period_micros =
     (let (conn_key, conn_status) = new_conn;
          new_recently_active = WasRecentlyActive conn_status time_micros afterglow_period_micros;
          (k, s) = ChangeConnToActiveIfNeeded new_conn conn_key conn_status new_recently_active
      in fst (um_emplace keq delta k s))"

definition CheckIfOldConnShouldBeInactiveInDelta ::
  "('k \<Rightarrow> 'k \<Rightarrow> bool) \<Rightarrow> 'k \<Rightarrow> ConnStatus \<Rightarrow> 'k state \<Rightarrow> int \<Rightarrow> int \<Rightarrow> int \<Rightarrow> bool" where
  "CheckIfOldConnShouldBeInactiveInDelta keq conn_key conn_status new_state
     time_micros time_at_last_scrape afterglow_period_micros =
     (if um_find keq new_state conn_key \<noteq> None then False
      else if \<not> WasRecentlyActive conn_status time_at_last_scrape afterglow_period_micros then False
      else if IsInAfterglowPeriod conn_status time_micros afterglow_period_micros then False
      else True)"

text \<open>The bodies of the two loops of \<^verbatim>\<open>ComputeDeltaAfterglow\<close>, over the new and over the old state.\<close>

definition afterglow_new_step ::
  "('k \<Rightarrow> 'k \<Rightarrow> bool) \<Rightarrow> 'k state \<Rightarrow> int \<Rightarrow> int \<Rightarrow> int \<Rightarrow> 'k \<Rightarrow> ConnStatus \<Rightarrow> 'k state \<Rightarrow> 'k state" where
  "afterglow_new_step keq old_state time_micros time_at_last_scrape afterglow_period_micros k s d =
     (case um_find keq old_state k of
        Some old \<Rightarrow> ComputeDeltaForAConnectionInOldAndNewStates keq (k, s) old d
                      time_micros time_at_last_scrape afterglow_period_micros
      | None \<Rightarrow> ComputeDeltaForAConnectionInNewState keq (k, s) d time_micros afterglow_period_micros)"

definition afterglow_old_step ::
  "('k \<Rightarrow> 'k \<Rightarrow> bool) \<Rightarrow> 'k state \<Rightarrow> int \<Rightarrow> int \<Rightarrow> int \<Rightarrow> 'k \<Rightarrow> ConnStatus \<Rightarrow> 'k state \<Rightarrow> 'k state" where
  "afterglow_old_step keq new_state time_micros time_at_last_scrape afterglow_period_micros k s d =
     (if CheckIfOldConnShouldBeInactiveInDelta keq k s new_state
           time_micros time_at_last_scrape afterglow_period_micros
      then fst (um_emplace keq d k (mk_ConnStatus (LastActiveTime s) False))
      else d)"

definition ComputeDeltaAfterglow ::
  "('k \<Rightarrow> 'k \<Rightarrow> bool) \<Rightarrow> 'k state \<Rightarrow> 'k state \<Rightarrow> 'k state \<Rightarrow> int \<Rightarrow> int \<Rightarrow> int \<Rightarrow> 'k state" where
  "ComputeDeltaAfterglow keq new_state old_state delta
     time_micros time_at_last_scrape afterglow_period_micros =
     fold (\<lambda>(k, s). afterglow_old_step keq new_state
                       time_micros time_at_last_scrape afterglow_period_micros k s) old_state
       (fold (\<lambda>(k, s). afterglow_new_step keq old_state
                         time_micros time_at_last_scrape afterglow_period_micros k s) new_state delta)"

fun CloseConnections ::
  "('k \<Rightarrow> 'k \<Rightarrow> bool) \<Rightarrow> ('k \<Rightarrow> bool) \<Rightarrow> 'k state \<Rightarrow> 'k state \<Rightarrow> 'k state \<times> 'k state" where
  "CloseConnections keq predicate [] delta_conn = ([], delta_conn)"
| "CloseConnections keq predicate ((k, s) # old) delta_conn =
     (if predicate k then
        (let s' = (if IsActive s then SetActive s False else s)
         in CloseConnections keq predicate old (fst (um_emplace keq delta_conn k s')))
      else (let (old', delta') = CloseConnections keq predicate old delta_conn in ((k, s) # old', delta')))"

definition EmplaceOrUpdate ::
  "('k \<Rightarrow> 'k \<Rightarrow> bool) \<Rightarrow> 'k state \<Rightarrow> 'k \<Rightarrow> ConnStatus \<Rightarrow> 'k state \<times> bool" where
  "EmplaceOrUpdate keq m obj status =
     (let (m', inserted) = um_emplace keq m obj status
      in case um_find keq m' obj of
           None \<Rightarrow> (m', inserted)
         | Some stored \<Rightarrow>
             if \<not> inserted \<and> LastActiveTime status > LastActiveTime stored
             then (um_set keq m' obj status, inserted)
             else (m', inserted))"

text \<open>
  \<^verbatim>\<open>FetchState\<close>: the functors are optional, \<open>None\<close> standing for \<^verbatim>\<open>dont_normalize\<close> and \<^verbatim>\<open>dont_filter\<close>; the
  equality is that of the fetched table. The result is the fetched table and what is left of the
  state.
\<close>

definition fetch_one ::
  "('k \<Rightarrow> 'k \<Rightarrow> bool) \<Rightarrow> ('k \<Rightarrow> 'k) option \<Rightarrow> ('k \<Rightarrow> bool) option \<Rightarrow> 'k \<times> ConnStatus \<Rightarrow> 'k state \<Rightarrow> 'k state" where
  "fetch_one keq process_fn filter_fn entry fetched =
     (if (case filter_fn of None \<Rightarrow> True | Some f \<Rightarrow> f (fst entry)) then
        (case process_fn of
           Some p \<Rightarrow>
             (let (m', inserted) = um_emplace keq fetched (p (fst entry)) (snd entry)
              in if inserted then m'
                 else (case um_find keq m' (p (fst entry)) of
                         None \<Rightarrow> m'
                       | Some st \<Rightarrow> um_set keq m' (p (fst entry)) (MergeFrom st (snd entry))))
         | None \<Rightarrow> fst (um_emplace keq fetched (fst entry) (snd entry)))
      else fetched)"

fun fetch_loop ::
  "('k \<Rightarrow> 'k \<Rightarrow> bool) \<Rightarrow> bool \<Rightarrow> ('k \<Rightarrow> 'k) option \<Rightarrow> ('k \<Rightarrow> bool) option \<Rightarrow> 'k state \<Rightarrow> 'k state \<Rightarrow>
   'k state \<times> 'k state" where
  "fetch_loop keq clear_inactive process_fn filter_fn [] fetched = (fetched, [])"
| "fetch_loop keq clear_inactive process_fn filter_fn (entry # rest) fetched =
     (let (fetched', rest') =
            fetch_loop keq clear_inactive process_fn filter_fn rest (fetch_one keq process_fn filter_fn entry fetched)
      in (fetched', if clear_inactive \<and> \<not> IsActive (snd entry) then rest' else entry # rest'))"

definition FetchState ::
  "('k \<Rightarrow> 'k \<Rightarrow> bool) \<Rightarrow> 'k state \<Rightarrow> bool \<Rightarrow> ('k \<Rightarrow> 'k) option \<Rightarrow> ('k \<Rightarrow> bool) option \<Rightarrow> 'k state \<times> 'k state" where
  "FetchState keq state clear_inactive process_fn filter_fn =
     fetch_loop keq clear_inactive process_fn filter_fn state []"

section \<open>Specifications\<close>

text \<open>What the delta says about one key, given its statuses in the new and in the old state.\<close>

fun delta_spec :: "ConnStatus option \<Rightarrow> ConnStatus option \<Rightarrow> ConnStatus option" where
  "delta_spec (Some s) None = Some s"
| "delta_spec (Some s) (Some old) =
     (if IsActive s \<noteq> IsActive old then Some s
      else if \<not> IsActive s \<and> LastActiveTime old < LastActiveTime s then Some s else None)"
| "delta_spec None (Some old) = (if IsActive old then Some (SetActive old False) else None)"
| "delta_spec None None = None"

fun afterglow_spec :: "int \<Rightarrow> int \<Rightarrow> int \<Rightarrow> ConnStatus option \<Rightarrow> ConnStatus option \<Rightarrow> ConnStatus option" where
  "afterglow_spec t t0 per (Some s) None = Some (mk_ConnStatus (LastActiveTime s) (WasRecentlyActive s t per))"
| "afterglow_spec t t0 per (Some s) (Some old) =
     (if WasRecentlyActive s t per \<noteq> WasRecentlyActive old t0 per
      then Some (mk_ConnStatus (LastActiveTime s) (WasRecentlyActive s t per))
      else if \<not> WasRecentlyActive s t per \<and> LastActiveTime old < LastActiveTime s then Some s else None)"
| "afterglow_spec t t0 per None (Some old) =
     (if WasRecentlyActive old t0 per \<and> \<not> IsInAfterglowPeriod old t per
      then Some (mk_ConnStatus (LastActiveTime old) False) else None)"
| "afterglow_spec t t0 per None None = None"

text \<open>
  The receiver of the reports keeps the keys last reported active; a report is the delta's verdict
  where it has one.
\<close>

definition sensor_view :: "('k \<Rightarrow> 'k \<Rightarrow> bool) \<Rightarrow> ('k \<Rightarrow> bool) \<Rightarrow> 'k state \<Rightarrow> 'k \<Rightarrow> bool" where
  "sensor_view keq view delta j = (case um_find keq delta j of None \<Rightarrow> view j | Some s \<Rightarrow> IsActive s)"

definition active_in :: "('k \<Rightarrow> 'k \<Rightarrow> bool) \<Rightarrow> 'k state \<Rightarrow> 'k \<Rightarrow> bool" where
  "active_in keq state j = (case um_find keq state j of None \<Rightarrow> False | Some s \<Rightarrow> IsActive s)"

definition recent_in :: "('k \<Rightarrow> 'k \<Rightarrow> bool) \<Rightarrow> 'k state \<Rightarrow> int \<Rightarrow> int \<Rightarrow> 'k \<Rightarrow> bool" where
  "recent_in keq state t per j =
     (case um_find keq state j of None \<Rightarrow> False | Some s \<Rightarrow> WasRecentlyActive s t per)"

text \<open>The keys closed by a predicate on the stored keys.\<close>

definition closes_in :: "('k \<Rightarrow> 'k \<Rightarrow> bool) \<Rightarrow> ('k \<Rightarrow> bool) \<Rightarrow> 'k state \<Rightarrow> 'k \<Rightarrow> bool" where
  "closes_in keq P old j \<longleftrightarrow> (\<exists>(k, s) \<in> set old. keq k j \<and> P k)"

text \<open>The statuses that fall together under one key when the state is fetched with normalisation.\<close>

definition fetch_passes :: "('k \<Rightarrow> bool) option \<Rightarrow> 'k \<Rightarrow> bool" where
  "fetch_passes f k = (case f of None \<Rightarrow> True | Some g \<Rightarrow> g k)"

definition fetched_statuses ::
  "('k \<Rightarrow> 'k \<Rightarrow> bool) \<Rightarrow> ('k \<Rightarrow> 'k) \<Rightarrow> ('k \<Rightarrow> bool) option \<Rightarrow> 'k state \<Rightarrow> 'k \<Rightarrow> ConnStatus set" where
  "fetched_statuses keq p f state j =
     snd ` set (filter (\<lambda>(k, s). fetch_passes f k \<and> keq (p k) j) state)"

lemma ChangeConn_mk:
  "ChangeConnToActiveIfNeeded (k, s) k s (WasRecentlyActive s t per) =
     (k, mk_ConnStatus (LastActiveTime s) (WasRecentlyActive s t per))"
  by (auto simp: ChangeConnToActiveIfNeeded_def ConnStatus_eq_iff WasRecentlyActive_def)

lemma InOldAndNewStates_eq:
  "ComputeDeltaForAConnectionInOldAndNewStates keq (k, s) old d t t0 per =
     (if WasRecentlyActive s t per \<noteq> WasRecentlyActive old t0 per
      then fst (um_emplace keq d k (mk_ConnStatus (LastActiveTime s) (WasRecentlyActive s t per)))
      else if \<not> WasRecentlyActive s t per \<and> LastActiveTime old < LastActiveTime s
      then fst (um_emplace keq d k s) else d)"
  unfolding ComputeDeltaForAConnectionInOldAndNewStates_def Let_def prod.case ChangeConn_mk by simp

lemma InNewState_eq:
  "ComputeDeltaForAConnectionInNewState keq (k, s) d t per =
     fst (um_emplace keq d k (mk_ConnStatus (LastActiveTime s) (WasRecentlyActive s t per)))"
  unfolding ComputeDeltaForAConnectionInNewState_def Let_def prod.case ChangeConn_mk ..

lemma delta_close_loop_eq:
  "delta_close_loop keq new m =
     map (\<lambda>(k, s). (k, if um_find keq new k \<noteq> None then s else SetActive s False))
       (filter (\<lambda>(k, s). um_find keq new k \<noteq> None \<or> IsActive s) m)"
  by (induction keq new m rule: delta_close_loop.induct) auto

lemma CloseConnections_eq:
  "CloseConnections keq P old delta =
     (filter (\<lambda>(k, s). \<not> P k) old,
      fold (\<lambda>(k, s) d. if P k then fst (um_emplace keq d k (SetActive s False)) else d) old delta)"
proof (induction keq P old delta rule: CloseConnections.induct)
  case (2 keq P k s old delta)
  have "(if IsActive s then SetActive s False else s) = SetActive s False"
    by (simp add: ConnStatus_eq_iff)
  then show ?case using 2 by simp
qed simp

lemma fetch_loop_eq:
  "fetch_loop keq clear p f state fetched =
     (fold (fetch_one keq p f) state fetched, filter (\<lambda>(k, s). \<not> (clear \<and> \<not> IsActive s)) state)"
  by (induction keq clear p f state fetched rule: fetch_loop.induct) (auto simp: Let_def)

section \<open>Laws for every key equality\<close>

context key_equality
begin

lemma inv_emplace_eq: "um_emplace keq d k s = (d', b) \<Longrightarrow> um_inv keq d \<Longrightarrow> um_inv keq d'"
  using inv_emplace [of d k s] by simp

lemma find_old_state_step:
  "um_find keq (old_state_step keq k s d) j = (if keq k j then Some s else um_find keq d j)"
  by (auto simp: old_state_step_def um_emplace_def um_find_append find_set find_cong split: option.splits)

lemma find_UpdateOldState:
  assumes "um_inv keq new" "um_inv keq old"
  shows "um_find keq (UpdateOldState keq old new t per) j =
    (case um_find keq new j of Some s \<Rightarrow> Some s
     | None \<Rightarrow> (case um_find keq old j of None \<Rightarrow> None
               | Some s \<Rightarrow> if IsInAfterglowPeriod s t per then Some s else None))"
  unfolding UpdateOldState_def
  by (subst find_fold_local [where g = "\<lambda>_ s _. Some s", OF assms(1) find_old_state_step])
    (auto simp: find_filter [OF assms(2)] split: option.splits)

lemma inv_UpdateOldState:
  assumes "um_inv keq old"
  shows "um_inv keq (UpdateOldState keq old new t per)"
proof -
  have "um_inv keq d \<Longrightarrow> um_inv keq (old_state_step keq k s d)" for k s d
    by (auto simp: old_state_step_def intro!: um_inv_set dest: inv_emplace_eq split: prod.splits)
  then show ?thesis
    unfolding UpdateOldState_def using assms by (intro inv_fold [of "old_state_step keq"] um_inv_filter)
qed

lemma find_delta_insert_step:
  "um_find keq (delta_insert_step keq k s d) j =
     (if keq k j then (case um_find keq d j of None \<Rightarrow> Some s | Some old \<Rightarrow> delta_spec (Some s) (Some old))
      else um_find keq d j)"
proof (cases "um_find keq d k")
  case None
  then show ?thesis
    by (auto simp: delta_insert_step_def um_emplace_def um_find_append find_cong split: option.splits)
next
  case (Some old)
  then have "keq k j \<Longrightarrow> um_find keq d j = Some old" using find_cong by metis
  with Some show ?thesis
    by (auto simp: delta_insert_step_def um_emplace_def find_set find_erase)
qed

lemma inv_delta_insert_step: "um_inv keq d \<Longrightarrow> um_inv keq (delta_insert_step keq k s d)"
  by (auto simp: delta_insert_step_def intro!: inv_erase um_inv_set
      dest: inv_emplace_eq split: prod.splits option.splits)

lemma find_ComputeDelta:
  assumes "um_inv keq new" "um_inv keq old"
  shows "um_find keq (ComputeDelta keq new old) j = delta_spec (um_find keq new j) (um_find keq old j)"
proof -
  let ?m = "fold (\<lambda>(k, s). delta_insert_step keq k s) new old"
  have find: "um_find keq ?m j = (case um_find keq new j of None \<Rightarrow> um_find keq old j
      | Some s \<Rightarrow> (case um_find keq old j of None \<Rightarrow> Some s | Some old \<Rightarrow> delta_spec (Some s) (Some old)))"
    by (subst find_fold_local [OF assms(1) find_delta_insert_step]) simp
  have inv: "um_inv keq ?m"
    using inv_delta_insert_step assms(2) by (rule inv_fold)
  have new: "um_find keq new i = um_find keq new j" if "keq i j" for i j using that by (rule find_cong)
  show ?thesis
    unfolding ComputeDelta_def delta_close_loop_eq
    by (subst find_map_keyed)
      (auto simp: find_filter [OF inv] find new split: option.splits)
qed

lemma inv_ComputeDelta:
  assumes "um_inv keq old"
  shows "um_inv keq (ComputeDelta keq new old)"
proof -
  have inv: "um_inv keq (fold (\<lambda>(k, s). delta_insert_step keq k s) new old)"
    using inv_delta_insert_step assms by (rule inv_fold)
  have keys: "um_inv keq (map (\<lambda>(k, s). (k, f k s)) m) = um_inv keq m" for m :: "('k, ConnStatus) umap" and f
  proof (induction m)
    case (Cons a m)
    then show ?case by (cases a) (auto simp: um_find_None_iff)
  qed simp
  show ?thesis unfolding ComputeDelta_def delta_close_loop_eq by (simp add: keys um_inv_filter inv)
qed

text \<open>The afterglow variant adds its verdicts to a given delta and never overwrites one.\<close>

lemma find_afterglow_new_step:
  "um_find keq (afterglow_new_step keq old t t0 per k s d) j =
   (if keq k j then (case um_find keq d j of Some x \<Rightarrow> Some x
      | None \<Rightarrow> afterglow_spec t t0 per (Some s) (um_find keq old j))
    else um_find keq d j)"
proof -
  have old: "um_find keq old k = um_find keq old j" if "keq k j" using that by (rule find_cong)
  show ?thesis
    by (cases "um_find keq old k")
      (auto simp: afterglow_new_step_def InOldAndNewStates_eq InNewState_eq find_emplace old
        split: option.splits)
qed

lemma find_afterglow_old_step:
  "um_find keq (afterglow_old_step keq new t t0 per k s d) j =
   (if keq k j then (case um_find keq d j of Some x \<Rightarrow> Some x
      | None \<Rightarrow> if um_find keq new j = None then afterglow_spec t t0 per None (Some s) else None)
    else um_find keq d j)"
proof -
  have new: "um_find keq new k = um_find keq new j" if "keq k j" using that by (rule find_cong)
  show ?thesis
    by (auto simp: afterglow_old_step_def CheckIfOldConnShouldBeInactiveInDelta_def find_emplace new
        split: option.splits)
qed

lemma find_ComputeDeltaAfterglow:
  assumes "um_inv keq new" "um_inv keq old"
  shows "um_find keq (ComputeDeltaAfterglow keq new old delta t t0 per) j =
    (case um_find keq delta j of Some x \<Rightarrow> Some x
     | None \<Rightarrow> afterglow_spec t t0 per (um_find keq new j) (um_find keq old j))"
  unfolding ComputeDeltaAfterglow_def
    find_fold_local [of old "afterglow_old_step keq new t t0 per", OF assms(2) find_afterglow_old_step]
    find_fold_local [of new "afterglow_new_step keq old t t0 per", OF assms(1) find_afterglow_new_step]
  by (auto split: option.splits)

lemma inv_ComputeDeltaAfterglow:
  assumes "um_inv keq delta"
  shows "um_inv keq (ComputeDeltaAfterglow keq new old delta t t0 per)"
  unfolding ComputeDeltaAfterglow_def
  by (intro inv_fold [of "afterglow_old_step keq new t t0 per"]
      inv_fold [of "afterglow_new_step keq old t t0 per"] assms)
    (auto simp: afterglow_old_step_def afterglow_new_step_def InOldAndNewStates_eq InNewState_eq
      inv_emplace split: option.splits)

lemma find_CloseConnections:
  assumes "um_inv keq old" and P: "\<And>i j. keq i j \<Longrightarrow> P i = P j"
  shows "um_find keq (fst (CloseConnections keq P old delta)) j =
      (if P j then None else um_find keq old j)"
    and "um_find keq (snd (CloseConnections keq P old delta)) j =
      (case um_find keq delta j of Some x \<Rightarrow> Some x
       | None \<Rightarrow> if P j then map_option (\<lambda>s. SetActive s False) (um_find keq old j) else None)"
proof -
  show "um_find keq (fst (CloseConnections keq P old delta)) j = (if P j then None else um_find keq old j)"
    unfolding CloseConnections_eq fst_conv
    by (subst find_filter [OF assms(1)]) (auto dest: P split: option.splits)
  have step: "um_find keq (if P k then fst (um_emplace keq d k (SetActive s False)) else d) i =
      (if keq k i then (case um_find keq d i of Some x \<Rightarrow> Some x
         | None \<Rightarrow> if P i then Some (SetActive s False) else None) else um_find keq d i)" for k s d i
    using P [of k i] by (auto simp: find_emplace split: option.splits)
  show "um_find keq (snd (CloseConnections keq P old delta)) j =
      (case um_find keq delta j of Some x \<Rightarrow> Some x
       | None \<Rightarrow> if P j then map_option (\<lambda>s. SetActive s False) (um_find keq old j) else None)"
    unfolding CloseConnections_eq snd_conv
    by (subst find_fold_local [OF assms(1) step]) (auto split: option.splits)
qed

lemma inv_CloseConnections:
  assumes "um_inv keq old" "um_inv keq delta"
  shows "um_inv keq (fst (CloseConnections keq P old delta))" "um_inv keq (snd (CloseConnections keq P old delta))"
  unfolding CloseConnections_eq
  by (simp_all add: um_inv_filter assms, rule inv_fold) (simp_all add: inv_emplace assms)

lemma find_EmplaceOrUpdate:
  "um_find keq (fst (EmplaceOrUpdate keq m k s)) j =
     (if keq k j then (case um_find keq m j of None \<Rightarrow> Some s
        | Some st \<Rightarrow> Some (if LastActiveTime st < LastActiveTime s then s else st))
      else um_find keq m j)"
proof (cases "um_find keq m k")
  case None
  then show ?thesis
    by (auto simp: EmplaceOrUpdate_def um_emplace_def um_find_append find_cong keq_refl split: option.splits)
next
  case (Some old)
  then have "keq k j \<Longrightarrow> um_find keq m j = Some old" using find_cong by metis
  with Some show ?thesis by (auto simp: EmplaceOrUpdate_def um_emplace_def find_set)
qed

lemma snd_EmplaceOrUpdate: "snd (EmplaceOrUpdate keq m k s) \<longleftrightarrow> um_find keq m k = None"
  by (auto simp: EmplaceOrUpdate_def um_emplace_def split: option.splits)

lemma inv_EmplaceOrUpdate: "um_inv keq m \<Longrightarrow> um_inv keq (fst (EmplaceOrUpdate keq m k s))"
  by (auto simp: EmplaceOrUpdate_def intro!: um_inv_set dest: inv_emplace_eq split: prod.splits option.splits)

lemma find_fetch_one:
  "um_find keq (fetch_one keq (Some p) f (k, s) d) j =
     (if fetch_passes f k \<and> keq (p k) j
      then Some (case um_find keq d j of None \<Rightarrow> s | Some x \<Rightarrow> max x s) else um_find keq d j)"
proof (cases "um_find keq d (p k)")
  case None
  then show ?thesis
    by (auto simp: fetch_one_def fetch_passes_def [symmetric] um_emplace_def um_find_append find_cong
        split: option.splits)
next
  case (Some x)
  then have "keq (p k) j \<Longrightarrow> um_find keq d j = Some x" using find_cong by metis
  with Some show ?thesis
    by (auto simp: fetch_one_def fetch_passes_def [symmetric] um_emplace_def find_set MergeFrom_max)
qed

lemma fetched_statuses_Cons:
  "fetched_statuses keq p f ((k, s) # state) j =
     (if fetch_passes f k \<and> keq (p k) j then insert s (fetched_statuses keq p f state j)
      else fetched_statuses keq p f state j)"
  by (auto simp: fetched_statuses_def)

lemma finite_fetched_statuses [simp]: "finite (fetched_statuses keq p f state j)"
  by (simp add: fetched_statuses_def)

lemma find_fold_fetch:
  "um_find keq (fold (fetch_one keq (Some p) f) state d) j =
     (let S = set_option (um_find keq d j) \<union> fetched_statuses keq p f state j
      in if S = {} then None else Some (Max S))"
proof (induction state arbitrary: d)
  case Nil
  then show ?case by (cases "um_find keq d j") (simp_all add: fetched_statuses_def)
next
  case (Cons a state)
  obtain k s where a: "a = (k, s)" by (cases a)
  show ?case
    using Cons [of "fetch_one keq (Some p) f a d"]
    by (cases "um_find keq d j"; cases "fetched_statuses keq p f state j = {}")
      (auto simp: a find_fetch_one fetched_statuses_Cons Let_def max.assoc)
qed

lemma find_FetchState:
  "um_find keq (fst (FetchState keq state clear (Some p) f)) j =
     (let S = fetched_statuses keq p f state j in if S = {} then None else Some (Max S))"
  by (simp add: FetchState_def fetch_loop_eq find_fold_fetch Let_def)

lemma inv_FetchState:
  "um_inv keq (fst (FetchState keq state clear p f))"
proof -
  have "um_inv keq d \<Longrightarrow> um_inv keq (fetch_one keq p f (k, s) d)" for k s d
    by (auto simp: fetch_one_def inv_emplace intro!: um_inv_set dest: inv_emplace_eq
        split: prod.splits option.splits)
  then have "um_inv keq (fold (\<lambda>(k, s). fetch_one keq p f (k, s)) state [])"
    by (intro inv_fold [of "\<lambda>k s. fetch_one keq p f (k, s)"]) simp_all
  then show ?thesis by (simp add: FetchState_def fetch_loop_eq)
qed

lemma active_FetchState:
  "active_in keq (fst (FetchState keq state clear (Some p) f)) j \<longleftrightarrow>
     (\<exists>k s. (k, s) \<in> set state \<and> fetch_passes f k \<and> keq (p k) j \<and> IsActive s)"
proof (cases "fetched_statuses keq p f state j = {}")
  case True
  then show ?thesis by (force simp: active_in_def find_FetchState fetched_statuses_def)
next
  case False
  let ?S = "fetched_statuses keq p f state j"
  have "Max ?S \<in> ?S" "\<And>s. s \<in> ?S \<Longrightarrow> s \<le> Max ?S" using False by simp_all
  then have "IsActive (Max ?S) \<longleftrightarrow> (\<exists>s \<in> ?S. IsActive s)" by (auto simp: ConnStatus_le_iff)
  then show ?thesis using False by (force simp: active_in_def find_FetchState fetched_statuses_def Let_def)
qed

section \<open>Reports keep the receiver in step\<close>

lemma ComputeDelta_in_step:
  assumes "um_inv keq new" "um_inv keq old"
  shows "sensor_view keq (active_in keq old) (ComputeDelta keq new old) = active_in keq new"
proof
  fix j
  show "sensor_view keq (active_in keq old) (ComputeDelta keq new old) j = active_in keq new j"
    by (cases "um_find keq new j"; cases "um_find keq old j")
      (auto simp: sensor_view_def active_in_def find_ComputeDelta [OF assms])
qed

lemma ComputeDelta_unchanged:
  assumes "um_inv keq new" "um_inv keq old" "um_find keq new j = um_find keq old j"
  shows "um_find keq (ComputeDelta keq new old) j = None"
  using assms(3) by (cases "um_find keq old j") (simp_all add: find_ComputeDelta [OF assms(1,2)])

text \<open>
  Closing acts on the keys as they are stored: a key is closed if the stored key it equals matches.
\<close>

lemma stored_unique:
  "um_inv keq m \<Longrightarrow> (k, s) \<in> set m \<Longrightarrow> (k', s') \<in> set m \<Longrightarrow> keq k k' \<Longrightarrow> k = k' \<and> s = s'"
proof (induction m)
  case (Cons a m)
  then show ?case by (cases a) (auto simp: um_find_None_iff dest: keq_sym)
qed simp

lemma closes_in_stored: "um_inv keq old \<Longrightarrow> (k, s) \<in> set old \<Longrightarrow> closes_in keq P old k = P k"
  using stored_unique keq_refl by (fastforce simp: closes_in_def)

lemma closes_in_cong: "keq i j \<Longrightarrow> closes_in keq P old i = closes_in keq P old j"
  using keq_cong by (auto simp: closes_in_def)

lemma CloseConnections_closes_in:
  assumes "um_inv keq old"
  shows "CloseConnections keq P old delta = CloseConnections keq (closes_in keq P old) old delta"
proof -
  have same: "closes_in keq P old k = P k" if "(k, s) \<in> set old" for k s
    using closes_in_stored [OF assms that] .
  show ?thesis unfolding CloseConnections_eq
    by (auto intro!: filter_cong fold_cong simp: same)
qed

lemma find_closed:
  assumes "um_inv keq old"
  shows "um_find keq (fst (CloseConnections keq P old delta)) j =
      (if closes_in keq P old j then None else um_find keq old j)"
    and "um_find keq (snd (CloseConnections keq P old delta)) j =
      (case um_find keq delta j of Some x \<Rightarrow> Some x
       | None \<Rightarrow> if closes_in keq P old j then map_option (\<lambda>s. SetActive s False) (um_find keq old j) else None)"
  unfolding CloseConnections_closes_in [OF assms, of P]
  by (intro find_CloseConnections assms closes_in_cong; assumption)+

text \<open>Closing twice is closing what matches either predicate.\<close>

lemma closes_in_twice:
  assumes "um_inv keq old"
  shows "closes_in keq P old j \<or> closes_in keq Q (fst (CloseConnections keq P old delta)) j \<longleftrightarrow>
    closes_in keq (\<lambda>k. P k \<or> Q k) old j"
  by (auto simp: CloseConnections_eq closes_in_def)

lemma closes_in_None: "um_find keq old j = None \<Longrightarrow> \<not> closes_in keq P old j"
  by (auto simp: closes_in_def um_find_None_iff)

lemma find_closed_twice:
  fixes P Q :: "'k \<Rightarrow> bool" and delta :: "'k state"
  assumes "um_inv keq old"
  defines "c1 \<equiv> CloseConnections keq P old delta"
  defines "c2 \<equiv> CloseConnections keq Q (fst c1) (snd c1)"
  shows "um_find keq (fst c2) j = (if closes_in keq (\<lambda>k. P k \<or> Q k) old j then None else um_find keq old j)"
    and "um_find keq (snd c2) j =
      (case um_find keq delta j of Some x \<Rightarrow> Some x
       | None \<Rightarrow> if closes_in keq (\<lambda>k. P k \<or> Q k) old j
                then map_option (\<lambda>s. SetActive s False) (um_find keq old j) else None)"
proof -
  have inv1: "um_inv keq (fst c1)" by (simp add: c1_def CloseConnections_eq um_inv_filter assms(1))
  note twice = closes_in_twice [OF assms(1), of P j Q delta, folded c1_def]
  note one = find_closed [OF assms(1), of P delta j, folded c1_def]
  show "um_find keq (fst c2) j = (if closes_in keq (\<lambda>k. P k \<or> Q k) old j then None else um_find keq old j)"
    unfolding c2_def find_closed(1) [OF inv1] one(1) using twice by auto
  show "um_find keq (snd c2) j =
      (case um_find keq delta j of Some x \<Rightarrow> Some x
       | None \<Rightarrow> if closes_in keq (\<lambda>k. P k \<or> Q k) old j
                then map_option (\<lambda>s. SetActive s False) (um_find keq old j) else None)"
    unfolding c2_def find_closed(2) [OF inv1] one using twice closes_in_None [of old j P]
    by (cases "um_find keq old j") (auto split: option.splits dest: closes_in_None)
qed

text \<open>
  One round of the afterglow variant in which the keys of \<open>C\<close> are closed between the delta and the
  update of the old state, as the notifier does on a change of the External-IPs switch.
\<close>

lemma afterglow_round_in_step:
  fixes per :: int
  assumes inv: "um_inv keq new" "um_inv keq old" "um_inv keq old1" and "t0 \<le> t"
    and old1: "\<And>j. um_find keq old1 j = (if C j then None else um_find keq old j)"
    and delta1: "\<And>j. um_find keq delta1 j =
      (case um_find keq (ComputeDeltaAfterglow keq new old [] t t0 per) j of Some x \<Rightarrow> Some x
       | None \<Rightarrow> if C j then map_option (\<lambda>s. SetActive s False) (um_find keq old j) else None)"
    and fresh: "\<And>j. C j \<Longrightarrow> um_find keq new j = None"
  shows "sensor_view keq (recent_in keq old t0 per) delta1 =
    recent_in keq (UpdateOldState keq old1 new t per) t per"
proof
  fix j
  have glow: "IsInAfterglowPeriod s t per \<Longrightarrow> IsInAfterglowPeriod s t0 per" for s
    using assms(4) by (simp add: IsInAfterglowPeriod_def)
  show "sensor_view keq (recent_in keq old t0 per) delta1 j =
    recent_in keq (UpdateOldState keq old1 new t per) t per j"
    unfolding sensor_view_def recent_in_def delta1 find_UpdateOldState [OF inv(1,3)] old1
      find_ComputeDeltaAfterglow [OF inv(1,2)]
    using fresh [of j] glow
    by (cases "um_find keq new j"; cases "um_find keq old j"; cases "C j")
      (auto simp: WasRecentlyActive_def)
qed

end

section \<open>Properties\<close>

text \<open>
  (C4) The delta of listening endpoints is exact and minimal. A receiver that knew the endpoints active
  in the old state knows, after the delta of \<^verbatim>\<open>ComputeDelta\<close>, exactly those active in the new one, and an
  endpoint whose status did not change is not in the delta. The delta is again a table with unique
  keys.
\<close>

theorem ComputeDelta_exact_and_minimal:
  assumes "um_inv AdvertisedEndpoint_keq new_state" "um_inv AdvertisedEndpoint_keq old_state"
  shows "sensor_view AdvertisedEndpoint_keq (active_in AdvertisedEndpoint_keq old_state)
      (ComputeDelta AdvertisedEndpoint_keq new_state old_state) = active_in AdvertisedEndpoint_keq new_state \<and>
    um_inv AdvertisedEndpoint_keq (ComputeDelta AdvertisedEndpoint_keq new_state old_state) \<and>
    (\<forall>j. um_find AdvertisedEndpoint_keq new_state j = um_find AdvertisedEndpoint_keq old_state j \<longrightarrow>
       um_find AdvertisedEndpoint_keq (ComputeDelta AdvertisedEndpoint_keq new_state old_state) j = None)"
  using adv_key.ComputeDelta_in_step [OF assms] adv_key.ComputeDelta_unchanged [OF assms]
    adv_key.inv_ComputeDelta [OF assms(2)] by blast

theorem ComputeDelta_exact_and_minimal_witness:
  "let c = \<lparr>cep_container = ''c'', cep_endpoint = Endpoint_of_address (Address_quad 10 0 0 1) 80,
            cep_l4proto = TCP, cep_originator = None\<rparr>
   in sensor_view AdvertisedEndpoint_keq (active_in AdvertisedEndpoint_keq [(c, mk_ConnStatus 5 True)])
        (ComputeDelta AdvertisedEndpoint_keq [] [(c, mk_ConnStatus 5 True)]) =
      active_in AdvertisedEndpoint_keq []"
  unfolding Let_def by (rule ComputeDelta_exact_and_minimal [THEN conjunct1]) simp_all

lemma mk_idem: "IsActive s = a \<Longrightarrow> mk_ConnStatus (LastActiveTime s) a = s"
  by (simp add: ConnStatus_eq_iff)

lemma plain_when_no_glow:
  assumes "\<And>s. a = Some s \<Longrightarrow> LastActiveTime s \<le> t" "\<And>s. b = Some s \<Longrightarrow> LastActiveTime s \<le> t0" "t0 \<le> t"
  shows "afterglow_spec t t0 0 a b = delta_spec a b"
proof -
  have glow: "WasRecentlyActive s t' 0 = IsActive s" "\<not> IsInAfterglowPeriod s t' 0"
    if "LastActiveTime s \<le> t'" for s t'
    using that by (simp_all add: WasRecentlyActive_def IsInAfterglowPeriod_def)
  show ?thesis
    using assms glow by (cases a; cases b) (auto simp: SetActive_mk mk_idem dest: order_trans)
qed

text \<open>
  (C21) The afterglow algorithm generalises the plain one: with an afterglow period of zero, and no
  status from the future, the two compute the same delta between connection states.
\<close>

theorem afterglow_zero_is_ComputeDelta:
  assumes "um_inv Connection_keq new_state" "um_inv Connection_keq old_state"
    and "\<forall>(k, s) \<in> set new_state. LastActiveTime s \<le> t"
    and "\<forall>(k, s) \<in> set old_state. LastActiveTime s \<le> t0" "t0 \<le> t"
  shows "um_find Connection_keq (ComputeDeltaAfterglow Connection_keq new_state old_state [] t t0 0) =
    um_find Connection_keq (ComputeDelta Connection_keq new_state old_state)"
proof
  fix j
  show "um_find Connection_keq (ComputeDeltaAfterglow Connection_keq new_state old_state [] t t0 0) j =
    um_find Connection_keq (ComputeDelta Connection_keq new_state old_state) j"
    unfolding conn_key.find_ComputeDeltaAfterglow [OF assms(1,2)] conn_key.find_ComputeDelta [OF assms(1,2)]
    using assms(3-5) by (auto intro!: plain_when_no_glow dest!: um_find_SomeD)
qed

theorem afterglow_zero_is_ComputeDelta_witness:
  "let c = mk_Connection ''c'' Endpoint_default (Endpoint_of_address (Address_quad 8 8 8 8) 53) UDP False
   in um_find Connection_keq (ComputeDeltaAfterglow Connection_keq [] [(c, mk_ConnStatus 5 True)] [] 20 10 0) c =
      Some (mk_ConnStatus 5 False)"
  unfolding Let_def
  by (subst afterglow_zero_is_ComputeDelta)
    (simp_all add: conn_key.find_ComputeDelta conn_key.keq_refl SetActive_mk)

end
