(* ===== verification/Conn_Tracker.thy ===== *)
theory Conn_Tracker
  imports NRadix External_IPs Conn_Delta
begin

text \<open>
  \<^verbatim>\<open>ConnectionTracker\<close> of \<^verbatim>\<open>collector/lib/ConnTracker.h\<close> and \<^verbatim>\<open>ConnTracker.cpp\<close>: the tables of connections
  and listening endpoints, the configuration received from Sensor, and the operations on them. Each
  operation is one function on the state; interleavings of threads are sequences of these functions.
  That is what the mutex gives for the operations that take it. Three public operations do not:
  \<^verbatim>\<open>SetExternalIPsConfig\<close>, \<^verbatim>\<open>CloseConnectionsOnExternalIPsConfigChange\<close> and \<^verbatim>\<open>ShouldNormalizeConnection\<close>; nor do
  the two \<^verbatim>\<open>EmplaceOrUpdateNoLock\<close>. They too are atomic here, so a data race on what they touch is outside
  the model. The counters of \<^verbatim>\<open>CollectorStats\<close> the tracker moves are part of the state, at their width.
\<close>

section \<open>State\<close>

record Stats =
  inbound_public :: u32
  inbound_private :: u32
  outbound_public :: u32
  outbound_private :: u32

definition Stats_zero :: Stats where
  "Stats_zero = \<lparr>inbound_public = 0, inbound_private = 0, outbound_public = 0, outbound_private = 0\<rparr>"

record ConnectionTracker =
  ct_conn_state :: "Connection state"
  ct_endpoint_state :: "ContainerEndpoint state"
  ct_known_public_ips :: "Address set"
  ct_known_ip_networks :: nRadixNode
  ct_external_ips_config :: ExternalIPsConfig
  ct_known_private_networks_exists :: "Family \<rightharpoonup> bool"
  ct_ignored_l4proto_port_pairs :: "L4ProtoPortPair set"
  ct_ignored_networks :: nRadixNode
  ct_non_aggregated_networks :: nRadixNode
  ct_inserted_connections_counters :: Stats
  ct_net_conn_updates :: u64
  ct_net_cep_updates :: u64
  ct_net_conn_inactive :: u64
  ct_net_cep_inactive :: u64
  ct_net_known_ip_networks :: u64
  ct_net_known_public_ips :: u64

definition ConnectionTracker_init :: ConnectionTracker where
  "ConnectionTracker_init =
     \<lparr>ct_conn_state = [], ct_endpoint_state = [], ct_known_public_ips = {},
      ct_known_ip_networks = empty_node, ct_external_ips_config = ExternalIPsConfig_default,
      ct_known_private_networks_exists = Map.empty, ct_ignored_l4proto_port_pairs = {},
      ct_ignored_networks = empty_node, ct_non_aggregated_networks = empty_node,
      ct_inserted_connections_counters = Stats_zero, ct_net_conn_updates = 0, ct_net_cep_updates = 0,
      ct_net_conn_inactive = 0, ct_net_cep_inactive = 0, ct_net_known_ip_networks = 0,
      ct_net_known_public_ips = 0\<rparr>"

section \<open>Addresses and connections in normal form\<close>

definition canonical_external_ipv4_addr :: Address where
  "canonical_external_ipv4_addr = Address_quad 255 255 255 255"

definition canonical_external_ipv6_addr :: Address where
  "canonical_external_ipv6_addr = Address_ipv6 0xffffffffffffffff 0xffffffffffffffff"

definition private_networks_tree :: nRadixNode where
  "private_networks_tree = NRadixTree PrivateNetworks"

definition ContainsPrivateNetwork :: "Family \<Rightarrow> nRadixNode \<Rightarrow> bool" where
  "ContainsPrivateNetwork family tree \<longleftrightarrow>
     IsAnyIPNetSubset_family tree family private_networks_tree \<or>
     IsAnyIPNetSubset_family private_networks_tree family tree"

definition NormalizeAddressNoLock :: "ConnectionTracker \<Rightarrow> Address \<Rightarrow> bool \<Rightarrow> IPNet" where
  "NormalizeAddressNoLock ct address enable_external_ips =
     (if Address_IsNull address then IPNet_default
      else
        let private_addr = \<not> IsPublic address;
            do_not_aggregate_addr = \<not> IPNet_IsNull (Find_addr (ct_non_aggregated_networks ct) address);
            keep_addr = (private_addr \<or> do_not_aggregate_addr)
        in if keep_addr \<and> ct_known_private_networks_exists ct (addr_family address) = Some False
           then mk_IPNet address 0 True
           else
             let network = Find_addr (ct_known_ip_networks ct) address
             in if keep_addr \<or> address \<in> ct_known_public_ips ct
                then mk_IPNet address (ipn_bits network) True
                else if \<not> IPNet_IsNull network then network
                else if enable_external_ips then mk_IPNet address (addr_length address * 8) False
                else case addr_family address of
                       IPV4 \<Rightarrow> mk_IPNet canonical_external_ipv4_addr 0 True
                     | IPV6 \<Rightarrow> mk_IPNet canonical_external_ipv6_addr 0 True
                     | FUnknown \<Rightarrow> IPNet_default)"

definition ShouldNormalizeConnection :: "ConnectionTracker \<Rightarrow> Connection \<Rightarrow> bool" where
  "ShouldNormalizeConnection ct conn =
     IsCanonicalExternalIp (ipn_address (NormalizeAddressNoLock ct (ep_address (conn_remote conn)) False))"

definition should_close :: "ConnectionTracker \<Rightarrow> Connection \<Rightarrow> bool \<Rightarrow> bool" where
  "should_close ct conn enabling_extIPs =
     (if enabling_extIPs then IsCanonicalExternalIp (ep_address (conn_remote conn))
      else \<not> IsCanonicalExternalIp (ep_address (conn_remote conn)) \<and> ShouldNormalizeConnection ct conn)"

definition CloseConnectionsOnExternalIPsConfigChange ::
  "ConnectionTracker \<Rightarrow> ExternalIPsConfig \<Rightarrow> Connection state \<Rightarrow> Connection state \<Rightarrow>
   Connection state \<times> Connection state" where
  "CloseConnectionsOnExternalIPsConfigChange ct prev_config old_conn_state delta_conn =
     (let ingress = IsEnabled (ct_external_ips_config ct) INGRESS;
          egress = IsEnabled (ct_external_ips_config ct) EGRESS;
          (old1, delta1) =
            (if egress \<noteq> IsEnabled prev_config EGRESS
             then CloseConnections Connection_keq
                    (\<lambda>conn. \<not> conn_is_server conn \<and> should_close ct conn egress) old_conn_state delta_conn
             else (old_conn_state, delta_conn))
      in if ingress \<noteq> IsEnabled prev_config INGRESS
         then CloseConnections Connection_keq
                (\<lambda>conn. conn_is_server conn \<and> should_close ct conn ingress) old1 delta1
         else (old1, delta1))"

definition NormalizeConnectionNoLock :: "ConnectionTracker \<Rightarrow> Connection \<Rightarrow> Connection" where
  "NormalizeConnectionNoLock ct conn =
     (let is_server =
            (if conn_l4proto conn = UDP
             then IsEphemeralPort (ep_port (conn_remote conn)) > IsEphemeralPort (ep_port (conn_local conn))
             else conn_is_server conn);
          extIPs_ingress = IsEnabled (ct_external_ips_config ct) INGRESS;
          extIPs_egress = IsEnabled (ct_external_ips_config ct) EGRESS
      in if is_server then
           mk_Connection (conn_container conn)
             (mk_Endpoint (IPNet_of_address Address_default) (ep_port (conn_local conn)))
             (mk_Endpoint (NormalizeAddressNoLock ct (ep_address (conn_remote conn)) extIPs_ingress) 0)
             (conn_l4proto conn) is_server
         else
           mk_Connection (conn_container conn) Endpoint_default
             (mk_Endpoint (NormalizeAddressNoLock ct (ep_address (conn_remote conn)) extIPs_egress)
                (ep_port (conn_remote conn)))
             (conn_l4proto conn) is_server)"

definition NormalizeContainerEndpoint :: "ContainerEndpoint \<Rightarrow> ContainerEndpoint" where
  "NormalizeContainerEndpoint cep =
     (let ep = cep_endpoint cep
      in \<lparr>cep_container = cep_container cep,
          cep_endpoint = Endpoint_of_address (Address_any (addr_family (ep_address ep))) (ep_port ep),
          cep_l4proto = cep_l4proto cep, cep_originator = cep_originator cep\<rparr>)"

section \<open>Filters and statistics\<close>

definition HasConnectionFilters :: "ConnectionTracker \<Rightarrow> bool" where
  "HasConnectionFilters ct \<longleftrightarrow> ct_ignored_l4proto_port_pairs ct \<noteq> {} \<or> \<not> IsEmpty (ct_ignored_networks ct)"

definition IsIgnoredL4ProtoPortPair :: "ConnectionTracker \<Rightarrow> L4ProtoPortPair \<Rightarrow> bool" where
  "IsIgnoredL4ProtoPortPair ct p \<longleftrightarrow> p \<in> ct_ignored_l4proto_port_pairs ct"

definition ShouldFetchConnection :: "ConnectionTracker \<Rightarrow> Connection \<Rightarrow> bool" where
  "ShouldFetchConnection ct conn \<longleftrightarrow>
     \<not> IsIgnoredL4ProtoPortPair ct (conn_l4proto conn, ep_port (conn_local conn)) \<and>
     \<not> IsIgnoredL4ProtoPortPair ct (conn_l4proto conn, ep_port (conn_remote conn)) \<and>
     IPNet_IsNull (Find_addr (ct_ignored_networks ct) (ep_address (conn_remote conn)))"

definition ShouldFetchContainerEndpoint :: "ConnectionTracker \<Rightarrow> ContainerEndpoint \<Rightarrow> bool" where
  "ShouldFetchContainerEndpoint ct cep \<longleftrightarrow>
     \<not> IsIgnoredL4ProtoPortPair ct (cep_l4proto cep, ep_port (cep_endpoint cep))"

definition IncrementConnectionStats :: "ConnectionTracker \<Rightarrow> Connection \<Rightarrow> Stats \<Rightarrow> Stats" where
  "IncrementConnectionStats ct conn stats =
     (if \<not> ShouldFetchConnection ct conn then stats
      else if conn_is_server conn then
        (if IsPublic (ep_address (conn_remote conn))
         then stats\<lparr>inbound_public := inbound_public stats + 1\<rparr>
         else stats\<lparr>inbound_private := inbound_private stats + 1\<rparr>)
      else
        (if IsPublic (ep_address (conn_remote conn))
         then stats\<lparr>outbound_public := outbound_public stats + 1\<rparr>
         else stats\<lparr>outbound_private := outbound_private stats + 1\<rparr>))"

definition GetConnectionStats_StoredConnections :: "ConnectionTracker \<Rightarrow> Stats" where
  "GetConnectionStats_StoredConnections ct =
     fold (\<lambda>(k, s). IncrementConnectionStats ct k) (ct_conn_state ct) Stats_zero"

definition GetConnectionStats_NewConnectionCounters :: "ConnectionTracker \<Rightarrow> Stats" where
  "GetConnectionStats_NewConnectionCounters ct = ct_inserted_connections_counters ct"

section \<open>Recording connections\<close>

definition EmplaceOrUpdateNoLock :: "Connection \<Rightarrow> ConnStatus \<Rightarrow> ConnectionTracker \<Rightarrow> ConnectionTracker" where
  "EmplaceOrUpdateNoLock conn status ct =
     (let ct1 = ct\<lparr>ct_net_conn_updates := ct_net_conn_updates ct + 1\<rparr>;
          (state', added) = EmplaceOrUpdate Connection_keq (ct_conn_state ct1) conn status;
          ct2 = ct1\<lparr>ct_conn_state := state'\<rparr>
      in if added
         then ct2\<lparr>ct_inserted_connections_counters :=
                    IncrementConnectionStats ct2 conn (ct_inserted_connections_counters ct2)\<rparr>
         else ct2)"

definition EmplaceOrUpdateNoLock_endpoint ::
  "ContainerEndpoint \<Rightarrow> ConnStatus \<Rightarrow> ConnectionTracker \<Rightarrow> ConnectionTracker" where
  "EmplaceOrUpdateNoLock_endpoint ep status ct =
     (let ct1 = ct\<lparr>ct_net_cep_updates := ct_net_cep_updates ct + 1\<rparr>
      in ct1\<lparr>ct_endpoint_state := fst (EmplaceOrUpdate ContainerEndpoint_keq (ct_endpoint_state ct1) ep status)\<rparr>)"

definition UpdateConnection :: "Connection \<Rightarrow> int \<Rightarrow> bool \<Rightarrow> ConnectionTracker \<Rightarrow> ConnectionTracker" where
  "UpdateConnection conn timestamp added ct = EmplaceOrUpdateNoLock conn (mk_ConnStatus timestamp added) ct"

definition AddConnection :: "Connection \<Rightarrow> int \<Rightarrow> ConnectionTracker \<Rightarrow> ConnectionTracker" where
  "AddConnection conn timestamp = UpdateConnection conn timestamp True"

definition RemoveConnection :: "Connection \<Rightarrow> int \<Rightarrow> ConnectionTracker \<Rightarrow> ConnectionTracker" where
  "RemoveConnection conn timestamp = UpdateConnection conn timestamp False"

definition set_all_inactive :: "'k state \<Rightarrow> 'k state" where
  "set_all_inactive m = map (\<lambda>(k, s). (k, SetActive s False)) m"

definition Update :: "Connection list \<Rightarrow> ContainerEndpoint list \<Rightarrow> int \<Rightarrow> ConnectionTracker \<Rightarrow> ConnectionTracker" where
  "Update all_conns all_listen_endpoints timestamp ct =
     (let ct1 = ct\<lparr>ct_conn_state := set_all_inactive (ct_conn_state ct),
                   ct_endpoint_state := set_all_inactive (ct_endpoint_state ct)\<rparr>;
          new_status = mk_ConnStatus timestamp True;
          ct2 = fold (\<lambda>curr_conn. EmplaceOrUpdateNoLock curr_conn new_status) all_conns ct1
      in fold (\<lambda>curr_endpoint. EmplaceOrUpdateNoLock_endpoint curr_endpoint new_status) all_listen_endpoints ct2)"

section \<open>Fetching\<close>

definition FetchConnState :: "bool \<Rightarrow> bool \<Rightarrow> ConnectionTracker \<Rightarrow> Connection state \<times> ConnectionTracker" where
  "FetchConnState do_normalize clear_inactive ct =
     (let state_size = length (ct_conn_state ct);
          (cm, rest) =
            (if HasConnectionFilters ct then
               (if do_normalize
                then FetchState Connection_keq (ct_conn_state ct) clear_inactive
                       (Some (NormalizeConnectionNoLock ct)) (Some (ShouldFetchConnection ct))
                else FetchState Connection_keq (ct_conn_state ct) clear_inactive
                       None (Some (ShouldFetchConnection ct)))
             else
               (if do_normalize
                then FetchState Connection_keq (ct_conn_state ct) clear_inactive
                       (Some (NormalizeConnectionNoLock ct)) None
                else FetchState Connection_keq (ct_conn_state ct) clear_inactive None None))
      in (cm, ct\<lparr>ct_conn_state := rest,
                 ct_net_conn_inactive := ct_net_conn_inactive ct + (of_nat state_size - of_nat (length rest))\<rparr>))"

text \<open>The size taken before the loop is that of the connection table, in this operation too.\<close>

definition FetchEndpointState ::
  "bool \<Rightarrow> bool \<Rightarrow> ConnectionTracker \<Rightarrow> ContainerEndpoint state \<times> ConnectionTracker" where
  "FetchEndpointState do_normalize clear_inactive ct =
     (let state_size = length (ct_conn_state ct);
          (cem, rest) =
            (if HasConnectionFilters ct then
               (if do_normalize
                then FetchState AdvertisedEndpoint_keq (ct_endpoint_state ct) clear_inactive
                       (Some NormalizeContainerEndpoint) (Some (ShouldFetchContainerEndpoint ct))
                else FetchState AdvertisedEndpoint_keq (ct_endpoint_state ct) clear_inactive
                       None (Some (ShouldFetchContainerEndpoint ct)))
             else
               (if do_normalize
                then FetchState AdvertisedEndpoint_keq (ct_endpoint_state ct) clear_inactive
                       (Some NormalizeContainerEndpoint) None
                else FetchState AdvertisedEndpoint_keq (ct_endpoint_state ct) clear_inactive None None))
      in (cem, ct\<lparr>ct_endpoint_state := rest,
                  ct_net_cep_inactive := ct_net_cep_inactive ct + (of_nat state_size - of_nat (length rest))\<rparr>))"

section \<open>Configuration\<close>

definition UpdateKnownPublicIPs :: "Address set \<Rightarrow> ConnectionTracker \<Rightarrow> ConnectionTracker" where
  "UpdateKnownPublicIPs known_public_ips ct =
     ct\<lparr>ct_net_known_public_ips := of_nat (card known_public_ips), ct_known_public_ips := known_public_ips\<rparr>"

definition SetExternalIPsConfig :: "ExternalIPsConfig \<Rightarrow> ConnectionTracker \<Rightarrow> ConnectionTracker" where
  "SetExternalIPsConfig config ct = ct\<lparr>ct_external_ips_config := config\<rparr>"

definition known_networks_tree :: "(Family \<times> IPNet list) list \<Rightarrow> nRadixNode" where
  "known_networks_tree known =
     fold (\<lambda>(family, networks) tree. fold (\<lambda>network tree. fst (Insert tree network)) networks tree) known empty_node"

definition UpdateKnownIPNetworks :: "(Family \<times> IPNet list) list \<Rightarrow> ConnectionTracker \<Rightarrow> ConnectionTracker" where
  "UpdateKnownIPNetworks known ct =
     (let tree = known_networks_tree known
      in ct\<lparr>ct_net_known_ip_networks :=
              fold (\<lambda>(family, networks) n. n + of_nat (length networks)) known 0,
            ct_known_ip_networks := tree,
            ct_known_private_networks_exists :=
              fold (\<lambda>(family, networks) m. m(family \<mapsto> ContainsPrivateNetwork family tree)) known Map.empty\<rparr>)"

definition UpdateIgnoredL4ProtoPortPairs :: "L4ProtoPortPair set \<Rightarrow> ConnectionTracker \<Rightarrow> ConnectionTracker" where
  "UpdateIgnoredL4ProtoPortPairs pairs ct = ct\<lparr>ct_ignored_l4proto_port_pairs := pairs\<rparr>"

definition UpdateIgnoredNetworks :: "IPNet list \<Rightarrow> ConnectionTracker \<Rightarrow> ConnectionTracker" where
  "UpdateIgnoredNetworks network_list ct = ct\<lparr>ct_ignored_networks := NRadixTree network_list\<rparr>"

definition UpdateNonAggregatedNetworks :: "IPNet list \<Rightarrow> ConnectionTracker \<Rightarrow> ConnectionTracker" where
  "UpdateNonAggregatedNetworks network_list ct = ct\<lparr>ct_non_aggregated_networks := NRadixTree network_list\<rparr>"

section \<open>The invariant and the reachable states\<close>

text \<open>Keys are unique in both tables, and the network trees have their root node.\<close>

definition ct_inv :: "ConnectionTracker \<Rightarrow> bool" where
  "ct_inv ct \<longleftrightarrow> um_inv Connection_keq (ct_conn_state ct) \<and> um_inv ContainerEndpoint_keq (ct_endpoint_state ct) \<and>
     ct_known_ip_networks ct \<noteq> NullNode \<and> ct_ignored_networks ct \<noteq> NullNode \<and>
     ct_non_aggregated_networks ct \<noteq> NullNode"

text \<open>
  What other threads can do to a tracker: any sequence of its public operations, those the class
  offers without the lock included.
\<close>

inductive ct_step :: "ConnectionTracker \<Rightarrow> ConnectionTracker \<Rightarrow> bool" where
  step_UpdateConnection: "ct_step ct (UpdateConnection conn ts added ct)"
| step_EmplaceOrUpdateNoLock: "ct_step ct (EmplaceOrUpdateNoLock conn status ct)"
| step_EmplaceOrUpdateNoLock_endpoint: "ct_step ct (EmplaceOrUpdateNoLock_endpoint ep status ct)"
| step_Update: "ct_step ct (Update conns eps ts ct)"
| step_FetchConnState: "ct_step ct (snd (FetchConnState n c ct))"
| step_FetchEndpointState: "ct_step ct (snd (FetchEndpointState n c ct))"
| step_UpdateKnownPublicIPs: "ct_step ct (UpdateKnownPublicIPs ips ct)"
| step_UpdateKnownIPNetworks: "ct_step ct (UpdateKnownIPNetworks known ct)"
| step_SetExternalIPsConfig: "ct_step ct (SetExternalIPsConfig cfg ct)"
| step_UpdateIgnoredL4ProtoPortPairs: "ct_step ct (UpdateIgnoredL4ProtoPortPairs pairs ct)"
| step_UpdateIgnoredNetworks: "ct_step ct (UpdateIgnoredNetworks nets ct)"
| step_UpdateNonAggregatedNetworks: "ct_step ct (UpdateNonAggregatedNetworks nets ct)"

inductive_cases ct_stepE: "ct_step ct ct'"

lemma EmplaceOrUpdateNoLock_sel [simp]:
  "ct_conn_state (EmplaceOrUpdateNoLock c s ct) = fst (EmplaceOrUpdate Connection_keq (ct_conn_state ct) c s)"
  "ct_endpoint_state (EmplaceOrUpdateNoLock c s ct) = ct_endpoint_state ct"
  "ct_known_ip_networks (EmplaceOrUpdateNoLock c s ct) = ct_known_ip_networks ct"
  "ct_ignored_networks (EmplaceOrUpdateNoLock c s ct) = ct_ignored_networks ct"
  "ct_non_aggregated_networks (EmplaceOrUpdateNoLock c s ct) = ct_non_aggregated_networks ct"
  by (simp_all add: EmplaceOrUpdateNoLock_def Let_def split: prod.split)

lemma EmplaceOrUpdateNoLock_endpoint_sel [simp]:
  "ct_conn_state (EmplaceOrUpdateNoLock_endpoint e s ct) = ct_conn_state ct"
  "ct_endpoint_state (EmplaceOrUpdateNoLock_endpoint e s ct) =
     fst (EmplaceOrUpdate ContainerEndpoint_keq (ct_endpoint_state ct) e s)"
  "ct_known_ip_networks (EmplaceOrUpdateNoLock_endpoint e s ct) = ct_known_ip_networks ct"
  "ct_ignored_networks (EmplaceOrUpdateNoLock_endpoint e s ct) = ct_ignored_networks ct"
  "ct_non_aggregated_networks (EmplaceOrUpdateNoLock_endpoint e s ct) = ct_non_aggregated_networks ct"
  by (simp_all add: EmplaceOrUpdateNoLock_endpoint_def Let_def)

lemma fold_conns_sel [simp]:
  "ct_conn_state (fold (\<lambda>c. EmplaceOrUpdateNoLock c s) conns ct) =
     fold (\<lambda>c m. fst (EmplaceOrUpdate Connection_keq m c s)) conns (ct_conn_state ct)"
  "ct_endpoint_state (fold (\<lambda>c. EmplaceOrUpdateNoLock c s) conns ct) = ct_endpoint_state ct"
  "ct_known_ip_networks (fold (\<lambda>c. EmplaceOrUpdateNoLock c s) conns ct) = ct_known_ip_networks ct"
  "ct_ignored_networks (fold (\<lambda>c. EmplaceOrUpdateNoLock c s) conns ct) = ct_ignored_networks ct"
  "ct_non_aggregated_networks (fold (\<lambda>c. EmplaceOrUpdateNoLock c s) conns ct) = ct_non_aggregated_networks ct"
  by (induction conns arbitrary: ct) simp_all

lemma fold_endpoints_sel [simp]:
  "ct_conn_state (fold (\<lambda>e. EmplaceOrUpdateNoLock_endpoint e s) eps ct) = ct_conn_state ct"
  "ct_endpoint_state (fold (\<lambda>e. EmplaceOrUpdateNoLock_endpoint e s) eps ct) =
     fold (\<lambda>e m. fst (EmplaceOrUpdate ContainerEndpoint_keq m e s)) eps (ct_endpoint_state ct)"
  "ct_known_ip_networks (fold (\<lambda>e. EmplaceOrUpdateNoLock_endpoint e s) eps ct) = ct_known_ip_networks ct"
  "ct_ignored_networks (fold (\<lambda>e. EmplaceOrUpdateNoLock_endpoint e s) eps ct) = ct_ignored_networks ct"
  "ct_non_aggregated_networks (fold (\<lambda>e. EmplaceOrUpdateNoLock_endpoint e s) eps ct) = ct_non_aggregated_networks ct"
  by (induction eps arbitrary: ct) simp_all

lemma Update_sel [simp]:
  "ct_conn_state (Update conns eps ts ct) =
     fold (\<lambda>c m. fst (EmplaceOrUpdate Connection_keq m c (mk_ConnStatus ts True))) conns
       (set_all_inactive (ct_conn_state ct))"
  "ct_endpoint_state (Update conns eps ts ct) =
     fold (\<lambda>e m. fst (EmplaceOrUpdate ContainerEndpoint_keq m e (mk_ConnStatus ts True))) eps
       (set_all_inactive (ct_endpoint_state ct))"
  "ct_known_ip_networks (Update conns eps ts ct) = ct_known_ip_networks ct"
  "ct_ignored_networks (Update conns eps ts ct) = ct_ignored_networks ct"
  "ct_non_aggregated_networks (Update conns eps ts ct) = ct_non_aggregated_networks ct"
  by (simp_all add: Update_def Let_def)

lemma fold_emplace_inv:
  assumes "\<And>m k. um_inv keq m \<Longrightarrow> um_inv keq (fst (EmplaceOrUpdate keq m k s))" "um_inv keq m"
  shows "um_inv keq (fold (\<lambda>k m. fst (EmplaceOrUpdate keq m k s)) ks m)"
  using assms(2) by (induction ks arbitrary: m) (simp_all add: assms(1))

lemma um_inv_set_all_inactive [simp]: "um_inv keq (set_all_inactive m) = um_inv keq m"
  by (simp add: set_all_inactive_def um_inv_map_values)

lemma find_set_all_inactive [simp]:
  "um_find keq (set_all_inactive m) j = map_option (\<lambda>s. SetActive s False) (um_find keq m j)"
  by (simp add: set_all_inactive_def um_find_map_values)

text \<open>Fetching leaves the active entries, or all of them, and touches nothing else.\<close>

lemma snd_FetchState:
  "snd (FetchState keq m clear p f) = filter (\<lambda>(k, s). \<not> (clear \<and> \<not> IsActive s)) m"
  by (simp add: FetchState_def fetch_loop_eq)

lemma FetchConnState_sel [simp]:
  "ct_conn_state (snd (FetchConnState n c ct)) = filter (\<lambda>(k, s). \<not> (c \<and> \<not> IsActive s)) (ct_conn_state ct)"
  "ct_endpoint_state (snd (FetchConnState n c ct)) = ct_endpoint_state ct"
  "ct_known_ip_networks (snd (FetchConnState n c ct)) = ct_known_ip_networks ct"
  "ct_ignored_networks (snd (FetchConnState n c ct)) = ct_ignored_networks ct"
  "ct_non_aggregated_networks (snd (FetchConnState n c ct)) = ct_non_aggregated_networks ct"
  by (simp_all add: FetchConnState_def Let_def FetchState_def fetch_loop_eq)

lemma FetchEndpointState_sel [simp]:
  "ct_conn_state (snd (FetchEndpointState n c ct)) = ct_conn_state ct"
  "ct_endpoint_state (snd (FetchEndpointState n c ct)) =
     filter (\<lambda>(k, s). \<not> (c \<and> \<not> IsActive s)) (ct_endpoint_state ct)"
  "ct_known_ip_networks (snd (FetchEndpointState n c ct)) = ct_known_ip_networks ct"
  "ct_ignored_networks (snd (FetchEndpointState n c ct)) = ct_ignored_networks ct"
  "ct_non_aggregated_networks (snd (FetchEndpointState n c ct)) = ct_non_aggregated_networks ct"
  by (simp_all add: FetchEndpointState_def Let_def FetchState_def fetch_loop_eq)

lemma known_networks_tree_concat: "known_networks_tree known = NRadixTree (concat (map snd known))"
proof -
  have "fold (\<lambda>(family, networks) tree. fold (\<lambda>network tree. fst (Insert tree network)) networks tree) known t =
      fold (\<lambda>network tree. fst (Insert tree network)) (concat (map snd known)) t" for t
    by (induction known arbitrary: t) auto
  then show ?thesis by (simp add: known_networks_tree_def NRadixTree_def)
qed

lemma ct_inv_init: "ct_inv ConnectionTracker_init"
  by (simp add: ct_inv_def ConnectionTracker_init_def empty_node_def)

lemma ct_inv_step: "ct_step ct ct' \<Longrightarrow> ct_inv ct \<Longrightarrow> ct_inv ct'"
  by (erule ct_step.cases)
    (auto simp: ct_inv_def UpdateConnection_def UpdateKnownPublicIPs_def UpdateKnownIPNetworks_def
      SetExternalIPsConfig_def UpdateIgnoredL4ProtoPortPairs_def UpdateIgnoredNetworks_def
      UpdateNonAggregatedNetworks_def Let_def known_networks_tree_concat um_inv_filter
      conn_key.inv_EmplaceOrUpdate cep_key.inv_EmplaceOrUpdate
      intro!: fold_emplace_inv)

section \<open>Lookups after the operations\<close>

lemma find_UpdateConnection:
  "um_find Connection_keq (ct_conn_state (UpdateConnection c t a ct)) j =
     (if Connection_keq c j
      then (case um_find Connection_keq (ct_conn_state ct) j of None \<Rightarrow> Some (mk_ConnStatus t a)
            | Some st \<Rightarrow> Some (if LastActiveTime st < LastActiveTime (mk_ConnStatus t a) then mk_ConnStatus t a else st))
      else um_find Connection_keq (ct_conn_state ct) j)"
  by (simp add: UpdateConnection_def conn_key.find_EmplaceOrUpdate)

text \<open>Sightings of several keys with one status.\<close>

context key_equality
begin

lemma find_fold_sightings:
  "um_find keq (fold (\<lambda>k m. fst (EmplaceOrUpdate keq m k s)) ks m) j =
     (if \<exists>k \<in> set ks. keq k j
      then Some (case um_find keq m j of None \<Rightarrow> s
                 | Some st \<Rightarrow> if LastActiveTime st < LastActiveTime s then s else st)
      else um_find keq m j)"
  by (induction ks arbitrary: m) (auto simp: find_EmplaceOrUpdate split: option.splits)

end

lemma Find_addr_empty:
  assumes "IsEmpty t"
  shows "Find_addr t a = IPNet_default"
proof -
  have "find_walk n (RNode None NullNode NullNode) c IPNet_default = IPNet_default" for n c
    by (simp split: option.splits)
  moreover have "t = RNode None NullNode NullNode"
    using assms by (cases t) (auto simp: IsEmpty_def)
  ultimately show ?thesis by (simp add: Find_addr_def Find_def Let_def del: find_walk.simps)
qed

lemma IPNet_IsNull_default [simp]: "IPNet_IsNull IPNet_default"
  by (simp add: IPNet_IsNull_def IPNet_default_def Address_IsNull_def Address_default_def Address_any_def)

lemma no_filters_pass:
  assumes "\<not> HasConnectionFilters ct"
  shows "ShouldFetchConnection ct c" "ShouldFetchContainerEndpoint ct e"
  using assms
  by (simp_all add: HasConnectionFilters_def ShouldFetchConnection_def ShouldFetchContainerEndpoint_def
      IsIgnoredL4ProtoPortPair_def Find_addr_empty IPNet_IsNull_default)

lemma fetch_filter_cong:
  "(\<And>k s. (k, s) \<in> set state \<Longrightarrow> fetch_passes f k = fetch_passes g k) \<Longrightarrow>
   FetchState keq state c p f = FetchState keq state c p g"
proof -
  assume same: "\<And>k s. (k, s) \<in> set state \<Longrightarrow> fetch_passes f k = fetch_passes g k"
  have "fold (fetch_one keq p f) state d = fold (fetch_one keq p g) state d" for d
    by (rule fold_cong) (use same in \<open>auto simp: fetch_one_def fetch_passes_def [symmetric] intro!: ext\<close>)
  then show ?thesis by (simp add: FetchState_def fetch_loop_eq)
qed

lemma FetchConnState_uniform:
  "fst (FetchConnState n c ct) =
     fst (FetchState Connection_keq (ct_conn_state ct) c
       (if n then Some (NormalizeConnectionNoLock ct) else None) (Some (ShouldFetchConnection ct)))"
proof (cases "HasConnectionFilters ct")
  case True
  then show ?thesis by (simp add: FetchConnState_def Let_def split: prod.split)
next
  case False
  then have "FetchState Connection_keq (ct_conn_state ct) c p None =
      FetchState Connection_keq (ct_conn_state ct) c p (Some (ShouldFetchConnection ct))" for p
    by (intro fetch_filter_cong) (simp add: fetch_passes_def no_filters_pass)
  then show ?thesis using False by (simp add: FetchConnState_def Let_def split: prod.split)
qed

lemma FetchEndpointState_uniform:
  "fst (FetchEndpointState n c ct) =
     fst (FetchState AdvertisedEndpoint_keq (ct_endpoint_state ct) c
       (if n then Some NormalizeContainerEndpoint else None) (Some (ShouldFetchContainerEndpoint ct)))"
proof (cases "HasConnectionFilters ct")
  case True
  then show ?thesis by (simp add: FetchEndpointState_def Let_def split: prod.split)
next
  case False
  then have "FetchState AdvertisedEndpoint_keq (ct_endpoint_state ct) c p None =
      FetchState AdvertisedEndpoint_keq (ct_endpoint_state ct) c p (Some (ShouldFetchContainerEndpoint ct))" for p
    by (intro fetch_filter_cong) (simp add: fetch_passes_def no_filters_pass)
  then show ?thesis using False by (simp add: FetchEndpointState_def Let_def split: prod.split)
qed

section \<open>Properties\<close>

text \<open>
  The order in which the status of a stored entry moves: the time never goes back, and an inactive
  entry becomes active only with a later time.
\<close>

definition status_advances :: "ConnStatus \<Rightarrow> ConnStatus \<Rightarrow> bool" where
  "status_advances s s' \<longleftrightarrow>
     LastActiveTime s < LastActiveTime s' \<or> LastActiveTime s = LastActiveTime s' \<and> (IsActive s' \<longrightarrow> IsActive s)"

definition entry_advances :: "ConnStatus option \<Rightarrow> ConnStatus option \<Rightarrow> bool" where
  "entry_advances a b =
     (case a of None \<Rightarrow> True
      | Some s \<Rightarrow> (case b of None \<Rightarrow> \<not> IsActive s | Some s' \<Rightarrow> status_advances s s'))"

context key_equality
begin

lemma advances_EmplaceOrUpdate:
  "entry_advances (um_find keq m j) (um_find keq (fst (EmplaceOrUpdate keq m k s)) j)"
  by (auto simp: find_EmplaceOrUpdate entry_advances_def status_advances_def split: option.splits)

lemma advances_scrape:
  "entry_advances (um_find keq m j)
     (um_find keq (fold (\<lambda>k m. fst (EmplaceOrUpdate keq m k s)) ks (set_all_inactive m)) j)"
  by (auto simp: find_fold_sightings entry_advances_def status_advances_def split: option.splits)

lemma advances_fetch:
  "um_inv keq m \<Longrightarrow> entry_advances (um_find keq m j) (um_find keq (filter (\<lambda>(k, s). c \<longrightarrow> IsActive s) m) j)"
  by (auto simp: find_filter entry_advances_def status_advances_def split: option.splits)

end

lemma entry_advances_refl [simp]: "entry_advances a a"
  by (simp add: entry_advances_def status_advances_def split: option.split)

text \<open>
  (C9) No public operation, in any state a tracker can reach, loses an active connection or listening
  endpoint or takes its status back: a stored entry disappears only while it is inactive, its time
  never decreases, and it turns from inactive to active only with a later time. So a late or repeated
  event cannot revive a closed connection.
\<close>

theorem tracker_keeps_active:
  assumes "ct_step\<^sup>*\<^sup>* ConnectionTracker_init ct" "ct_step ct ct'"
  shows "entry_advances (um_find Connection_keq (ct_conn_state ct) c) (um_find Connection_keq (ct_conn_state ct') c) \<and>
    entry_advances (um_find ContainerEndpoint_keq (ct_endpoint_state ct) e)
      (um_find ContainerEndpoint_keq (ct_endpoint_state ct') e)"
proof -
  from assms(1) have "ct_inv ct" by induction (auto intro: ct_inv_init ct_inv_step)
  then have inv: "um_inv Connection_keq (ct_conn_state ct)" "um_inv ContainerEndpoint_keq (ct_endpoint_state ct)"
    by (simp_all add: ct_inv_def)
  from assms(2) show ?thesis
    by cases
      (simp_all add: UpdateConnection_def UpdateKnownPublicIPs_def UpdateKnownIPNetworks_def SetExternalIPsConfig_def
        UpdateIgnoredL4ProtoPortPairs_def UpdateIgnoredNetworks_def UpdateNonAggregatedNetworks_def Let_def
        conn_key.advances_EmplaceOrUpdate cep_key.advances_EmplaceOrUpdate conn_key.advances_scrape
        cep_key.advances_scrape conn_key.advances_fetch [OF inv(1)] cep_key.advances_fetch [OF inv(2)])
qed

theorem tracker_keeps_active_witness:
  "let ct = UpdateConnection Connection_default 7 True ConnectionTracker_init;
       ct' = UpdateConnection Connection_default 5 False ct
   in um_find Connection_keq (ct_conn_state ct) Connection_default = Some (mk_ConnStatus 7 True) \<and>
      entry_advances (um_find Connection_keq (ct_conn_state ct) Connection_default)
        (um_find Connection_keq (ct_conn_state ct') Connection_default)"
proof -
  let ?ct = "UpdateConnection Connection_default 7 True ConnectionTracker_init"
  have "ct_step\<^sup>*\<^sup>* ConnectionTracker_init ?ct" by (intro r_into_rtranclp step_UpdateConnection)
  note tracker_keeps_active [OF this step_UpdateConnection, THEN conjunct1]
  then show ?thesis
    unfolding Let_def by (simp add: find_UpdateConnection conn_key.keq_refl ConnectionTracker_init_def)
qed

text \<open>
  Connection events may arrive out of order. Two events with different timestamps leave the same
  statuses behind in either order, the later one deciding, and events of different connections
  never interfere.
\<close>

theorem UpdateConnection_order_irrelevant:
  assumes "0 \<le> t1" "t1 < 2 ^ 63" "0 \<le> t2" "t2 < 2 ^ 63" "Connection_keq c d \<longrightarrow> t1 \<noteq> t2"
  shows "um_find Connection_keq (ct_conn_state (UpdateConnection c t1 a1 (UpdateConnection d t2 a2 ct))) =
         um_find Connection_keq (ct_conn_state (UpdateConnection d t2 a2 (UpdateConnection c t1 a1 ct)))"
proof
  fix j
  have same: "Connection_keq c d" if "Connection_keq c j" "Connection_keq d j"
    using that conn_key.keq_sym conn_key.keq_trans by blast
  show "um_find Connection_keq (ct_conn_state (UpdateConnection c t1 a1 (UpdateConnection d t2 a2 ct))) j =
        um_find Connection_keq (ct_conn_state (UpdateConnection d t2 a2 (UpdateConnection c t1 a1 ct))) j"
    using assms same by (auto simp: find_UpdateConnection split: option.splits)
qed

theorem UpdateConnection_order_irrelevant_witness:
  "um_find Connection_keq (ct_conn_state (UpdateConnection Connection_default 7 False
     (UpdateConnection Connection_default 9 True ConnectionTracker_init))) Connection_default =
   Some (mk_ConnStatus 9 True)"
  by (subst UpdateConnection_order_irrelevant)
    (simp_all add: find_UpdateConnection conn_key.keq_refl ConnectionTracker_init_def)

text \<open>
  (C19) After a scrape the active connections and endpoints are exactly the scraped ones. Where every
  stored time is earlier than that of the scrape, a scraped entry is inserted or marked as active at the
  time of the scrape, and any other stored entry stays with its time and becomes inactive; nothing is
  forgotten.
\<close>

theorem Update_scrape_effect:
  assumes "0 \<le> ts" "ts < 2 ^ 63"
    and "\<forall>(k, s) \<in> set (ct_conn_state ct). LastActiveTime s < ts"
    and "\<forall>(k, s) \<in> set (ct_endpoint_state ct). LastActiveTime s < ts"
  shows "let ct' = Update all_conns all_listen_endpoints ts ct
    in um_find Connection_keq (ct_conn_state ct') c =
         (if \<exists>d \<in> set all_conns. Connection_keq d c then Some (mk_ConnStatus ts True)
          else map_option (\<lambda>s. mk_ConnStatus (LastActiveTime s) False) (um_find Connection_keq (ct_conn_state ct) c)) \<and>
       um_find ContainerEndpoint_keq (ct_endpoint_state ct') e =
         (if \<exists>d \<in> set all_listen_endpoints. ContainerEndpoint_keq d e then Some (mk_ConnStatus ts True)
          else map_option (\<lambda>s. mk_ConnStatus (LastActiveTime s) False)
                 (um_find ContainerEndpoint_keq (ct_endpoint_state ct) e)) \<and>
       (active_in Connection_keq (ct_conn_state ct') c \<longleftrightarrow> (\<exists>d \<in> set all_conns. Connection_keq d c)) \<and>
       (active_in ContainerEndpoint_keq (ct_endpoint_state ct') e \<longleftrightarrow>
          (\<exists>d \<in> set all_listen_endpoints. ContainerEndpoint_keq d e))"
proof -
  have earlier: "LastActiveTime s < ts" if "um_find Connection_keq (ct_conn_state ct) c = Some s" for s
    using um_find_SomeD [OF that] assms(3) by blast
  have earlier_ep: "LastActiveTime s < ts" if "um_find ContainerEndpoint_keq (ct_endpoint_state ct) e = Some s" for s
    using um_find_SomeD [OF that] assms(4) by blast
  have "um_find Connection_keq (ct_conn_state (Update all_conns all_listen_endpoints ts ct)) c =
       (if \<exists>d \<in> set all_conns. Connection_keq d c then Some (mk_ConnStatus ts True)
        else map_option (\<lambda>s. mk_ConnStatus (LastActiveTime s) False) (um_find Connection_keq (ct_conn_state ct) c))"
    using assms(1,2) earlier by (auto simp: conn_key.find_fold_sightings SetActive_mk split: option.splits)
  moreover have "um_find ContainerEndpoint_keq (ct_endpoint_state (Update all_conns all_listen_endpoints ts ct)) e =
       (if \<exists>d \<in> set all_listen_endpoints. ContainerEndpoint_keq d e then Some (mk_ConnStatus ts True)
        else map_option (\<lambda>s. mk_ConnStatus (LastActiveTime s) False)
               (um_find ContainerEndpoint_keq (ct_endpoint_state ct) e))"
    using assms(1,2) earlier_ep by (auto simp: cep_key.find_fold_sightings SetActive_mk split: option.splits)
  ultimately show ?thesis unfolding Let_def active_in_def by (simp del: Update_sel split: option.split)
qed

theorem Update_scrape_effect_witness:
  "let ct = UpdateConnection Connection_default 7 True ConnectionTracker_init;
       other = Connection_default\<lparr>conn_container := ''c''\<rparr>;
       ct' = Update [other] [] 9 ct
   in um_find Connection_keq (ct_conn_state ct') other = Some (mk_ConnStatus 9 True) \<and>
      um_find Connection_keq (ct_conn_state ct') Connection_default = Some (mk_ConnStatus 7 False)"
proof -
  let ?ct = "UpdateConnection Connection_default 7 True ConnectionTracker_init"
  let ?other = "Connection_default\<lparr>conn_container := ''c''\<rparr>"
  have st: "ct_conn_state ?ct = [(Connection_default, mk_ConnStatus 7 True)]" "ct_endpoint_state ?ct = []"
    by (simp_all add: UpdateConnection_def ConnectionTracker_init_def EmplaceOrUpdate_def um_emplace_def
        conn_key.keq_refl)
  have "\<not> Connection_keq ?other Connection_default" by (simp add: Connection_keq_iff Connection_default_def)
  then show ?thesis
    using Update_scrape_effect [of 9 ?ct "[?other]" "[]" ?other]
      Update_scrape_effect [of 9 ?ct "[?other]" "[]" Connection_default]
    unfolding Let_def st by (simp add: st conn_key.keq_refl del: Update_sel)
qed

text \<open>
  A scraped connection is not always marked as active: when its stored status carries the
  timestamp of the scrape or a later one, as after an event that raced with the scrape, the scrape
  leaves it inactive even if it was active before.
\<close>

theorem Update_can_deactivate_scraped:
  "let ct = UpdateConnection Connection_default 9 True ConnectionTracker_init;
       ct' = Update [Connection_default] [] 9 ct
   in active_in Connection_keq (ct_conn_state ct) Connection_default \<and>
      \<not> active_in Connection_keq (ct_conn_state ct') Connection_default"
  by (simp add: Let_def active_in_def find_UpdateConnection conn_key.find_EmplaceOrUpdate conn_key.keq_refl
      ConnectionTracker_init_def)

text \<open>
  The four-way case distinction of \<^verbatim>\<open>FetchConnState\<close> and \<^verbatim>\<open>FetchEndpointState\<close> is an optimisation only:
  skipping the filter when none is configured fetches the same tables as always applying it.
\<close>

theorem fetch_without_filters_equivalent:
  "fst (FetchConnState n c ct) =
     fst (FetchState Connection_keq (ct_conn_state ct) c
       (if n then Some (NormalizeConnectionNoLock ct) else None) (Some (ShouldFetchConnection ct))) \<and>
   fst (FetchEndpointState n c ct) =
     fst (FetchState AdvertisedEndpoint_keq (ct_endpoint_state ct) c
       (if n then Some NormalizeContainerEndpoint else None) (Some (ShouldFetchContainerEndpoint ct)))"
  by (simp add: FetchConnState_uniform FetchEndpointState_uniform)

text \<open>
  (C6) What a normalising fetch reports: a table with unique keys in which a connection is active
  exactly when some stored active connection passes the filters and has it as its normal form. The
  status is the maximum of the statuses that fall together, so the result does not depend on the
  order of the table. The fetch leaves the active connections in the tracker, and with
  \<^verbatim>\<open>clear_inactive\<close> no others.
\<close>

theorem FetchConnState_merges:
  "(let fetched = fst (FetchConnState True clear ct);
        S = fetched_statuses Connection_keq (NormalizeConnectionNoLock ct) (Some (ShouldFetchConnection ct))
              (ct_conn_state ct) j
    in um_inv Connection_keq fetched \<and>
       um_find Connection_keq fetched j = (if S = {} then None else Some (Max S)) \<and>
       (active_in Connection_keq fetched j \<longleftrightarrow>
          (\<exists>(k, s) \<in> set (ct_conn_state ct). ShouldFetchConnection ct k \<and>
             Connection_keq (NormalizeConnectionNoLock ct k) j \<and> IsActive s))) \<and>
   ct_conn_state (snd (FetchConnState True clear ct)) =
     (if clear then filter (\<lambda>(k, s). IsActive s) (ct_conn_state ct) else ct_conn_state ct)"
proof (intro conjI)
  show "let fetched = fst (FetchConnState True clear ct);
        S = fetched_statuses Connection_keq (NormalizeConnectionNoLock ct) (Some (ShouldFetchConnection ct))
              (ct_conn_state ct) j
    in um_inv Connection_keq fetched \<and>
       um_find Connection_keq fetched j = (if S = {} then None else Some (Max S)) \<and>
       (active_in Connection_keq fetched j \<longleftrightarrow>
          (\<exists>(k, s) \<in> set (ct_conn_state ct). ShouldFetchConnection ct k \<and>
             Connection_keq (NormalizeConnectionNoLock ct k) j \<and> IsActive s))"
    unfolding FetchConnState_uniform Let_def
    by (auto simp: conn_key.inv_FetchState conn_key.find_FetchState conn_key.active_FetchState
        fetch_passes_def Let_def)
qed (auto intro: filter_cong)

lemma Contains_own: "Contains (mk_IPNet a k f) a"
  by (simp add: Contains_mk_IPNet same_prefix_def)

lemma canonical_external_addrs:
  "IsCanonicalExternalIp canonical_external_ipv4_addr" "addr_family canonical_external_ipv4_addr = IPV4"
  "IsCanonicalExternalIp canonical_external_ipv6_addr" "addr_family canonical_external_ipv6_addr = IPV6"
  by code_simp+

text \<open>
  (C10) Normalisation of an address is sound. The network an address is reported under contains the
  address, with two exceptions: a null address or one of unknown family may be reported as the null
  network, and the network for the rest of the internet, which has the family of the address, is
  used only when external IPs are disabled, for public addresses that are neither known nor in a
  known network.
\<close>

theorem NormalizeAddress_sound:
  assumes "ct_known_ip_networks ct = NRadixTree nets" "\<forall>n \<in> set nets. wf_IPNet n"
  shows "let r = NormalizeAddressNoLock ct a ext
         in Contains r a \<or> IPNet_IsNull r \<and> (Address_IsNull a \<or> addr_family a = FUnknown) \<or>
            IsCanonicalExternalIp (ipn_address r) \<and> ipn_family r = addr_family a \<and>
              \<not> ext \<and> IsPublic a \<and> a \<notin> ct_known_public_ips ct \<and>
              IPNet_IsNull (Find_addr (ct_known_ip_networks ct) a)"
proof -
  note found = Find_addr_sound [OF assms(2), of a]
  have "mk_IPNet x k f = mk_IPNet x k f \<and> ipn_address (mk_IPNet x k f) = x" for x k f by simp
  then show ?thesis
    using found
    by (auto simp: NormalizeAddressNoLock_def Let_def assms(1) Contains_own canonical_external_addrs
        ipn_family_def split: Family.splits)
qed

theorem NormalizeAddress_sound_witness:
  "let ct = UpdateKnownIPNetworks [(IPV4, [mk_IPNet (Address_quad 8 8 0 0) 16 False])] ConnectionTracker_init;
       r = NormalizeAddressNoLock ct (Address_quad 8 8 8 8) False
   in Contains r (Address_quad 8 8 8 8) \<or> IsCanonicalExternalIp (ipn_address r)"
proof -
  let ?n = "mk_IPNet (Address_quad 8 8 0 0) 16 False"
  let ?ct = "UpdateKnownIPNetworks [(IPV4, [?n])] ConnectionTracker_init"
  have "ct_known_ip_networks ?ct = NRadixTree [?n]"
    by (simp add: UpdateKnownIPNetworks_def known_networks_tree_concat Let_def)
  moreover have "\<forall>n \<in> set [?n]. wf_IPNet n" by simp
  moreover have "\<not> Address_IsNull (Address_quad 8 8 8 8)" "addr_family (Address_quad 8 8 8 8) \<noteq> FUnknown"
    by code_simp+
  ultimately show ?thesis
    using NormalizeAddress_sound [of ?ct "[?n]" "Address_quad 8 8 8 8" False] unfolding Let_def by blast
qed

section \<open>Switching External-IPs\<close>

text \<open>The direction whose setting decides how a normalised connection is represented.\<close>

definition conn_direction :: "Connection \<Rightarrow> Direction" where
  "conn_direction conn = (if conn_is_server conn then INGRESS else EGRESS)"

lemma Normalize_remote:
  "ep_address (conn_remote (NormalizeConnectionNoLock ct conn)) =
     ipn_address (NormalizeAddressNoLock ct (ep_address (conn_remote conn))
       (IsEnabled (ct_external_ips_config ct) (conn_direction (NormalizeConnectionNoLock ct conn))))"
  unfolding NormalizeConnectionNoLock_def Let_def conn_direction_def
  by (simp add: mk_Endpoint_def ep_address_def del: IsEnabled_simps)

lemma Normalized_address_cases:
  fixes ct a ext
  defines "r \<equiv> NormalizeAddressNoLock ct a ext"
    and "found \<equiv> Find_addr (ct_known_ip_networks ct) a"
  shows "ipn_address r = a \<or> r = IPNet_default \<or> r = found \<and> \<not> IPNet_IsNull found \<or>
    \<not> ext \<and> IsCanonicalExternalIp (ipn_address r)"
  by (auto simp: r_def found_def NormalizeAddressNoLock_def Let_def canonical_external_addrs split: Family.splits)

lemma not_canonical_default [simp]: "\<not> IsCanonicalExternalIp Address_default"
  by code_simp

lemma ipn_address_default [simp]: "ipn_address IPNet_default = Address_default"
  by (simp add: IPNet_default_def)

lemma canonical_Normalize:
  assumes "\<forall>n \<in> set nets. \<not> IsCanonicalExternalIp (ipn_address n)"
    and "ct_known_ip_networks ct = NRadixTree nets" "\<forall>n \<in> set nets. wf_IPNet n"
    and "\<not> IsCanonicalExternalIp a" "IsCanonicalExternalIp (ipn_address (NormalizeAddressNoLock ct a ext))"
  shows "\<not> ext \<and> \<not> Address_IsNull a \<and> IPNet_IsNull (Find_addr (ct_known_ip_networks ct) a)"
proof -
  have "\<not> IsCanonicalExternalIp (ipn_address (Find_addr (ct_known_ip_networks ct) a))"
    if "\<not> IPNet_IsNull (Find_addr (ct_known_ip_networks ct) a)"
    using Find_addr_sound [OF assms(3)] assms(1,2) that by simp
  then show ?thesis using assms(4,5)
    by (auto simp: NormalizeAddressNoLock_def Let_def split: if_splits)
qed

lemma normal_form_stays:
  assumes "ct_known_ip_networks ct = NRadixTree nets"
    and "\<forall>n \<in> set nets. wf_IPNet n \<and> \<not> IsCanonicalExternalIp (ipn_address n) \<and>
           \<not> IPNet_IsNull (Find_addr (NRadixTree nets) (ipn_address n))"
    and "\<not> IsCanonicalExternalIp (ep_address (conn_remote conn))"
  shows "let k = NormalizeConnectionNoLock ct conn
         in \<not> should_close ct k (IsEnabled (ct_external_ips_config ct) (conn_direction k))"
proof -
  define k where "k = NormalizeConnectionNoLock ct conn"
  define ext where "ext = IsEnabled (ct_external_ips_config ct) (conn_direction k)"
  define a where "a = ep_address (conn_remote conn)"
  define b where "b = ipn_address (NormalizeAddressNoLock ct a ext)"
  have k: "ep_address (conn_remote k) = b"
    unfolding k_def b_def a_def ext_def by (rule Normalize_remote)
  have nets: "\<forall>n \<in> set nets. \<not> IsCanonicalExternalIp (ipn_address n)" "\<forall>n \<in> set nets. wf_IPNet n"
    using assms(2) by auto
  note canon = canonical_Normalize [of nets, OF nets(1) assms(1) nets(2)]
  have a: "\<not> IsCanonicalExternalIp a" using assms(3) by (simp add: a_def)
  have "\<not> should_close ct k ext"
  proof (cases ext)
    case True
    then show ?thesis using canon [OF a, of ext] by (auto simp: should_close_def k b_def)
  next
    case False
    have "\<not> IsCanonicalExternalIp (ipn_address (NormalizeAddressNoLock ct b False))"
      if b_ok: "\<not> IsCanonicalExternalIp b"
    proof
      assume c: "IsCanonicalExternalIp (ipn_address (NormalizeAddressNoLock ct b False))"
      note null = canon [OF b_ok c]
      from Normalized_address_cases [of ct a ext]
      consider "b = a" | "b = Address_default"
        | "b = ipn_address (Find_addr (ct_known_ip_networks ct) a)"
          "\<not> IPNet_IsNull (Find_addr (ct_known_ip_networks ct) a)"
        | "IsCanonicalExternalIp b"
        unfolding b_def by fastforce
      then show False
      proof cases
        case 1
        then show ?thesis using c False b_ok by (simp add: b_def)
      next
        case 2
        then show ?thesis using null by (simp add: Address_IsNull_def Address_default_def Address_any_def)
      next
        case 3
        then show ?thesis using null assms(1,2) Find_addr_sound [OF nets(2), of a] by auto
      next
        case 4
        then show ?thesis using b_ok by simp
      qed
    qed
    then show ?thesis using False by (auto simp: should_close_def ShouldNormalizeConnection_def k)
  qed
  then show ?thesis by (simp add: Let_def k_def [symmetric] ext_def)
qed

text \<open>The connections a change of the External-IPs switch closes.\<close>

definition closing :: "ConnectionTracker \<Rightarrow> ExternalIPsConfig \<Rightarrow> Connection \<Rightarrow> bool" where
  "closing ct prev conn \<longleftrightarrow>
     (let d = conn_direction conn; now = IsEnabled (ct_external_ips_config ct) d
      in now \<noteq> IsEnabled prev d \<and> should_close ct conn now)"

lemma find_CloseOnChange:
  fixes ct :: ConnectionTracker and prev :: ExternalIPsConfig and delta :: "Connection state"
  assumes "um_inv Connection_keq old"
  defines "r \<equiv> CloseConnectionsOnExternalIPsConfigChange ct prev old delta"
  shows "um_find Connection_keq (fst r) j =
      (if closes_in Connection_keq (closing ct prev) old j then None else um_find Connection_keq old j)"
    and "um_find Connection_keq (snd r) j =
      (case um_find Connection_keq delta j of Some x \<Rightarrow> Some x
       | None \<Rightarrow> if closes_in Connection_keq (closing ct prev) old j
                then map_option (\<lambda>s. SetActive s False) (um_find Connection_keq old j) else None)"
proof -
  let ?ing = "IsEnabled (ct_external_ips_config ct) INGRESS" and ?eg = "IsEnabled (ct_external_ips_config ct) EGRESS"
  let ?P = "\<lambda>conn. ?eg \<noteq> IsEnabled prev EGRESS \<and> \<not> conn_is_server conn \<and> should_close ct conn ?eg"
    and ?Q = "\<lambda>conn. ?ing \<noteq> IsEnabled prev INGRESS \<and> conn_is_server conn \<and> should_close ct conn ?ing"
  have none: "CloseConnections Connection_keq (\<lambda>_. False) o' d' = (o', d')" for o' d'
    by (induction o') auto
  have r: "r = (let (o1, d1) = CloseConnections Connection_keq ?P old delta
                in CloseConnections Connection_keq ?Q o1 d1)"
    unfolding r_def CloseConnectionsOnExternalIPsConfigChange_def Let_def
    by (cases "?eg \<noteq> IsEnabled prev EGRESS"; cases "?ing \<noteq> IsEnabled prev INGRESS")
      (simp_all only: none simp_thms if_True if_False not_not case_prod_beta prod.collapse fst_conv snd_conv)
  have PQ: "(\<lambda>k. ?P k \<or> ?Q k) = closing ct prev"
    by (auto simp: closing_def conn_direction_def Let_def fun_eq_iff simp del: IsEnabled_simps)
  show "um_find Connection_keq (fst r) j =
      (if closes_in Connection_keq (closing ct prev) old j then None else um_find Connection_keq old j)"
    and "um_find Connection_keq (snd r) j =
      (case um_find Connection_keq delta j of Some x \<Rightarrow> Some x
       | None \<Rightarrow> if closes_in Connection_keq (closing ct prev) old j
                then map_option (\<lambda>s. SetActive s False) (um_find Connection_keq old j) else None)"
    using conn_key.find_closed_twice [OF assms(1), where P = ?P and Q = ?Q and delta = delta and j = j] unfolding PQ r case_prod_beta Let_def
    by simp_all
qed

lemma inv_CloseOnChange:
  assumes "um_inv Connection_keq old" "um_inv Connection_keq delta"
  shows "um_inv Connection_keq (fst (CloseConnectionsOnExternalIPsConfigChange ct prev old delta))"
    and "um_inv Connection_keq (snd (CloseConnectionsOnExternalIPsConfigChange ct prev old delta))"
  unfolding CloseConnectionsOnExternalIPsConfigChange_def Let_def case_prod_beta
  using assms by (simp_all del: IsEnabled_simps add: conn_key.inv_CloseConnections)

text \<open>
  (C20) A change of the External-IPs switch closes the stale representations and no others. Of the
  entries of the old state, \<^verbatim>\<open>CloseConnectionsOnExternalIPsConfigChange\<close> removes those of a direction
  whose setting changed that either stand for the rest of the internet, when the direction is now
  enabled, or would be aggregated under it, when it is now disabled; it reports each of them as
  inactive unless the delta already has the connection, and changes nothing else. A connection in the
  normal form of the current setting is never among them, provided the remote address and the known
  networks are not the reserved external address themselves and the tree finds each known network by
  its own address.
\<close>

theorem config_change_closes_stale:
  assumes "um_inv Connection_keq old" "(k, s) \<in> set old"
    and "ct_known_ip_networks ct = NRadixTree nets"
    and "\<forall>n \<in> set nets. wf_IPNet n \<and> \<not> IsCanonicalExternalIp (ipn_address n) \<and>
           \<not> IPNet_IsNull (Find_addr (NRadixTree nets) (ipn_address n))"
  shows "let (old', delta') = CloseConnectionsOnExternalIPsConfigChange ct prev old delta;
             direction = (if conn_is_server k then INGRESS else EGRESS);
             enabled = IsEnabled (ct_external_ips_config ct) direction;
             external = IsCanonicalExternalIp (ep_address (conn_remote k));
             stale = (enabled \<noteq> IsEnabled prev direction \<and>
                      (if enabled then external else \<not> external \<and> ShouldNormalizeConnection ct k))
         in um_find Connection_keq old' k = (if stale then None else Some s) \<and>
            um_find Connection_keq delta' k =
              (case um_find Connection_keq delta k of
                 Some x \<Rightarrow> Some x
               | None \<Rightarrow> if stale then Some (mk_ConnStatus (LastActiveTime s) False) else None) \<and>
            ((\<exists>conn. k = NormalizeConnectionNoLock ct conn \<and>
                \<not> IsCanonicalExternalIp (ep_address (conn_remote conn))) \<longrightarrow> \<not> stale)"
proof -
  let ?r = "CloseConnectionsOnExternalIPsConfigChange ct prev old delta"
  have stale: "closing ct prev k \<longleftrightarrow>
      (let d = (if conn_is_server k then INGRESS else EGRESS); e = IsEnabled (ct_external_ips_config ct) d;
           x = IsCanonicalExternalIp (ep_address (conn_remote k))
       in e \<noteq> IsEnabled prev d \<and> (if e then x else \<not> x \<and> ShouldNormalizeConnection ct k))"
    by (simp add: closing_def conn_direction_def should_close_def Let_def del: IsEnabled_simps)
  have here: "closes_in Connection_keq (closing ct prev) old k = closing ct prev k"
    using conn_key.closes_in_stored [OF assms(1,2)] .
  have found: "um_find Connection_keq old k = Some s" using conn_key.find_in_set [OF assms(1,2)] .
  note old' = find_CloseOnChange(1) [OF assms(1), of ct prev delta k, unfolded here found]
  note delta' = find_CloseOnChange(2) [OF assms(1), of ct prev delta k, unfolded here found]
  have "\<not> closing ct prev k"
    if "k = NormalizeConnectionNoLock ct conn" "\<not> IsCanonicalExternalIp (ep_address (conn_remote conn))" for conn
    using normal_form_stays [OF assms(3,4) that(2)] that(1) by (simp add: closing_def Let_def)
  then have "um_find Connection_keq (fst ?r) k = (if closing ct prev k then None else Some s) \<and>
      um_find Connection_keq (snd ?r) k =
        (case um_find Connection_keq delta k of Some x \<Rightarrow> Some x
         | None \<Rightarrow> if closing ct prev k then Some (mk_ConnStatus (LastActiveTime s) False) else None) \<and>
      ((\<exists>conn. k = NormalizeConnectionNoLock ct conn \<and>
          \<not> IsCanonicalExternalIp (ep_address (conn_remote conn))) \<longrightarrow> \<not> closing ct prev k)"
    unfolding old' delta' SetActive_mk option.map by blast
  then show ?thesis unfolding case_prod_beta stale Let_def .
qed

theorem config_change_closes_stale_witness:
  "let n = mk_IPNet (Address_quad 8 8 0 0) 16 False;
       ct = SetExternalIPsConfig \<lparr>direction_enabled = BOTH\<rparr>
              (UpdateKnownIPNetworks [(IPV4, [n])] ConnectionTracker_init);
       k = mk_Connection ''c'' Endpoint_default (Endpoint_of_address canonical_external_ipv4_addr 53) TCP False;
       (old', delta') = CloseConnectionsOnExternalIPsConfigChange ct \<lparr>direction_enabled = NONE\<rparr>
              [(k, mk_ConnStatus 5 True)] []
   in um_find Connection_keq old' k = None \<and> um_find Connection_keq delta' k = Some (mk_ConnStatus 5 False)"
proof -
  let ?n = "mk_IPNet (Address_quad 8 8 0 0) 16 False" and ?q = "IPNet_of_address (Address_quad 8 8 0 0)"
  let ?ct = "SetExternalIPsConfig \<lparr>direction_enabled = BOTH\<rparr>
              (UpdateKnownIPNetworks [(IPV4, [?n])] ConnectionTracker_init)"
  let ?k = "mk_Connection ''c'' Endpoint_default (Endpoint_of_address canonical_external_ipv4_addr 53) TCP False"
  have known: "ct_known_ip_networks ?ct = NRadixTree [?n]"
    by (simp add: SetExternalIPsConfig_def UpdateKnownIPNetworks_def known_networks_tree_concat Let_def)
  have ext: "ct_external_ips_config ?ct = \<lparr>direction_enabled = BOTH\<rparr>" by (simp add: SetExternalIPsConfig_def)
  have "prefix (path ?n) (path ?q)" by code_simp
  moreover have "insertable ?n" by (simp add: insertable_def IPNet_IsNull_def)
  ultimately have "Find (NRadixTree [?n]) ?q = ?n"
    using Find_NRadixTree [of "[?n]" ?q] by (auto simp: IPNet_of_address_def)
  then have "\<not> IPNet_IsNull (Find_addr (NRadixTree [?n]) (Address_quad 8 8 0 0))"
    by (simp add: Find_addr_def IPNet_IsNull_def)
  moreover have "\<not> IsCanonicalExternalIp (Address_quad 8 8 0 0)" by code_simp
  ultimately have nets: "\<forall>n \<in> set [?n]. wf_IPNet n \<and> \<not> IsCanonicalExternalIp (ipn_address n) \<and>
      \<not> IPNet_IsNull (Find_addr (NRadixTree [?n]) (ipn_address n))" by simp
  have "IsCanonicalExternalIp (ep_address (conn_remote ?k))"
    by (simp add: ep_address_def Endpoint_of_address_def IPNet_of_address_def canonical_external_addrs)
  then show ?thesis
    using config_change_closes_stale [of "[(?k, mk_ConnStatus 5 True)]" ?k "mk_ConnStatus 5 True" ?ct "[?n]"
        "\<lparr>direction_enabled = NONE\<rparr>" "[]", OF _ _ known nets]
    unfolding Let_def case_prod_beta ext by simp
qed

section \<open>Statistics\<close>

definition stored_matching :: "ConnectionTracker \<Rightarrow> bool \<Rightarrow> bool \<Rightarrow> nat" where
  "stored_matching ct server public =
     length (filter (\<lambda>(k, s). ShouldFetchConnection ct k \<and> conn_is_server k = server \<and>
                              IsPublic (ep_address (conn_remote k)) = public) (ct_conn_state ct))"

text \<open>
  \<^verbatim>\<open>GetConnectionStats_StoredConnections\<close> counts, in each of its four fields and modulo 2^32, the stored
  connections of that direction and kind that pass the filters.
\<close>

theorem stored_stats_count:
  "GetConnectionStats_StoredConnections ct =
     \<lparr>inbound_public = of_nat (stored_matching ct True True), inbound_private = of_nat (stored_matching ct True False),
      outbound_public = of_nat (stored_matching ct False True), outbound_private = of_nat (stored_matching ct False False)\<rparr>"
proof -
  let ?cnt = "\<lambda>server public m. of_nat (length (filter (\<lambda>(k, s). ShouldFetchConnection ct k \<and>
      conn_is_server k = server \<and> IsPublic (ep_address (conn_remote k)) = public) m)) :: u32"
  have "fold (\<lambda>(k, s). IncrementConnectionStats ct k) m st =
      \<lparr>inbound_public = inbound_public st + ?cnt True True m, inbound_private = inbound_private st + ?cnt True False m,
       outbound_public = outbound_public st + ?cnt False True m,
       outbound_private = outbound_private st + ?cnt False False m\<rparr>" for m :: "Connection state" and st
    by (induction m arbitrary: st) (auto simp: IncrementConnectionStats_def)
  then show ?thesis
    by (simp add: GetConnectionStats_StoredConnections_def stored_matching_def Stats_zero_def)
qed

text \<open>
  The counter of inactive endpoints does not count them. \<^verbatim>\<open>FetchEndpointState\<close> subtracts the size of the
  endpoint table from that of the connection table, so a fetch that removes nothing can move the
  counter to the largest 64-bit value.
\<close>

theorem net_cep_inactive_miscounts:
  "let cep = \<lparr>cep_container = ''c'', cep_endpoint = Endpoint_default, cep_l4proto = TCP, cep_originator = None\<rparr>;
       ct = Update [] [cep] 5 ConnectionTracker_init;
       ct' = snd (FetchEndpointState True True ct)
   in ct_endpoint_state ct' = ct_endpoint_state ct \<and> ct_net_cep_inactive ct = 0 \<and>
      ct_net_cep_inactive ct' = - 1"
  by (simp add: Let_def Update_def EmplaceOrUpdateNoLock_endpoint_def ConnectionTracker_init_def
      set_all_inactive_def EmplaceOrUpdate_def um_emplace_def FetchEndpointState_def FetchState_def
      fetch_loop_eq cep_key.keq_refl)

end
