(* ===== verification/Rate_Limit.thy ===== *)
theory Rate_Limit
  imports Collector_Prelude "HOL-Library.Signed_Division"
begin

text \<open>
  The limiters of \<^verbatim>\<open>collector/lib/RateLimit.h\<close> and \<^verbatim>\<open>RateLimit.cpp\<close>. Times are in microseconds and, like token
  counts, integers; the C++ division truncates, which is \<open>sdiv\<close>. One call of \<^verbatim>\<open>AllowN\<close> reads the clock up
  to three times, so it takes the three readings. A limiter taken away by \<^verbatim>\<open>ResetRateLimitCache\<close> leaves a
  null pointer behind; using it is the result \<open>None\<close>.
\<close>

record TokenBucket =
  tokens :: int
  last_time :: int

definition TokenBucket_init :: TokenBucket where
  "TokenBucket_init = \<lparr>tokens = 0, last_time = 0\<rparr>"

section \<open>Time limiter\<close>

record TimeLimiter =
  burst_size :: int
  refill_time :: int

definition mk_TimeLimiter :: "int \<Rightarrow> int \<Rightarrow> TimeLimiter" where
  "mk_TimeLimiter burst refill_s = \<lparr>burst_size = burst, refill_time = refill_s * 1000000\<rparr>"

definition refill_count :: "TimeLimiter \<Rightarrow> int \<Rightarrow> TokenBucket \<Rightarrow> int" where
  "refill_count l now b = (now - last_time b) sdiv refill_time l"

definition fill_bucket :: "TimeLimiter \<Rightarrow> int \<Rightarrow> TokenBucket" where
  "fill_bucket l now = \<lparr>tokens = burst_size l, last_time = now\<rparr>"

definition Tokens :: "TimeLimiter \<Rightarrow> int \<Rightarrow> TokenBucket \<Rightarrow> int" where
  "Tokens l now b = min (burst_size l) (tokens b + refill_count l now b * burst_size l)"

definition AllowN :: "TimeLimiter \<Rightarrow> int \<times> int \<times> int \<Rightarrow> TokenBucket \<Rightarrow> int \<Rightarrow> bool \<times> TokenBucket" where
  "AllowN l clock b n =
     (let (now1, now2, now3) = clock;
          b1 = (if last_time b = 0 then fill_bucket l now1 else b);
          refill = refill_count l now2 b1;
          b2 = b1\<lparr>tokens := tokens b1 + refill * burst_size l,
                  last_time := last_time b1 + refill * refill_time l\<rparr>;
          b3 = (if tokens b2 \<ge> burst_size l then fill_bucket l now3 else b2)
      in if n > tokens b3 then (False, b3) else (True, b3\<lparr>tokens := tokens b3 - n\<rparr>))"

definition TimeLimiter_Allow :: "TimeLimiter \<Rightarrow> int \<times> int \<times> int \<Rightarrow> TokenBucket \<Rightarrow> bool \<times> TokenBucket" where
  "TimeLimiter_Allow l clock b = AllowN l clock b 1"

section \<open>Cache of time limiters\<close>

record RateLimitCache =
  rl_capacity :: nat
  rl_limiter :: "TimeLimiter option"
  rl_cache :: "(string, TokenBucket) umap"

definition RateLimitCache_default :: RateLimitCache where
  "RateLimitCache_default =
     \<lparr>rl_capacity = 4096, rl_limiter = Some (mk_TimeLimiter 10 (30 * 60)), rl_cache = []\<rparr>"

definition mk_RateLimitCache :: "nat \<Rightarrow> int \<Rightarrow> int \<Rightarrow> RateLimitCache" where
  "mk_RateLimitCache capacity burst refill =
     \<lparr>rl_capacity = capacity, rl_limiter = Some (mk_TimeLimiter burst refill), rl_cache = []\<rparr>"

definition ResetRateLimitCache :: "RateLimitCache \<Rightarrow> RateLimitCache" where
  "ResetRateLimitCache c = c\<lparr>rl_limiter := None\<rparr>"

definition RateLimitCache_Allow ::
  "int \<times> int \<times> int \<Rightarrow> string \<Rightarrow> RateLimitCache \<Rightarrow> (bool \<times> RateLimitCache) option" where
  "RateLimitCache_Allow clock key c =
     (let (cache', inserted) = um_emplace (=) (rl_cache c) key TokenBucket_init
      in if inserted \<and> length cache' > rl_capacity c then Some (True, c\<lparr>rl_cache := []\<rparr>)
         else case (rl_limiter c, um_find (=) cache' key) of
                (Some l, Some b) \<Rightarrow>
                  (let (ok, b') = TimeLimiter_Allow l clock b
                   in Some (ok, c\<lparr>rl_cache := um_set (=) cache' key b'\<rparr>))
              | _ \<Rightarrow> None)"

section \<open>Count limiter\<close>

record CountLimiter =
  cl_count :: int
  cl_cache :: "(string, TokenBucket) umap"

definition CountLimiter_default :: CountLimiter where
  "CountLimiter_default = \<lparr>cl_count = 4096, cl_cache = []\<rparr>"

definition mk_CountLimiter :: "int \<Rightarrow> CountLimiter" where
  "mk_CountLimiter count = \<lparr>cl_count = count, cl_cache = []\<rparr>"

definition CountLimiter_Allow :: "string \<Rightarrow> CountLimiter \<Rightarrow> bool \<times> CountLimiter" where
  "CountLimiter_Allow key c =
     (let cache' = fst (um_emplace (=) (cl_cache c) key TokenBucket_init)
      in case um_find (=) cache' key of
           None \<Rightarrow> (False, c\<lparr>cl_cache := cache'\<rparr>)
         | Some b \<Rightarrow>
             (let b' = b\<lparr>tokens := tokens b + 1\<rparr>
              in (tokens b' \<le> cl_count c, c\<lparr>cl_cache := um_set (=) cache' key b'\<rparr>)))"

section \<open>The time limiter over a sequence of requests\<close>

text \<open>Requests for one token each, with the readings of the clock; the result counts the grants.\<close>

fun grants :: "TimeLimiter \<Rightarrow> TokenBucket \<Rightarrow> (int \<times> int \<times> int) list \<Rightarrow> nat" where
  "grants l b [] = 0"
| "grants l b (c # cs) =
     (let (ok, b') = TimeLimiter_Allow l c b in (if ok then 1 else 0) + grants l b' cs)"

text \<open>The clock does not run backwards.\<close>

fun clock_runs :: "int \<Rightarrow> (int \<times> int \<times> int) list \<Rightarrow> bool" where
  "clock_runs t [] = True"
| "clock_runs t ((n1, n2, n3) # cs) = (t \<le> n1 \<and> n1 \<le> n2 \<and> n2 \<le> n3 \<and> clock_runs n3 cs)"

fun clock_end :: "int \<Rightarrow> (int \<times> int \<times> int) list \<Rightarrow> int" where
  "clock_end t [] = t"
| "clock_end t ((n1, n2, n3) # cs) = clock_end n3 cs"

lemma clock_end_le: "clock_runs t cs \<Longrightarrow> t \<le> clock_end t cs"
proof (induction t cs rule: clock_runs.induct)
  case (2 t n1 n2 n3 cs)
  then show ?case by simp
qed simp

lemma sdiv_nonneg: "0 \<le> a \<Longrightarrow> 0 < b \<Longrightarrow> a sdiv b = (a :: int) div b"
  by (auto simp: signed_divide_int_def sgn_if)

text \<open>
  A bucket in use has between 0 and a full burst of tokens; a request gains tokens only when a refill
  period has passed since the bucket's time.
\<close>

definition bucket_ok :: "TimeLimiter \<Rightarrow> int \<Rightarrow> TokenBucket \<Rightarrow> bool" where
  "bucket_ok l now b \<longleftrightarrow> last_time b \<noteq> 0 \<and> last_time b \<le> now \<and> 0 \<le> tokens b \<and> tokens b \<le> burst_size l"

lemma AllowN_step:
  assumes l: "0 \<le> burst_size l" "0 < refill_time l" and ok: "bucket_ok l t b"
    and clock: "0 < t" "t \<le> n1" "n1 \<le> n2" "n2 \<le> n3"
  defines "r \<equiv> TimeLimiter_Allow l (n1, n2, n3) b"
  shows "bucket_ok l n3 (snd r)"
    and "(if fst r then 1 else 0) + tokens (snd r) \<le>
      tokens b + (if n2 - last_time b \<ge> refill_time l then burst_size l else 0)"
    and "last_time b + (if n2 - last_time b \<ge> refill_time l then refill_time l else 0) \<le> last_time (snd r)"
    and "n2 - last_time b \<ge> refill_time l \<Longrightarrow> 0 < burst_size l \<Longrightarrow> fst r"
proof -
  have used: "last_time b \<noteq> 0" "last_time b \<le> n2" "0 \<le> tokens b" "tokens b \<le> burst_size l"
    using ok clock by (auto simp: bucket_ok_def)
  have refill: "refill_count l n2 b = (n2 - last_time b) div refill_time l"
    using used l by (simp add: refill_count_def sdiv_nonneg)
  have "bucket_ok l n3 (snd r) \<and>
    (if fst r then 1 else 0) + tokens (snd r) \<le>
      tokens b + (if n2 - last_time b \<ge> refill_time l then burst_size l else 0) \<and>
    last_time b + (if n2 - last_time b \<ge> refill_time l then refill_time l else 0) \<le> last_time (snd r) \<and>
    (n2 - last_time b \<ge> refill_time l \<and> 0 < burst_size l \<longrightarrow> fst r)"
  proof (cases "n2 - last_time b \<ge> refill_time l")
    case True
    then have "1 \<le> refill_count l n2 b" using l by (simp add: refill pos_imp_zdiv_pos_iff int_one_le_iff_zero_less)
    then have "burst_size l \<le> refill_count l n2 b * burst_size l"
      using l(1) mult_right_mono [of 1 "refill_count l n2 b" "burst_size l"] by simp
    then have "burst_size l \<le> tokens b + refill_count l n2 b * burst_size l" using used by linarith
    then show ?thesis using True used clock l
      by (auto simp: r_def TimeLimiter_Allow_def AllowN_def fill_bucket_def Let_def bucket_ok_def)
  next
    case False
    then have zero: "refill_count l n2 b = 0" using used by (simp add: refill div_pos_pos_trivial)
    show ?thesis using False used clock l
      by (auto simp: r_def TimeLimiter_Allow_def AllowN_def fill_bucket_def Let_def bucket_ok_def zero)
  qed
  then show "bucket_ok l n3 (snd r)"
    and "(if fst r then 1 else 0) + tokens (snd r) \<le>
      tokens b + (if n2 - last_time b \<ge> refill_time l then burst_size l else 0)"
    and "last_time b + (if n2 - last_time b \<ge> refill_time l then refill_time l else 0) \<le> last_time (snd r)"
    and "n2 - last_time b \<ge> refill_time l \<Longrightarrow> 0 < burst_size l \<Longrightarrow> fst r"
    by blast+
qed

lemma grants_used:
  assumes l: "0 \<le> burst_size l" "0 < refill_time l"
  shows "bucket_ok l t b \<Longrightarrow> 0 < t \<Longrightarrow> clock_runs t cs \<Longrightarrow>
    int (grants l b cs) \<le> tokens b + burst_size l * ((clock_end t cs - last_time b) div refill_time l)"
proof (induction cs arbitrary: t b)
  case Nil
  then show ?case using l by (auto simp: bucket_ok_def intro!: add_nonneg_nonneg mult_nonneg_nonneg div_int_pos_iff [THEN iffD2])
next
  case (Cons c cs)
  obtain n1 n2 n3 where c: "c = (n1, n2, n3)" by (cases c)
  have clock: "t \<le> n1" "n1 \<le> n2" "n2 \<le> n3" "clock_runs n3 cs" using Cons.prems by (auto simp: c)
  let ?r = "TimeLimiter_Allow l (n1, n2, n3) b"
  let ?R = "refill_time l" and ?e = "clock_end n3 cs"
  define late where "late \<longleftrightarrow> n2 - last_time b \<ge> ?R"
  note step = AllowN_step [OF l Cons.prems(1,2) clock(1-3), folded late_def]
  have IH: "int (grants l (snd ?r) cs) \<le> tokens (snd ?r) + burst_size l * ((?e - last_time (snd ?r)) div ?R)"
    using Cons.IH [OF step(1)] Cons.prems(2) clock by simp
  have "(?e - last_time (snd ?r)) div ?R \<le> (?e - (last_time b + (if late then ?R else 0))) div ?R"
    using step(3) l(2) by (intro zdiv_mono1) auto
  also have "\<dots> = (?e - last_time b) div ?R - (if late then 1 else 0)"
    using l(2) div_add_self2 [of ?R "?e - last_time b - ?R"] by (auto simp: algebra_simps)
  finally have "burst_size l * ((?e - last_time (snd ?r)) div ?R) \<le>
      burst_size l * ((?e - last_time b) div ?R - (if late then 1 else 0))"
    using l(1) by (rule mult_left_mono)
  then have "tokens (snd ?r) + (if fst ?r then 1 else 0) + burst_size l * ((?e - last_time (snd ?r)) div ?R) \<le>
      tokens b + burst_size l * ((?e - last_time b) div ?R)"
    using step(2) by (auto simp: right_diff_distrib split: if_splits)
  then show ?case using IH by (auto simp: c split: prod.splits)
qed

lemma fresh_bucket_fills:
  "n1 \<noteq> 0 \<Longrightarrow> TimeLimiter_Allow l (n1, n2, n3) TokenBucket_init = TimeLimiter_Allow l (n1, n2, n3) (fill_bucket l n1)"
  by (simp add: TimeLimiter_Allow_def AllowN_def TokenBucket_init_def fill_bucket_def)

section \<open>The count limiter over a sequence of requests\<close>

fun count_run :: "string list \<Rightarrow> CountLimiter \<Rightarrow> bool list" where
  "count_run [] c = []"
| "count_run (k # ks) c = (let (ok, c') = CountLimiter_Allow k c in ok # count_run ks c')"

definition seen :: "CountLimiter \<Rightarrow> string \<Rightarrow> int" where
  "seen c k = (case um_find (=) (cl_cache c) k of None \<Rightarrow> 0 | Some b \<Rightarrow> tokens b)"

lemma CountLimiter_Allow_seen:
  "fst (CountLimiter_Allow k c) \<longleftrightarrow> seen c k + 1 \<le> cl_count c"
  "seen (snd (CountLimiter_Allow k c)) j = seen c j + (if j = k then 1 else 0)"
  "cl_count (snd (CountLimiter_Allow k c)) = cl_count c"
  by (auto simp: CountLimiter_Allow_def seen_def um_emplace_def um_find_append val_key.find_set
      TokenBucket_init_def Let_def split: option.splits)

lemma count_run_nth:
  "i < length ks \<Longrightarrow>
   count_run ks c ! i \<longleftrightarrow> seen c (ks ! i) + int (count_list (take (Suc i) ks) (ks ! i)) \<le> cl_count c"
proof (induction ks arbitrary: c i)
  case (Cons k ks)
  obtain ok c' where r: "CountLimiter_Allow k c = (ok, c')" by (cases "CountLimiter_Allow k c")
  note step = CountLimiter_Allow_seen [of k c, unfolded r]
  show ?case
  proof (cases i)
    case 0
    then show ?thesis using step(1) by (simp add: r)
  next
    case (Suc m)
    then show ?thesis using Cons.IH [of m c'] Cons.prems step(2) [of "ks ! m"] step(3) by (auto simp: r add.assoc)
  qed
qed simp

section \<open>Properties\<close>

text \<open>
  (C8) The token bucket keeps its rate. On a fresh bucket, with a clock that starts at a positive time
  and does not run backwards, any number of requests are granted at most one burst plus one burst
  for every full refill period between the first and the last reading of the clock.
\<close>

theorem TimeLimiter_rate_bound:
  assumes "0 \<le> burst_size l" "0 < refill_time l" "0 < n1" "clock_runs n1 ((n1, n2, n3) # cs)"
  shows "int (grants l TokenBucket_init ((n1, n2, n3) # cs)) \<le>
    burst_size l * (1 + (clock_end n1 ((n1, n2, n3) # cs) - n1) div refill_time l)"
proof -
  have "bucket_ok l n1 (fill_bucket l n1)" using assms by (simp add: bucket_ok_def fill_bucket_def)
  then have "int (grants l (fill_bucket l n1) ((n1, n2, n3) # cs)) \<le>
      burst_size l + burst_size l * ((clock_end n1 ((n1, n2, n3) # cs) - n1) div refill_time l)"
    using grants_used [OF assms(1,2) _ assms(3,4), of "fill_bucket l n1"] by (simp add: fill_bucket_def)
  then show ?thesis using assms(3) by (simp add: fresh_bucket_fills distrib_left)
qed

theorem TimeLimiter_rate_bound_witness:
  "grants (mk_TimeLimiter 2 1) TokenBucket_init [(5, 5, 5), (6, 6, 6), (7, 7, 7)] \<le> 2"
  using TimeLimiter_rate_bound [of "mk_TimeLimiter 2 1" 5 5 5 "[(6, 6, 6), (7, 7, 7)]"]
  by (simp add: mk_TimeLimiter_def del: grants.simps)

text \<open>
  The token bucket does not starve anyone: a request that comes a full refill period after the
  bucket's last refill is granted, whatever was granted before, and the bucket never holds more than
  a burst nor a negative number of tokens.
\<close>

theorem TimeLimiter_refills:
  assumes "0 < burst_size l" "0 < refill_time l" "bucket_ok l t b" "0 < t"
    and "clock_runs t [(n1, n2, n3)]" "n2 - last_time b \<ge> refill_time l"
  shows "fst (TimeLimiter_Allow l (n1, n2, n3) b) \<and>
    bucket_ok l n3 (snd (TimeLimiter_Allow l (n1, n2, n3) b))"
  using AllowN_step(1,4) [of l t b n1 n2 n3] assms by simp

theorem TimeLimiter_refills_witness:
  "fst (TimeLimiter_Allow (mk_TimeLimiter 2 1) (2000000, 2000000, 2000000) \<lparr>tokens = 0, last_time = 7\<rparr>)"
  by (rule TimeLimiter_refills [of _ 7, THEN conjunct1]) (simp_all add: mk_TimeLimiter_def bucket_ok_def)

text \<open>
  The cache of limiters stays within its capacity: a cache with at most \<^verbatim>\<open>capacity_\<close> entries has at
  most that many after a request, the entry that would exceed it empties the cache and is let
  through, and only a cache whose limiter was taken away fails.
\<close>

theorem RateLimitCache_bounded:
  assumes "length (rl_cache c) \<le> rl_capacity c"
  shows "(case RateLimitCache_Allow clock key c of
            None \<Rightarrow> rl_limiter c = None
          | Some (ok, c') \<Rightarrow>
              length (rl_cache c') \<le> rl_capacity c' \<and> rl_capacity c' = rl_capacity c \<and>
              rl_limiter c' = rl_limiter c \<and>
              (um_find (=) (rl_cache c) key = None \<and> length (rl_cache c) = rl_capacity c \<longrightarrow>
                 ok \<and> rl_cache c' = []))"
  using assms
  by (auto simp: RateLimitCache_Allow_def um_emplace_def um_find_append Let_def
      split: option.splits prod.splits)

theorem RateLimitCache_bounded_witness:
  "case RateLimitCache_Allow (5, 5, 5) ''k'' (mk_RateLimitCache 0 2 1) of
     None \<Rightarrow> False | Some (ok, c') \<Rightarrow> ok \<and> rl_cache c' = []"
  using RateLimitCache_bounded [of "mk_RateLimitCache 0 2 1", where clock = "(5, 5, 5)" and key = "''k''"]
  by (auto simp: mk_RateLimitCache_def split: option.splits prod.splits)

text \<open>
  The count limiter is exact: of any sequence of requests it allows precisely the first
  \<^verbatim>\<open>count_\<close> of every key.
\<close>

theorem CountLimiter_exact:
  assumes "i < length ks"
  shows "count_run ks (mk_CountLimiter n) ! i \<longleftrightarrow> int (count_list (take (Suc i) ks) (ks ! i)) \<le> n"
  using count_run_nth [OF assms, of "mk_CountLimiter n"] by (simp add: mk_CountLimiter_def seen_def)

theorem CountLimiter_exact_witness:
  "count_run [''a'', ''b'', ''a''] (mk_CountLimiter 1) ! 1 \<and> \<not> count_run [''a'', ''b'', ''a''] (mk_CountLimiter 1) ! 2"
  using CountLimiter_exact [of 1 "[''a'', ''b'', ''a'']" 1] CountLimiter_exact [of 2 "[''a'', ''b'', ''a'']" 1]
  by (simp add: numeral_2_eq_2 numeral_3_eq_3)

end
