(* ===== verification/Network_Status.thy ===== *)
theory Network_Status
  imports Conn_Tracker Rate_Limit
begin

text \<open>
  The network status notifier of \<^verbatim>\<open>collector/lib/NetworkStatusNotifier.cpp\<close>: decoding what Sensor sends,
  one round of the reporting loop, the loop itself and the messages it builds. Protobuf messages are
  records of the fields the code sets; a submessage that was not set is \<open>None\<close>. Results of the
  scraper, readings of the clock, the configuration at that moment, what other threads do to the
  tracker between two calls and the success of a write are inputs of a round.
\<close>

section \<open>Messages\<close>

datatype pb_role = ROLE_SERVER | ROLE_CLIENT
datatype pb_protocol = L4_PROTOCOL_UNKNOWN | L4_PROTOCOL_TCP | L4_PROTOCOL_UDP | L4_PROTOCOL_ICMP
datatype pb_family = SOCKET_FAMILY_UNKNOWN | SOCKET_FAMILY_IPV4 | SOCKET_FAMILY_IPV6

record NetworkAddress =
  na_address_data :: bytes
  na_ip_network :: bytes
  na_port :: u32

record NetworkConnection =
  nc_container_id :: string
  nc_role :: pb_role
  nc_protocol :: pb_protocol
  nc_socket_family :: pb_family
  nc_local_address :: "NetworkAddress option"
  nc_remote_address :: "NetworkAddress option"
  nc_close_timestamp :: "int option"

record NetworkProcessUniqueKey =
  np_process_name :: string
  np_process_exec_file_path :: string
  np_process_args :: string

record NetworkEndpoint =
  ne_container_id :: string
  ne_protocol :: pb_protocol
  ne_socket_family :: pb_family
  ne_listen_address :: "NetworkAddress option"
  ne_originator :: "NetworkProcessUniqueKey option"
  ne_close_timestamp :: "int option"

record NetworkConnectionInfo =
  ni_updated_connections :: "NetworkConnection list"
  ni_updated_endpoints :: "NetworkEndpoint list"
  ni_time :: int

fun TranslateL4Protocol :: "L4Proto \<Rightarrow> pb_protocol" where
  "TranslateL4Protocol TCP = L4_PROTOCOL_TCP"
| "TranslateL4Protocol UDP = L4_PROTOCOL_UDP"
| "TranslateL4Protocol ICMP = L4_PROTOCOL_ICMP"
| "TranslateL4Protocol L4Unknown = L4_PROTOCOL_UNKNOWN"

fun TranslateAddressFamily :: "Family \<Rightarrow> pb_family" where
  "TranslateAddressFamily IPV4 = SOCKET_FAMILY_IPV4"
| "TranslateAddressFamily IPV6 = SOCKET_FAMILY_IPV6"
| "TranslateAddressFamily FUnknown = SOCKET_FAMILY_UNKNOWN"

definition EndpointToProto :: "Endpoint \<Rightarrow> NetworkAddress option" where
  "EndpointToProto endpoint =
     (if Endpoint_IsNull endpoint then None
      else
        let n = addr_length (ep_address endpoint);
            raw = take n (addr_mem (ep_address endpoint))
        in Some \<lparr>na_address_data = (if ipn_is_addr (ep_network endpoint) then raw else []),
                 na_ip_network = (if ipn_bits (ep_network endpoint) > 0
                                  then raw @ [of_nat (ipn_bits (ep_network endpoint))] else []),
                 na_port = ucast (ep_port endpoint)\<rparr>)"

definition ProcessToProto :: "process_ref \<Rightarrow> NetworkProcessUniqueKey" where
  "ProcessToProto process =
     \<lparr>np_process_name = pr_comm process, np_process_exec_file_path = pr_exe_path process,
      np_process_args = pr_args process\<rparr>"

definition ConnToProto :: "Connection \<Rightarrow> NetworkConnection" where
  "ConnToProto conn =
     \<lparr>nc_container_id = conn_container conn,
      nc_role = (if conn_is_server conn then ROLE_SERVER else ROLE_CLIENT),
      nc_protocol = TranslateL4Protocol (conn_l4proto conn),
      nc_socket_family = TranslateAddressFamily (addr_family (ep_address (conn_local conn))),
      nc_local_address = EndpointToProto (conn_local conn),
      nc_remote_address = EndpointToProto (conn_remote conn),
      nc_close_timestamp = None\<rparr>"

definition ContainerEndpointToProto :: "ContainerEndpoint \<Rightarrow> NetworkEndpoint" where
  "ContainerEndpointToProto cep =
     \<lparr>ne_container_id = cep_container cep,
      ne_protocol = TranslateL4Protocol (cep_l4proto cep),
      ne_socket_family = TranslateAddressFamily (addr_family (ep_address (cep_endpoint cep))),
      ne_listen_address = EndpointToProto (cep_endpoint cep),
      ne_originator = map_option ProcessToProto (cep_originator cep),
      ne_close_timestamp = None\<rparr>"

section \<open>Control messages from Sensor\<close>

definition array_u64 :: "bytes \<Rightarrow> u64 \<times> u64" where
  "array_u64 bs =
     (let padded = bs @ replicate (16 - length bs) 0
      in (word_of_mem (take 8 padded), word_of_mem (drop 8 padded)))"

text \<open>
  The prefix length goes through a signed character to \<^verbatim>\<open>size_t\<close>; values with the top bit set become
  huge and are cut down by the constructor, as the unsigned value is.
\<close>

definition prefix_of_char :: "u8 \<Rightarrow> nat" where
  "prefix_of_char c = unat (scast c :: u64)"

definition readNetworks :: "bytes \<Rightarrow> Family \<Rightarrow> IPNet list" where
  "readNetworks networks family =
     (let len = addr_length (Address_any family);
          tuple_size = len + 1;
          num_nets = length networks div tuple_size
      in map (\<lambda>i. mk_IPNet (Address_u64 family (array_u64 (take len (drop (tuple_size * i) networks))))
                    (prefix_of_char (networks ! (tuple_size * i + tuple_size - 1))) False)
           [0..<num_nets])"

record IPAddressList =
  ipv4_addresses :: "u32 list"
  ipv6_addresses :: "u64 list"

record IPNetworkList =
  ipv4_networks :: bytes
  ipv6_networks :: bytes

record NetworkFlowsControlMessage =
  cm_public_ip_addresses :: IPAddressList
  cm_ip_networks :: "IPNetworkList option"

fun pair_up :: "u64 list \<Rightarrow> (u64 \<times> u64) list" where
  "pair_up (h # l # ws) = (h, l) # pair_up ws"
| "pair_up _ = []"

definition ReceivePublicIPs :: "IPAddressList \<Rightarrow> ConnectionTracker \<Rightarrow> ConnectionTracker" where
  "ReceivePublicIPs public_ips ct =
     (let v4 = map (\<lambda>public_ip. Address_ipv4 (htonl public_ip)) (ipv4_addresses public_ips);
          v6 = (if length (ipv6_addresses public_ips) mod 2 \<noteq> 0 then []
                else map (\<lambda>(h, l). Address_ipv6 (htonll h) (htonll l)) (pair_up (ipv6_addresses public_ips)))
      in UpdateKnownPublicIPs (set v4 \<union> set (map ToV6 v4) \<union> set v6) ct)"

definition ReceiveIPNetworks :: "IPNetworkList \<Rightarrow> ConnectionTracker \<Rightarrow> ConnectionTracker" where
  "ReceiveIPNetworks networks ct =
     UpdateKnownIPNetworks
       ((if length (ipv4_networks networks) mod 5 \<noteq> 0 then []
         else [(IPV4, readNetworks (ipv4_networks networks) IPV4)]) @
        (if length (ipv6_networks networks) mod 17 \<noteq> 0 then []
         else [(IPV6, readNetworks (ipv6_networks networks) IPV6)])) ct"

text \<open>Both parts of the message are guarded by the presence of the networks.\<close>

definition OnRecvControlMessage :: "NetworkFlowsControlMessage option \<Rightarrow> ConnectionTracker \<Rightarrow> ConnectionTracker" where
  "OnRecvControlMessage msg ct =
     (case msg of
        None \<Rightarrow> ct
      | Some m \<Rightarrow>
          (let ct1 = (if cm_ip_networks m \<noteq> None then ReceivePublicIPs (cm_public_ip_addresses m) ct else ct)
           in case cm_ip_networks m of None \<Rightarrow> ct1 | Some nets \<Rightarrow> ReceiveIPNetworks nets ct1))"

section \<open>Building a message\<close>

text \<open>
  The loop of \<^verbatim>\<open>AddConnections\<close>: the updates added, the limiter, and the number of rate-limited
  connections per container.
\<close>

fun add_connections_loop ::
  "CountLimiter \<Rightarrow> (string, int) umap \<Rightarrow> Connection state \<Rightarrow> NetworkConnection list \<times> (string, int) umap" where
  "add_connections_loop rate_limiter limited [] = ([], limited)"
| "add_connections_loop rate_limiter limited ((conn, status) # delta) =
     (let conn_proto = ConnToProto conn in
      if \<not> IsActive status then
        (let (updates, limited') = add_connections_loop rate_limiter limited delta
         in (conn_proto\<lparr>nc_close_timestamp := Some (LastActiveTime status)\<rparr> # updates, limited'))
      else
        (let (ok, rate_limiter') = CountLimiter_Allow (conn_container conn) rate_limiter in
         if \<not> ok then
           add_connections_loop rate_limiter'
             (um_assign (=) limited (conn_container conn)
                ((case um_find (=) limited (conn_container conn) of None \<Rightarrow> 0 | Some n \<Rightarrow> n) + 1)) delta
         else
           (let (updates, limited') = add_connections_loop rate_limiter' limited delta
            in (conn_proto # updates, limited'))))"

definition AddConnections :: "int \<Rightarrow> Connection state \<Rightarrow> NetworkConnection list" where
  "AddConnections per_container_limit delta =
     fst (add_connections_loop (mk_CountLimiter per_container_limit) [] delta)"

definition AddContainerEndpoints :: "ContainerEndpoint state \<Rightarrow> NetworkEndpoint list" where
  "AddContainerEndpoints delta =
     map (\<lambda>(cep, status).
            let endpoint_proto = ContainerEndpointToProto cep
            in if \<not> IsActive status
               then endpoint_proto\<lparr>ne_close_timestamp := Some (LastActiveTime status)\<rparr>
               else endpoint_proto) delta"

definition CreateInfoMessage ::
  "int \<Rightarrow> int \<Rightarrow> Connection state \<Rightarrow> ContainerEndpoint state \<Rightarrow> NetworkConnectionInfo option" where
  "CreateInfoMessage per_container_limit now conn_delta endpoint_delta =
     (if conn_delta = [] \<and> endpoint_delta = [] then None
      else Some \<lparr>ni_updated_connections = AddConnections per_container_limit conn_delta,
                 ni_updated_endpoints = AddContainerEndpoints endpoint_delta,
                 ni_time = now\<rparr>)"

section \<open>The reporting loop\<close>

record notifier_config =
  nf_turn_off_scrape :: bool
  nf_scrape_listen_endpoints :: bool
  nf_enable_afterglow :: bool
  nf_afterglow_period :: int

record round_input =
  ri_scrape :: "(Connection list \<times> ContainerEndpoint list) option"
  ri_scrape_time :: int
  ri_time_micros :: int
  ri_external_ips :: ExternalIPsConfig
  ri_per_container_limit :: int
  ri_message_time :: int
  ri_others :: "nat \<Rightarrow> ConnectionTracker \<Rightarrow> ConnectionTracker"
  ri_write_ok :: bool

record loop_state =
  ls_tracker :: ConnectionTracker
  ls_old_conn_state :: "Connection state"
  ls_old_cep_state :: "ContainerEndpoint state"
  ls_prev_external_ips :: ExternalIPsConfig
  ls_time_at_last_scrape :: int

definition UpdateAllConnsAndEndpoints ::
  "notifier_config \<Rightarrow> round_input \<Rightarrow> ConnectionTracker \<Rightarrow> bool \<times> ConnectionTracker" where
  "UpdateAllConnsAndEndpoints cfg inp ct =
     (if nf_turn_off_scrape cfg then (True, ct)
      else case ri_scrape inp of
             None \<Rightarrow> (False, ct)
           | Some (all_conns, all_listen_endpoints) \<Rightarrow>
               (True, Update all_conns (if nf_scrape_listen_endpoints cfg then all_listen_endpoints else [])
                        (ri_scrape_time inp) ct))"

text \<open>
  One round after a successful scrape: the deltas of connections and endpoints, and the new state of
  the loop.
\<close>

definition report_round ::
  "notifier_config \<Rightarrow> round_input \<Rightarrow> loop_state \<Rightarrow> Connection state \<times> ContainerEndpoint state \<times> loop_state" where
  "report_round cfg inp ls =
     (let time_micros = ri_time_micros inp;
          ct1 = SetExternalIPsConfig (ri_external_ips inp) (ri_others inp 1 (ls_tracker ls));
          (new_conn_state, ct2) = FetchConnState True True (ri_others inp 2 ct1);
          ct3 = ri_others inp 3 ct2;
          (old_conn_state, delta_conn, prev) =
            (if nf_enable_afterglow cfg then
               (let delta = ComputeDeltaAfterglow Connection_keq new_conn_state (ls_old_conn_state ls) []
                              time_micros (ls_time_at_last_scrape ls) (nf_afterglow_period cfg);
                    (old', delta') = CloseConnectionsOnExternalIPsConfigChange ct3 (ls_prev_external_ips ls)
                                       (ls_old_conn_state ls) delta
                in (old', delta', ri_external_ips inp))
             else
               (ls_old_conn_state ls, ComputeDelta Connection_keq new_conn_state (ls_old_conn_state ls),
                ls_prev_external_ips ls));
          (new_cep_state, ct4) = FetchEndpointState True True (ri_others inp 4 ct3);
          delta_cep = ComputeDelta AdvertisedEndpoint_keq new_cep_state (ls_old_cep_state ls)
      in (delta_conn, delta_cep,
          \<lparr>ls_tracker = ct4,
           ls_old_conn_state =
             (if nf_enable_afterglow cfg
              then UpdateOldState Connection_keq old_conn_state new_conn_state time_micros (nf_afterglow_period cfg)
              else new_conn_state),
           ls_old_cep_state = new_cep_state,
           ls_prev_external_ips = prev,
           ls_time_at_last_scrape = time_micros\<rparr>))"

text \<open>
  \<^verbatim>\<open>RunSingle\<close> over the rounds for which the writer's sleep succeeds: the messages written, and the state
  when the loop ends, be it for lack of rounds or because a write failed.
\<close>

fun RunSingle_loop ::
  "notifier_config \<Rightarrow> round_input list \<Rightarrow> loop_state \<Rightarrow> NetworkConnectionInfo list \<times> loop_state" where
  "RunSingle_loop cfg [] ls = ([], ls)"
| "RunSingle_loop cfg (inp # inps) ls =
     (let (ok, ct) = UpdateAllConnsAndEndpoints cfg inp (ri_others inp 0 (ls_tracker ls));
          ls1 = ls\<lparr>ls_tracker := ct\<rparr>
      in if \<not> ok then RunSingle_loop cfg inps ls1
         else
           (let (delta_conn, delta_cep, ls2) = report_round cfg inp ls1
            in case CreateInfoMessage (ri_per_container_limit inp) (ri_message_time inp) delta_conn delta_cep of
                 None \<Rightarrow> RunSingle_loop cfg inps ls2
               | Some msg \<Rightarrow>
                   if \<not> ri_write_ok inp then ([], ls2)
                   else (let (msgs, ls3) = RunSingle_loop cfg inps ls2 in (msg # msgs, ls3))))"

definition RunSingle ::
  "notifier_config \<Rightarrow> ExternalIPsConfig \<Rightarrow> int \<Rightarrow> round_input list \<Rightarrow> ConnectionTracker \<Rightarrow>
   NetworkConnectionInfo list \<times> loop_state" where
  "RunSingle cfg external_ips now inps ct =
     RunSingle_loop cfg inps
       \<lparr>ls_tracker = ct, ls_old_conn_state = [], ls_old_cep_state = [],
        ls_prev_external_ips = external_ips, ls_time_at_last_scrape = now\<rparr>"

section \<open>What the rate limit lets through\<close>

fun sent_entries :: "CountLimiter \<Rightarrow> Connection state \<Rightarrow> Connection state" where
  "sent_entries l [] = []"
| "sent_entries l ((c, s) # delta) =
     (if \<not> IsActive s then (c, s) # sent_entries l delta
      else let (ok, l') = CountLimiter_Allow (conn_container c) l
           in if ok then (c, s) # sent_entries l' delta else sent_entries l' delta)"

definition entry_proto :: "Connection \<times> ConnStatus \<Rightarrow> NetworkConnection" where
  "entry_proto e = (if IsActive (snd e) then ConnToProto (fst e)
     else (ConnToProto (fst e))\<lparr>nc_close_timestamp := Some (LastActiveTime (snd e))\<rparr>)"

definition active_of :: "string \<Rightarrow> Connection \<times> ConnStatus \<Rightarrow> bool" where
  "active_of container e \<longleftrightarrow> IsActive (snd e) \<and> conn_container (fst e) = container"

lemma add_connections_loop_sent:
  "fst (add_connections_loop l limited delta) = map entry_proto (sent_entries l delta)"
  by (induction l limited delta rule: add_connections_loop.induct)
    (auto simp: entry_proto_def Let_def split: prod.splits)

lemma AddConnections_sent: "AddConnections n delta = map entry_proto (sent_entries (mk_CountLimiter n) delta)"
  by (simp add: AddConnections_def add_connections_loop_sent)

lemma entry_proto_sel [simp]:
  "nc_close_timestamp (entry_proto e) = (if IsActive (snd e) then None else Some (LastActiveTime (snd e)))"
  "nc_container_id (entry_proto e) = conn_container (fst e)"
  by (simp_all add: entry_proto_def ConnToProto_def)

lemma sent_closings: "filter (\<lambda>(c, s). \<not> IsActive s) (sent_entries l delta) = filter (\<lambda>(c, s). \<not> IsActive s) delta"
  by (induction l delta rule: sent_entries.induct) (auto split: prod.splits)

lemma sent_count:
  "int (length (filter (active_of k) (sent_entries l delta))) =
     min (max 0 (cl_count l - seen l k)) (int (length (filter (active_of k) delta)))"
proof (induction l delta rule: sent_entries.induct)
  case (2 l c s delta)
  show ?case
  proof (cases "IsActive s")
    case True
    obtain ok l' where r: "CountLimiter_Allow (conn_container c) l = (ok, l')" by fastforce
    note step = CountLimiter_Allow_seen [of "conn_container c" l, unfolded r]
    show ?thesis using 2(2) [OF _ r [symmetric] refl] 2(3) [OF _ r [symmetric] refl] True step(1,3) step(2) [of k]
      by (cases ok; cases "conn_container c = k") (auto simp: r active_of_def)
  qed (use 2 in \<open>auto simp: active_of_def\<close>)
qed simp

lemma sent_subseq: "subseq (sent_entries l delta) delta"
  by (induction l delta rule: sent_entries.induct) (auto split: prod.splits)

lemma subseq_set: "subseq xs ys \<Longrightarrow> set xs \<subseteq> set ys"
  by (induction rule: list_emb.induct) auto

section \<open>The delta of a round\<close>

text \<open>The tracker at the moment the notifier fetches, and at the moment it closes connections.\<close>

definition tracker_at_fetch :: "round_input \<Rightarrow> loop_state \<Rightarrow> ConnectionTracker" where
  "tracker_at_fetch inp ls =
     ri_others inp 2 (SetExternalIPsConfig (ri_external_ips inp) (ri_others inp 1 (ls_tracker ls)))"

definition tracker_at_close :: "round_input \<Rightarrow> loop_state \<Rightarrow> ConnectionTracker" where
  "tracker_at_close inp ls = ri_others inp 3 (snd (FetchConnState True True (tracker_at_fetch inp ls)))"

definition new_conns :: "round_input \<Rightarrow> loop_state \<Rightarrow> Connection state" where
  "new_conns inp ls = fst (FetchConnState True True (tracker_at_fetch inp ls))"

definition loop_inv :: "loop_state \<Rightarrow> bool" where
  "loop_inv ls \<longleftrightarrow> um_inv Connection_keq (ls_old_conn_state ls) \<and> um_inv AdvertisedEndpoint_keq (ls_old_cep_state ls)"

lemma inv_new_conns: "um_inv Connection_keq (new_conns inp ls)"
  by (simp add: new_conns_def FetchConnState_uniform conn_key.inv_FetchState)

lemma report_round_sel:
  fixes inp ls cfg
  defines "r \<equiv> report_round cfg inp ls"
  defines "delta \<equiv> ComputeDeltaAfterglow Connection_keq (new_conns inp ls) (ls_old_conn_state ls) []
      (ri_time_micros inp) (ls_time_at_last_scrape ls) (nf_afterglow_period cfg)"
  defines "closed \<equiv> CloseConnectionsOnExternalIPsConfigChange (tracker_at_close inp ls)
      (ls_prev_external_ips ls) (ls_old_conn_state ls) delta"
  shows "nf_enable_afterglow cfg \<Longrightarrow> fst r = snd closed"
    and "nf_enable_afterglow cfg \<Longrightarrow> ls_old_conn_state (snd (snd r)) =
      UpdateOldState Connection_keq (fst closed) (new_conns inp ls) (ri_time_micros inp) (nf_afterglow_period cfg)"
    and "nf_enable_afterglow cfg \<Longrightarrow> ls_prev_external_ips (snd (snd r)) = ri_external_ips inp"
    and "ls_time_at_last_scrape (snd (snd r)) = ri_time_micros inp"
    and "um_inv AdvertisedEndpoint_keq (ls_old_cep_state (snd (snd r)))"
    and "fst (snd r) = ComputeDelta AdvertisedEndpoint_keq (ls_old_cep_state (snd (snd r))) (ls_old_cep_state ls)"
    and "\<not> nf_enable_afterglow cfg \<Longrightarrow> fst r = ComputeDelta Connection_keq (new_conns inp ls) (ls_old_conn_state ls)"
    and "\<not> nf_enable_afterglow cfg \<Longrightarrow> ls_old_conn_state (snd (snd r)) = new_conns inp ls"
  unfolding r_def closed_def delta_def report_round_def tracker_at_close_def tracker_at_fetch_def new_conns_def
  by (auto simp: Let_def case_prod_beta FetchEndpointState_uniform adv_key.inv_FetchState)

lemma loop_inv_round:
  assumes "loop_inv ls"
  shows "loop_inv (snd (snd (report_round cfg inp ls)))"
proof (cases "nf_enable_afterglow cfg")
  case True
  note sel = report_round_sel [of cfg inp ls]
  show ?thesis unfolding loop_inv_def sel(2) [OF True]
    using assms sel(5)
    by (auto simp: loop_inv_def intro!: conn_key.inv_UpdateOldState inv_CloseOnChange conn_key.inv_ComputeDeltaAfterglow)
next
  case False
  then show ?thesis using report_round_sel(5,8) [of cfg inp ls] inv_new_conns by (simp add: loop_inv_def)
qed

lemma afterglow_round_view:
  assumes "nf_enable_afterglow cfg" "loop_inv ls" "ls_time_at_last_scrape ls \<le> ri_time_micros inp"
    and fresh: "\<And>j. closes_in Connection_keq (closing (tracker_at_close inp ls) (ls_prev_external_ips ls))
        (ls_old_conn_state ls) j \<Longrightarrow> um_find Connection_keq (new_conns inp ls) j = None"
  defines "per \<equiv> nf_afterglow_period cfg" and "ls' \<equiv> snd (snd (report_round cfg inp ls))"
  shows "sensor_view Connection_keq
      (recent_in Connection_keq (ls_old_conn_state ls) (ls_time_at_last_scrape ls) per) (fst (report_round cfg inp ls)) =
    recent_in Connection_keq (ls_old_conn_state ls') (ls_time_at_last_scrape ls') per"
proof -
  note sel = report_round_sel [of cfg inp ls]
  have old: "um_inv Connection_keq (ls_old_conn_state ls)" using assms(2) by (simp add: loop_inv_def)
  show ?thesis
    unfolding ls'_def sel(1) [OF assms(1)] sel(2) [OF assms(1)] sel(4) per_def
    by (rule conn_key.afterglow_round_in_step [OF inv_new_conns old _ assms(3)
          find_CloseOnChange(1) [OF old] find_CloseOnChange(2) [OF old] fresh])
      (simp_all add: inv_CloseOnChange conn_key.inv_ComputeDeltaAfterglow old)
qed

text \<open>Rounds in which the External-IPs switch keeps the value \<open>c\<close>; only the notifier sets it.\<close>

definition steady :: "ExternalIPsConfig \<Rightarrow> round_input \<Rightarrow> bool" where
  "steady c inp \<longleftrightarrow> ri_external_ips inp = c \<and>
     (\<forall>k ct. ct_external_ips_config (ri_others inp k ct) = ct_external_ips_config ct)"

fun times_run :: "int \<Rightarrow> round_input list \<Rightarrow> bool" where
  "times_run t [] = True"
| "times_run t (inp # inps) = (t \<le> ri_time_micros inp \<and> times_run (ri_time_micros inp) inps)"

lemma times_run_mono: "times_run t inps \<Longrightarrow> t' \<le> t \<Longrightarrow> times_run t' inps"
  by (cases inps) auto

lemma FetchConnState_config [simp]:
  "ct_external_ips_config (snd (FetchConnState n c ct)) = ct_external_ips_config ct"
  by (simp add: FetchConnState_def Let_def case_prod_beta)

lemma steady_closes_nothing:
  assumes "steady c inp" "ls_prev_external_ips ls = c"
  shows "\<not> closes_in Connection_keq (closing (tracker_at_close inp ls) (ls_prev_external_ips ls)) old j"
proof -
  have "ct_external_ips_config (tracker_at_close inp ls) = c"
    using assms by (simp add: steady_def tracker_at_close_def tracker_at_fetch_def SetExternalIPsConfig_def)
  then show ?thesis using assms(2) by (auto simp: closes_in_def closing_def Let_def)
qed

lemma inv_round_delta:
  assumes "nf_enable_afterglow cfg" "loop_inv ls"
  shows "um_inv Connection_keq (fst (report_round cfg inp ls))"
  unfolding report_round_sel(1) [OF assms(1)] using assms(2)
  by (auto simp: loop_inv_def intro!: inv_CloseOnChange conn_key.inv_ComputeDeltaAfterglow)

section \<open>Properties\<close>

definition sample_conn :: Connection where
  "sample_conn = mk_Connection ''c'' Endpoint_default (Endpoint_of_address (Address_quad 10 0 0 1) 80) TCP False"

definition sample_round :: round_input where
  "sample_round = \<lparr>ri_scrape = Some ([sample_conn], []), ri_scrape_time = 9, ri_time_micros = 10,
     ri_external_ips = ExternalIPsConfig_default, ri_per_container_limit = 5, ri_message_time = 11,
     ri_others = (\<lambda>_ ct. ct), ri_write_ok = True\<rparr>"

definition sample_config :: notifier_config where
  "sample_config = \<lparr>nf_turn_off_scrape = False, nf_scrape_listen_endpoints = True, nf_enable_afterglow = True,
     nf_afterglow_period = 20\<rparr>"

text \<open>
  (C7) The rate limit is exact and never drops a close event: of the active connections of a
  container in the delta the message carries as many as the limit allows, and it carries every
  closed connection, in order, with its last activity as the close timestamp.
\<close>

theorem AddConnections_rate_limit:
  assumes "0 \<le> limit"
  shows "int (length (filter (\<lambda>nc. nc_close_timestamp nc = None \<and> nc_container_id nc = container)
             (AddConnections limit delta))) =
           min limit (int (length (filter (\<lambda>(c, s). IsActive s \<and> conn_container c = container) delta))) \<and>
         filter (\<lambda>nc. nc_close_timestamp nc \<noteq> None) (AddConnections limit delta) =
           map (\<lambda>(c, s). (ConnToProto c)\<lparr>nc_close_timestamp := Some (LastActiveTime s)\<rparr>)
             (filter (\<lambda>(c, s). \<not> IsActive s) delta)"
proof (intro conjI)
  let ?sent = "sent_entries (mk_CountLimiter limit) delta"
  have open_eq: "(\<lambda>nc. nc_close_timestamp nc = None \<and> nc_container_id nc = container) \<circ> entry_proto = active_of container"
    by (auto simp: fun_eq_iff active_of_def)
  have act: "active_of container = (\<lambda>(c, s). IsActive s \<and> conn_container c = container)"
    by (auto simp: fun_eq_iff active_of_def)
  show "int (length (filter (\<lambda>nc. nc_close_timestamp nc = None \<and> nc_container_id nc = container)
             (AddConnections limit delta))) =
        min limit (int (length (filter (\<lambda>(c, s). IsActive s \<and> conn_container c = container) delta)))"
    using sent_count [of container "mk_CountLimiter limit" delta] assms
    by (simp add: AddConnections_sent filter_map open_eq act [symmetric] mk_CountLimiter_def seen_def)
  have closed_eq: "(\<lambda>nc. nc_close_timestamp nc \<noteq> None) \<circ> entry_proto = (\<lambda>(c, s). \<not> IsActive s)"
    by (auto simp: fun_eq_iff)
  show "filter (\<lambda>nc. nc_close_timestamp nc \<noteq> None) (AddConnections limit delta) =
      map (\<lambda>(c, s). (ConnToProto c)\<lparr>nc_close_timestamp := Some (LastActiveTime s)\<rparr>)
        (filter (\<lambda>(c, s). \<not> IsActive s) delta)"
    unfolding AddConnections_sent filter_map closed_eq sent_closings
    by (auto simp: entry_proto_def intro!: map_cong)
qed

theorem AddConnections_rate_limit_witness:
  "length (filter (\<lambda>nc. nc_close_timestamp nc = None \<and> nc_container_id nc = ''c'')
     (AddConnections 1 [(sample_conn, mk_ConnStatus 1 True), (sample_conn, mk_ConnStatus 2 True)])) = 1"
proof -
  have "conn_container sample_conn = ''c''" by (simp add: sample_conn_def)
  then show ?thesis
    using AddConnections_rate_limit [of 1 "''c''" "[(sample_conn, mk_ConnStatus 1 True), (sample_conn, mk_ConnStatus 2 True)]"]
    by simp
qed

text \<open>The encoding of a network in a field of the protocol: its address bytes and its prefix length.\<close>

definition encode_network :: "IPNet \<Rightarrow> bytes" where
  "encode_network n = take (addr_length (ipn_address n)) (addr_mem (ipn_address n)) @ [of_nat (ipn_bits n)]"

definition decode_network :: "Family \<Rightarrow> bytes \<Rightarrow> IPNet" where
  "decode_network family tuple =
     mk_IPNet (Address_u64 family (array_u64 (butlast tuple))) (prefix_of_char (List.last tuple)) False"

lemma array_u64_addr:
  assumes "wf_Address a"
  shows "array_u64 (take (addr_length a) (addr_mem a)) = addr_data a"
proof -
  have "take (addr_length a) (addr_mem a) @ replicate (16 - length (take (addr_length a) (addr_mem a))) 0 = addr_mem a"
    using addr_mem_wf [OF assms] addr_length_le [of a] by (simp add: min_absorb2)
  then show ?thesis unfolding array_u64_def Let_def by (simp add: addr_mem_def)
qed

lemma prefix_of_char_of_nat:
  assumes "b \<le> 128"
  shows "prefix_of_char (of_nat b) = b \<or> b = 128 \<and> 128 \<le> prefix_of_char (of_nat b)"
proof -
  have "prefix_of_char (of_nat b) = b" if "b < 128"
  proof -
    have "signed_take_bit 7 (int b) = int b" using that by (simp add: signed_take_bit_int_eq_self)
    then have "(scast (of_nat b :: u8) :: u64) = of_nat b" by (simp add: signed_of_nat)
    then show ?thesis using that by (simp add: prefix_of_char_def unat_of_nat)
  qed
  moreover have "128 \<le> prefix_of_char (of_nat 128)"
  proof -
    have "(scast (of_nat 128 :: u8) :: u64) = of_int (signed_take_bit 7 128)"
      using signed_of_nat [of 128, where 'b = 8 and 'a = "64 word"] by simp
    also have "signed_take_bit 7 (128 :: int) = - 128" by code_simp
    finally have "(scast (of_nat 128 :: u8) :: u64) = - 128" by simp
    then show ?thesis by (simp add: prefix_of_char_def)
  qed
  ultimately show ?thesis using assms by (cases "b = 128") auto
qed

lemma mk_IPNet_prefix:
  assumes "b \<le> 8 * addr_length a"
  shows "mk_IPNet a (prefix_of_char (of_nat b)) f = mk_IPNet a b f"
proof -
  have cut: "mk_IPNet a k f = mk_IPNet a (min k (8 * addr_length a)) f" for k
    by (simp add: mk_IPNet_def Let_def addr_length_def min_def mult.commute [of _ 8])
  have "b \<le> 128" using assms addr_length_le [of a] by linarith
  then have "min (prefix_of_char (of_nat b)) (8 * addr_length a) = min b (8 * addr_length a)"
    using prefix_of_char_of_nat [of b] addr_length_le [of a] assms by auto
  then show ?thesis using cut by metis
qed

lemma decode_encode:
  assumes "wf_Address (ipn_address n)" "wf_IPNet n" "\<not> ipn_is_addr n"
  shows "decode_network (ipn_family n) (encode_network n) = n"
proof -
  have "Address_u64 (ipn_family n) (addr_data (ipn_address n)) = ipn_address n"
    by (simp add: Address_u64_def ipn_family_def)
  then have "decode_network (ipn_family n) (encode_network n) = mk_IPNet (ipn_address n) (ipn_bits n) False"
    using mk_IPNet_prefix [OF wf_IPNet_bits [OF assms(2)]] array_u64_addr [OF assms(1)]
    by (simp add: decode_network_def encode_network_def)
  then show ?thesis using assms(2,3) by (simp add: wf_IPNet_def)
qed

lemma readNetworks_Cons:
  assumes "length tuple = Suc (addr_length (Address_any family))"
  shows "readNetworks (tuple @ rest) family = decode_network family tuple # readNetworks rest family"
proof -
  let ?m = "Suc (addr_length (Address_any family))"
  have num: "length (tuple @ rest) div ?m = Suc (length rest div ?m)"
    using div_add_self1 [of ?m "length rest"] by (simp add: assms)
  have tup: "take (addr_length (Address_any family)) tuple = butlast tuple"
      "tuple ! addr_length (Address_any family) = List.last tuple"
    using assms by (simp add: butlast_conv_take) (metis assms diff_Suc_1 last_conv_nth list.size(3) nat.distinct(1))
  have next_tuple: "?m * Suc i = length tuple + ?m * i" for i using assms by simp
  show ?thesis
    unfolding readNetworks_def Let_def Suc_eq_plus1 [symmetric] num upt_conv_Cons [OF zero_less_Suc] list.map
      map_Suc_upt [symmetric] map_map comp_def decode_network_def
    using assms tup
    by (simp add: next_tuple nth_append add.commute del: mult_Suc mult_Suc_right)
qed

text \<open>
  (C26) Sensor's networks survive the wire: decoding the concatenated encodings of networks of one
  address family gives back the networks, including prefix lengths that do not fit a signed
  character; the same encoding is what the collector sends in the network field of an address.
\<close>

theorem readNetworks_roundtrip:
  assumes "family \<noteq> FUnknown"
    and "\<forall>n \<in> set nets. wf_Address (ipn_address n) \<and> wf_IPNet n \<and> \<not> ipn_is_addr n \<and> ipn_family n = family"
  shows "readNetworks (concat (map encode_network nets)) family = nets \<and>
    (\<forall>n \<in> set nets. \<forall>p. 0 < ipn_bits n \<longrightarrow>
       map_option na_ip_network (EndpointToProto (mk_Endpoint n p)) = Some (encode_network n))"
proof
  show "readNetworks (concat (map encode_network nets)) family = nets"
    using assms(2)
  proof (induction nets)
    case Nil
    then show ?case by (simp add: readNetworks_def)
  next
    case (Cons n nets)
    have "length (encode_network n) = Suc (addr_length (Address_any family))"
      using Cons.prems addr_length_le [of "ipn_address n"]
      by (auto simp: encode_network_def addr_length_def ipn_family_def)
    then show ?case using Cons by (auto simp: readNetworks_Cons dest: decode_encode)
  qed
  show "\<forall>n \<in> set nets. \<forall>p. 0 < ipn_bits n \<longrightarrow>
       map_option na_ip_network (EndpointToProto (mk_Endpoint n p)) = Some (encode_network n)"
    by (auto simp: EndpointToProto_def Endpoint_IsNull_def IPNet_IsNull_def mk_Endpoint_def Let_def
        encode_network_def ep_address_def)
qed

theorem readNetworks_roundtrip_witness:
  "let nets = [mk_IPNet (Address_ipv6 (htonll 0xfd00000000000000) 0) 8 False,
               mk_IPNet (Address_ipv6 (htonll 0x20010db800000000) 1) 128 False]
   in readNetworks (concat (map encode_network nets)) IPV6 = nets \<and> map ipn_bits nets = [8, 128]"
  unfolding Let_def
  by (intro conjI readNetworks_roundtrip [THEN conjunct1]) simp_all

text \<open>
  A control message that carries public addresses but no networks is ignored: the handler tests
  for the networks before it handles the addresses.
\<close>

theorem public_ips_need_networks:
  "OnRecvControlMessage (Some \<lparr>cm_public_ip_addresses = ips, cm_ip_networks = None\<rparr>) ct = ct"
  by (simp add: OnRecvControlMessage_def)

end
