(* ===== verification/Notifier_View.thy ===== *)
theory Notifier_View
  imports Network_Status
begin

text \<open>
  What the receiver of the notifier's messages knows. The receiver here sees the messages
  \<^verbatim>\<open>RunSingle\<close> writes and nothing else: it keeps the connections and endpoints it was told of, as they
  are written in the message, and forgets one when a message carries it with a close timestamp. The
  tables of the notifier identify connections by \<^verbatim>\<open>operator==\<close> and the hash, the receiver by the fields
  of the message; where the two agree is part of the statements.
\<close>

section \<open>The receiver\<close>

text \<open>
  A receiver of updates: \<open>base\<close> is the update without its close timestamp, \<open>opened\<close> tells whether it has
  none.
\<close>

definition apply_updates :: "('m \<Rightarrow> 'm) \<Rightarrow> ('m \<Rightarrow> bool) \<Rightarrow> 'm list \<Rightarrow> ('m \<Rightarrow> bool) \<Rightarrow> 'm \<Rightarrow> bool" where
  "apply_updates base opened updates view = fold (\<lambda>u v. v(base u := opened u)) updates view"

definition receive_conns :: "NetworkConnectionInfo \<Rightarrow> (NetworkConnection \<Rightarrow> bool) \<Rightarrow> NetworkConnection \<Rightarrow> bool" where
  "receive_conns msg =
     apply_updates (\<lambda>nc. nc\<lparr>nc_close_timestamp := None\<rparr>) (\<lambda>nc. nc_close_timestamp nc = None)
       (ni_updated_connections msg)"

definition receive_endpoints :: "NetworkConnectionInfo \<Rightarrow> (NetworkEndpoint \<Rightarrow> bool) \<Rightarrow> NetworkEndpoint \<Rightarrow> bool" where
  "receive_endpoints msg =
     apply_updates (\<lambda>ne. ne\<lparr>ne_close_timestamp := None\<rparr>) (\<lambda>ne. ne_close_timestamp ne = None)
       (ni_updated_endpoints msg)"

text \<open>The receiver's connections and endpoints after the messages of a stream, from nothing.\<close>

definition receiver_conns :: "NetworkConnectionInfo list \<Rightarrow> NetworkConnection \<Rightarrow> bool" where
  "receiver_conns msgs = fold receive_conns msgs (\<lambda>_. False)"

text \<open>What the notifier's own state says the receiver should know.\<close>

definition current_conns :: "notifier_config \<Rightarrow> loop_state \<Rightarrow> NetworkConnection \<Rightarrow> bool" where
  "current_conns cfg ls p \<longleftrightarrow>
     (\<exists>(k, s) \<in> set (ls_old_conn_state ls).
        ConnToProto k = p \<and> WasRecentlyActive s (ls_time_at_last_scrape ls) (nf_afterglow_period cfg))"

definition current_endpoints :: "loop_state \<Rightarrow> NetworkEndpoint \<Rightarrow> bool" where
  "current_endpoints ls p \<longleftrightarrow>
     (\<exists>(k, s) \<in> set (ls_old_cep_state ls). ContainerEndpointToProto k = p \<and> IsActive s)"

text \<open>
  Keys the tables identify are written alike; and keys written alike are identified by the tables.
\<close>

definition written_alike :: "('k \<Rightarrow> 'k \<Rightarrow> bool) \<Rightarrow> ('k \<Rightarrow> 'm) \<Rightarrow> 'k set \<Rightarrow> bool" where
  "written_alike keq f K \<longleftrightarrow> (\<forall>c \<in> K. \<forall>d \<in> K. keq c d \<longrightarrow> f c = f d)"

definition written_apart :: "('k \<Rightarrow> 'k \<Rightarrow> bool) \<Rightarrow> ('k \<Rightarrow> 'm) \<Rightarrow> 'k set \<Rightarrow> bool" where
  "written_apart keq f K \<longleftrightarrow> (\<forall>c \<in> K. \<forall>d \<in> K. f c = f d \<longrightarrow> keq c d)"

section \<open>Keys of the tables\<close>

abbreviation keys_of :: "('k, 'v) umap \<Rightarrow> 'k set" where
  "keys_of m \<equiv> fst ` set m"

lemma keys_um_set [simp]: "keys_of (um_set eq m k v) = keys_of m"
  by (induction eq m k v rule: um_set.induct) auto

lemma keys_um_emplace: "keys_of (fst (um_emplace eq m k v)) \<subseteq> insert k (keys_of m)"
  by (auto simp: um_emplace_def split: option.splits)

lemma keys_um_erase: "keys_of (um_erase eq m k) \<subseteq> keys_of m"
  by (auto simp: um_erase_def)

text \<open>A loop whose body adds at most the key of its element adds at most the keys it runs over.\<close>

lemma keys_fold:
  assumes "\<And>k s d. keys_of (step k s d) \<subseteq> insert (h k) (keys_of d)"
  shows "keys_of (fold (\<lambda>(k, s). step k s) m d) \<subseteq> h ` keys_of m \<union> keys_of d"
proof (induction m arbitrary: d)
  case (Cons a m)
  obtain k s where a: "a = (k, s)" by (cases a)
  show ?case using Cons [of "step k s d"] assms [of k s d] by (simp add: a) blast
qed simp

lemmas keys_fold_same = keys_fold [where h = "\<lambda>k. k", unfolded image_ident]

lemma keys_filter: "keys_of (filter P m) \<subseteq> keys_of m"
  by auto

lemma keys_old_state_step: "keys_of (old_state_step keq k s d) \<subseteq> insert k (keys_of d)"
  by (cases "um_find keq d k") (simp_all add: old_state_step_def um_emplace_def subset_insertI)

lemma keys_UpdateOldState: "keys_of (UpdateOldState keq old new t per) \<subseteq> keys_of old \<union> keys_of new"
  unfolding UpdateOldState_def
  by (rule subset_trans [OF keys_fold_same [of "old_state_step keq", OF keys_old_state_step]])
    (use keys_filter [of _ old] in blast)

lemma keys_afterglow_new_step: "keys_of (afterglow_new_step keq old t t0 per k s d) \<subseteq> insert k (keys_of d)"
  using keys_um_emplace [of keq d k] unfolding afterglow_new_step_def InOldAndNewStates_eq InNewState_eq
  by (auto split: option.splits)

lemma keys_afterglow_old_step: "keys_of (afterglow_old_step keq new t t0 per k s d) \<subseteq> insert k (keys_of d)"
  using keys_um_emplace [of keq d k] unfolding afterglow_old_step_def by auto

lemma keys_ComputeDeltaAfterglow:
  "keys_of (ComputeDeltaAfterglow keq new old delta t t0 per) \<subseteq> keys_of old \<union> keys_of new \<union> keys_of delta"
  unfolding ComputeDeltaAfterglow_def
  by (rule subset_trans [OF keys_fold_same [of "afterglow_old_step keq new t t0 per", OF keys_afterglow_old_step]])
    (use keys_fold_same [of "afterglow_new_step keq old t t0 per", OF keys_afterglow_new_step, of new delta] in blast)

lemma keys_delta_insert_step: "keys_of (delta_insert_step keq k s d) \<subseteq> insert k (keys_of d)"
  by (cases "um_find keq d k")
    (simp_all add: delta_insert_step_def um_emplace_def subset_insertI subset_insertI2 keys_um_erase)

lemma keys_ComputeDelta: "keys_of (ComputeDelta keq new old) \<subseteq> keys_of old \<union> keys_of new"
  unfolding ComputeDelta_def delta_close_loop_eq
  using keys_fold_same [of "delta_insert_step keq", OF keys_delta_insert_step, of new old] by force

lemma keys_CloseConnections:
  "keys_of (fst (CloseConnections keq P old delta)) \<subseteq> keys_of old"
  "keys_of (snd (CloseConnections keq P old delta)) \<subseteq> keys_of old \<union> keys_of delta"
proof -
  have "keys_of (if P k then fst (um_emplace keq d k (SetActive s False)) else d) \<subseteq> insert k (keys_of d)" for k s d
    using keys_um_emplace [of keq d k] by auto
  from keys_fold_same [of "\<lambda>k s d. if P k then fst (um_emplace keq d k (SetActive s False)) else d", OF this]
  show "keys_of (snd (CloseConnections keq P old delta)) \<subseteq> keys_of old \<union> keys_of delta"
    unfolding CloseConnections_eq by simp
qed (auto simp: CloseConnections_eq)

lemma keys_CloseOnChange:
  fixes ct prev old delta
  defines "r \<equiv> CloseConnectionsOnExternalIPsConfigChange ct prev old delta"
  shows "keys_of (fst r) \<subseteq> keys_of old" "keys_of (snd r) \<subseteq> keys_of old \<union> keys_of delta"
proof -
  show "keys_of (fst r) \<subseteq> keys_of old"
    unfolding r_def CloseConnectionsOnExternalIPsConfigChange_def Let_def case_prod_beta
    using keys_CloseConnections(1) [where keq = Connection_keq]
    by (simp del: IsEnabled_simps) (meson subset_trans)
  show "keys_of (snd r) \<subseteq> keys_of old \<union> keys_of delta"
    unfolding r_def CloseConnectionsOnExternalIPsConfigChange_def Let_def case_prod_beta
    using keys_CloseConnections [where keq = Connection_keq]
    by (simp del: IsEnabled_simps) (meson Un_subset_iff subset_trans sup_ge1 sup_ge2 Un_mono subset_refl)
qed

lemma keys_FetchState:
  "keys_of (fst (FetchState keq state clear (Some p) f)) \<subseteq> range p"
proof -
  have "keys_of (fetch_one keq (Some p) f (k, s) d) \<subseteq> insert (p k) (keys_of d)" for k s d
    by (cases "um_find keq d (p k)")
      (simp_all add: fetch_one_def um_emplace_def subset_insertI)
  from keys_fold [of "\<lambda>k s. fetch_one keq (Some p) f (k, s)" p, OF this, of state "[]"]
  show ?thesis by (auto simp: FetchState_def fetch_loop_eq)
qed

section \<open>Tables on the wire\<close>

text \<open>An entry of a table satisfies \<open>P\<close>, looked up by key and by what is written of it.\<close>

definition holds_in :: "('k \<Rightarrow> 'k \<Rightarrow> bool) \<Rightarrow> (ConnStatus \<Rightarrow> bool) \<Rightarrow> 'k state \<Rightarrow> 'k \<Rightarrow> bool" where
  "holds_in keq P m j = (case um_find keq m j of None \<Rightarrow> False | Some s \<Rightarrow> P s)"

definition told :: "('k \<Rightarrow> 'm) \<Rightarrow> (ConnStatus \<Rightarrow> bool) \<Rightarrow> 'k state \<Rightarrow> 'm \<Rightarrow> bool" where
  "told f P m p \<longleftrightarrow> (\<exists>(k, s) \<in> set m. f k = p \<and> P s)"

lemma recent_holds: "recent_in keq m t per = holds_in keq (\<lambda>s. WasRecentlyActive s t per) m"
  by (simp add: fun_eq_iff recent_in_def holds_in_def)

lemma active_holds: "active_in keq m = holds_in keq IsActive m"
  by (simp add: fun_eq_iff active_in_def holds_in_def)

lemma apply_updates_Nil [simp]: "apply_updates base opened [] v = v"
  by (simp add: apply_updates_def)

lemma apply_updates_Cons [simp]:
  "apply_updates base opened (u # us) v = apply_updates base opened us (v(base u := opened u))"
  by (simp add: apply_updates_def)

lemma apply_updates_true:
  "apply_updates base opened us v p \<Longrightarrow>
   (\<exists>u \<in> set us. base u = p \<and> opened u) \<or> v p \<and> (\<forall>u \<in> set us. base u \<noteq> p)"
proof (induction us arbitrary: v)
  case (Cons u us)
  have "apply_updates base opened us (v(base u := opened u)) p" using Cons.prems by simp
  from Cons.IH [OF this] show ?case by (auto split: if_splits)
qed simp

lemma apply_updates_other: "\<forall>u \<in> set us. base u \<noteq> p \<Longrightarrow> apply_updates base opened us v p = v p"
  by (induction us arbitrary: v) auto

lemma apply_updates_same:
  "\<forall>u \<in> set us. base u = p \<longrightarrow> opened u = b \<Longrightarrow> \<exists>u \<in> set us. base u = p \<Longrightarrow> apply_updates base opened us v p = b"
proof (induction us arbitrary: v)
  case (Cons u us)
  then show ?case
    by (cases "\<exists>w \<in> set us. base w = p") (auto simp: apply_updates_other)
qed simp

text \<open>
  The contract of a message format: what an entry of a table becomes in a message, with \<open>f\<close> what the
  receiver knows the key by.
\<close>

locale wire_format = key_equality keq for keq :: "'k \<Rightarrow> 'k \<Rightarrow> bool" +
  fixes wire :: "'k \<times> ConnStatus \<Rightarrow> 'm" and base :: "'m \<Rightarrow> 'm" and opened :: "'m \<Rightarrow> bool" and f :: "'k \<Rightarrow> 'm"
  assumes base_wire: "base (wire (k, s)) = f k"
    and opened_wire: "opened (wire (k, s)) = IsActive s"
begin

lemma told_holds:
  assumes "um_inv keq m" "keys_of m \<subseteq> K" "j \<in> K" "written_alike keq f K" "written_apart keq f K"
  shows "told f P m (f j) = holds_in keq P m j"
proof
  assume "told f P m (f j)"
  then obtain k s where k: "(k, s) \<in> set m" "f k = f j" "P s" by (auto simp: told_def)
  moreover have "keq k j" using k assms(2,3,5) by (force simp: written_apart_def)
  ultimately show "holds_in keq P m j"
    using find_in_set [OF assms(1) k(1)] find_cong [of k j m] by (simp add: holds_in_def)
next
  assume "holds_in keq P m j"
  then obtain s where s: "um_find keq m j = Some s" "P s" by (auto simp: holds_in_def split: option.splits)
  then obtain k where k: "(k, s) \<in> set m" "keq k j" using um_find_SomeD by fastforce
  then have "f k = f j" using assms(2-4) by (force simp: written_alike_def)
  then show "told f P m (f j)" using k(1) s(2) by (auto simp: told_def)
qed

lemma holds_told:
  assumes "holds_in keq P m j" "keys_of m \<subseteq> K" "j \<in> K" "written_alike keq f K"
  shows "told f P m (f j)"
proof -
  from assms(1) obtain s where s: "um_find keq m j = Some s" "P s" by (auto simp: holds_in_def split: option.splits)
  then obtain k where k: "(k, s) \<in> set m" "keq k j" using um_find_SomeD by fastforce
  then have "f k = f j" using assms(2-4) by (force simp: written_alike_def)
  then show ?thesis using k(1) s(2) by (auto simp: told_def)
qed

text \<open>
  A message that carries every close event of the delta, and possibly not all openings, never makes the
  receiver believe more than the state after the round.
\<close>

lemma told_round_sound:
  assumes inv: "um_inv keq delta" "um_inv keq old"
    and K: "keys_of delta \<subseteq> K" "keys_of old \<subseteq> K" "keys_of old' \<subseteq> K" "written_alike keq f K"
    and sent: "set sent \<subseteq> set delta" "\<And>k s. (k, s) \<in> set delta \<Longrightarrow> \<not> IsActive s \<Longrightarrow> (k, s) \<in> set sent"
    and step: "sensor_view keq (holds_in keq P old) delta = holds_in keq P' old'"
    and view: "\<And>p. v p \<Longrightarrow> told f P old p"
    and now: "apply_updates base opened (map wire sent) v p"
  shows "told f P' old' p"
proof -
  have found: "told f P' old' (f j)" if "sensor_view keq (holds_in keq P old) delta j" "j \<in> K" for j
    using that holds_told [of P' old' j K] K(3,4) unfolding step by blast
  from apply_updates_true [OF now] consider
      u where "u \<in> set sent" "base (wire u) = p" "opened (wire u)"
    | "v p" "\<forall>u \<in> set sent. base (wire u) \<noteq> p" by auto
  then show ?thesis
  proof cases
    case 1
    obtain k s where u: "u = (k, s)" by (cases u)
    then have k: "(k, s) \<in> set delta" "f k = p" "IsActive s"
      using 1 sent(1) by (auto simp: base_wire opened_wire)
    then show ?thesis using found [of k] find_in_set [OF inv(1) k(1)] K(1) by (force simp: sensor_view_def)
  next
    case 2
    from view [OF 2(1)] obtain k s where k: "(k, s) \<in> set old" "f k = p" "P s" by (auto simp: told_def)
    have "k \<in> K" using k(1) K(2) by force
    have "IsActive s'" if "um_find keq delta k = Some s'" for s'
    proof (rule ccontr)
      assume closed_now: "\<not> IsActive s'"
      from um_find_SomeD [OF \<open>um_find keq delta k = Some s'\<close>]
      obtain k' where k': "(k', s') \<in> set delta" "keq k' k" by blast
      have "k' \<in> K" using k'(1) K(1) by force
      then have "f k' = p" using k'(2) \<open>k \<in> K\<close> K(4) k(2) by (auto simp: written_alike_def)
      then show False using 2(2) sent(2) [OF k'(1) closed_now] by (force simp: base_wire)
    qed
    then have "sensor_view keq (holds_in keq P old) delta k"
      using find_in_set [OF inv(2) k(1)] k(3) by (auto simp: sensor_view_def holds_in_def split: option.splits)
    then show ?thesis using found [OF _ \<open>k \<in> K\<close>] k(2) by blast
  qed
qed

text \<open>
  A message that carries the whole delta takes the receiver from the state before the round to the one
  after it, where keys are written alike exactly when they are identified.
\<close>

lemma apply_table:
  assumes "um_inv keq delta" "keys_of delta \<subseteq> K" "j \<in> K" "written_alike keq f K" "written_apart keq f K"
  shows "apply_updates base opened (map wire delta) v (f j) = sensor_view keq (\<lambda>j. v (f j)) delta j"
proof (cases "um_find keq delta j")
  case None
  have "\<forall>u \<in> set (map wire delta). base u \<noteq> f j"
    using None assms(2,3,5) by (force simp: base_wire um_find_None_iff written_apart_def)
  then show ?thesis by (simp add: apply_updates_other None sensor_view_def)
next
  case (Some s)
  then obtain k where k: "(k, s) \<in> set delta" "keq k j" using um_find_SomeD by fastforce
  have same: "IsActive s' = IsActive s" if "(k', s') \<in> set delta" "f k' = f j" for k' s'
  proof -
    have "keq k' j" using that assms(2,3,5) by (force simp: written_apart_def)
    then show ?thesis using find_in_set [OF assms(1) that(1)] find_cong [of k' j delta] Some by simp
  qed
  have "f k = f j" using k assms(2-4) by (force simp: written_alike_def)
  then have "\<exists>u \<in> set (map wire delta). base u = f j" using k(1) base_wire [of k s] by force
  moreover have "\<forall>u \<in> set (map wire delta). base u = f j \<longrightarrow> opened u = IsActive s"
    using same by (auto simp: base_wire opened_wire)
  ultimately have "apply_updates base opened (map wire delta) v (f j) = IsActive s" by (rule apply_updates_same [rotated])
  then show ?thesis by (simp add: sensor_view_def Some)
qed

lemma told_round_exact:
  assumes inv: "um_inv keq delta" "um_inv keq old" "um_inv keq old'"
    and K: "keys_of delta \<subseteq> K" "keys_of old \<subseteq> K" "keys_of old' \<subseteq> K"
      "written_alike keq f K" "written_apart keq f K"
    and step: "sensor_view keq (holds_in keq P old) delta = holds_in keq P' old'"
  shows "apply_updates base opened (map wire delta) (told f P old) = told f P' old'"
proof
  fix p
  show "apply_updates base opened (map wire delta) (told f P old) p = told f P' old' p"
  proof (cases "p \<in> f ` K")
    case True
    then obtain j where j: "p = f j" "j \<in> K" by blast
    have "sensor_view keq (\<lambda>j. told f P old (f j)) delta j = sensor_view keq (holds_in keq P old) delta j"
      using told_holds [OF inv(2) K(2) j(2) K(4,5)] by (simp add: sensor_view_def split: option.split)
    then show ?thesis
      unfolding j(1) apply_table [OF inv(1) K(1) j(2) K(4,5)] told_holds [OF inv(3) K(3) j(2) K(4,5)] step by simp
  next
    case False
    then have "\<forall>u \<in> set (map wire delta). base u \<noteq> p" using K(1) by (force simp: base_wire)
    moreover have "\<not> told f Q m p" if "keys_of m \<subseteq> K" for Q m using False that by (force simp: told_def)
    ultimately show ?thesis using K(2,3) by (simp add: apply_updates_other)
  qed
qed

end

text \<open>The two message formats of the notifier.\<close>

definition endpoint_entry_proto :: "ContainerEndpoint \<times> ConnStatus \<Rightarrow> NetworkEndpoint" where
  "endpoint_entry_proto e = (if IsActive (snd e) then ContainerEndpointToProto (fst e)
     else (ContainerEndpointToProto (fst e))\<lparr>ne_close_timestamp := Some (LastActiveTime (snd e))\<rparr>)"

lemma AddContainerEndpoints_entries: "AddContainerEndpoints delta = map endpoint_entry_proto delta"
  by (auto simp: AddContainerEndpoints_def endpoint_entry_proto_def Let_def)

interpretation conn_wire: wire_format Connection_keq entry_proto
  "\<lambda>nc. nc\<lparr>nc_close_timestamp := None\<rparr>" "\<lambda>nc. nc_close_timestamp nc = None" ConnToProto
  by unfold_locales (auto simp: entry_proto_def ConnToProto_def)

interpretation endpoint_wire: wire_format AdvertisedEndpoint_keq endpoint_entry_proto
  "\<lambda>ne. ne\<lparr>ne_close_timestamp := None\<rparr>" "\<lambda>ne. ne_close_timestamp ne = None" ContainerEndpointToProto
  by unfold_locales (auto simp: endpoint_entry_proto_def ContainerEndpointToProto_def)

lemma current_conns_told:
  "current_conns cfg ls =
     told ConnToProto (\<lambda>s. WasRecentlyActive s (ls_time_at_last_scrape ls) (nf_afterglow_period cfg)) (ls_old_conn_state ls)"
  by (simp add: fun_eq_iff current_conns_def told_def)

lemma current_endpoints_told:
  "current_endpoints ls = told ContainerEndpointToProto IsActive (ls_old_cep_state ls)"
  by (simp add: fun_eq_iff current_endpoints_def told_def)

section \<open>Rounds\<close>

lemma keys_round:
  assumes "nf_enable_afterglow cfg"
  shows "keys_of (fst (report_round cfg inp ls)) \<subseteq> keys_of (ls_old_conn_state ls) \<union> keys_of (new_conns inp ls)"
    and "keys_of (ls_old_conn_state (snd (snd (report_round cfg inp ls)))) \<subseteq>
           keys_of (ls_old_conn_state ls) \<union> keys_of (new_conns inp ls)"
proof -
  let ?d = "ComputeDeltaAfterglow Connection_keq (new_conns inp ls) (ls_old_conn_state ls) []
      (ri_time_micros inp) (ls_time_at_last_scrape ls) (nf_afterglow_period cfg)"
  have d: "keys_of ?d \<subseteq> keys_of (ls_old_conn_state ls) \<union> keys_of (new_conns inp ls)"
    using keys_ComputeDeltaAfterglow [of Connection_keq "new_conns inp ls" "ls_old_conn_state ls" "[]"] by simp
  show "keys_of (fst (report_round cfg inp ls)) \<subseteq> keys_of (ls_old_conn_state ls) \<union> keys_of (new_conns inp ls)"
    unfolding report_round_sel(1) [OF assms] using keys_CloseOnChange(2) d by (meson Un_least subset_trans sup_ge1)
  show "keys_of (ls_old_conn_state (snd (snd (report_round cfg inp ls)))) \<subseteq>
           keys_of (ls_old_conn_state ls) \<union> keys_of (new_conns inp ls)"
    unfolding report_round_sel(2) [OF assms] using keys_UpdateOldState keys_CloseOnChange(1)
    by (meson Un_mono subset_refl subset_trans)
qed

lemma sent_closing: "(k, s) \<in> set delta \<Longrightarrow> \<not> IsActive s \<Longrightarrow> (k, s) \<in> set (sent_entries l delta)"
  using sent_closings [of l delta, THEN arg_cong, of set] by auto

lemma round_sound:
  assumes "nf_enable_afterglow cfg" "loop_inv ls" "ls_time_at_last_scrape ls \<le> ri_time_micros inp"
    and "steady (ls_prev_external_ips ls) inp" "\<And>p. view p \<Longrightarrow> current_conns cfg ls p"
    and "keys_of (ls_old_conn_state ls) \<union> keys_of (new_conns inp ls) \<subseteq> K" "written_alike Connection_keq ConnToProto K"
    and "apply_updates (\<lambda>nc. nc\<lparr>nc_close_timestamp := None\<rparr>) (\<lambda>nc. nc_close_timestamp nc = None)
           (AddConnections limit (fst (report_round cfg inp ls))) view p"
  shows "current_conns cfg (snd (snd (report_round cfg inp ls))) p"
proof -
  let ?d = "fst (report_round cfg inp ls)" and ?ls' = "snd (snd (report_round cfg inp ls))"
  have step: "sensor_view Connection_keq
      (recent_in Connection_keq (ls_old_conn_state ls) (ls_time_at_last_scrape ls) (nf_afterglow_period cfg)) ?d =
    recent_in Connection_keq (ls_old_conn_state ?ls') (ls_time_at_last_scrape ?ls') (nf_afterglow_period cfg)"
    using afterglow_round_view [OF assms(1-3)] steady_closes_nothing [OF assms(4) refl] by blast
  show ?thesis
    unfolding current_conns_told
  proof (rule conn_wire.told_round_sound [OF inv_round_delta [OF assms(1,2)] _ _ _ _ assms(7) _ _ step [unfolded recent_holds]])
    show "um_inv Connection_keq (ls_old_conn_state ls)" using assms(2) by (simp add: loop_inv_def)
    show "keys_of ?d \<subseteq> K" "keys_of (ls_old_conn_state ls) \<subseteq> K" "keys_of (ls_old_conn_state ?ls') \<subseteq> K"
      using keys_round [OF assms(1), of inp ls] assms(6) by blast+
    show "set (sent_entries (mk_CountLimiter limit) ?d) \<subseteq> set ?d" by (rule subseq_set [OF sent_subseq])
    show "apply_updates (\<lambda>nc. nc\<lparr>nc_close_timestamp := None\<rparr>) (\<lambda>nc. nc_close_timestamp nc = None)
        (map entry_proto (sent_entries (mk_CountLimiter limit) ?d)) view p"
      using assms(8) by (simp add: AddConnections_sent)
  qed (auto simp: sent_closing current_conns_told [symmetric] assms(5))
qed

text \<open>The connections, in normal form, the notifier fetches in a run.\<close>

fun fetched_conns :: "notifier_config \<Rightarrow> round_input list \<Rightarrow> loop_state \<Rightarrow> Connection set" where
  "fetched_conns cfg [] ls = {}"
| "fetched_conns cfg (inp # inps) ls =
     (let (ok, ct) = UpdateAllConnsAndEndpoints cfg inp (ri_others inp 0 (ls_tracker ls));
          ls1 = ls\<lparr>ls_tracker := ct\<rparr>
      in if \<not> ok then fetched_conns cfg inps ls1
         else keys_of (new_conns inp ls1) \<union> fetched_conns cfg inps (snd (snd (report_round cfg inp ls1))))"

abbreviation loop_start :: "ExternalIPsConfig \<Rightarrow> int \<Rightarrow> ConnectionTracker \<Rightarrow> loop_state" where
  "loop_start c now ct \<equiv> \<lparr>ls_tracker = ct, ls_old_conn_state = [], ls_old_cep_state = [],
     ls_prev_external_ips = c, ls_time_at_last_scrape = now\<rparr>"

text \<open>A round in which a message is written, or in which there is nothing to write.\<close>

lemma RunSingle_round:
  assumes "UpdateAllConnsAndEndpoints cfg inp (ri_others inp 0 (ls_tracker ls)) = (True, ct)" "ri_write_ok inp"
  defines "ls1 \<equiv> ls\<lparr>ls_tracker := ct\<rparr>"
  defines "ls2 \<equiv> snd (snd (report_round cfg inp ls1))"
  shows "fold receive_conns (fst (RunSingle_loop cfg (inp # inps) ls)) view =
      fold receive_conns (fst (RunSingle_loop cfg inps ls2))
        (apply_updates (\<lambda>nc. nc\<lparr>nc_close_timestamp := None\<rparr>) (\<lambda>nc. nc_close_timestamp nc = None)
           (AddConnections (ri_per_container_limit inp) (fst (report_round cfg inp ls1))) view)"
    and "snd (RunSingle_loop cfg (inp # inps) ls) = snd (RunSingle_loop cfg inps ls2)"
proof -
  obtain dc de where rr: "report_round cfg inp ls1 = (dc, de, ls2)"
    by (cases "report_round cfg inp ls1") (auto simp: ls2_def)
  show "fold receive_conns (fst (RunSingle_loop cfg (inp # inps) ls)) view =
      fold receive_conns (fst (RunSingle_loop cfg inps ls2))
        (apply_updates (\<lambda>nc. nc\<lparr>nc_close_timestamp := None\<rparr>) (\<lambda>nc. nc_close_timestamp nc = None)
           (AddConnections (ri_per_container_limit inp) (fst (report_round cfg inp ls1))) view)"
    using assms(2) by (cases "dc = [] \<and> de = []")
      (auto simp: assms(1) ls1_def [symmetric] rr CreateInfoMessage_def case_prod_beta receive_conns_def
        AddConnections_def)
  show "snd (RunSingle_loop cfg (inp # inps) ls) = snd (RunSingle_loop cfg inps ls2)"
    using assms(2) by (cases "dc = [] \<and> de = []")
      (auto simp: assms(1) ls1_def [symmetric] rr CreateInfoMessage_def case_prod_beta)
qed

lemma no_zombies_loop:
  assumes "nf_enable_afterglow cfg" "written_alike Connection_keq ConnToProto K"
  shows "loop_inv ls \<Longrightarrow> (\<And>p. view p \<Longrightarrow> current_conns cfg ls p) \<Longrightarrow> ls_prev_external_ips ls = c \<Longrightarrow>
    keys_of (ls_old_conn_state ls) \<union> fetched_conns cfg inps ls \<subseteq> K \<Longrightarrow>
    \<forall>inp \<in> set inps. steady c inp \<and> ri_write_ok inp \<Longrightarrow> times_run (ls_time_at_last_scrape ls) inps \<Longrightarrow>
    fold receive_conns (fst (RunSingle_loop cfg inps ls)) view p \<Longrightarrow>
    current_conns cfg (snd (RunSingle_loop cfg inps ls)) p"
proof (induction inps arbitrary: ls view)
  case (Cons inp inps)
  obtain ok ct where up: "UpdateAllConnsAndEndpoints cfg inp (ri_others inp 0 (ls_tracker ls)) = (ok, ct)"
    by fastforce
  define ls1 where "ls1 = ls\<lparr>ls_tracker := ct\<rparr>"
  have ls1: "loop_inv ls1" "ls_prev_external_ips ls1 = c" "ls_time_at_last_scrape ls1 = ls_time_at_last_scrape ls"
      "ls_old_conn_state ls1 = ls_old_conn_state ls" "\<And>p. view p \<Longrightarrow> current_conns cfg ls1 p"
    using Cons.prems(1-3) by (simp_all add: ls1_def loop_inv_def current_conns_def)
  have inp: "ls_time_at_last_scrape ls1 \<le> ri_time_micros inp" "times_run (ri_time_micros inp) inps"
      "steady (ls_prev_external_ips ls1) inp" "ri_write_ok inp" "\<forall>inp \<in> set inps. steady c inp \<and> ri_write_ok inp"
    using Cons.prems(5,6) ls1(2,3) by auto
  show ?case
  proof (cases ok)
    case False
    then show ?thesis
      using Cons.IH [of ls1 view] Cons.prems(4,7) ls1 inp times_run_mono [OF inp(2,1)]
      by (auto simp: up ls1_def [symmetric])
  next
    case True
    have up: "UpdateAllConnsAndEndpoints cfg inp (ri_others inp 0 (ls_tracker ls)) = (True, ct)"
      using up True by simp
    define ls2 where "ls2 = snd (snd (report_round cfg inp ls1))"
    note loop = RunSingle_round [OF up inp(4), folded ls1_def, folded ls2_def]
    have K: "keys_of (ls_old_conn_state ls1) \<union> keys_of (new_conns inp ls1) \<subseteq> K" "fetched_conns cfg inps ls2 \<subseteq> K"
      using Cons.prems(4) ls1(4) by (simp_all add: up ls1_def [symmetric] ls2_def)
    have ls2: "loop_inv ls2" "ls_prev_external_ips ls2 = c" "ls_time_at_last_scrape ls2 = ri_time_micros inp"
      using loop_inv_round [OF ls1(1), of cfg inp] report_round_sel(3,4) [of cfg inp ls1] assms(1) inp(3) ls1(2)
      by (simp_all add: ls2_def steady_def)
    note round = round_sound [OF assms(1) ls1(1) inp(1,3) ls1(5) K(1) assms(2), folded ls2_def]
    show ?thesis
      unfolding loop(2)
    proof (rule Cons.IH [OF ls2(1) round ls2(2)])
      show "keys_of (ls_old_conn_state ls2) \<union> fetched_conns cfg inps ls2 \<subseteq> K"
        using keys_round(2) [OF assms(1), of inp ls1, folded ls2_def] K by blast
      show "fold receive_conns (fst (RunSingle_loop cfg inps ls2))
        (apply_updates (\<lambda>nc. nc\<lparr>nc_close_timestamp := None\<rparr>) (\<lambda>nc. nc_close_timestamp nc = None)
           (AddConnections (ri_per_container_limit inp) (fst (report_round cfg inp ls1))) view) p"
        using Cons.prems(7) unfolding loop(1) .
    qed (use inp ls2(3) in simp_all)
  qed
qed simp

section \<open>Endpoints on the wire\<close>

text \<open>
  Endpoints in the normal form the notifier fetches are written alike exactly when its table
  identifies them.
\<close>

definition normal_endpoints :: "loop_state \<Rightarrow> bool" where
  "normal_endpoints ls \<longleftrightarrow> keys_of (ls_old_cep_state ls) \<subseteq> range NormalizeContainerEndpoint"

lemma normal_endpoints_round: "normal_endpoints (snd (snd (report_round cfg inp ls)))"
  unfolding normal_endpoints_def report_round_def
  by (simp add: Let_def case_prod_beta FetchEndpointState_uniform keys_FetchState)

lemma ProcessToProto_advertised:
  "map_option ProcessToProto a = map_option ProcessToProto b \<longleftrightarrow> advertised_process a = advertised_process b"
  by (cases a; cases b) (auto simp: ProcessToProto_def advertised_process_def)

lemma any_endpoint_proto:
  "ep_ident (Endpoint_of_address (Address_any fam) p) = ep_ident (Endpoint_of_address (Address_any fam') q) \<longleftrightarrow>
     TranslateAddressFamily fam = TranslateAddressFamily fam' \<and>
     EndpointToProto (Endpoint_of_address (Address_any fam) p) =
       EndpointToProto (Endpoint_of_address (Address_any fam') q)"
proof -
  have inj: "(ucast (p :: u16) :: u32) = ucast q \<longleftrightarrow> p = q"
  proof
    assume "(ucast p :: u32) = ucast q"
    then have "(ucast (ucast p :: u32) :: u16) = ucast (ucast q :: u32)" by simp
    then show "p = q" by (simp add: ucast_up_ucast_id is_up)
  qed simp
  show ?thesis
    by (cases fam; cases fam')
      (auto simp: ep_ident_def net_ident_def Endpoint_of_address_def IPNet_of_address_def mk_IPNet_def Let_def
        EndpointToProto_def Endpoint_IsNull_def IPNet_IsNull_def Address_any_def addr_length_def inj ep_address_def)
qed

lemma endpoints_written:
  "AdvertisedEndpoint_keq (NormalizeContainerEndpoint c) (NormalizeContainerEndpoint d) \<longleftrightarrow>
   ContainerEndpointToProto (NormalizeContainerEndpoint c) = ContainerEndpointToProto (NormalizeContainerEndpoint d)"
proof -
  have l4: "TranslateL4Protocol p = TranslateL4Protocol q \<longleftrightarrow> p = q" for p q by (cases p; cases q) simp_all
  have fam: "addr_family (ep_address (Endpoint_of_address a p)) = addr_family a" for a p
    by (simp add: ep_address_def Endpoint_of_address_def IPNet_of_address_def)
  have any: "addr_family (Address_any f) = f" for f by (simp add: Address_any_def)
  show ?thesis
    by (auto simp: AdvertisedEndpoint_keq_iff ContainerEndpointToProto_def NormalizeContainerEndpoint_def Let_def
        l4 fam any any_endpoint_proto ProcessToProto_advertised)
qed

lemma normal_written:
  assumes "K \<subseteq> range NormalizeContainerEndpoint"
  shows "written_alike AdvertisedEndpoint_keq ContainerEndpointToProto K"
    and "written_apart AdvertisedEndpoint_keq ContainerEndpointToProto K"
proof -
  have "AdvertisedEndpoint_keq c d \<longleftrightarrow> ContainerEndpointToProto c = ContainerEndpointToProto d"
    if "c \<in> K" "d \<in> K" for c d using endpoints_written that assms by blast
  then show "written_alike AdvertisedEndpoint_keq ContainerEndpointToProto K"
      "written_apart AdvertisedEndpoint_keq ContainerEndpointToProto K"
    by (auto simp: written_alike_def written_apart_def)
qed

lemma sent_all:
  "\<forall>k. int (length (filter (active_of k) delta)) \<le> cl_count l - seen l k \<Longrightarrow> sent_entries l delta = delta"
proof (induction l delta rule: sent_entries.induct)
  case (2 l c s delta)
  show ?case
  proof (cases "IsActive s")
    case True
    obtain ok l' where r: "CountLimiter_Allow (conn_container c) l = (ok, l')" by fastforce
    note step = CountLimiter_Allow_seen [of "conn_container c" l, unfolded r]
    have this_one: "active_of k (c, s) \<longleftrightarrow> conn_container c = k" for k using True by (simp add: active_of_def)
    have ok using 2(4) [rule_format, of "conn_container c"] step(1) by (simp add: this_one)
    moreover have "int (length (filter (active_of k) delta)) \<le> cl_count l' - seen l' k" for k
      using 2(4) [rule_format, of k] step(2) [of k] step(3) by (cases "conn_container c = k") (simp_all add: this_one)
    ultimately show ?thesis using 2(2) [OF _ r [symmetric] refl] True by (simp add: r)
  qed (use 2 in \<open>auto simp: active_of_def\<close>)
qed simp

lemma AddConnections_all:
  assumes "\<forall>k. int (length (filter (active_of k) delta)) \<le> limit"
  shows "AddConnections limit delta = map entry_proto delta"
proof -
  have "sent_entries (mk_CountLimiter limit) delta = delta"
    by (rule sent_all) (use assms in \<open>simp add: mk_CountLimiter_def seen_def\<close>)
  then show ?thesis by (simp add: AddConnections_sent)
qed

section \<open>Properties\<close>

text \<open>
  (C1) No zombie connections. After the messages of a whole run with afterglow, whatever is scraped,
  whatever other threads do to the tracker and however strict the rate limit is, every connection the
  receiver of these messages believes open is one that the notifier's own state holds as recently
  active at the last round. Conditions: the clock does not run backwards, the External-IPs switch keeps
  its value over the run, every write succeeds (a failed write ends the stream and with it the
  receiver's view), and connections the tables identify are written alike, which can fail only for two
  networks with the same mask bits.
\<close>

theorem no_zombie_connections:
  assumes "nf_enable_afterglow cfg" "\<forall>inp \<in> set inps. steady c inp \<and> ri_write_ok inp" "times_run now inps"
    and "written_alike Connection_keq ConnToProto (fetched_conns cfg inps (loop_start c now ct))"
  shows "receiver_conns (fst (RunSingle cfg c now inps ct)) p \<longrightarrow>
    current_conns cfg (snd (RunSingle cfg c now inps ct)) p"
  using no_zombies_loop [OF assms(1,4), of "loop_start c now ct" "\<lambda>_. False" c inps p] assms(2,3)
  by (simp add: RunSingle_def receiver_conns_def loop_inv_def)

text \<open>A run of two rounds: a connection is seen, and much later it is gone.\<close>

definition later_round :: round_input where
  "later_round = sample_round\<lparr>ri_scrape := Some ([], []), ri_scrape_time := 99, ri_time_micros := 100\<rparr>"

definition sample_normal :: Connection where
  "sample_normal = mk_Connection ''c'' Endpoint_default (mk_Endpoint (mk_IPNet (Address_quad 10 0 0 1) 0 True) 80) TCP False"

lemma sample_normalizes:
  assumes "ct_known_ip_networks ct = empty_node" "ct_non_aggregated_networks ct = empty_node"
    "ct_known_private_networks_exists ct = Map.empty"
  shows "NormalizeConnectionNoLock ct sample_conn = sample_normal"
proof -
  have "\<not> Address_IsNull (Address_quad 10 0 0 1)" "\<not> IsPublic (Address_quad 10 0 0 1)" by code_simp+
  moreover have "IsEmpty empty_node" by (simp add: IsEmpty_def empty_node_def)
  ultimately show ?thesis
    using assms
    by (simp add: NormalizeConnectionNoLock_def NormalizeAddressNoLock_def Let_def sample_conn_def sample_normal_def
        Find_addr_empty ep_address_def Endpoint_of_address_def IPNet_of_address_def IPNet_default_def)
qed

lemmas sample_eval = RunSingle_def sample_round_def sample_config_def later_round_def
  UpdateAllConnsAndEndpoints_def report_round_def ConnectionTracker_init_def Update_def EmplaceOrUpdateNoLock_def
  EmplaceOrUpdate_def um_emplace_def set_all_inactive_def FetchConnState_def FetchEndpointState_def
  FetchState_def fetch_one_def HasConnectionFilters_def IsEmpty_def empty_node_def SetExternalIPsConfig_def
  ComputeDeltaAfterglow_def afterglow_new_step_def afterglow_old_step_def InOldAndNewStates_eq InNewState_eq
  CheckIfOldConnShouldBeInactiveInDelta_def CloseConnectionsOnExternalIPsConfigChange_def
  UpdateOldState_def old_state_step_def ComputeDelta_def WasRecentlyActive_def IsInAfterglowPeriod_def
  CreateInfoMessage_def conn_key.keq_refl sample_normalizes [unfolded empty_node_def] ExternalIPsConfig_default_def
  TokenBucket_init_def Let_def

lemma sample_run:
  "fst (RunSingle sample_config ExternalIPsConfig_default 1 [sample_round, later_round] ConnectionTracker_init) =
   [\<lparr>ni_updated_connections = [ConnToProto sample_normal], ni_updated_endpoints = [], ni_time = 11\<rparr>,
    \<lparr>ni_updated_connections = [(ConnToProto sample_normal)\<lparr>nc_close_timestamp := Some 9\<rparr>],
     ni_updated_endpoints = [], ni_time = 11\<rparr>]"
  by (simp add: sample_eval AddConnections_def CountLimiter_Allow_def mk_CountLimiter_def AddContainerEndpoints_def)

lemma sample_fetched:
  "fetched_conns sample_config [sample_round, later_round] (loop_start ExternalIPsConfig_default 1 ConnectionTracker_init) =
     {sample_normal}"
  by (simp add: sample_eval new_conns_def tracker_at_fetch_def)

theorem no_zombie_connections_witness:
  "let run = RunSingle sample_config ExternalIPsConfig_default 1 [sample_round, later_round] ConnectionTracker_init
   in (\<forall>p. receiver_conns (fst run) p \<longrightarrow> current_conns sample_config (snd run) p) \<and>
      map (map nc_close_timestamp \<circ> ni_updated_connections) (fst run) = [[None], [Some 9]]"
proof -
  let ?run = "RunSingle sample_config ExternalIPsConfig_default 1 [sample_round, later_round] ConnectionTracker_init"
  have "written_alike Connection_keq ConnToProto
      (fetched_conns sample_config [sample_round, later_round]
        (loop_start ExternalIPsConfig_default 1 ConnectionTracker_init))"
    unfolding sample_fetched by (simp add: written_alike_def)
  moreover have "nf_enable_afterglow sample_config" "times_run 1 [sample_round, later_round]"
      "\<forall>inp \<in> set [sample_round, later_round]. steady ExternalIPsConfig_default inp \<and> ri_write_ok inp"
    by (simp_all add: sample_config_def later_round_def sample_round_def steady_def)
  ultimately have "\<forall>p. receiver_conns (fst ?run) p \<longrightarrow> current_conns sample_config (snd ?run) p"
    using no_zombie_connections by blast
  moreover have "map (map nc_close_timestamp \<circ> ni_updated_connections) (fst ?run) = [[None], [Some 9]]"
    by (simp add: sample_run ConnToProto_def)
  ultimately show ?thesis unfolding Let_def ..
qed

text \<open>
  (C2) A round reports exactly what changed. Take a receiver whose connections are the recently
  active ones of the notifier's state and whose endpoints are the active ones of that state. After the
  message the round builds, or with no message when it builds none, the same holds of the state after
  the round. Conditions: afterglow is enabled, the clock does not run backwards, no container has more
  active connections in the delta than the limit allows, no connection closed by a change of the
  External-IPs switch is fetched again in the same round, and the connections involved are written alike
  exactly when the tables identify them. For endpoints there is no such condition.
\<close>

theorem report_round_exact:
  assumes "nf_enable_afterglow cfg" "loop_inv ls" "normal_endpoints ls" "ls_time_at_last_scrape ls \<le> ri_time_micros inp"
    and "\<forall>j. closes_in Connection_keq (closing (tracker_at_close inp ls) (ls_prev_external_ips ls))
        (ls_old_conn_state ls) j \<longrightarrow> um_find Connection_keq (new_conns inp ls) j = None"
    and "\<forall>container. int (length (filter (active_of container) (fst (report_round cfg inp ls)))) \<le> ri_per_container_limit inp"
    and "written_alike Connection_keq ConnToProto (keys_of (ls_old_conn_state ls) \<union> keys_of (new_conns inp ls))"
    and "written_apart Connection_keq ConnToProto (keys_of (ls_old_conn_state ls) \<union> keys_of (new_conns inp ls))"
  shows "case report_round cfg inp ls of (delta_conn, delta_cep, ls') \<Rightarrow>
    (case CreateInfoMessage (ri_per_container_limit inp) (ri_message_time inp) delta_conn delta_cep of
       None \<Rightarrow> current_conns cfg ls = current_conns cfg ls' \<and> current_endpoints ls = current_endpoints ls'
     | Some msg \<Rightarrow> receive_conns msg (current_conns cfg ls) = current_conns cfg ls' \<and>
                  receive_endpoints msg (current_endpoints ls) = current_endpoints ls') \<and>
    loop_inv ls' \<and> normal_endpoints ls'"
proof -
  obtain dc de ls' where rr: "report_round cfg inp ls = (dc, de, ls')" by (cases "report_round cfg inp ls")
  note keys = keys_round [OF assms(1), of inp ls, unfolded rr fst_conv snd_conv]
  note sel = report_round_sel(5,6) [of cfg inp ls, unfolded rr fst_conv snd_conv]
  have inv: "loop_inv ls'" "normal_endpoints ls'"
    using loop_inv_round [OF assms(2), of cfg inp] normal_endpoints_round [of cfg inp ls] by (simp_all add: rr)
  have conns: "apply_updates (\<lambda>nc. nc\<lparr>nc_close_timestamp := None\<rparr>) (\<lambda>nc. nc_close_timestamp nc = None)
      (map entry_proto dc) (current_conns cfg ls) = current_conns cfg ls'"
    unfolding current_conns_told
  proof (rule conn_wire.told_round_exact [OF _ _ _ keys(1) _ keys(2) assms(7,8)])
    show "sensor_view Connection_keq (holds_in Connection_keq
        (\<lambda>s. WasRecentlyActive s (ls_time_at_last_scrape ls) (nf_afterglow_period cfg)) (ls_old_conn_state ls)) dc =
      holds_in Connection_keq
        (\<lambda>s. WasRecentlyActive s (ls_time_at_last_scrape ls') (nf_afterglow_period cfg)) (ls_old_conn_state ls')"
      using afterglow_round_view [OF assms(1,2,4)] assms(5) by (simp add: rr recent_holds)
    show "um_inv Connection_keq dc" using inv_round_delta [OF assms(1,2), of inp] by (simp add: rr)
  qed (use assms(2) inv(1) in \<open>auto simp: loop_inv_def\<close>)
  have ends: "apply_updates (\<lambda>ne. ne\<lparr>ne_close_timestamp := None\<rparr>) (\<lambda>ne. ne_close_timestamp ne = None)
      (map endpoint_entry_proto de) (current_endpoints ls) = current_endpoints ls'"
    unfolding current_endpoints_told
  proof (rule endpoint_wire.told_round_exact)
    show "keys_of de \<subseteq> range NormalizeContainerEndpoint"
      using keys_ComputeDelta [of AdvertisedEndpoint_keq "ls_old_cep_state ls'" "ls_old_cep_state ls"] assms(3) inv(2)
      unfolding sel(2) normal_endpoints_def by blast
    show "sensor_view AdvertisedEndpoint_keq (holds_in AdvertisedEndpoint_keq IsActive (ls_old_cep_state ls)) de =
        holds_in AdvertisedEndpoint_keq IsActive (ls_old_cep_state ls')"
      unfolding active_holds [symmetric] sel(2) using sel(1) assms(2)
      by (intro adv_key.ComputeDelta_in_step) (simp_all add: loop_inv_def)
    show "um_inv AdvertisedEndpoint_keq de"
      unfolding sel(2) using assms(2) by (intro adv_key.inv_ComputeDelta) (simp add: loop_inv_def)
  qed (use assms(2,3) inv sel(1) in \<open>auto simp: loop_inv_def normal_endpoints_def normal_written\<close>)
  have sent: "AddConnections (ri_per_container_limit inp) dc = map entry_proto dc"
    using assms(6) by (intro AddConnections_all) (simp add: rr)
  show ?thesis
    using conns ends inv
    by (auto simp: rr CreateInfoMessage_def receive_conns_def receive_endpoints_def sent AddContainerEndpoints_entries)
qed

text \<open>A state that knows the connection of the example as active, before the round that misses it.\<close>

definition sample_state :: loop_state where
  "sample_state = \<lparr>ls_tracker = ConnectionTracker_init, ls_old_conn_state = [(sample_normal, mk_ConnStatus 9 True)],
     ls_old_cep_state = [], ls_prev_external_ips = ExternalIPsConfig_default, ls_time_at_last_scrape = 10\<rparr>"

lemma sample_closing_round:
  "fst (report_round sample_config later_round sample_state) = [(sample_normal, mk_ConnStatus 9 False)]"
  "fst (snd (report_round sample_config later_round sample_state)) = []"
  "new_conns later_round sample_state = []"
  by (simp_all add: sample_eval sample_state_def new_conns_def tracker_at_fetch_def)

theorem report_round_exact_witness:
  "\<exists>msg. CreateInfoMessage 5 11 (fst (report_round sample_config later_round sample_state)) [] = Some msg \<and>
     receive_conns msg (current_conns sample_config sample_state) =
       current_conns sample_config (snd (snd (report_round sample_config later_round sample_state)))"
proof -
  have "steady ExternalIPsConfig_default later_round" "ls_prev_external_ips sample_state = ExternalIPsConfig_default"
    by (simp_all add: steady_def later_round_def sample_round_def sample_state_def)
  note stays = steady_closes_nothing [OF this]
  have "nf_enable_afterglow sample_config" "loop_inv sample_state" "normal_endpoints sample_state"
      "ls_time_at_last_scrape sample_state \<le> ri_time_micros later_round"
      "ri_per_container_limit later_round = 5" "ri_message_time later_round = 11"
    by (simp_all add: sample_config_def sample_state_def loop_inv_def normal_endpoints_def later_round_def
        sample_round_def)
  note conds = this
  have old: "ls_old_conn_state sample_state = [(sample_normal, mk_ConnStatus 9 True)]" by (simp add: sample_state_def)
  have "\<forall>container. int (length (filter (active_of container) (fst (report_round sample_config later_round sample_state)))) \<le>
      ri_per_container_limit later_round"
    unfolding sample_closing_round conds(5) by (simp add: active_of_def)
  moreover have "written_alike Connection_keq ConnToProto
      (keys_of (ls_old_conn_state sample_state) \<union> keys_of (new_conns later_round sample_state))"
    "written_apart Connection_keq ConnToProto
      (keys_of (ls_old_conn_state sample_state) \<union> keys_of (new_conns later_round sample_state))"
    unfolding sample_closing_round old by (simp_all add: written_alike_def written_apart_def conn_key.keq_refl)
  ultimately have "case report_round sample_config later_round sample_state of (dc, de, ls') \<Rightarrow>
    (case CreateInfoMessage (ri_per_container_limit later_round) (ri_message_time later_round) dc de of
       None \<Rightarrow> current_conns sample_config sample_state = current_conns sample_config ls' \<and>
         current_endpoints sample_state = current_endpoints ls'
     | Some msg \<Rightarrow> receive_conns msg (current_conns sample_config sample_state) = current_conns sample_config ls' \<and>
         receive_endpoints msg (current_endpoints sample_state) = current_endpoints ls') \<and>
    loop_inv ls' \<and> normal_endpoints ls'"
    using stays by (intro report_round_exact conds(1-4)) blast+
  then show ?thesis
    unfolding case_prod_beta sample_closing_round conds(5,6) by (simp add: CreateInfoMessage_def)
qed

end
