(* ===== verification/Str_Util.thy ===== *)
theory Str_Util
  imports Collector_Prelude "HOL-Library.Sublist" "HOL-Library.Char_ord"
begin

text \<open>
  String helpers of \<^verbatim>\<open>collector/lib/Utility.cpp\<close> and the parts of the C and C++ libraries they use:
  character classes in the C locale, searching in a \<^verbatim>\<open>std::string_view\<close> (\<open>None\<close> is \<^verbatim>\<open>npos\<close>) and
  \<^verbatim>\<open>strtoumax\<close>. The UTF-8 scanner comes from a library; it is a parameter.
\<close>

section \<open>Library functions\<close>

definition isdigit :: "char \<Rightarrow> bool" where
  "isdigit c \<longleftrightarrow> CHR ''0'' \<le> c \<and> c \<le> CHR ''9''"

definition isxdigit :: "char \<Rightarrow> bool" where
  "isxdigit c \<longleftrightarrow> isdigit c \<or> CHR ''A'' \<le> c \<and> c \<le> CHR ''F'' \<or> CHR ''a'' \<le> c \<and> c \<le> CHR ''f''"

definition isalnum :: "char \<Rightarrow> bool" where
  "isalnum c \<longleftrightarrow> isdigit c \<or> CHR ''A'' \<le> c \<and> c \<le> CHR ''Z'' \<or> CHR ''a'' \<le> c \<and> c \<le> CHR ''z''"

definition isspace :: "char \<Rightarrow> bool" where
  "isspace c \<longleftrightarrow> c \<in> {CHR '' '', CHR 0x09, CHR 0x0A, CHR 0x0B, CHR 0x0C, CHR 0x0D}"

definition isupper :: "char \<Rightarrow> bool" where
  "isupper c \<longleftrightarrow> CHR ''A'' \<le> c \<and> c \<le> CHR ''Z''"

definition islower :: "char \<Rightarrow> bool" where
  "islower c \<longleftrightarrow> CHR ''a'' \<le> c \<and> c \<le> CHR ''z''"

definition toupper :: "char \<Rightarrow> char" where
  "toupper c = (if islower c then char_of (of_char c - 32 :: nat) else c)"

definition tolower :: "char \<Rightarrow> char" where
  "tolower c = (if isupper c then char_of (of_char c + 32 :: nat) else c)"

abbreviation NUL :: char where "NUL \<equiv> CHR 0x00"

fun index_from :: "nat \<Rightarrow> char \<Rightarrow> string \<Rightarrow> nat option" where
  "index_from i c [] = None"
| "index_from i c (x # xs) = (if x = c then Some i else index_from (Suc i) c xs)"

definition str_find_char :: "string \<Rightarrow> char \<Rightarrow> nat \<Rightarrow> nat option" where
  "str_find_char s c pos = index_from pos c (drop pos s)"

definition matches_at :: "string \<Rightarrow> string \<Rightarrow> nat \<Rightarrow> bool" where
  "matches_at s sub i \<longleftrightarrow> take (length sub) (drop i s) = sub"

definition str_find :: "string \<Rightarrow> string \<Rightarrow> nat \<Rightarrow> nat option" where
  "str_find s sub pos = List.find (matches_at s sub) [pos..<Suc (length s)]"

definition str_rfind :: "string \<Rightarrow> string \<Rightarrow> nat option" where
  "str_rfind s sub = List.find (matches_at s sub) (rev [0..<Suc (length s)])"

definition digit_val :: "char \<Rightarrow> nat" where
  "digit_val c = of_char c - 48"

definition decimal_value :: "string \<Rightarrow> nat" where
  "decimal_value ds = foldl (\<lambda>v c. 10 * v + digit_val c) 0 ds"

text \<open>The value of \<^verbatim>\<open>strtoumax\<close> in base ten and the unread rest; it saturates, and without digits nothing is read.\<close>

definition strtoumax :: "string \<Rightarrow> u64 \<times> string" where
  "strtoumax s =
     (let t = dropWhile isspace s;
          neg = (t \<noteq> [] \<and> hd t = CHR ''-'');
          u = (if t \<noteq> [] \<and> (hd t = CHR ''-'' \<or> hd t = CHR ''+'') then tl t else t);
          ds = takeWhile isdigit u;
          v = decimal_value ds
      in if ds = [] then (0, s)
         else (if v \<ge> 2 ^ 64 then - 1 else if neg then - of_nat v else of_nat v, dropWhile isdigit u))"

text \<open>Printing of numbers.\<close>

fun print_nat :: "nat \<Rightarrow> string" where
  "print_nat n = (if n < 10 then [char_of (48 + n)] else print_nat (n div 10) @ [char_of (48 + n mod 10)])"

declare print_nat.simps [simp del]

definition print_int :: "int \<Rightarrow> string" where
  "print_int i = (if i < 0 then CHR ''-'' # print_nat (nat (- i)) else print_nat (nat i))"

section \<open>Splitting\<close>

lemma index_from_Some:
  "index_from i c xs = Some n \<Longrightarrow> i \<le> n \<and> n < i + length xs \<and> xs ! (n - i) = c \<and> c \<notin> set (take (n - i) xs)"
proof (induction i c xs rule: index_from.induct)
  case (2 i c x xs)
  then show ?case
  proof (cases "x = c")
    case False
    with 2 have "Suc i \<le> n" "n < Suc i + length xs" "xs ! (n - Suc i) = c" "c \<notin> set (take (n - Suc i) xs)"
      by auto
    moreover have "n - i = Suc (n - Suc i)" using \<open>Suc i \<le> n\<close> by simp
    ultimately show ?thesis using False by simp
  qed auto
qed simp

lemma index_from_None: "index_from i c xs = None \<longleftrightarrow> c \<notin> set xs"
  by (induction i c xs rule: index_from.induct) auto

lemma index_from_append:
  "c \<notin> set xs \<Longrightarrow> index_from i c (xs @ c # ys) = Some (i + length xs)"
  by (induction xs arbitrary: i) auto

lemma str_find_char_append: "c \<notin> set xs \<Longrightarrow> str_find_char (xs @ c # ys) c 0 = Some (length xs)"
  by (simp add: str_find_char_def index_from_append)

lemma str_find_char_Some:
  assumes "str_find_char s c 0 = Some n"
  shows "n < length s" "s = take n s @ c # drop (n + 1) s" "c \<notin> set (take n s)"
proof -
  have "n < length s \<and> s ! n = c \<and> c \<notin> set (take n s)"
    using index_from_Some [of 0 c s n] assms by (simp add: str_find_char_def)
  then show "n < length s" "s = take n s @ c # drop (n + 1) s" "c \<notin> set (take n s)"
    using id_take_nth_drop [of n s] by auto
qed

lemma str_find_char_bounds: "str_find_char s c pos = Some n \<Longrightarrow> pos \<le> n \<and> n < length s"
  by (cases "pos \<le> length s") (auto simp: str_find_char_def dest: index_from_Some)

function split_loop :: "string \<Rightarrow> char \<Rightarrow> nat \<Rightarrow> string list" where
  "split_loop sv delim offset =
     (case str_find_char sv delim offset of
        Some n \<Rightarrow> take (n - offset) (drop offset sv) # split_loop sv delim (n + 1)
      | None \<Rightarrow> [drop offset sv])"
  by pat_completeness auto
termination
  by (relation "measure (\<lambda>(sv, delim, offset). length sv - offset)") (auto dest!: str_find_char_bounds)

declare split_loop.simps [simp del]

definition SplitStringView :: "string \<Rightarrow> char \<Rightarrow> string list" where
  "SplitStringView sv delim = split_loop sv delim 0"

section \<open>Base 64\<close>

definition base64_chars :: string where
  "base64_chars = ''ABCDEFGHIJKLMNOPQRSTUVWXYZabcdefghijklmnopqrstuvwxyz0123456789+/''"

definition is_base64 :: "char \<Rightarrow> bool" where
  "is_base64 c \<longleftrightarrow> isalnum c \<or> c = CHR ''+'' \<or> c = CHR ''/''"

text \<open>\<^verbatim>\<open>base64_chars.find\<close> assigned to an unsigned character: not found is 255.\<close>

definition base64_index :: "char \<Rightarrow> u8" where
  "base64_index c = (case str_find_char base64_chars c 0 of None \<Rightarrow> 255 | Some n \<Rightarrow> of_nat n)"

definition decode_quad :: "u8 \<Rightarrow> u8 \<Rightarrow> u8 \<Rightarrow> u8 \<Rightarrow> u8 list" where
  "decode_quad a b c d =
     [push_bit 2 a + drop_bit 4 (b AND 0x30),
      push_bit 4 (b AND 0xf) + drop_bit 2 (c AND 0x3c),
      push_bit 6 (c AND 0x3) + d]"

fun decode_groups :: "string \<Rightarrow> u8 list" where
  "decode_groups (a # b # c # d # s) =
     decode_quad (base64_index a) (base64_index b) (base64_index c) (base64_index d) @ decode_groups s"
| "decode_groups [] = []"
| "decode_groups [a] = take 0 (decode_quad (base64_index a) (base64_index NUL) (base64_index NUL) (base64_index NUL))"
| "decode_groups [a, b] = take 1 (decode_quad (base64_index a) (base64_index b) (base64_index NUL) (base64_index NUL))"
| "decode_groups [a, b, c] = take 2 (decode_quad (base64_index a) (base64_index b) (base64_index c) (base64_index NUL))"

definition Base64Decode :: "string \<Rightarrow> u8 list" where
  "Base64Decode encoded = decode_groups (takeWhile (\<lambda>c. c \<noteq> CHR ''='' \<and> is_base64 c) encoded)"

section \<open>Container identifiers\<close>

definition CONTAINER_ID_LENGTH :: nat where "CONTAINER_ID_LENGTH = 64"
definition SHORT_CONTAINER_ID_LENGTH :: nat where "SHORT_CONTAINER_ID_LENGTH = 12"

definition IsContainerID :: "string \<Rightarrow> bool" where
  "IsContainerID str = (if length str \<noteq> CONTAINER_ID_LENGTH then False else list_all isxdigit str)"

text \<open>
  When fewer characters than the suffix are left, the position given to the search for the
  \<^verbatim>\<open>-conmon\<close> suffix wraps around beyond the end of the string and nothing is found.
\<close>

definition has_conmon_suffix :: "string \<Rightarrow> bool" where
  "has_conmon_suffix cgroup \<longleftrightarrow>
     length ''-conmon'' \<le> length cgroup \<and> str_find cgroup ''-conmon'' (length cgroup - length ''-conmon'') \<noteq> None"

definition cgroup_id :: "string \<Rightarrow> string option" where
  "cgroup_id cgroup =
     (let container_id_part = drop (length cgroup - (CONTAINER_ID_LENGTH + 1)) cgroup
      in if hd container_id_part \<noteq> CHR ''/'' \<and> hd container_id_part \<noteq> CHR ''-'' then None
         else if has_conmon_suffix (take (length cgroup - (CONTAINER_ID_LENGTH + 1)) cgroup) then None
         else if \<not> IsContainerID (tl container_id_part) then None
         else Some (take SHORT_CONTAINER_ID_LENGTH (tl container_id_part)))"

definition ExtractContainerIDFromCgroup :: "string \<Rightarrow> string option" where
  "ExtractContainerIDFromCgroup cgroup =
     (if length cgroup < CONTAINER_ID_LENGTH + 1 then None
      else case str_rfind cgroup ''.scope'' of
             Some scope \<Rightarrow>
               (let cgroup' = take scope cgroup
                in if length cgroup' < CONTAINER_ID_LENGTH + 1 then None else cgroup_id cgroup')
           | None \<Rightarrow> cgroup_id cgroup)"

section \<open>Sanitising UTF-8\<close>

text \<open>
  The parameter \<open>span\<close> is \<^verbatim>\<open>utf8_range::SpanStructurallyValid\<close>, the length of the longest valid prefix. The
  fuel of the loop bounds its iterations; each consumes at least one character.
\<close>

fun sanitize_loop :: "(string \<Rightarrow> nat) \<Rightarrow> nat \<Rightarrow> string \<Rightarrow> string \<Rightarrow> nat \<Rightarrow> nat \<Rightarrow> string" where
  "sanitize_loop span 0 output str len i = output"
| "sanitize_loop span (Suc fuel) output str len i =
     (if i < length output then
        (let output' = output[i := CHR ''?''];
             str' = drop (len + 1) str;
             len' = span str'
         in sanitize_loop span fuel output' str' len' (i + len' + 1))
      else output)"

definition SanitizedUTF8 :: "(string \<Rightarrow> nat) \<Rightarrow> string \<Rightarrow> string option" where
  "SanitizedUTF8 span str =
     (let len = span str
      in if len = length str then None
         else Some (sanitize_loop span (length str) str str len len))"

definition SignalName :: "int \<Rightarrow> string" where
  "SignalName signum =
     (if signum = 6 then ''SIGABRT'' else if signum = 11 then ''SIGSEGV''
      else if signum = 15 then ''SIGTERM'' else if signum = 2 then ''SIGINT'' else ''<unknown>'')"

definition GetSNIHostname :: "string option \<Rightarrow> string" where
  "GetSNIHostname env = (case env of Some h \<Rightarrow> if h \<noteq> [] then h else ''sensor.stackrox'' | None \<Rightarrow> ''sensor.stackrox'')"

section \<open>Properties\<close>

fun join :: "char \<Rightarrow> string list \<Rightarrow> string" where
  "join d [] = []"
| "join d [p] = p"
| "join d (p # q # ps) = p @ [d] @ join d (q # ps)"

lemma split_loop_not_Nil [simp]: "split_loop sv d k \<noteq> []"
  by (subst split_loop.simps) (simp split: option.split)

lemma join_Cons: "ps \<noteq> [] \<Longrightarrow> join d (p # ps) = p @ [d] @ join d ps"
  by (cases ps) auto

lemma split_loop_join:
  "k \<le> length sv \<Longrightarrow> join d (split_loop sv d k) = drop k sv \<and> (\<forall>p \<in> set (split_loop sv d k). d \<notin> set p)"
proof (induction sv d k rule: split_loop.induct)
  case (1 sv d k)
  show ?case
  proof (cases "str_find_char sv d k")
    case None
    then have "split_loop sv d k = [drop k sv]" by (subst split_loop.simps) simp
    moreover have "d \<notin> set (drop k sv)" using None by (simp add: str_find_char_def index_from_None)
    ultimately show ?thesis by simp
  next
    case (Some n)
    have n: "k \<le> n" "n < length sv" using str_find_char_bounds [OF Some] by auto
    have at: "drop k sv ! (n - k) = d" "d \<notin> set (take (n - k) (drop k sv))"
      using Some index_from_Some [of k d "drop k sv" n] by (auto simp: str_find_char_def)
    have "drop k sv = take (n - k) (drop k sv) @ [d] @ drop (n + 1) sv"
      using n at(1) id_take_nth_drop [of "n - k" "drop k sv"] by simp
    moreover have "join d (split_loop sv d (n + 1)) = drop (n + 1) sv"
        "\<forall>p \<in> set (split_loop sv d (n + 1)). d \<notin> set p"
      using "1.IH" [OF Some] n by auto
    ultimately show ?thesis
      by (subst (1 2) split_loop.simps) (use Some at(2) in \<open>auto simp: join_Cons\<close>)
  qed
qed

text \<open>
  Splitting loses nothing: the parts of \<^verbatim>\<open>SplitStringView\<close> joined with the delimiter are the string
  again, no part contains the delimiter, and there is always at least one part.
\<close>

theorem SplitStringView_join:
  "join d (SplitStringView s d) = s \<and> list_all (\<lambda>p. d \<notin> set p) (SplitStringView s d) \<and> SplitStringView s d \<noteq> []"
  using split_loop_join [of 0 s d] by (simp add: SplitStringView_def list_all_iff)

text \<open>Printed numbers are read back.\<close>

lemma decimal_value_snoc: "decimal_value (ds @ [c]) = 10 * decimal_value ds + digit_val c"
  by (simp add: decimal_value_def)

lemma digit_char:
  assumes "n < 10"
  shows "isdigit (char_of (48 + n))" "digit_val (char_of (48 + n)) = n"
proof -
  have "of_char (char_of (48 + n) :: char) = 48 + n" using assms by (simp add: of_char_of)
  then show "isdigit (char_of (48 + n))" "digit_val (char_of (48 + n)) = n"
    using assms by (simp_all add: isdigit_def digit_val_def less_eq_char_def)
qed

lemma print_nat_digits: "print_nat n \<noteq> [] \<and> list_all isdigit (print_nat n) \<and> decimal_value (print_nat n) = n"
proof (induction n rule: print_nat.induct)
  case (1 n)
  show ?case
  proof (cases "n < 10")
    case True
    then show ?thesis using digit_char [OF True] by (subst (1 2 3) print_nat.simps) (simp add: decimal_value_def)
  next
    case False
    then show ?thesis using 1 [OF False] digit_char [of "n mod 10"]
      by (subst (1 2 3) print_nat.simps) (simp add: decimal_value_snoc)
  qed
qed

lemma isdigit_not_space: "isdigit c \<Longrightarrow> \<not> isspace c \<and> c \<noteq> NUL \<and> c \<noteq> CHR ''-'' \<and> c \<noteq> CHR ''+''"
  by (auto simp: isdigit_def isspace_def less_eq_char_def)

lemma strtoumax_print_nat:
  assumes "n < 2 ^ 64" "t = [] \<or> \<not> isdigit (hd t)"
  shows "strtoumax (print_nat n @ t) = (of_nat n, t)"
proof -
  note d = print_nat_digits [of n]
  obtain c ds where p: "print_nat n = c # ds" using d by (cases "print_nat n") auto
  have c: "isdigit c" "\<not> isspace c" "c \<noteq> CHR ''-''" "c \<noteq> CHR ''+''" using d p isdigit_not_space by auto
  have "takeWhile isdigit (print_nat n @ t) = print_nat n" "dropWhile isdigit (print_nat n @ t) = t"
    using d assms(2) by (auto simp: takeWhile_append2 dropWhile_append2 list_all_iff takeWhile_eq_Nil_iff
        dropWhile_eq_self_iff)
  then show ?thesis using c assms(1) d p by (simp add: strtoumax_def Let_def)
qed

text \<open>What was cut out as a container identifier.\<close>

lemma matches_at_end: "matches_at (p @ q) q (length p)"
  by (simp add: matches_at_def)

lemma find_rev_upt:
  "List.find P (rev [0..<n]) = Some i \<longleftrightarrow> i < n \<and> P i \<and> (\<forall>j. i < j \<and> j < n \<longrightarrow> \<not> P j)"
proof (induction n)
  case (Suc n)
  then show ?case by (auto simp: less_Suc_eq)
qed simp

lemma matches_at_char: "matches_at s [c] i \<longleftrightarrow> i < length s \<and> s ! i = c"
  by (cases "i < length s") (simp_all add: matches_at_def take_Suc hd_drop_conv_nth)

lemma str_rfind_char_None: "str_rfind s [c] = None \<longleftrightarrow> c \<notin> set s"
  by (auto simp: str_rfind_def find_None_iff matches_at_char in_set_conv_nth simp del: upt_Suc)

lemma str_rfind_char_Some:
  assumes "str_rfind s [c] = Some i"
  shows "s = take (i + 1) s @ drop (i + 1) s" "last (take (i + 1) s) = c" "take (i + 1) s \<noteq> []" "c \<notin> set (drop (i + 1) s)"
proof -
  have i: "i < length s" "s ! i = c" "\<forall>j. i < j \<and> j < length s \<longrightarrow> s ! j \<noteq> c"
    using assms by (auto simp: str_rfind_def find_rev_upt matches_at_char simp del: upt_Suc)
  then show "last (take (i + 1) s) = c" "take (i + 1) s \<noteq> []"
    by (auto simp: take_Suc_conv_app_nth)
  show "c \<notin> set (drop (i + 1) s)" using i(3) by (auto simp: in_set_conv_nth)
qed simp

lemma last_before_end: "p' @ us = [] \<or> last (p' @ us) = c \<Longrightarrow> c \<notin> set (us @ q) \<Longrightarrow> us = []"
  by (cases us rule: rev_cases) auto

lemma after_last_unique:
  assumes "p @ q = p' @ q'" and "p = [] \<or> last p = c" and "p' = [] \<or> last p' = c" and "c \<notin> set q" and "c \<notin> set q'"
  shows "q = q'"
  using assms last_before_end [of p' _ c q] last_before_end [of p _ c q']
  unfolding append_eq_append_conv2 by (metis append_Nil)

lemma cgroup_id_Some:
  assumes "cgroup_id cgroup = Some cid" "CONTAINER_ID_LENGTH + 1 \<le> length cgroup"
  shows "\<exists>p sep full. cgroup = p @ [sep] @ full \<and> (sep = CHR ''/'' \<or> sep = CHR ''-'') \<and> IsContainerID full \<and>
    \<not> has_conmon_suffix p \<and> cid = take SHORT_CONTAINER_ID_LENGTH full"
proof -
  let ?n = "length cgroup - (CONTAINER_ID_LENGTH + 1)"
  let ?part = "drop ?n cgroup"
  have "length ?part = CONTAINER_ID_LENGTH + 1" using assms(2) by simp
  then have "?part = [hd ?part] @ tl ?part" by (cases ?part) auto
  then have "cgroup = take ?n cgroup @ [hd ?part] @ tl ?part" by (metis append_take_drop_id)
  then show ?thesis using assms(1) by (auto simp: cgroup_id_def Let_def split: if_splits)
qed

lemma cgroup_id_complete:
  assumes "sep = CHR ''/'' \<or> sep = CHR ''-''" "IsContainerID full" "\<not> has_conmon_suffix p"
  shows "cgroup_id (p @ [sep] @ full) = Some (take SHORT_CONTAINER_ID_LENGTH full)"
proof -
  have "length full = CONTAINER_ID_LENGTH" using assms(2) by (simp add: IsContainerID_def split: if_splits)
  then show ?thesis using assms by (auto simp: cgroup_id_def Let_def)
qed

text \<open>
  Every container identifier the collector extracts from a cgroup path consists of the first
  twelve of 64 hexadecimal digits that follow a slash or a dash, where the path ends after them or
  goes on with \<^verbatim>\<open>.scope\<close>; identifiers of a \<^verbatim>\<open>conmon\<close> helper are never extracted.
\<close>

theorem ExtractContainerID_sound:
  assumes "ExtractContainerIDFromCgroup cgroup = Some cid"
  shows "\<exists>p sep full rest. cgroup = p @ [sep] @ full @ rest \<and> (sep = CHR ''/'' \<or> sep = CHR ''-'') \<and>
    IsContainerID full \<and> \<not> has_conmon_suffix p \<and> cid = take SHORT_CONTAINER_ID_LENGTH full \<and>
    (rest = [] \<or> prefix ''.scope'' rest) \<and> length cid = 12 \<and> list_all isxdigit cid"
proof -
  have short: "length (take SHORT_CONTAINER_ID_LENGTH full) = 12 \<and> list_all isxdigit (take SHORT_CONTAINER_ID_LENGTH full)"
    if "IsContainerID full" for full
    using that by (auto simp: IsContainerID_def SHORT_CONTAINER_ID_LENGTH_def CONTAINER_ID_LENGTH_def list_all_iff
        dest: in_set_takeD split: if_splits)
  show ?thesis
  proof (cases "str_rfind cgroup ''.scope''")
    case None
    then have "cgroup_id cgroup = Some cid" "CONTAINER_ID_LENGTH + 1 \<le> length cgroup"
      using assms by (auto simp: ExtractContainerIDFromCgroup_def split: if_splits)
    then obtain p sep full where "cgroup = p @ [sep] @ full @ []" "sep = CHR ''/'' \<or> sep = CHR ''-''"
        "IsContainerID full" "\<not> has_conmon_suffix p" "cid = take SHORT_CONTAINER_ID_LENGTH full"
      using cgroup_id_Some by force
    then show ?thesis using short by blast
  next
    case (Some i)
    then have id: "cgroup_id (take i cgroup) = Some cid" "CONTAINER_ID_LENGTH + 1 \<le> length (take i cgroup)"
      using assms by (auto simp: ExtractContainerIDFromCgroup_def Let_def split: if_splits)
    have "matches_at cgroup ''.scope'' i" using Some by (simp add: str_rfind_def find_rev_upt del: upt_Suc)
    then have rest: "prefix ''.scope'' (drop i cgroup)" by (metis matches_at_def take_is_prefix)
    obtain p sep full where "take i cgroup = p @ [sep] @ full" "sep = CHR ''/'' \<or> sep = CHR ''-''"
        "IsContainerID full" "\<not> has_conmon_suffix p" "cid = take SHORT_CONTAINER_ID_LENGTH full"
      using cgroup_id_Some [OF id] by blast
    moreover then have "cgroup = p @ [sep] @ full @ drop i cgroup" by (metis append.assoc append_take_drop_id)
    ultimately show ?thesis using short rest by blast
  qed
qed

theorem ExtractContainerID_sound_witness:
  "\<exists>p sep full rest. ''/docker/'' @ replicate 64 (CHR ''a'') = p @ [sep] @ full @ rest \<and>
     replicate 12 (CHR ''a'') = take SHORT_CONTAINER_ID_LENGTH full"
proof -
  have "ExtractContainerIDFromCgroup (''/docker/'' @ replicate 64 (CHR ''a'')) = Some (replicate 12 (CHR ''a''))"
    by code_simp
  from ExtractContainerID_sound [OF this] show ?thesis by blast
qed

section \<open>Base 64: decoding what was encoded\<close>

text \<open>The standard encoding, with padding.\<close>

definition b64_char :: "u8 \<Rightarrow> char" where
  "b64_char w = base64_chars ! unat w"

text \<open>The four groups of six bits of three bytes.\<close>

definition b64_1 :: "u8 \<Rightarrow> u8" where "b64_1 x = drop_bit 2 x"
definition b64_2 :: "u8 \<Rightarrow> u8 \<Rightarrow> u8" where "b64_2 x y = push_bit 4 (x AND 3) OR drop_bit 4 y"
definition b64_3 :: "u8 \<Rightarrow> u8 \<Rightarrow> u8" where "b64_3 y z = push_bit 2 (y AND 15) OR drop_bit 6 z"
definition b64_4 :: "u8 \<Rightarrow> u8" where "b64_4 z = z AND 63"

fun Base64Encode :: "u8 list \<Rightarrow> string" where
  "Base64Encode (x # y # z # bs) =
     [b64_char (b64_1 x), b64_char (b64_2 x y), b64_char (b64_3 y z), b64_char (b64_4 z)] @ Base64Encode bs"
| "Base64Encode [] = []"
| "Base64Encode [x] = [b64_char (b64_1 x), b64_char (b64_2 x 0), CHR ''='', CHR ''='']"
| "Base64Encode [x, y] = [b64_char (b64_1 x), b64_char (b64_2 x y), b64_char (b64_3 y 0), CHR ''='']"

lemma b64_table:
  assumes "n < 64"
  shows "base64_index (base64_chars ! n) = of_nat n" "is_base64 (base64_chars ! n)" "base64_chars ! n \<noteq> CHR ''=''"
proof -
  have "list_all (\<lambda>n. base64_index (base64_chars ! n) = of_nat n \<and> is_base64 (base64_chars ! n) \<and>
      base64_chars ! n \<noteq> CHR ''='') [0..<64]"
    by code_simp
  then show "base64_index (base64_chars ! n) = of_nat n" "is_base64 (base64_chars ! n)" "base64_chars ! n \<noteq> CHR ''=''"
    using assms by (auto simp: list_all_iff)
qed

lemma b64_char:
  assumes "w < 64"
  shows "base64_index (b64_char w) = w" "is_base64 (b64_char w)" "b64_char w \<noteq> CHR ''=''"
proof -
  have "unat w < 64" using assms by (simp add: word_less_nat_alt)
  then show "base64_index (b64_char w) = w" "is_base64 (b64_char w)" "b64_char w \<noteq> CHR ''=''"
    using b64_table [of "unat w"] by (simp_all add: b64_char_def)
qed

lemma small_word:
  fixes w :: u8
  assumes "\<not> bit w 6" "\<not> bit w 7"
  shows "w < 64"
proof -
  have "n < 6" if "n < 8" "bit w n" for n
  proof -
    have "n \<noteq> 6" "n \<noteq> 7" using that assms by auto
    then show ?thesis using that(1) by linarith
  qed
  then have "take_bit 6 w = w" by (intro bit_word_eqI) (auto simp: bit_take_bit_iff)
  then have "unat w = take_bit 6 (unat w)" by (metis unsigned_take_bit_eq)
  also have "\<dots> < 2 ^ 6" by (rule take_bit_nat_less_exp)
  finally show ?thesis by (simp add: word_less_nat_alt)
qed

lemma no_high_bit: "8 \<le> n \<Longrightarrow> \<not> bit (x :: u8) n"
  by (auto dest: bit_imp_le_length)

lemma b64_pieces: "b64_1 x < 64" "b64_2 x y < 64" "b64_3 y z < 64" "b64_4 z < 64"
  by (rule small_word; simp add: b64_1_def b64_2_def b64_3_def b64_4_def bit_simps no_high_bit)+

lemma byte_eqI:
  fixes v w :: u8
  assumes "bit v 0 = bit w 0" "bit v 1 = bit w 1" "bit v 2 = bit w 2" "bit v 3 = bit w 3"
    "bit v 4 = bit w 4" "bit v 5 = bit w 5" "bit v 6 = bit w 6" "bit v 7 = bit w 7"
  shows "v = w"
proof (rule bit_word_eqI)
  fix n assume "n < LENGTH(8)"
  then have "n \<in> {0, 1, 2, 3, 4, 5, 6, 7}" by auto
  then show "bit v n = bit w n" using assms by blast
qed

lemma byte_sum:
  fixes v w :: u8
  assumes "v AND w = 0" "v OR w = x"
  shows "v + w = x"
  using assms by (simp add: disjunctive_add_eq_or)

lemmas b64_defs = b64_1_def b64_2_def b64_3_def b64_4_def

lemma decode_first: "push_bit 2 (b64_1 x) + drop_bit 4 (b64_2 x y AND 0x30) = x"
  by (rule byte_sum; rule byte_eqI; simp add: b64_defs bit_simps no_high_bit)

lemma decode_second: "push_bit 4 (b64_2 x y AND 0xf) + drop_bit 2 (b64_3 y z AND 0x3c) = y"
  by (rule byte_sum; rule byte_eqI; simp add: b64_defs bit_simps no_high_bit)

lemma decode_third: "push_bit 6 (b64_3 y z AND 0x3) + b64_4 z = z"
  by (rule byte_sum; rule byte_eqI; simp add: b64_defs bit_simps no_high_bit)

lemma decode_quad_pieces:
  "decode_quad (b64_1 x) (b64_2 x y) (b64_3 y z) (b64_4 z) = [x, y, z]"
  "take 2 (decode_quad (b64_1 x) (b64_2 x y) (b64_3 y 0) d) = [x, y]"
  "take 1 (decode_quad (b64_1 x) (b64_2 x 0) c d) = [x]"
  unfolding decode_quad_def decode_first decode_second decode_third by simp_all

text \<open>
  \<^verbatim>\<open>Base64Decode\<close> inverts the standard base-64 encoding with padding, for every sequence of bytes.
\<close>

theorem Base64Decode_roundtrip: "Base64Decode (Base64Encode bs) = bs"
proof -
  have "decode_groups (takeWhile (\<lambda>c. c \<noteq> CHR ''='' \<and> is_base64 c) (Base64Encode bs)) = bs"
    by (induction bs rule: Base64Encode.induct)
      (simp_all add: b64_char b64_pieces decode_quad_pieces del: One_nat_def)
  then show ?thesis by (simp add: Base64Decode_def)
qed

section \<open>Sanitising keeps the valid pieces\<close>

text \<open>The string with every character at which a valid piece ends replaced by a question mark.\<close>

function replace_invalid :: "(string \<Rightarrow> nat) \<Rightarrow> string \<Rightarrow> string" where
  "replace_invalid span s =
     (if span s < length s
      then take (span s) s @ CHR ''?'' # replace_invalid span (drop (span s + 1) s) else s)"
  by pat_completeness auto
termination by (relation "measure (\<lambda>(span, s). length s)") auto

declare replace_invalid.simps [simp del]

lemma length_replace_invalid: "length (replace_invalid span s) = length s"
  by (induction span s rule: replace_invalid.induct) (subst replace_invalid.simps, auto)

lemma sanitize_loop_eq:
  assumes "\<And>s. span s \<le> length s"
  shows "length str \<le> fuel + span str \<Longrightarrow>
    sanitize_loop span fuel (pre @ str) str (span str) (length pre + span str) = pre @ replace_invalid span str"
proof (induction fuel arbitrary: pre str)
  case 0
  then show ?case using assms [of str] by (subst replace_invalid.simps) simp
next
  case (Suc fuel)
  show ?case
  proof (cases "span str < length str")
    case True
    let ?str' = "drop (span str + 1) str" and ?pre' = "pre @ take (span str) str @ [CHR ''?'']"
    have upd: "(pre @ str)[length pre + span str := CHR ''?''] = ?pre' @ ?str'"
      using True by (simp add: list_update_append upd_conv_take_nth_drop)
    have idx: "length pre + span str + span ?str' + 1 = length ?pre' + span ?str'" using True by simp
    have "length ?str' \<le> fuel + span ?str'" using Suc.prems True by simp
    note Suc.IH [OF this, of ?pre']
    moreover have "sanitize_loop span (Suc fuel) (pre @ str) str (span str) (length pre + span str) =
        sanitize_loop span fuel (?pre' @ ?str') ?str' (span ?str') (length ?pre' + span ?str')"
      using True upd idx by (simp add: Let_def)
    moreover have "replace_invalid span str = take (span str) str @ CHR ''?'' # replace_invalid span ?str'"
      using True by (subst replace_invalid.simps) simp
    ultimately show ?thesis by simp
  next
    case False
    then show ?thesis by (subst replace_invalid.simps) simp
  qed
qed

text \<open>
  \<^verbatim>\<open>SanitizedUTF8\<close> reports no change exactly when the scanner accepts the whole string. Otherwise the
  result has the length of the input, every piece the scanner accepts is kept, and the character
  after each piece is replaced by a question mark; the loop ends within as many iterations as there
  are characters. The scanner never reports more characters than it was given.
\<close>

theorem SanitizedUTF8_replaces:
  assumes "\<forall>s. span s \<le> length s"
  shows "SanitizedUTF8 span str = (if span str = length str then None else Some (replace_invalid span str)) \<and>
    length (replace_invalid span str) = length str"
proof -
  have bound: "\<And>s. span s \<le> length s" using assms by blast
  show ?thesis
    using sanitize_loop_eq [of span str "length str" "[]", OF bound] bound [of str]
    by (simp add: SanitizedUTF8_def Let_def length_replace_invalid)
qed

definition ascii_span :: "string \<Rightarrow> nat" where
  "ascii_span s = length (takeWhile (\<lambda>c. \<not> digit7 c) s)"

theorem SanitizedUTF8_replaces_witness:
  "SanitizedUTF8 ascii_span [CHR ''a'', CHR 0xFF, CHR ''b''] = Some ''a?b''"
proof -
  have "replace_invalid ascii_span [CHR ''a'', CHR 0xFF, CHR ''b''] = ''a?b''"
    by (subst replace_invalid.simps, subst replace_invalid.simps) (simp add: ascii_span_def)
  then show ?thesis
    using SanitizedUTF8_replaces [of ascii_span "[CHR ''a'', CHR 0xFF, CHR ''b'']"]
    by (simp add: ascii_span_def length_takeWhile_le)
qed

end
