(* ===== verification/Procfs_Scraper.thy ===== *)
theory Procfs_Scraper
  imports Str_Util Net_Connection
begin

text \<open>
  The scraper of \<^verbatim>\<open>collector/lib/ProcfsScraper.cpp\<close>. A pointer into a line buffer is the rest of the
  buffer from that position to its end, NUL bytes included, so that \<^verbatim>\<open>p < endp\<close> says that the rest is not
  empty. The file system is a value: a process directory holds what opening and reading its entries
  yields, \<open>None\<close> being a failure, with the network namespace link read twice. An inode is a 64-bit word.
  The process store is a function from process identifiers to processes.
\<close>

type_synonym cptr = string
type_synonym inode = u64

section \<open>String parsing helpers\<close>

fun rep_find_loop :: "nat \<Rightarrow> string \<Rightarrow> char \<Rightarrow> nat \<Rightarrow> nat option" where
  "rep_find_loop 0 str c pos = str_find_char str c pos"
| "rep_find_loop (Suc n) str c pos =
     (case str_find_char str c pos of None \<Rightarrow> None | Some p \<Rightarrow> rep_find_loop n str c (p + 1))"

definition rep_find :: "int \<Rightarrow> string \<Rightarrow> char \<Rightarrow> nat option" where
  "rep_find n str c = (if n \<le> 0 then None else rep_find_loop (nat (n - 1)) str c 0)"

text \<open>The second loop of \<^verbatim>\<open>nextfield\<close> advances before it looks; at the end of the buffer it stops.\<close>

fun skip_spaces :: "cptr \<Rightarrow> cptr" where
  "skip_spaces [] = []"
| "skip_spaces [c] = (if c = NUL then [c] else [])"
| "skip_spaces (c # d # p) = (if c = NUL then c # d # p else if isspace d then skip_spaces (d # p) else d # p)"

definition nextfield :: "cptr \<Rightarrow> cptr option" where
  "nextfield p =
     (let q = skip_spaces (dropWhile (\<lambda>c. c \<noteq> NUL \<and> \<not> isspace c) p)
      in if q \<noteq> [] \<and> hd q \<noteq> NUL then Some q else None)"

fun rep_nextfield :: "nat \<Rightarrow> cptr option \<Rightarrow> cptr option" where
  "rep_nextfield n None = None"
| "rep_nextfield 0 (Some p) = Some p"
| "rep_nextfield (Suc n) (Some p) = rep_nextfield n (nextfield p)"

section \<open>Links, states and container identifiers\<close>

text \<open>The target of the link as \<^verbatim>\<open>readlinkat\<close> delivers it into a buffer of 64 bytes.\<close>

definition ReadINode :: "string option \<Rightarrow> string \<Rightarrow> inode option" where
  "ReadINode link pfx =
     (case link of
        None \<Rightarrow> None
      | Some target \<Rightarrow>
          (let linkbuf = take 64 target; nread = length linkbuf
           in if nread = 0 \<or> nread \<ge> 63 then None
              else if List.last linkbuf \<noteq> CHR '']'' then None
              else if take (length pfx) linkbuf \<noteq> pfx then None
              else if take 2 (drop (length pfx) linkbuf) \<noteq> '':['' then None
              else (case strtoumax (drop (length pfx + 2) linkbuf) of
                      (parsed, rest) \<Rightarrow> if rest = [] \<or> hd rest \<noteq> CHR '']'' then None else Some parsed)))"

definition GetNetworkNamespace :: "string option \<Rightarrow> inode option" where
  "GetNetworkNamespace link = ReadINode link ''net''"

text \<open>A set of sockets identified by their inode; the process first seen with a socket stays with it.\<close>

type_synonym socket_set = "(inode, u64) umap"

definition GetSocketINodes :: "(string \<times> string option) list option \<Rightarrow> u64 \<Rightarrow> socket_set \<Rightarrow> socket_set option" where
  "GetSocketINodes fd_dir pid sock_inodes =
     (case fd_dir of
        None \<Rightarrow> None
      | Some entries \<Rightarrow>
          Some (fold (\<lambda>(name, link) socks.
                  if name = [] \<or> \<not> isdigit (hd name) then socks
                  else case ReadINode link ''socket'' of
                         None \<Rightarrow> socks
                       | Some inode \<Rightarrow> fst (um_emplace (=) socks inode pid)) entries sock_inodes))"

definition ExtractProcessState :: "string \<Rightarrow> char option" where
  "ExtractProcessState line =
     (case str_rfind line '') '' of
        None \<Rightarrow> None
      | Some i \<Rightarrow> (let rest = drop (i + 2) line in if rest = [] then None else Some (hd rest)))"

text \<open>
  The error paths return \<^verbatim>\<open>false\<close>, which is an optional holding the NUL character. The line
  becomes a string view up to its first NUL character.
\<close>

definition ReadProcessState :: "string option \<Rightarrow> char option" where
  "ReadProcessState stat_line =
     (case stat_line of None \<Rightarrow> Some NUL | Some linebuf \<Rightarrow> ExtractProcessState (takeWhile (\<lambda>c. c \<noteq> NUL) (take 511 linebuf)))"

definition ExtractContainerID :: "string \<Rightarrow> string option" where
  "ExtractContainerID cgroup_line =
     (case rep_find 2 cgroup_line (CHR '':'') of
        None \<Rightarrow> None
      | Some start \<Rightarrow> ExtractContainerIDFromCgroup (drop (start + 1) cgroup_line))"

fun first_container_id :: "string list \<Rightarrow> string option" where
  "first_container_id [] = None"
| "first_container_id (l # ls) =
     (if l = [] then first_container_id ls
      else let line = (if List.last l = CHR 0x0A then butlast l else l)
           in case ExtractContainerID line of
                None \<Rightarrow> first_container_id ls
              | Some short_container_id \<Rightarrow> Some short_container_id)"

definition GetContainerID :: "string list option \<Rightarrow> string option" where
  "GetContainerID cgroups_file = (case cgroups_file of None \<Rightarrow> None | Some ls \<Rightarrow> first_container_id ls)"

section \<open>Parsing of connection lines\<close>

definition IsHexChar :: "char \<Rightarrow> bool" where
  "IsHexChar c \<longleftrightarrow> isdigit c \<or> CHR ''A'' \<le> c \<and> c \<le> CHR ''F''"

definition HexCharToVal :: "char \<Rightarrow> u8" where
  "HexCharToVal c = (if isdigit c then of_char c - of_char CHR ''0'' else 10 + (of_char c - of_char CHR ''A''))"

text \<open>
  The bytes read, most recent chunk last; a completed chunk is reversed in place when \<^verbatim>\<open>reverse\<close> is set.
\<close>

fun ReadHexBytes_loop :: "cptr \<Rightarrow> nat \<Rightarrow> nat \<Rightarrow> bool \<Rightarrow> u8 list \<Rightarrow> u8 list" where
  "ReadHexBytes_loop (high # low # c # p) num_bytes chunk_size rev_chunks buf =
     (if length buf < num_bytes then
        (if \<not> IsHexChar high \<or> \<not> IsHexChar low then buf
         else
           (let buf' = buf @ [push_bit 4 (HexCharToVal high) OR HexCharToVal low];
                buf'' = (if rev_chunks \<and> length buf mod chunk_size = chunk_size - 1
                         then take (length buf' - chunk_size) buf' @ rev (drop (length buf' - chunk_size) buf')
                         else buf')
            in ReadHexBytes_loop (c # p) num_bytes chunk_size rev_chunks buf''))
      else buf)"
| "ReadHexBytes_loop p num_bytes chunk_size rev_chunks buf = buf"

definition ReadHexBytes :: "cptr \<Rightarrow> nat \<Rightarrow> nat \<Rightarrow> bool \<Rightarrow> u8 list" where
  "ReadHexBytes p chunk_size num_chunks rev_chunks =
     ReadHexBytes_loop p (chunk_size * num_chunks) chunk_size rev_chunks []"

record ConnLineData =
  cl_local :: Endpoint
  cl_remote :: Endpoint
  cl_state :: u8
  cl_inode :: inode

record ConnInfo =
  ci_local :: Endpoint
  ci_remote :: Endpoint
  ci_l4proto :: L4Proto
  ci_is_server :: bool

record EndpointInfo =
  ei_endpoint :: Endpoint
  ei_l4proto :: L4Proto

text \<open>The host is little-endian, so chunks are reversed and the port is read back with its low byte first.\<close>

definition needs_byteorder_swap :: bool where
  "needs_byteorder_swap = True"

definition port_of_mem :: "u8 list \<Rightarrow> u16" where
  "port_of_mem bs = ucast (bs ! 0) OR push_bit 8 (ucast (bs ! 1))"

definition ParseEndpoint :: "cptr \<Rightarrow> Family \<Rightarrow> (Endpoint \<times> cptr) option" where
  "ParseEndpoint p family =
     (let addr_len = Address_Length family;
          addr_data = ReadHexBytes p 4 (addr_len div 4) needs_byteorder_swap
      in if length addr_data \<noteq> addr_len then None
         else
           let p1 = drop (2 * addr_len) p
           in if p1 = [] \<or> hd p1 \<noteq> CHR '':'' then None
              else
                let p2 = tl p1;
                    port = ReadHexBytes p2 2 1 needs_byteorder_swap
                in if length port \<noteq> 2 then None
                   else Some (Endpoint_of_address (Address_bytes family addr_data) (port_of_mem port), drop 4 p2))"

definition ParseConnLine :: "cptr \<Rightarrow> Family \<Rightarrow> ConnLineData option" where
  "ParseConnLine p family =
     Option.bind (nextfield (dropWhile isspace p)) (\<lambda>p1.
     Option.bind (ParseEndpoint p1 family) (\<lambda>(local_ep, p2).
     Option.bind (nextfield p2) (\<lambda>p3.
     Option.bind (ParseEndpoint p3 family) (\<lambda>(remote_ep, p4).
     Option.bind (nextfield p4) (\<lambda>p5.
       let st = ReadHexBytes p5 1 1 False
       in if length st \<noteq> 1 then None
          else
            Option.bind (rep_nextfield 6 (Some (drop 2 p5))) (\<lambda>p6.
              case strtoumax p6 of (ino, rest) \<Rightarrow>
                if rest \<noteq> [] \<and> hd rest \<noteq> NUL \<and> \<not> isspace (hd rest) then None
                else Some \<lparr>cl_local = local_ep, cl_remote = remote_ep, cl_state = st ! 0, cl_inode = ino\<rparr>))))))"

definition LocalIsServer :: "Endpoint \<Rightarrow> Endpoint \<Rightarrow> Endpoint list \<Rightarrow> bool" where
  "LocalIsServer local_ep remote_ep listen_endpoints =
     (if \<exists>e \<in> set listen_endpoints. Endpoint_keq e local_ep then True
      else if \<exists>e \<in> set listen_endpoints.
                Endpoint_keq e (Endpoint_of_address (Address_any (addr_family (ep_address local_ep))) (ep_port local_ep))
      then True
      else IsEphemeralPort (ep_port remote_ep) > IsEphemeralPort (ep_port local_ep))"

definition TCP_ESTABLISHED :: u8 where "TCP_ESTABLISHED = 1"
definition TCP_LISTEN :: u8 where "TCP_LISTEN = 10"

type_synonym conn_infos = "(inode, ConnInfo) umap"
type_synonym endpoint_infos = "(inode, EndpointInfo) umap"

text \<open>
  A line as \<^verbatim>\<open>fgets\<close> leaves it in the buffer of 512 bytes. The bytes behind its terminator, which no
  parsing function looks at, are set to NUL here.
\<close>

definition line_buffer :: "string \<Rightarrow> cptr" where
  "line_buffer l = take 511 l @ replicate (512 - length (take 511 l)) NUL"

definition read_line ::
  "Family \<Rightarrow> L4Proto \<Rightarrow> bool \<Rightarrow> string \<Rightarrow> Endpoint list \<times> conn_infos \<times> endpoint_infos \<Rightarrow>
   Endpoint list \<times> conn_infos \<times> endpoint_infos" where
  "read_line family l4proto want_listen line state =
     (case state of (all_listen, connections, listen_endpoints) \<Rightarrow>
      case ParseConnLine (line_buffer line) family of
        None \<Rightarrow> state
      | Some d \<Rightarrow>
          if cl_state d = TCP_LISTEN then
            (cl_local d # all_listen, connections,
             if cl_inode d \<noteq> 0 \<and> want_listen
             then um_assign (=) listen_endpoints (cl_inode d) \<lparr>ei_endpoint = cl_local d, ei_l4proto = l4proto\<rparr>
             else listen_endpoints)
          else if cl_state d \<noteq> TCP_ESTABLISHED then state
          else if cl_inode d = 0 then state
          else (all_listen,
                um_assign (=) connections (cl_inode d)
                  \<lparr>ci_local = cl_local d, ci_remote = cl_remote d, ci_l4proto = l4proto,
                   ci_is_server = LocalIsServer (cl_local d) (cl_remote d) all_listen\<rparr>,
                listen_endpoints))"

definition ReadConnectionsFromFile ::
  "Family \<Rightarrow> L4Proto \<Rightarrow> bool \<Rightarrow> string list \<Rightarrow> conn_infos \<times> endpoint_infos \<Rightarrow>
   bool \<times> conn_infos \<times> endpoint_infos" where
  "ReadConnectionsFromFile family l4proto want_listen f maps =
     (case f of
        [] \<Rightarrow> (False, maps)
      | header # ls \<Rightarrow>
          (case fold (read_line family l4proto want_listen) ls ([], maps) of
             (_, connections, listen_endpoints) \<Rightarrow> (True, connections, listen_endpoints)))"

record NSNetworkData =
  ns_connections :: conn_infos
  ns_listen_endpoints :: endpoint_infos

definition GetConnections ::
  "string list option \<Rightarrow> string list option \<Rightarrow> bool \<Rightarrow> bool \<times> conn_infos \<times> endpoint_infos" where
  "GetConnections net_tcp net_tcp6 want_listen =
     (let (ok1, maps1) =
            (case net_tcp of None \<Rightarrow> (False, [], [])
             | Some f \<Rightarrow> ReadConnectionsFromFile IPV4 TCP want_listen f ([], []));
          (ok2, maps2) =
            (case net_tcp6 of None \<Rightarrow> (False, maps1)
             | Some f \<Rightarrow> ReadConnectionsFromFile IPV6 TCP want_listen f maps1)
      in (ok1 \<and> ok2, maps2))"

section \<open>From sockets to connections\<close>

type_synonym conns_by_ns = "(inode, NSNetworkData) umap"
type_synonym sockets_by_container = "(string, (inode, socket_set) umap) umap"

definition resolve_socket ::
  "(u64 \<Rightarrow> process_ref option) option \<Rightarrow> bool \<Rightarrow> string \<Rightarrow> NSNetworkData \<Rightarrow> inode \<times> u64 \<Rightarrow>
   Connection list \<times> ContainerEndpoint list" where
  "resolve_socket process_store want_listen container_id d socket =
     (case um_find (=) (ns_connections d) (fst socket) of
        Some conn \<Rightarrow>
          (let connection = mk_Connection container_id (ci_local conn) (ci_remote conn) (ci_l4proto conn) (ci_is_server conn)
           in if \<not> IsRelevantConnection connection then ([], []) else ([connection], []))
      | None \<Rightarrow>
          if want_listen then
            (case um_find (=) (ns_listen_endpoints d) (fst socket) of
               None \<Rightarrow> ([], [])
             | Some ep \<Rightarrow>
                 if \<not> IsRelevantEndpoint (ei_endpoint ep) then ([], [])
                 else ([], [\<lparr>cep_container = container_id, cep_endpoint = ei_endpoint ep, cep_l4proto = ei_l4proto ep,
                             cep_originator = (case process_store of None \<Rightarrow> None | Some store \<Rightarrow> store (snd socket))\<rparr>]))
          else ([], []))"

definition ResolveSocketInodes ::
  "sockets_by_container \<Rightarrow> conns_by_ns \<Rightarrow> (u64 \<Rightarrow> process_ref option) option \<Rightarrow> bool \<Rightarrow>
   Connection list \<times> ContainerEndpoint list" where
  "ResolveSocketInodes sockets conns process_store want_listen =
     (let rs = concat (map (\<lambda>(container_id, by_ns).
                 concat (map (\<lambda>(netns, socks).
                   case um_find (=) conns netns of
                     None \<Rightarrow> []
                   | Some d \<Rightarrow> map (resolve_socket process_store want_listen container_id d) socks) by_ns)) sockets)
      in (concat (map fst rs), concat (map snd rs)))"

record proc_dir =
  pd_name :: string
  pd_open :: bool
  pd_stat :: "string option"
  pd_cgroup :: "string list option"
  pd_netns :: "string option"
  pd_netns_again :: "string option"
  pd_fds :: "(string \<times> string option) list option"
  pd_net_tcp :: "string list option"
  pd_net_tcp6 :: "string list option"

definition sockets_of :: "sockets_by_container \<Rightarrow> string \<Rightarrow> inode \<Rightarrow> socket_set" where
  "sockets_of sockets container_id netns =
     (case um_find (=) sockets container_id of
        None \<Rightarrow> []
      | Some by_ns \<Rightarrow> (case um_find (=) by_ns netns of None \<Rightarrow> [] | Some socks \<Rightarrow> socks))"

definition set_sockets :: "sockets_by_container \<Rightarrow> string \<Rightarrow> inode \<Rightarrow> socket_set \<Rightarrow> sockets_by_container" where
  "set_sockets sockets container_id netns socks =
     um_assign (=) sockets container_id
       (um_assign (=) (case um_find (=) sockets container_id of None \<Rightarrow> [] | Some by_ns \<Rightarrow> by_ns) netns socks)"

text \<open>\<^verbatim>\<open>strtoll\<close> of a name that begins with a digit; it saturates.\<close>

definition strtoll :: "string \<Rightarrow> u64" where
  "strtoll s = (let v = decimal_value (takeWhile isdigit s) in if v \<ge> 2 ^ 63 then 2 ^ 63 - 1 else of_nat v)"

text \<open>The body of the loop over the process directories.\<close>

definition scan_process ::
  "bool \<Rightarrow> proc_dir \<Rightarrow> sockets_by_container \<times> conns_by_ns \<Rightarrow> sockets_by_container \<times> conns_by_ns" where
  "scan_process want_listen d state =
     (case state of (sockets, conns) \<Rightarrow>
      if pd_name d = [] \<or> \<not> isdigit (hd (pd_name d)) then state
      else if \<not> pd_open d then state
      else if ReadProcessState (pd_stat d) = Some (CHR ''Z'') then state
      else case GetContainerID (pd_cgroup d) of
             None \<Rightarrow> state
           | Some container_id \<Rightarrow>
               (case GetNetworkNamespace (pd_netns d) of
                  None \<Rightarrow> state
                | Some netns \<Rightarrow>
                    (let before = sockets_of sockets container_id netns;
                         pid = strtoll (pd_name d)
                     in case GetSocketINodes (pd_fds d) pid before of
                          None \<Rightarrow> (set_sockets sockets container_id netns before, conns)
                        | Some socks \<Rightarrow>
                            (let sockets' = set_sockets sockets container_id netns socks
                             in if before = [] \<and> socks \<noteq> [] \<and> um_find (=) conns netns = None then
                                  (case GetConnections (pd_net_tcp d) (pd_net_tcp6 d) want_listen of
                                     (ok, connections, listen_endpoints) \<Rightarrow>
                                       if \<not> ok \<and> GetNetworkNamespace (pd_netns_again d) \<noteq> Some netns
                                       then (sockets', conns)
                                       else (sockets', fst (um_emplace (=) conns netns
                                               \<lparr>ns_connections = connections, ns_listen_endpoints = listen_endpoints\<rparr>)))
                                else (sockets', conns)))))"

definition ReadContainerConnections ::
  "proc_dir list option \<Rightarrow> (u64 \<Rightarrow> process_ref option) option \<Rightarrow> bool \<Rightarrow>
   (Connection list \<times> ContainerEndpoint list) option" where
  "ReadContainerConnections procdir process_store want_listen =
     (case procdir of
        None \<Rightarrow> None
      | Some dirs \<Rightarrow>
          (case fold (scan_process want_listen) dirs ([], []) of
             (sockets, conns) \<Rightarrow> Some (ResolveSocketInodes sockets conns process_store want_listen)))"

section \<open>Process information\<close>

definition ReadProcessExe :: "string option \<Rightarrow> (string \<times> string) option" where
  "ReadProcessExe exe_link =
     (case exe_link of
        None \<Rightarrow> None
      | Some target \<Rightarrow>
          (let nread = length (take 4096 target)
           in if nread = 0 \<or> nread \<ge> 4096 then None
              else Some (if hd target = CHR ''/'' then rev (takeWhile (\<lambda>c. c \<noteq> CHR ''/'') (rev target)) else target,
                         target)))"

record cmdline_state =
  cs_did_exe :: bool
  cs_arg_completed :: bool
  cs_buf :: string
  cs_exe :: string

definition cmdline_step :: "char \<Rightarrow> cmdline_state \<Rightarrow> cmdline_state" where
  "cmdline_step c s =
     (if c \<noteq> NUL then
        (let buf = (if cs_arg_completed s then cs_buf s @ '' '' else cs_buf s)
         in s\<lparr>cs_arg_completed := False, cs_buf := buf @ [c]\<rparr>)
      else if cs_did_exe s then s\<lparr>cs_arg_completed := True\<rparr>
      else s\<lparr>cs_exe := cs_buf s, cs_buf := [], cs_did_exe := True\<rparr>)"

definition ReadProcessCmdline :: "string option \<Rightarrow> string \<Rightarrow> (string \<times> string) option" where
  "ReadProcessCmdline cmdline exe =
     (case cmdline of
        None \<Rightarrow> None
      | Some contents \<Rightarrow>
          (let s = fold cmdline_step contents
                     \<lparr>cs_did_exe = False, cs_arg_completed = False, cs_buf = [], cs_exe = exe\<rparr>
           in Some (cs_exe s, cs_buf s)))"

text \<open>
  The scraper of a single process. The parameter \<open>open_dir\<close> is what opening a path yields; a path is cut at
  63 characters by \<^verbatim>\<open>snprintf\<close>, which prints the identifier as a signed number.
\<close>

record ProcessInfo =
  pi_container_id :: string
  pi_comm :: string
  pi_exe :: string
  pi_exe_path :: string
  pi_args :: string
  pi_pid :: u64

record pid_files =
  pf_cgroup :: "string list option"
  pf_exe :: "string option"
  pf_cmdline :: "string option"

definition ProcessScraper_Scrape ::
  "(string \<Rightarrow> pid_files option) \<Rightarrow> string \<Rightarrow> u64 \<Rightarrow> ProcessInfo \<Rightarrow> bool \<times> ProcessInfo" where
  "ProcessScraper_Scrape open_dir proc_path pid process_info =
     (let process_info = process_info\<lparr>pi_pid := pid\<rparr>;
          process_path = take 63 (proc_path @ ''/'' @ print_int (sint pid))
      in case open_dir process_path of
           None \<Rightarrow> (False, process_info)
         | Some dirfd \<Rightarrow>
             if GetContainerID (pf_cgroup dirfd) = None then (False, process_info)
             else case ReadProcessExe (pf_exe dirfd) of
                    None \<Rightarrow> (False, process_info)
                  | Some (comm, exe_path) \<Rightarrow>
                      (let process_info = process_info\<lparr>pi_comm := comm, pi_exe_path := exe_path\<rparr>
                       in case ReadProcessCmdline (pf_cmdline dirfd) (pi_exe process_info) of
                            None \<Rightarrow> (False, process_info)
                          | Some (exe, args) \<Rightarrow> (True, process_info\<lparr>pi_exe := exe, pi_args := args\<rparr>)))"

section \<open>Parsing what the kernel prints\<close>

definition hex_digit :: "nat \<Rightarrow> char" where
  "hex_digit n = ''0123456789ABCDEF'' ! n"

definition hex2 :: "u8 \<Rightarrow> string" where
  "hex2 b = [hex_digit (unat b div 16), hex_digit (unat b mod 16)]"

text \<open>Each group of four bytes in memory order is printed as one little-endian 32-bit number.\<close>

fun kernel_addr :: "bytes \<Rightarrow> string" where
  "kernel_addr (a # b # c # d # bs) = hex2 d @ hex2 c @ hex2 b @ hex2 a @ kernel_addr bs"
| "kernel_addr bs = []"

definition kernel_endpoint :: "Address \<Rightarrow> u16 \<Rightarrow> string" where
  "kernel_endpoint a port =
     kernel_addr (take (addr_length a) (addr_mem a)) @ '':'' @ hex2 (ucast (drop_bit 8 port)) @ hex2 (ucast port)"

lemma less_16_cases: "(n :: nat) < 16 \<Longrightarrow> n \<in> {0,1,2,3,4,5,6,7,8,9,10,11,12,13,14,15}"
  by simp presburger

lemma hex_digit_read:
  assumes "n < 16"
  shows "IsHexChar (hex_digit n)" "HexCharToVal (hex_digit n) = of_nat n"
    "\<not> isspace (hex_digit n)" "hex_digit n \<noteq> NUL"
  using less_16_cases [OF assms]
  by (auto simp: hex_digit_def IsHexChar_def HexCharToVal_def isdigit_def isspace_def less_eq_char_def)

lemma nibbles: "push_bit 4 (of_nat (unat b div 16)) OR of_nat (unat b mod 16) = (b :: u8)"
proof -
  have "unat b div 16 = unat (b div 16)" "unat b mod 16 = unat (b mod 16)" by (simp_all add: unat_div unat_mod)
  then have hi: "of_nat (unat b div 16) = drop_bit 4 b" and lo: "of_nat (unat b mod 16) = take_bit 4 b"
    by (simp_all add: drop_bit_eq_div take_bit_eq_mod)
  show ?thesis unfolding hi lo by (rule bit_word_eqI) (auto simp: bit_simps)
qed

lemma hex2_value:
  "push_bit 4 (HexCharToVal (hex_digit (unat b div 16))) OR HexCharToVal (hex_digit (unat b mod 16)) = b"
  using unsigned_less [where ?'a = nat, of b] by (simp add: hex_digit_read(2) nibbles)

lemma ReadHexBytes_loop_step:
  assumes "length buf < n"
  shows "ReadHexBytes_loop (hex2 b @ x # p) n k r buf =
    ReadHexBytes_loop (x # p) n k r
      (if r \<and> length buf mod k = k - 1 then take (Suc (length buf) - k) (buf @ [b]) @ rev (drop (Suc (length buf) - k) (buf @ [b]))
       else buf @ [b])"
  using assms unsigned_less [where ?'a = nat, of b] by (simp add: hex2_def hex_digit_read(1) hex2_value Let_def)

lemma ReadHexBytes_loop_group:
  assumes "length buf mod 4 = 0" "length buf + 4 \<le> n"
  shows "ReadHexBytes_loop (hex2 d @ hex2 c @ hex2 b @ hex2 a @ x # p) n 4 True buf =
    ReadHexBytes_loop (x # p) n 4 True (buf @ [a, b, c, d])"
proof -
  have hd2: "\<exists>y z. hex2 e @ q = y # z" for e q by (simp add: hex2_def)
  have step: "ReadHexBytes_loop (hex2 e @ q) n 4 True (buf @ es) = ReadHexBytes_loop q n 4 True (buf @ es @ [e])"
    if es: "length es < 3" and ex: "\<exists>y z. q = y # z" for e q es
  proof -
    obtain y z where q: "q = y # z" using ex by blast
    have "length (buf @ es) mod 4 \<noteq> 3" "length (buf @ es) < n" using es assms by (simp_all, presburger)
    then show ?thesis using ReadHexBytes_loop_step [of "buf @ es" n e y z 4 True] by (simp add: q)
  qed
  have "length (buf @ [d, c, b]) mod 4 = 3" "length (buf @ [d, c, b]) < n" using assms by auto
  then have last: "ReadHexBytes_loop (hex2 a @ x # p) n 4 True (buf @ [d, c, b]) =
      ReadHexBytes_loop (x # p) n 4 True (buf @ [a, b, c, d])"
    using ReadHexBytes_loop_step [of "buf @ [d, c, b]" n a x p 4 True] by simp
  show ?thesis
    using step [of "[]" "hex2 c @ hex2 b @ hex2 a @ x # p" d] step [of "[d]" "hex2 b @ hex2 a @ x # p" c]
      step [of "[d, c]" "hex2 a @ x # p" b] last hd2 by simp
qed

lemma ReadHexBytes_loop_addr:
  assumes "length bs mod 4 = 0" "length buf mod 4 = 0" "length buf + length bs = n"
  shows "ReadHexBytes_loop (kernel_addr bs @ x # p) n 4 True buf = buf @ bs"
  using assms
proof (induction bs arbitrary: buf rule: kernel_addr.induct)
  case (1 a b c d bs)
  obtain y q where yq: "kernel_addr bs @ x # p = y # q" by (cases "kernel_addr bs @ x # p") auto
  have "ReadHexBytes_loop (kernel_addr (a # b # c # d # bs) @ x # p) n 4 True buf =
      ReadHexBytes_loop (kernel_addr bs @ x # p) n 4 True (buf @ [a, b, c, d])"
    using ReadHexBytes_loop_group [of buf n d c b a y q] 1 by (simp add: yq)
  also have "\<dots> = buf @ (a # b # c # d # bs)" using 1 by auto
  finally show ?case .
next
  case "2_1"
  then show ?case by (cases p rule: list.exhaust; cases "tl p") auto
qed auto

lemma length_kernel_addr: "length bs mod 4 = 0 \<Longrightarrow> length (kernel_addr bs) = 2 * length bs"
  by (induction bs rule: kernel_addr.induct) (auto simp: hex2_def)

lemma ReadHexBytes_port:
  "ReadHexBytes (hex2 (ucast (drop_bit 8 port)) @ hex2 (ucast port) @ x # p) 2 1 True = [ucast port, ucast (drop_bit 8 port)]"
proof -
  let ?hi = "ucast (drop_bit 8 port) :: u8" and ?lo = "ucast port :: u8"
  obtain y q where yq: "hex2 ?lo @ x # p = y # q" by (simp add: hex2_def)
  have "ReadHexBytes_loop (hex2 ?hi @ y # q) 2 2 True [] = ReadHexBytes_loop (y # q) 2 2 True [?hi]"
    using ReadHexBytes_loop_step [of "[]" 2 ?hi y q 2 True] by simp
  moreover have "ReadHexBytes_loop (hex2 ?lo @ x # p) 2 2 True [?hi] = ReadHexBytes_loop (x # p) 2 2 True [?lo, ?hi]"
    using ReadHexBytes_loop_step [of "[?hi]" 2 ?lo x p 2 True] by simp
  moreover have "ReadHexBytes_loop (x # p) 2 2 True [?lo, ?hi] = [?lo, ?hi]"
    by (cases p rule: list.exhaust; cases "tl p") auto
  ultimately show ?thesis by (simp add: ReadHexBytes_def yq)
qed

lemma port_of_mem_parts: "port_of_mem [ucast port, ucast (drop_bit 8 port)] = port"
  by (rule bit_word_eqI) (auto simp: port_of_mem_def bit_simps)

lemma length_hex2 [simp]: "length (hex2 b) = 2"
  by (simp add: hex2_def)

lemma ParseEndpoint_kernel:
  assumes "wf_Address a"
  shows "ParseEndpoint (kernel_endpoint a port @ x # p) (addr_family a) = Some (Endpoint_of_address a port, x # p)"
proof -
  let ?bs = "take (addr_length a) (addr_mem a)"
  let ?port = "hex2 (ucast (drop_bit 8 port)) @ hex2 (ucast port)"
  have len: "length ?bs = addr_length a" "addr_length a mod 4 = 0"
    using addr_length_le [of a] by (simp, cases "addr_family a", auto)
  have split: "kernel_endpoint a port @ x # p = kernel_addr ?bs @ CHR '':'' # ?port @ x # p"
    by (simp add: kernel_endpoint_def)
  have bytes: "ReadHexBytes (kernel_endpoint a port @ x # p) 4 (addr_length a div 4) True = ?bs"
    using ReadHexBytes_loop_addr [of ?bs "[]" "addr_length a" "CHR '':''" "?port @ x # p"] len
      mod_mult_div_eq [of "addr_length a" 4]
    by (simp add: ReadHexBytes_def split)
  have drop: "drop (2 * addr_length a) (kernel_endpoint a port @ x # p) = CHR '':'' # ?port @ x # p"
    using length_kernel_addr [of ?bs] len by (simp add: split)
  have drop4: "drop 4 (?port @ x # p) = x # p" by simp
  show ?thesis
    using bytes drop len(1) ReadHexBytes_port [of port x p] drop4
    by (simp add: ParseEndpoint_def needs_byteorder_swap_def Let_def port_of_mem_parts Address_bytes_of_mem [OF assms]
        flip: addr_length_def)
qed

text \<open>Fields and decimal numbers.\<close>

definition field :: "string \<Rightarrow> bool" where
  "field f \<longleftrightarrow> f \<noteq> [] \<and> list_all (\<lambda>c. c \<noteq> NUL \<and> \<not> isspace c) f"

lemma skip_spaces_run:
  "\<not> isspace c \<Longrightarrow> c \<noteq> NUL \<Longrightarrow> skip_spaces (replicate (Suc n) CHR '' '' @ c # p) = c # p"
  by (induction n) (auto simp: isspace_def)

lemma nextfield_run:
  assumes "list_all (\<lambda>c. c \<noteq> NUL \<and> \<not> isspace c) f" "field g"
  shows "nextfield (f @ replicate (Suc n) CHR '' '' @ g @ p) = Some (g @ p)"
proof -
  obtain c g' where g: "g = c # g'" "\<not> isspace c" "c \<noteq> NUL" using assms(2) by (cases g) (auto simp: field_def)
  have "dropWhile (\<lambda>c. c \<noteq> NUL \<and> \<not> isspace c) (f @ replicate (Suc n) CHR '' '' @ g @ p) =
      replicate (Suc n) CHR '' '' @ c # g' @ p"
    using assms(1) by (simp add: dropWhile_append2 list_all_iff g isspace_def)
  then show ?thesis using skip_spaces_run [OF g(2,3)] g by (simp only: nextfield_def Let_def) simp
qed

lemma nextfield_1:
  assumes "list_all (\<lambda>c. c \<noteq> NUL \<and> \<not> isspace c) f" "field g"
  shows "nextfield (f @ CHR '' '' # g @ p) = Some (g @ p)"
  using nextfield_run [OF assms, of 0 p] by simp

definition spaced :: "(nat \<times> string) list \<Rightarrow> string" where
  "spaced fs = concat (map (\<lambda>(n, f). replicate (Suc n) CHR '' '' @ f) fs)"

lemma rep_nextfield_run:
  assumes "list_all (\<lambda>c. c \<noteq> NUL \<and> \<not> isspace c) f0" "list_all (\<lambda>(n, f). field f) fs" "field g"
  shows "rep_nextfield (Suc (length fs)) (Some (f0 @ spaced fs @ replicate (Suc m) CHR '' '' @ g @ p)) = Some (g @ p)"
  using assms(1,2)
proof (induction fs arbitrary: f0)
  case Nil
  then show ?case using nextfield_run [OF Nil(1) assms(3), of m p] by (simp add: spaced_def)
next
  case (Cons a fs)
  obtain n f where a: "a = (n, f)" "field f" using Cons.prems by (cases a) auto
  let ?rest = "spaced fs @ replicate (Suc m) CHR '' '' @ g @ p"
  have "f0 @ spaced (a # fs) @ replicate (Suc m) CHR '' '' @ g @ p = f0 @ replicate (Suc n) CHR '' '' @ f @ ?rest"
    by (simp add: a spaced_def)
  moreover have "nextfield (f0 @ replicate (Suc n) CHR '' '' @ f @ ?rest) = Some (f @ ?rest)"
    by (rule nextfield_run [OF Cons.prems(1) a(2)])
  moreover have "rep_nextfield (Suc (length fs)) (Some (f @ ?rest)) = Some (g @ p)"
    using Cons.IH [of f] Cons.prems a by (simp add: field_def)
  ultimately show ?case by (simp only: length_Cons rep_nextfield.simps)
qed

lemma field_print_nat: "field (print_nat n)"
  using print_nat_digits [of n] by (auto simp: field_def list_all_iff dest: isdigit_not_space)

text \<open>
  A line of \<^verbatim>\<open>net/tcp\<close> or \<^verbatim>\<open>net/tcp6\<close>: the slot number, the two endpoints, the state, five more fields,
  each behind some spaces, the inode and whatever follows it on the line.
\<close>

definition kernel_line ::
  "nat \<Rightarrow> string \<Rightarrow> Address \<Rightarrow> u16 \<Rightarrow> Address \<Rightarrow> u16 \<Rightarrow> u8 \<Rightarrow> (nat \<times> string) list \<Rightarrow> nat \<Rightarrow> nat \<Rightarrow> string \<Rightarrow> string" where
  "kernel_line pad sl la lp ra rp st fs m ino trail =
     replicate pad CHR '' '' @ sl @ CHR '' '' # kernel_endpoint la lp @ CHR '' '' # kernel_endpoint ra rp @
     CHR '' '' # hex2 st @ spaced fs @ replicate (Suc m) CHR '' '' @ print_nat ino @ trail"

lemma line_buffer_fits: "length l < 512 \<Longrightarrow> line_buffer l = l @ [NUL] @ replicate (511 - length l) NUL"
  by (simp add: line_buffer_def Suc_diff_le flip: replicate_Suc)

lemma field_hex2: "field (hex2 b)"
  using unsigned_less [where ?'a = nat, of b] by (simp add: field_def hex2_def hex_digit_read(3,4))

lemma field_append: "field f \<Longrightarrow> list_all (\<lambda>c. c \<noteq> NUL \<and> \<not> isspace c) g \<Longrightarrow> field (f @ g)" "field f \<Longrightarrow> field g \<Longrightarrow> field (g @ f)"
  by (simp_all add: field_def)

lemma field_kernel_addr: "list_all (\<lambda>c. c \<noteq> NUL \<and> \<not> isspace c) (kernel_addr bs)"
proof (induction bs rule: kernel_addr.induct)
  case (1 a b c d bs)
  then show ?case using field_hex2 by (simp add: field_def)
qed simp_all

lemma field_kernel_endpoint: "field (kernel_endpoint a port)"
  using field_kernel_addr field_hex2 by (simp add: kernel_endpoint_def field_def isspace_def)

lemma dropWhile_spaces: "\<not> isspace c \<Longrightarrow> dropWhile isspace (replicate n CHR '' '' @ c # p) = c # p"
  by (induction n) (simp_all add: isspace_def)

lemma ParseConnLine_kernel:
  assumes "wf_Address la" "wf_Address ra" "addr_family la = f" "addr_family ra = f" "field sl"
    "length fs = 5" "list_all (\<lambda>(n, g). field g) fs" "ino < 2 ^ 64"
    "hd (trail @ [NUL]) = NUL \<or> isspace (hd (trail @ [NUL]))"
  shows "ParseConnLine (kernel_line pad sl la lp ra rp st fs m ino trail @ [NUL] @ buf) f =
    Some \<lparr>cl_local = Endpoint_of_address la lp, cl_remote = Endpoint_of_address ra rp, cl_state = st, cl_inode = of_nat ino\<rparr>"
proof -
  let ?tail = "trail @ [NUL] @ buf"
  let ?p6 = "print_nat ino @ ?tail"
  let ?p5' = "spaced fs @ replicate (Suc m) CHR '' '' @ ?p6"
  let ?p5 = "hex2 st @ ?p5'"
  let ?p4 = "CHR '' '' # ?p5"
  let ?p3 = "kernel_endpoint ra rp @ ?p4"
  let ?p2 = "CHR '' '' # ?p3"
  let ?p1 = "kernel_endpoint la lp @ ?p2"
  have start: "dropWhile isspace (kernel_line pad sl la lp ra rp st fs m ino trail @ [NUL] @ buf) = sl @ CHR '' '' # ?p1"
  proof -
    obtain c s where sl: "sl = c # s" "\<not> isspace c" using assms(5) by (cases sl) (auto simp: field_def)
    show ?thesis by (simp add: kernel_line_def sl dropWhile_spaces)
  qed
  have f1: "nextfield (sl @ CHR '' '' # ?p1) = Some ?p1"
    using assms(5) field_kernel_endpoint by (simp add: nextfield_1 field_def)
  have e1: "ParseEndpoint ?p1 f = Some (Endpoint_of_address la lp, ?p2)"
    using ParseEndpoint_kernel [OF assms(1)] assms(3) by simp
  have f2: "nextfield ?p2 = Some ?p3"
    using nextfield_1 [of "[]" "kernel_endpoint ra rp"] field_kernel_endpoint by simp
  have e2: "ParseEndpoint ?p3 f = Some (Endpoint_of_address ra rp, ?p4)"
    using ParseEndpoint_kernel [OF assms(2)] assms(4) by simp
  have f3: "nextfield ?p4 = Some ?p5"
    using nextfield_1 [of "[]" "hex2 st"] field_hex2 by simp
  obtain y q where yq: "?p5' = y # q" by (cases ?p5') auto
  have "ReadHexBytes_loop (y # q) 1 1 False [st] = [st]" by (cases q rule: list.exhaust; cases "tl q") auto
  then have st: "ReadHexBytes ?p5 1 1 False = [st]"
    using ReadHexBytes_loop_step [of "[]" 1 st y q 1 False] by (simp only: ReadHexBytes_def yq) simp
  have f4: "rep_nextfield 6 (Some (drop 2 ?p5)) = Some ?p6"
    using rep_nextfield_run [of "[]" fs "print_nat ino" m ?tail] assms(6,7) field_print_nat
    by (simp add: numeral_eq_Suc)
  have hd: "hd ?tail = NUL \<or> isspace (hd ?tail)" using assms(9) by (cases trail) auto
  then have "\<not> isdigit (hd ?tail)" using isdigit_not_space by blast
  then have ino: "strtoumax ?p6 = (of_nat ino, ?tail)" using strtoumax_print_nat [OF assms(8)] by simp
  show ?thesis
    using start f1 e1 f2 e2 f3 st f4 ino hd by (simp add: ParseConnLine_def Let_def)
qed

text \<open>
  (C14) The scraper understands the kernel: a line of \<^verbatim>\<open>net/tcp\<close> or \<^verbatim>\<open>net/tcp6\<close> printed for two addresses of
  the file's family, two ports, a state and an inode is parsed to exactly these, whatever the other
  columns and their padding are, provided that the line fits into the buffer.
\<close>

theorem ParseConnLine_roundtrip:
  assumes "wf_Address la" "wf_Address ra" "addr_family la = f" "addr_family ra = f" "field sl"
    "length fs = 5" "list_all (\<lambda>(n, g). field g) fs" "ino < 2 ^ 64"
    "hd (trail @ [NUL]) = NUL \<or> isspace (hd (trail @ [NUL]))"
    "length (kernel_line pad sl la lp ra rp st fs m ino trail) < 512"
  shows "ParseConnLine (line_buffer (kernel_line pad sl la lp ra rp st fs m ino trail)) f =
    Some \<lparr>cl_local = Endpoint_of_address la lp, cl_remote = Endpoint_of_address ra rp, cl_state = st, cl_inode = of_nat ino\<rparr>"
  unfolding line_buffer_fits [OF assms(10)] by (rule ParseConnLine_kernel [OF assms(1-9)])

theorem ParseConnLine_roundtrip_witness:
  "ParseConnLine (line_buffer (kernel_line 3 ''0:'' (Address_quad 127 0 0 1) 8080 (Address_quad 10 0 0 7) 51000 1
      [(0, ''00000000:00000000''), (0, ''00:00000000''), (0, ''00000000''), (4, ''0''), (7, ''0'')] 0 28437 '' 1 0'')) IPV4 =
    Some \<lparr>cl_local = Endpoint_of_address (Address_quad 127 0 0 1) 8080,
          cl_remote = Endpoint_of_address (Address_quad 10 0 0 7) 51000, cl_state = 1, cl_inode = 28437\<rparr>"
proof -
  have len: "length (kernel_line 3 ''0:'' (Address_quad 127 0 0 1) 8080 (Address_quad 10 0 0 7) 51000 1
      [(0, ''00000000:00000000''), (0, ''00:00000000''), (0, ''00000000''), (4, ''0''), (7, ''0'')] 0 28437 '' 1 0'') < 512"
    by (simp add: kernel_line_def kernel_endpoint_def length_kernel_addr spaced_def print_nat.simps)
  show ?thesis
    using ParseConnLine_roundtrip [OF _ _ _ _ _ _ _ _ _ len, of IPV4] by (simp add: field_def isspace_def)
qed

section \<open>A scrape of a consistent snapshot\<close>

definition has_socket :: "proc_dir \<Rightarrow> inode \<Rightarrow> bool" where
  "has_socket d i \<longleftrightarrow> (case pd_fds d of None \<Rightarrow> False | Some entries \<Rightarrow>
     list_ex (\<lambda>(name, link). name \<noteq> [] \<and> isdigit (hd name) \<and> ReadINode link ''socket'' = Some i) entries)"

text \<open>A live process of a container in a network namespace.\<close>

definition container_process :: "proc_dir \<Rightarrow> string \<Rightarrow> inode \<Rightarrow> bool" where
  "container_process d cid n \<longleftrightarrow> pd_name d \<noteq> [] \<and> isdigit (hd (pd_name d)) \<and> pd_open d \<and>
     ReadProcessState (pd_stat d) \<noteq> Some (CHR ''Z'') \<and> GetContainerID (pd_cgroup d) = Some cid \<and>
     GetNetworkNamespace (pd_netns d) = Some n"

text \<open>The files of the network namespaces do not depend on the process through which they are read.\<close>

definition consistent :: "(inode \<Rightarrow> string list option \<times> string list option) \<Rightarrow> proc_dir list \<Rightarrow> bool" where
  "consistent files dirs \<longleftrightarrow> list_all (\<lambda>d. case GetNetworkNamespace (pd_netns d) of
     None \<Rightarrow> True
   | Some n \<Rightarrow> pd_netns_again d = pd_netns d \<and> pd_net_tcp d = fst (files n) \<and> pd_net_tcp6 d = snd (files n)) dirs"

definition ns_data :: "bool \<Rightarrow> (inode \<Rightarrow> string list option \<times> string list option) \<Rightarrow> inode \<Rightarrow> NSNetworkData" where
  "ns_data want_listen files n =
     (case GetConnections (fst (files n)) (snd (files n)) want_listen of
        (_, connections, listen_endpoints) \<Rightarrow>
          \<lparr>ns_connections = connections, ns_listen_endpoints = listen_endpoints\<rparr>)"

abbreviation keys :: "('k \<times> 'v) list \<Rightarrow> 'k set" where
  "keys m \<equiv> fst ` set m"

lemma keys_emplace [simp]: "keys (fst (um_emplace (=) m k v)) = insert k (keys m)"
  using um_find_SomeD [of "(=)" m k] by (force simp: um_emplace_def split: option.split)

lemma GetSocketINodes_keys:
  assumes "GetSocketINodes (Some entries) pid socks = Some socks'"
  shows "keys socks' = keys socks \<union>
    {i. list_ex (\<lambda>(name, link). name \<noteq> [] \<and> isdigit (hd name) \<and> ReadINode link ''socket'' = Some i) entries}"
proof -
  have step: "keys (if name = [] \<or> \<not> isdigit (hd name) then m
      else case ReadINode link ''socket'' of None \<Rightarrow> m | Some i \<Rightarrow> fst (um_emplace (=) m i pid)) =
    keys m \<union> {i. name \<noteq> [] \<and> isdigit (hd name) \<and> ReadINode link ''socket'' = Some i}"
    for name link and m :: socket_set
    by (cases "ReadINode link ''socket''") auto
  have "socks' = fold (\<lambda>(name, link) socks. if name = [] \<or> \<not> isdigit (hd name) then socks
      else case ReadINode link ''socket'' of None \<Rightarrow> socks | Some i \<Rightarrow> fst (um_emplace (=) socks i pid)) entries socks"
    using assms by (simp add: GetSocketINodes_def)
  then show ?thesis
  proof (induction entries arbitrary: socks)
    case (Cons e entries)
    obtain name link where e: "e = (name, link)" by (cases e)
    show ?case using Cons.IH [OF Cons.prems [unfolded fold_simps e prod.case]]
      by (simp only: step e list_ex_Cons_iff prod.case) blast
  qed simp
qed

lemma sockets_of_set [simp]:
  "sockets_of (set_sockets S cid n socks) cid' n' = (if cid = cid' \<and> n = n' then socks else sockets_of S cid' n')"
  by (auto simp: sockets_of_def set_sockets_def val_key.find_assign split: option.splits)

definition tables_inv :: "sockets_by_container \<Rightarrow> bool" where
  "tables_inv S \<longleftrightarrow> um_inv (=) S \<and> (\<forall>cid by_ns. um_find (=) S cid = Some by_ns \<longrightarrow> um_inv (=) by_ns)"

lemma tables_inv_set [simp, intro]: "tables_inv S \<Longrightarrow> tables_inv (set_sockets S cid n socks)"
  by (auto simp: tables_inv_def set_sockets_def val_key.find_assign val_key.inv_assign split: option.splits if_splits)

text \<open>What the loop over the process directories maintains.\<close>

definition scan_inv ::
  "(inode \<Rightarrow> NSNetworkData) \<Rightarrow> proc_dir set \<Rightarrow> sockets_by_container \<times> conns_by_ns \<Rightarrow> bool" where
  "scan_inv data seen st \<longleftrightarrow> tables_inv (fst st) \<and>
     (\<forall>cid n. keys (sockets_of (fst st) cid n) = {i. \<exists>d \<in> seen. container_process d cid n \<and> has_socket d i}) \<and>
     (\<forall>n. um_find (=) (snd st) n =
        (if \<exists>cid. sockets_of (fst st) cid n \<noteq> [] then Some (data n) else None))"

lemma scan_inv_same_sockets:
  assumes "scan_inv data seen (S, C)" "\<And>cid n. sockets_of S' cid n = sockets_of S cid n" "tables_inv S'"
    "\<And>cid n i. container_process d cid n \<Longrightarrow> \<not> has_socket d i"
  shows "scan_inv data (insert d seen) (S', C)"
proof -
  have "{i. \<exists>e \<in> insert d seen. container_process e cid n \<and> has_socket e i} =
      {i. \<exists>e \<in> seen. container_process e cid n \<and> has_socket e i}" for cid n
    using assms(4) by blast
  then show ?thesis using assms(1,3) by (simp add: scan_inv_def assms(2))
qed

lemma scan_process_inv:
  assumes inv: "scan_inv (ns_data w files) seen st" and con: "consistent files [d]"
  shows "scan_inv (ns_data w files) (insert d seen) (scan_process w d st)"
proof -
  obtain S C where st: "st = (S, C)" by (cases st)
  show ?thesis
  proof (cases "\<exists>cid n. container_process d cid n")
    case False
    then have "scan_process w d st = st"
      by (auto simp: container_process_def scan_process_def st split: option.splits)
    moreover have "scan_inv (ns_data w files) (insert d seen) (S, C)"
      by (rule scan_inv_same_sockets) (use inv False in \<open>simp_all add: st scan_inv_def\<close>)
    ultimately show ?thesis by (simp add: st)
  next
    case True
    then obtain cid n where cp: "container_process d cid n" by blast
    have uniq: "container_process d cid' n' \<longleftrightarrow> cid' = cid \<and> n' = n" for cid' n'
      using cp by (auto simp: container_process_def)
    let ?before = "sockets_of S cid n"
    show ?thesis
    proof (cases "GetSocketINodes (pd_fds d) (strtoll (pd_name d)) ?before")
      case None
      then have "scan_process w d st = (set_sockets S cid n ?before, C)"
        using cp by (simp add: scan_process_def st container_process_def Let_def)
      moreover have "\<not> has_socket d i" for i
        using None by (auto simp: GetSocketINodes_def has_socket_def split: option.splits)
      moreover have "scan_inv (ns_data w files) (insert d seen) (set_sockets S cid n ?before, C)"
        by (rule scan_inv_same_sockets [of _ _ S]) (use inv calculation(2) in \<open>auto simp: st scan_inv_def\<close>)
      ultimately show ?thesis by simp
    next
      case (Some socks)
      let ?S' = "set_sockets S cid n socks"
      let ?C' = "if ?before = [] \<and> socks \<noteq> [] \<and> um_find (=) C n = None
        then fst (um_emplace (=) C n (ns_data w files n)) else C"
      have res: "scan_process w d st = (?S', ?C')"
        using cp con Some by (auto simp: scan_process_def st container_process_def Let_def consistent_def ns_data_def
            split: prod.split)
      have ks: "keys socks = keys ?before \<union> {i. has_socket d i}"
      proof (cases "pd_fds d")
        case (Some entries)
        then show ?thesis using GetSocketINodes_keys [of entries _ ?before socks] \<open>GetSocketINodes _ _ _ = _\<close>
          by (simp add: has_socket_def)
      qed (use Some in \<open>simp add: GetSocketINodes_def\<close>)
      have "tables_inv ?S'" using inv st by (auto simp: scan_inv_def)
      moreover have "keys (sockets_of ?S' cid' n') = {i. \<exists>e \<in> insert d seen. container_process e cid' n' \<and> has_socket e i}"
        for cid' n' using inv ks by (auto simp: scan_inv_def st uniq)
      moreover have "um_find (=) ?C' n' = (if \<exists>cid'. sockets_of ?S' cid' n' \<noteq> [] then Some (ns_data w files n') else None)" for n'
      proof -
        have C: "um_find (=) C n' = (if \<exists>cid'. sockets_of S cid' n' \<noteq> [] then Some (ns_data w files n') else None)" for n'
          using inv by (simp add: scan_inv_def st)
        have mono: "?before \<noteq> [] \<Longrightarrow> socks \<noteq> []" using ks by auto
        have ex: "(\<exists>cid'. sockets_of ?S' cid' n' \<noteq> []) \<longleftrightarrow> (\<exists>cid'. sockets_of S cid' n' \<noteq> []) \<or> (n = n' \<and> socks \<noteq> [])"
          unfolding sockets_of_set using mono by metis
        show ?thesis
          unfolding ex using mono C [of n'] C [of n] by (auto simp: val_key.find_emplace split: if_splits)
      qed
      ultimately show ?thesis unfolding res scan_inv_def fst_conv snd_conv by blast
    qed
  qed
qed

lemma scan_fold_inv:
  "scan_inv (ns_data w files) seen st \<Longrightarrow> consistent files dirs \<Longrightarrow>
   scan_inv (ns_data w files) (seen \<union> set dirs) (fold (scan_process w) dirs st)"
proof (induction dirs arbitrary: seen st)
  case (Cons d dirs)
  have "scan_inv (ns_data w files) (insert d seen) (scan_process w d st)"
    using scan_process_inv [OF Cons.prems(1)] Cons.prems(2) by (simp add: consistent_def)
  then show ?case using Cons.IH [of "insert d seen"] Cons.prems(2) by (simp add: consistent_def)
qed simp

lemma in_tables_iff:
  assumes "tables_inv S"
  shows "(\<exists>by_ns. (cid, by_ns) \<in> set S \<and> (n, socks) \<in> set by_ns) \<longleftrightarrow>
    (\<exists>by_ns. um_find (=) S cid = Some by_ns \<and> um_find (=) by_ns n = Some socks)"
  using assms val_key.find_in_set [of S cid] val_key.find_in_set [of _ n socks]
  unfolding tables_inv_def by (metis um_find_SomeD)

lemma in_sockets_of:
  assumes "tables_inv S"
  shows "(\<exists>by_ns socks. (cid, by_ns) \<in> set S \<and> (n, socks) \<in> set by_ns \<and> x \<in> set socks) \<longleftrightarrow> x \<in> set (sockets_of S cid n)"
proof -
  have "(\<exists>by_ns socks. (cid, by_ns) \<in> set S \<and> (n, socks) \<in> set by_ns \<and> x \<in> set socks) \<longleftrightarrow>
      (\<exists>socks. (\<exists>by_ns. (cid, by_ns) \<in> set S \<and> (n, socks) \<in> set by_ns) \<and> x \<in> set socks)" by blast
  also have "\<dots> \<longleftrightarrow> x \<in> set (sockets_of S cid n)"
    unfolding in_tables_iff [OF assms]
    by (cases "um_find (=) S cid"; cases "um_find (=) (the (um_find (=) S cid)) n") (auto simp: sockets_of_def)
  finally show ?thesis .
qed

lemma in_concat_pairs:
  "y \<in> set (concat (map (\<lambda>(a, b). f a b) xs)) \<longleftrightarrow> (\<exists>a b. (a, b) \<in> set xs \<and> y \<in> set (f a b))"
  by auto

lemma in_case_map:
  "y \<in> set (case m of None \<Rightarrow> [] | Some d \<Rightarrow> map (g d) xs) \<longleftrightarrow> (\<exists>d x. m = Some d \<and> x \<in> set xs \<and> y = g d x)"
  by (cases m) auto

lemma in_ResolveSocketInodes:
  assumes "tables_inv S"
  shows "c \<in> set (fst (ResolveSocketInodes S C store w)) \<longleftrightarrow>
    (\<exists>cid n x d. x \<in> set (sockets_of S cid n) \<and> um_find (=) C n = Some d \<and> c \<in> set (fst (resolve_socket store w cid d x)))"
proof -
  let ?rs = "concat (map (\<lambda>(cid, by_ns). concat (map (\<lambda>(n, socks). case um_find (=) C n of
      None \<Rightarrow> [] | Some d \<Rightarrow> map (resolve_socket store w cid d) socks) by_ns)) S)"
  have "y \<in> set ?rs \<longleftrightarrow> (\<exists>cid n x d. (\<exists>by_ns socks. (cid, by_ns) \<in> set S \<and> (n, socks) \<in> set by_ns \<and> x \<in> set socks) \<and>
      um_find (=) C n = Some d \<and> y = resolve_socket store w cid d x)" for y
    unfolding in_concat_pairs in_case_map by blast
  moreover have "c \<in> set (fst (ResolveSocketInodes S C store w)) \<longleftrightarrow> (\<exists>y. y \<in> set ?rs \<and> c \<in> set (fst y))"
    unfolding ResolveSocketInodes_def Let_def fst_conv set_concat set_map by (simp only: Union_iff image_iff) blast
  ultimately show ?thesis by (simp only: in_sockets_of [OF assms]) blast
qed

lemma in_resolve_socket:
  "c \<in> set (fst (resolve_socket store w cid d x)) \<longleftrightarrow>
    (\<exists>ci. um_find (=) (ns_connections d) (fst x) = Some ci \<and> IsRelevantConnection c \<and>
      c = mk_Connection cid (ci_local ci) (ci_remote ci) (ci_l4proto ci) (ci_is_server ci))"
  by (auto simp: resolve_socket_def Let_def split: option.splits)

text \<open>
  (C13) A scrape of a consistent snapshot of \<^verbatim>\<open>/proc\<close> reports exactly the right connections: a connection
  is reported if and only if it is not loopback traffic and there is a process directory of a live
  process of its container holding a socket whose inode is listed as a connection with these
  endpoints, protocol and role in the tables of the process's network namespace, although these are
  read once per namespace only.
\<close>

theorem scrape_exact:
  assumes "consistent files dirs" "ReadContainerConnections (Some dirs) store want_listen = Some (cs, eps)"
  shows "c \<in> set cs \<longleftrightarrow> IsRelevantConnection c \<and>
    (\<exists>d n i ci. d \<in> set dirs \<and> container_process d (conn_container c) n \<and> has_socket d i \<and>
      um_find (=) (ns_connections (ns_data want_listen files n)) i = Some ci \<and>
      c = mk_Connection (conn_container c) (ci_local ci) (ci_remote ci) (ci_l4proto ci) (ci_is_server ci))"
proof -
  obtain S C where SC: "fold (scan_process want_listen) dirs ([], []) = (S, C)" by fastforce
  have init: "scan_inv (ns_data want_listen files) {} ([], [])"
    by (simp add: scan_inv_def tables_inv_def sockets_of_def)
  have inv: "scan_inv (ns_data want_listen files) (set dirs) (S, C)"
    using scan_fold_inv [OF init assms(1)] SC by simp
  then have S: "tables_inv S"
    "\<And>cid n. keys (sockets_of S cid n) = {i. \<exists>d \<in> set dirs. container_process d cid n \<and> has_socket d i}"
    and C: "\<And>cid n. sockets_of S cid n \<noteq> [] \<Longrightarrow> um_find (=) C n = Some (ns_data want_listen files n)"
    by (auto simp: scan_inv_def)
  have cs: "cs = fst (ResolveSocketInodes S C store want_listen)"
    using assms(2) SC by (simp add: ReadContainerConnections_def)
  have "c \<in> set cs \<longleftrightarrow> (\<exists>cid n x. x \<in> set (sockets_of S cid n) \<and>
      c \<in> set (fst (resolve_socket store want_listen cid (ns_data want_listen files n) x)))"
    unfolding cs in_ResolveSocketInodes [OF S(1)] using C by (metis empty_iff list.set(1) option.inject)
  also have "\<dots> \<longleftrightarrow> (\<exists>n i. i \<in> keys (sockets_of S (conn_container c) n) \<and>
      c \<in> set (fst (resolve_socket store want_listen (conn_container c) (ns_data want_listen files n) (i, 0))))"
    by (fastforce simp: in_resolve_socket)
  finally show ?thesis unfolding S(2) by (auto simp: in_resolve_socket)
qed

definition example_line :: string where
  "example_line = kernel_line 3 ''0:'' (Address_quad 127 0 0 1) 80 (Address_quad 10 0 0 7) 51000 1
     [(0, ''0:0''), (0, ''0:0''), (0, ''0''), (4, ''0''), (7, ''0'')] 0 77 '' 1''"

definition example_dir :: proc_dir where
  "example_dir =
     \<lparr>pd_name = ''42'', pd_open = True, pd_stat = Some ''42 (nginx) S 1'',
      pd_cgroup = Some [''0::/kubepods/pod1/0123456789abcdef0123456789abcdef0123456789abcdef0123456789abcdef''],
      pd_netns = Some ''net:[9]'', pd_netns_again = Some ''net:[9]'',
      pd_fds = Some [(''.'', None), (''3'', Some ''socket:[77]'')],
      pd_net_tcp = Some [''header'', example_line], pd_net_tcp6 = Some [''header'']\<rparr>"

lemmas scan_eval = ReadINode_def strtoumax_def decimal_value_def digit_val_def isdigit_def isspace_def
  less_eq_char_def GetNetworkNamespace_def

lemma example_ParseConnLine:
  "ParseConnLine (line_buffer example_line) IPV4 =
    Some \<lparr>cl_local = Endpoint_of_address (Address_quad 127 0 0 1) 80,
          cl_remote = Endpoint_of_address (Address_quad 10 0 0 7) 51000, cl_state = 1, cl_inode = 77\<rparr>"
proof -
  have "length example_line < 512"
    by (simp add: example_line_def kernel_line_def kernel_endpoint_def length_kernel_addr spaced_def print_nat.simps)
  from line_buffer_fits [OF this] show ?thesis
    by (simp add: example_line_def ParseConnLine_kernel field_def isspace_def del: append.simps)
qed

theorem scrape_exact_witness:
  "\<exists>cs eps. ReadContainerConnections (Some [example_dir]) None True = Some (cs, eps) \<and>
    mk_Connection ''0123456789ab'' (Endpoint_of_address (Address_quad 127 0 0 1) 80)
      (Endpoint_of_address (Address_quad 10 0 0 7) 51000) TCP True \<in> set cs"
proof -
  let ?files = "\<lambda>n. (pd_net_tcp example_dir, pd_net_tcp6 example_dir)"
  let ?c = "mk_Connection ''0123456789ab'' (Endpoint_of_address (Address_quad 127 0 0 1) 80)
      (Endpoint_of_address (Address_quad 10 0 0 7) 51000) TCP True"
  obtain cs eps where run: "ReadContainerConnections (Some [example_dir]) None True = Some (cs, eps)"
    by (cases "ReadContainerConnections (Some [example_dir]) None True") (auto simp: ReadContainerConnections_def split: prod.splits)
  have con: "consistent ?files [example_dir]" by (simp add: consistent_def example_dir_def split: option.split)
  have "GetContainerID (pd_cgroup example_dir) = Some ''0123456789ab''" by code_simp
  moreover have "GetNetworkNamespace (pd_netns example_dir) = Some 9" by (simp add: scan_eval example_dir_def)
  moreover have "ReadProcessState (pd_stat example_dir) = Some (CHR ''S'')" by code_simp
  ultimately have cp: "container_process example_dir ''0123456789ab'' 9"
    by (simp add: container_process_def) (simp add: example_dir_def scan_eval)
  have sock: "has_socket example_dir 77" by (simp add: has_socket_def example_dir_def scan_eval)
  have ci: "um_find (=) (ns_connections (ns_data True ?files 9)) 77 =
    Some \<lparr>ci_local = Endpoint_of_address (Address_quad 127 0 0 1) 80,
          ci_remote = Endpoint_of_address (Address_quad 10 0 0 7) 51000, ci_l4proto = TCP, ci_is_server = True\<rparr>"
    by (simp add: ns_data_def example_dir_def GetConnections_def ReadConnectionsFromFile_def read_line_def
        example_ParseConnLine TCP_LISTEN_def TCP_ESTABLISHED_def um_assign_def LocalIsServer_def IsEphemeralPort_def
        Endpoint_of_address_def)
  have rel: "IsRelevantConnection ?c" by code_simp
  have "?c \<in> set cs" using scrape_exact [OF con run, of ?c] cp sock ci rel by fastforce
  then show ?thesis using run by blast
qed

section \<open>Command lines\<close>

lemma cmdline_step_arg:
  assumes "NUL \<notin> set a" "a \<noteq> []"
  shows "fold cmdline_step a s =
    s\<lparr>cs_arg_completed := False, cs_buf := cs_buf s @ (if cs_arg_completed s then '' '' else []) @ a\<rparr>"
  using assms(2,1)
proof (induction a arbitrary: s rule: rev_nonempty_induct)
  case (snoc c a)
  then have "c \<noteq> NUL" by auto
  then show ?case using snoc by (simp add: cmdline_step_def)
qed (auto simp: cmdline_step_def)

lemma cmdline_args:
  assumes "list_all (\<lambda>a. NUL \<notin> set a) args" "cs_did_exe s" "cs_arg_completed s"
  shows "fold cmdline_step (concat (map (\<lambda>a. a @ [NUL]) args)) s =
    s\<lparr>cs_buf := cs_buf s @ concat (map (\<lambda>a. CHR '' '' # a) (filter (\<lambda>a. a \<noteq> []) args))\<rparr>"
  using assms
proof (induction args arbitrary: s)
  case (Cons a args)
  have "fold cmdline_step (a @ [NUL]) s = s\<lparr>cs_buf := cs_buf s @ (if a = [] then [] else CHR '' '' # a)\<rparr>"
    using Cons.prems cmdline_step_arg [of a s] by (cases "a = []") (simp_all add: cmdline_step_def)
  then show ?case using Cons by simp
qed simp

text \<open>
  The command line is read back: from the NUL-terminated arguments in \<^verbatim>\<open>/proc/<pid>/cmdline\<close> the first
  becomes the executable and the others are joined by single spaces, where an empty argument other than
  the first of them leaves no trace.
\<close>

theorem ReadProcessCmdline_joins:
  assumes "list_all (\<lambda>a. NUL \<notin> set a) (argv0 # args)"
  shows "ReadProcessCmdline (Some (concat (map (\<lambda>a. a @ [NUL]) (argv0 # args)))) exe =
    Some (argv0, case args of [] \<Rightarrow> [] | a # rest \<Rightarrow>
      a @ concat (map (\<lambda>b. CHR '' '' # b) (filter (\<lambda>b. b \<noteq> []) rest)))"
proof -
  let ?s = "\<lparr>cs_did_exe = True, cs_arg_completed = False, cs_buf = [], cs_exe = argv0\<rparr>"
  have exe: "fold cmdline_step (argv0 @ [NUL]) \<lparr>cs_did_exe = False, cs_arg_completed = False, cs_buf = [], cs_exe = exe\<rparr> = ?s"
    using assms cmdline_step_arg [of argv0] by (cases "argv0 = []") (simp_all add: cmdline_step_def)
  show ?thesis
  proof (cases args)
    case Nil
    then show ?thesis using exe by (simp add: ReadProcessCmdline_def)
  next
    case (Cons a rest)
    have "fold cmdline_step (a @ [NUL]) ?s = ?s\<lparr>cs_arg_completed := True, cs_buf := a\<rparr>"
      using assms Cons cmdline_step_arg [of a ?s] by (cases "a = []") (simp_all add: cmdline_step_def)
    then show ?thesis
      using exe assms Cons cmdline_args [of rest "?s\<lparr>cs_arg_completed := True, cs_buf := a\<rparr>"]
      by (simp add: ReadProcessCmdline_def Let_def)
  qed
qed

theorem ReadProcessCmdline_joins_witness:
  "ReadProcessCmdline (Some (concat (map (\<lambda>a. a @ [NUL]) [''sh'', ''-c'', [], ''ls'']))) [] = Some (''sh'', ''-c ls'')"
  using ReadProcessCmdline_joins [of "''sh''" "[''-c'', [], ''ls'']" "[]"] by simp

end
