(* ===== verification/Config_Yaml.thy ===== *)
theory Config_Yaml
  imports Str_Util
begin

text \<open>
  The configuration parser \<^verbatim>\<open>ParserYaml\<close> of \<^verbatim>\<open>ConfigLoader.cpp\<close>, which fills a protobuf message from a YAML document by
  reflection, and the loading of the runtime configuration. A document is a tree whose mappings have
  scalar keys; a message descriptor is a finite tree of fields; a message maps the names of the fields that
  are set to their values. The conversions of the YAML library are arguments. A failure is an exception the
  parser does not catch or a call the reflection interface refuses, which ends the program.
\<close>

section \<open>Documents, descriptors and messages\<close>

datatype ynode = YNull | YScalar string | YSeq "ynode list" | YMap "(string \<times> ynode) list"

datatype ctype = C_double | C_float | C_int64 | C_uint64 | C_uint32 | C_int32 | C_bool | C_string

datatype cpptype =
    CPPTYPE_INT32 | CPPTYPE_INT64 | CPPTYPE_UINT32 | CPPTYPE_UINT64 | CPPTYPE_DOUBLE | CPPTYPE_FLOAT | CPPTYPE_BOOL
  | CPPTYPE_ENUM | CPPTYPE_STRING | CPPTYPE_MESSAGE

datatype ftype =
    TYPE_DOUBLE | TYPE_FLOAT | TYPE_INT64 | TYPE_UINT64 | TYPE_INT32 | TYPE_FIXED64 | TYPE_FIXED32 | TYPE_BOOL | TYPE_STRING
  | TYPE_GROUP | TYPE_MESSAGE "field list" | TYPE_BYTES | TYPE_UINT32 | TYPE_ENUM "(string \<times> int) list"
  | TYPE_SFIXED32 | TYPE_SFIXED64 | TYPE_SINT32 | TYPE_SINT64
and field = Field (f_name: string) (f_repeated: bool) (f_type: ftype)

datatype 'v pval =
    PVal 'v | PEnum int | PList "'v list" | PEnums "int list" | PMsg "string \<Rightarrow> 'v pval option"

type_synonym 'v message = "string \<Rightarrow> 'v pval option"

datatype failure = YAML_exception | Reflection_usage

datatype ValidationMode = STRICT | PERMISSIVE | UNKNOWN_FIELDS_ONLY

record ParserYaml =
  py_file :: string
  py_read_camelcase :: bool
  py_validation_mode :: ValidationMode

text \<open>
  The libraries: the conversions \<^verbatim>\<open>node.as<T>()\<close> with the text of the exception they may throw, the value of a 64-bit
  integer, and \<^verbatim>\<open>cpp_type\<close> and \<^verbatim>\<open>type_name\<close> of a field.
\<close>

record 'v yaml_lib =
  yl_as :: "ctype \<Rightarrow> ynode \<Rightarrow> string + 'v"
  yl_as_string :: "ynode \<Rightarrow> string + string"
  yl_int64 :: "int \<Rightarrow> 'v"
  yl_cpp_type :: "ftype \<Rightarrow> cpptype"
  yl_type_name :: "ftype \<Rightarrow> string"

text \<open>
  The table of the protobuf documentation that says with which accessors a field of each type is used; the
  properties take it as a hypothesis on the library.
\<close>

fun documented_cpp_type :: "ftype \<Rightarrow> cpptype" where
  "documented_cpp_type TYPE_DOUBLE = CPPTYPE_DOUBLE"
| "documented_cpp_type TYPE_FLOAT = CPPTYPE_FLOAT"
| "documented_cpp_type TYPE_INT64 = CPPTYPE_INT64"
| "documented_cpp_type TYPE_UINT64 = CPPTYPE_UINT64"
| "documented_cpp_type TYPE_INT32 = CPPTYPE_INT32"
| "documented_cpp_type TYPE_FIXED64 = CPPTYPE_UINT64"
| "documented_cpp_type TYPE_FIXED32 = CPPTYPE_UINT32"
| "documented_cpp_type TYPE_BOOL = CPPTYPE_BOOL"
| "documented_cpp_type TYPE_STRING = CPPTYPE_STRING"
| "documented_cpp_type TYPE_GROUP = CPPTYPE_MESSAGE"
| "documented_cpp_type (TYPE_MESSAGE fs) = CPPTYPE_MESSAGE"
| "documented_cpp_type TYPE_BYTES = CPPTYPE_STRING"
| "documented_cpp_type TYPE_UINT32 = CPPTYPE_UINT32"
| "documented_cpp_type (TYPE_ENUM vs) = CPPTYPE_ENUM"
| "documented_cpp_type TYPE_SFIXED32 = CPPTYPE_INT32"
| "documented_cpp_type TYPE_SFIXED64 = CPPTYPE_INT64"
| "documented_cpp_type TYPE_SINT32 = CPPTYPE_INT32"
| "documented_cpp_type TYPE_SINT64 = CPPTYPE_INT64"

fun accessor_type :: "ctype \<Rightarrow> cpptype" where
  "accessor_type C_double = CPPTYPE_DOUBLE"
| "accessor_type C_float = CPPTYPE_FLOAT"
| "accessor_type C_int64 = CPPTYPE_INT64"
| "accessor_type C_uint64 = CPPTYPE_UINT64"
| "accessor_type C_uint32 = CPPTYPE_UINT32"
| "accessor_type C_int32 = CPPTYPE_INT32"
| "accessor_type C_bool = CPPTYPE_BOOL"
| "accessor_type C_string = CPPTYPE_STRING"

section \<open>Names and messages of errors\<close>

definition quote_char :: string where
  "quote_char = [CHR 0x27]"

fun NodeTypeToString :: "ynode option \<Rightarrow> string" where
  "NodeTypeToString (Some YNull) = ''Null''"
| "NodeTypeToString None = ''Undefined''"
| "NodeTypeToString (Some (YScalar s)) = ''Scalar''"
| "NodeTypeToString (Some (YSeq ns)) = ''Sequence''"
| "NodeTypeToString (Some (YMap kvs)) = ''Map''"

definition ConcatPath :: "string \<Rightarrow> string \<Rightarrow> string" where
  "ConcatPath path name = (if path \<noteq> [] then path @ ''.'' else path) @ name"

definition WrapError :: "ParserYaml \<Rightarrow> string \<Rightarrow> string" where
  "WrapError p what = py_file p @ '': '' @ what"

fun snake_to_camel_loop :: "bool \<Rightarrow> string \<Rightarrow> string" where
  "snake_to_camel_loop capitalize [] = []"
| "snake_to_camel_loop capitalize (c # s) =
     (if c = CHR ''_'' then snake_to_camel_loop True s
      else (if capitalize then toupper c else c) # snake_to_camel_loop False s)"

definition SnakeCaseToCamel :: "string \<Rightarrow> string" where
  "SnakeCaseToCamel s = snake_to_camel_loop False s"

fun camel_to_snake_loop :: "bool \<Rightarrow> string \<Rightarrow> string" where
  "camel_to_snake_loop first [] = []"
| "camel_to_snake_loop first (c # s) =
     (if \<not> first \<and> isupper c then ''_'' else []) @ [tolower c] @ camel_to_snake_loop False s"

definition CamelCaseToSnake :: "string \<Rightarrow> string" where
  "CamelCaseToSnake s = camel_to_snake_loop True s"

text \<open>The key a field is read from, and \<^verbatim>\<open>node[key]\<close>, which is undefined in a sequence.\<close>

definition yaml_name :: "ParserYaml \<Rightarrow> string \<Rightarrow> string" where
  "yaml_name p name = (if py_read_camelcase p then SnakeCaseToCamel name else name)"

fun node_at :: "ynode \<Rightarrow> string \<Rightarrow> ynode option" where
  "node_at (YMap kvs) key = map_of kvs key"
| "node_at n key = None"

section \<open>Parsing values\<close>

definition TryConvert :: "ParserYaml \<Rightarrow> (ynode \<Rightarrow> string + 'a) \<Rightarrow> ynode \<Rightarrow> string + 'a" where
  "TryConvert p as n = (case as n of Inl what \<Rightarrow> Inl (WrapError p what) | Inr v \<Rightarrow> Inr v)"

fun convert_elements :: "(ynode \<Rightarrow> string + 'a) \<Rightarrow> ynode list \<Rightarrow> string list \<times> 'a list" where
  "convert_elements f [] = ([], [])"
| "convert_elements f (n # ns) =
     (case convert_elements f ns of (errors, vs) \<Rightarrow>
        (case f n of Inr v \<Rightarrow> (errors, v # vs) | Inl e \<Rightarrow> (e # errors, vs)))"

definition ParseArrayInner ::
  "'v yaml_lib \<Rightarrow> ParserYaml \<Rightarrow> ctype \<Rightarrow> ynode list \<Rightarrow> string \<Rightarrow> 'v message \<Rightarrow> string list \<times> 'v message" where
  "ParseArrayInner lib p t ns name msg =
     (case convert_elements (TryConvert p (yl_as lib t)) ns of (errors, vs) \<Rightarrow> (errors, msg(name \<mapsto> PList vs)))"

definition enum_element :: "'v yaml_lib \<Rightarrow> ParserYaml \<Rightarrow> (string \<times> int) list \<Rightarrow> string \<Rightarrow> ynode \<Rightarrow> string + int" where
  "enum_element lib p enum name n =
     (case TryConvert p (yl_as_string lib) n of
        Inl e \<Rightarrow> Inl e
      | Inr v \<Rightarrow>
          (let enum_name = map toupper v
           in case map_of enum enum_name of
                None \<Rightarrow> Inl (py_file p @ '': Invalid enum value '' @ quote_char @ enum_name @ quote_char @ '' for field '' @
                            (if py_read_camelcase p then SnakeCaseToCamel name else name))
              | Some number \<Rightarrow> Inr number))"

definition ParseArrayEnum ::
  "'v yaml_lib \<Rightarrow> ParserYaml \<Rightarrow> (string \<times> int) list \<Rightarrow> ynode list \<Rightarrow> string \<Rightarrow> 'v message \<Rightarrow> string list \<times> 'v message" where
  "ParseArrayEnum lib p enum ns name msg =
     (case convert_elements (enum_element lib p enum name) ns of (errors, vs) \<Rightarrow> (errors, msg(name \<mapsto> PEnums vs)))"

fun ParseArray ::
  "'v yaml_lib \<Rightarrow> ParserYaml \<Rightarrow> ynode list \<Rightarrow> string \<Rightarrow> ftype \<Rightarrow> 'v message \<Rightarrow> string list \<times> 'v message" where
  "ParseArray lib p ns name ty msg =
     (case yl_cpp_type lib ty of
        CPPTYPE_INT32 \<Rightarrow> ParseArrayInner lib p C_int32 ns name msg
      | CPPTYPE_UINT32 \<Rightarrow> ParseArrayInner lib p C_uint32 ns name msg
      | CPPTYPE_INT64 \<Rightarrow> ParseArrayInner lib p C_int64 ns name msg
      | CPPTYPE_UINT64 \<Rightarrow> ParseArrayInner lib p C_uint64 ns name msg
      | CPPTYPE_DOUBLE \<Rightarrow> ParseArrayInner lib p C_double ns name msg
      | CPPTYPE_FLOAT \<Rightarrow> ParseArrayInner lib p C_float ns name msg
      | CPPTYPE_BOOL \<Rightarrow> ParseArrayInner lib p C_bool ns name msg
      | CPPTYPE_ENUM \<Rightarrow> (case ty of TYPE_ENUM enum \<Rightarrow> ParseArrayEnum lib p enum ns name msg | _ \<Rightarrow> ([], msg))
      | CPPTYPE_STRING \<Rightarrow> ParseArrayInner lib p C_string ns name msg
      | CPPTYPE_MESSAGE \<Rightarrow> ([''Unsupport repeated type MESSAGE''], msg))"

text \<open>The C++ type each scalar is converted to; the matching setter refuses a field of another type.\<close>

fun scalar_ctype :: "ftype \<Rightarrow> ctype option" where
  "scalar_ctype TYPE_DOUBLE = Some C_double"
| "scalar_ctype TYPE_FLOAT = Some C_float"
| "scalar_ctype TYPE_SFIXED64 = Some C_int64"
| "scalar_ctype TYPE_INT64 = Some C_int64"
| "scalar_ctype TYPE_SINT64 = Some C_uint64"
| "scalar_ctype TYPE_FIXED64 = Some C_uint64"
| "scalar_ctype TYPE_UINT64 = Some C_uint64"
| "scalar_ctype TYPE_FIXED32 = Some C_uint32"
| "scalar_ctype TYPE_UINT32 = Some C_uint32"
| "scalar_ctype TYPE_SINT32 = Some C_int32"
| "scalar_ctype TYPE_SFIXED32 = Some C_int32"
| "scalar_ctype TYPE_INT32 = Some C_int32"
| "scalar_ctype TYPE_BOOL = Some C_bool"
| "scalar_ctype TYPE_STRING = Some C_string"
| "scalar_ctype ty = None"

definition set_scalar :: "'v yaml_lib \<Rightarrow> ctype \<Rightarrow> ftype \<Rightarrow> string \<Rightarrow> 'v \<Rightarrow> 'v message \<Rightarrow> failure + 'v message" where
  "set_scalar lib t ty name v msg =
     (if yl_cpp_type lib ty \<noteq> accessor_type t then Inl Reflection_usage else Inr (msg(name \<mapsto> PVal v)))"

definition ParseScalar ::
  "'v yaml_lib \<Rightarrow> ParserYaml \<Rightarrow> ynode \<Rightarrow> string \<Rightarrow> ftype \<Rightarrow> string \<Rightarrow> 'v message \<Rightarrow> failure + string list \<times> 'v message" where
  "ParseScalar lib p n name ty key msg =
     (case scalar_ctype ty of
        Some t \<Rightarrow>
          (case TryConvert p (yl_as lib t) n of
             Inl e \<Rightarrow> Inr ([e], msg)
           | Inr v \<Rightarrow> (case set_scalar lib t ty name v msg of Inl f \<Rightarrow> Inl f | Inr m \<Rightarrow> Inr ([], m)))
      | None \<Rightarrow>
          (case ty of
             TYPE_BYTES \<Rightarrow> Inr ([''Unexpected type BYTES''], msg)
           | TYPE_ENUM enum \<Rightarrow>
               (case yl_as_string lib n of
                  Inl what \<Rightarrow> Inl YAML_exception
                | Inr v \<Rightarrow>
                    (let enum_name = map toupper v
                     in case map_of enum enum_name of
                          None \<Rightarrow> Inr ([py_file p @ '': Invalid enum value '' @ quote_char @ enum_name @ quote_char @
                                       '' for field '' @ key], msg)
                        | Some number \<Rightarrow> Inr ([], msg(name \<mapsto> PEnum number))))
           | _ \<Rightarrow> Inr ([''Unexpected type: '' @ yl_type_name lib ty], msg)))"

section \<open>Parsing messages\<close>

definition sub_message :: "'v message \<Rightarrow> string \<Rightarrow> 'v message" where
  "sub_message msg name = (case msg name of Some (PMsg m) \<Rightarrow> m | _ \<Rightarrow> Map.empty)"

definition type_mismatch :: "ParserYaml \<Rightarrow> string \<Rightarrow> string \<Rightarrow> ynode \<Rightarrow> string" where
  "type_mismatch p key expected n =
     py_file p @ '': Type mismatch for '' @ quote_char @ key @ quote_char @ '' - expected '' @ expected @ '', got '' @
     NodeTypeToString (Some n)"

definition is_message :: "ftype \<Rightarrow> bool" where
  "is_message ty \<longleftrightarrow> (case ty of TYPE_MESSAGE fs \<Rightarrow> True | _ \<Rightarrow> False)"

fun parse_field ::
  "'v yaml_lib \<Rightarrow> ParserYaml \<Rightarrow> ynode \<Rightarrow> field \<Rightarrow> string \<Rightarrow> 'v message \<Rightarrow> failure + string list \<times> 'v message"
and parse_fields ::
  "'v yaml_lib \<Rightarrow> ParserYaml \<Rightarrow> ynode \<Rightarrow> field list \<Rightarrow> string \<Rightarrow> 'v message \<Rightarrow> failure + string list \<times> 'v message"
where
  "parse_field lib p node (Field name repeated ty) path msg =
     (let key = yaml_name p name
      in case node_at node key of
           None \<Rightarrow>
             if py_validation_mode p = STRICT
             then Inr ([py_file p @ '': Missing field '' @ quote_char @ ConcatPath path key @ quote_char], msg)
             else Inr ([], msg)
         | Some n \<Rightarrow>
             if repeated then
               (case n of
                  YSeq ns \<Rightarrow> Inr (ParseArray lib p ns name ty msg)
                | _ \<Rightarrow> Inr ([type_mismatch p key ''Sequence'' n], msg))
             else
               (case ty of
                  TYPE_MESSAGE fs \<Rightarrow>
                    (case n of
                       YNull \<Rightarrow> Inr ([], msg)
                     | YMap kvs \<Rightarrow>
                         (case parse_fields lib p n fs (ConcatPath path key) (sub_message msg name) of
                            Inl f \<Rightarrow> Inl f
                          | Inr (errors, m) \<Rightarrow> Inr (errors, msg(name \<mapsto> PMsg m)))
                     | _ \<Rightarrow> Inr ([type_mismatch p key ''Map'' n], msg))
                | _ \<Rightarrow>
                    (case n of
                       YScalar s \<Rightarrow> ParseScalar lib p n name ty key msg
                     | _ \<Rightarrow> Inr ([py_file p @ '': Attempting to parse non-scalar field as scalar''], msg))))"
| "parse_fields lib p node [] path msg = Inr ([], msg)"
| "parse_fields lib p node (f # fs) path msg =
     (case parse_field lib p node f path msg of
        Inl e \<Rightarrow> Inl e
      | Inr (e1, m1) \<Rightarrow>
          (case parse_fields lib p node fs path m1 of
             Inl e \<Rightarrow> Inl e
           | Inr (e2, m2) \<Rightarrow> Inr (e1 @ e2, m2)))"

text \<open>Unknown fields: the entries of a node one after the other, and the maps below them.\<close>

definition find_field :: "field list \<Rightarrow> string \<Rightarrow> field option" where
  "find_field fs name = find (\<lambda>f. f_name f = name) fs"

definition known_name :: "ParserYaml \<Rightarrow> string \<Rightarrow> string" where
  "known_name p key = (if py_read_camelcase p then CamelCaseToSnake key else key)"

definition unknown_error :: "ParserYaml \<Rightarrow> string \<Rightarrow> string" where
  "unknown_error p name = py_file p @ '': Unknown field '' @ quote_char @ name @ quote_char"

definition not_a_message :: "'v yaml_lib \<Rightarrow> ParserYaml \<Rightarrow> string \<Rightarrow> ftype \<Rightarrow> string" where
  "not_a_message lib p key ty =
     py_file p @ '': Invalid type '' @ quote_char @ NodeTypeToString (Some (YMap [])) @ quote_char @ '' for field '' @ key @
     '', expected '' @ quote_char @ yl_type_name lib ty @ quote_char"

fun FindUnknownFields :: "'v yaml_lib \<Rightarrow> ParserYaml \<Rightarrow> field list \<Rightarrow> (string \<times> ynode) list \<Rightarrow> failure + string list" where
  "FindUnknownFields lib p fs [] = Inr []"
| "FindUnknownFields lib p fs ((key, n) # kvs) =
     (case (case find_field fs (known_name p key) of
              None \<Rightarrow> Inr [unknown_error p (known_name p key)]
            | Some f \<Rightarrow>
                (case n of
                   YMap sub \<Rightarrow>
                     (case f_type f of
                        TYPE_MESSAGE fs' \<Rightarrow> if f_repeated f then Inl Reflection_usage else FindUnknownFields lib p fs' sub
                      | ty \<Rightarrow> Inr [not_a_message lib p key ty])
                 | _ \<Rightarrow> Inr [])) of
        Inl e \<Rightarrow> Inl e
      | Inr e1 \<Rightarrow> (case FindUnknownFields lib p fs kvs of Inl e \<Rightarrow> Inl e | Inr e2 \<Rightarrow> Inr (e1 @ e2)))"

definition FindUnknownFields_node :: "'v yaml_lib \<Rightarrow> ParserYaml \<Rightarrow> field list \<Rightarrow> ynode \<Rightarrow> failure + string list" where
  "FindUnknownFields_node lib p fs node =
     (case node of
        YMap kvs \<Rightarrow> FindUnknownFields lib p fs kvs
      | YSeq (n # ns) \<Rightarrow> Inl YAML_exception
      | _ \<Rightarrow> Inr [])"

definition Parse ::
  "'v yaml_lib \<Rightarrow> ParserYaml \<Rightarrow> field list \<Rightarrow> ynode \<Rightarrow> 'v message \<Rightarrow> failure + string list \<times> 'v message" where
  "Parse lib p fs node msg =
     (case node of
        YScalar s \<Rightarrow> Inr ([''Invalid configuration''], msg)
      | YNull \<Rightarrow> Inr ([''Invalid configuration''], msg)
      | _ \<Rightarrow>
          (case parse_fields lib p node fs [] msg of
             Inl f \<Rightarrow> Inl f
           | Inr (errors, m) \<Rightarrow>
               if py_validation_mode p \<noteq> PERMISSIVE then
                 (case FindUnknownFields_node lib p fs node of Inl f \<Rightarrow> Inl f | Inr unknown \<Rightarrow> Inr (errors @ unknown, m))
               else Inr (errors, m)))"

text \<open>What \<^verbatim>\<open>YAML::LoadFile\<close> returns is an argument: the text of its exception or the document.\<close>

definition Parse_file ::
  "'v yaml_lib \<Rightarrow> ParserYaml \<Rightarrow> field list \<Rightarrow> string + ynode \<Rightarrow> 'v message \<Rightarrow> failure + string list \<times> 'v message" where
  "Parse_file lib p fs loaded msg =
     (case loaded of Inl what \<Rightarrow> Inr ([WrapError p what], msg) | Inr node \<Rightarrow> Parse lib p fs node msg)"

section \<open>The runtime configuration\<close>

datatype LoadResult = SUCCESS | PARSE_ERROR | FILE_NOT_FOUND

definition NewRuntimeConfig :: "'v yaml_lib \<Rightarrow> 'v message" where
  "NewRuntimeConfig lib =
     [''networking'' \<mapsto> PMsg [''max_connections_per_minute'' \<mapsto> PVal (yl_int64 lib 2048)]]"

text \<open>\<open>file\<close> is \<open>None\<close> when the configuration file does not exist.\<close>

definition LoadConfiguration ::
  "'v yaml_lib \<Rightarrow> ParserYaml \<Rightarrow> field list \<Rightarrow> ynode option \<Rightarrow> (string + ynode) option \<Rightarrow> 'v message option \<Rightarrow>
   failure + LoadResult \<times> 'v message option" where
  "LoadConfiguration lib p fs node file config =
     (let parsed = (case node of
                      None \<Rightarrow> map_option (\<lambda>loaded. Parse_file lib p fs loaded (NewRuntimeConfig lib)) file
                    | Some n \<Rightarrow> Some (Parse lib p fs n (NewRuntimeConfig lib)))
      in case parsed of
           None \<Rightarrow> Inr (FILE_NOT_FOUND, config)
         | Some (Inl f) \<Rightarrow> Inl f
         | Some (Inr (errors, m)) \<Rightarrow> if errors \<noteq> [] then Inr (PARSE_ERROR, config) else Inr (SUCCESS, Some m))"

section \<open>Names\<close>

text \<open>The names protobuf recommends: lower case, every underscore before a letter.\<close>

fun snake_rest :: "string \<Rightarrow> bool" where
  "snake_rest [] = True"
| "snake_rest [c] = (c \<noteq> CHR ''_'' \<and> \<not> isupper c)"
| "snake_rest (c # d # s) =
     (if c = CHR ''_'' then islower d \<and> snake_rest s else \<not> isupper c \<and> snake_rest (d # s))"

definition snake_name :: "string \<Rightarrow> bool" where
  "snake_name s \<longleftrightarrow> (case s of [] \<Rightarrow> True | c # t \<Rightarrow> c \<noteq> CHR ''_'' \<and> snake_rest s)"

lemma islower_iff: "islower c \<longleftrightarrow> 97 \<le> (of_char c :: nat) \<and> (of_char c :: nat) \<le> 122"
  and isupper_iff: "isupper c \<longleftrightarrow> 65 \<le> (of_char c :: nat) \<and> (of_char c :: nat) \<le> 90"
  by (simp_all add: islower_def isupper_def less_eq_char_def)

lemma of_char_toupper: "islower c \<Longrightarrow> of_char (toupper c) = (of_char c - 32 :: nat)"
  by (auto simp: toupper_def islower_iff)

lemma toupper_islower:
  assumes "islower c"
  shows "isupper (toupper c)" "tolower (toupper c) = c"
proof -
  show up: "isupper (toupper c)" using assms by (auto simp: isupper_iff of_char_toupper islower_iff)
  have "of_char c - 32 + 32 = (of_char c :: nat)" using assms by (simp add: islower_iff)
  then show "tolower (toupper c) = c" using up of_char_toupper [OF assms] by (simp add: tolower_def)
qed

lemma underscore_not_lower [simp]: "\<not> islower (CHR ''_'')" "\<not> isupper (CHR ''_'')" "tolower (CHR ''_'') = CHR ''_''"
  by (simp_all add: islower_iff isupper_iff tolower_def)

lemma tolower_id: "\<not> isupper c \<Longrightarrow> tolower c = c"
  by (simp add: tolower_def)

lemma camel_snake_rest:
  "snake_rest s \<Longrightarrow> camel_to_snake_loop False (snake_to_camel_loop False s) = s"
proof (induction s rule: snake_rest.induct)
  case (3 c d s)
  show ?case
  proof (cases "c = CHR ''_''")
    case True
    then have "islower d" "d \<noteq> CHR ''_''" using 3 by auto
    then show ?thesis using 3 True toupper_islower [of d] by simp
  qed (use 3 in \<open>simp add: tolower_id\<close>)
qed (auto simp: tolower_id)

lemma snake_rest_tl: "snake_rest (c # t) \<Longrightarrow> c \<noteq> CHR ''_'' \<Longrightarrow> \<not> isupper c \<and> snake_rest t"
  by (cases t) auto

lemma CamelCaseToSnake_SnakeCaseToCamel: "snake_name s \<Longrightarrow> CamelCaseToSnake (SnakeCaseToCamel s) = s"
  by (cases s) (auto simp: snake_name_def CamelCaseToSnake_def SnakeCaseToCamel_def camel_snake_rest tolower_id dest: snake_rest_tl)

lemma known_name_yaml_name: "snake_name s \<Longrightarrow> known_name p (yaml_name p s) = s"
  by (simp add: known_name_def yaml_name_def CamelCaseToSnake_SnakeCaseToCamel)

lemma yaml_name_eq: "snake_name s \<Longrightarrow> snake_name t \<Longrightarrow> yaml_name p s = yaml_name p t \<longleftrightarrow> s = t"
  using known_name_yaml_name by metis

section \<open>Locality of parsing\<close>

lemma ParseArray_frame: "ParseArray lib p ns name ty msg = (e, m) \<Longrightarrow> x \<noteq> name \<Longrightarrow> m x = msg x"
  by (auto simp: ParseArrayInner_def ParseArrayEnum_def split: cpptype.splits prod.splits ftype.splits)

lemma ParseScalar_frame: "ParseScalar lib p n name ty key msg = Inr (e, m) \<Longrightarrow> x \<noteq> name \<Longrightarrow> m x = msg x"
  by (auto simp: ParseScalar_def set_scalar_def Let_def
      split: option.splits sum.splits if_splits ftype.splits)

lemma parse_field_scalar:
  assumes "node_at node (yaml_name p name) = Some n" "\<not> is_message ty"
  shows "parse_field lib p node (Field name False ty) path msg =
    (case n of
       YScalar s \<Rightarrow> ParseScalar lib p n name ty (yaml_name p name) msg
     | _ \<Rightarrow> Inr ([py_file p @ '': Attempting to parse non-scalar field as scalar''], msg))"
  using assms by (cases ty; cases n) (simp_all add: Let_def is_message_def)

lemma parse_field_frame:
  "parse_field lib p node f path msg = Inr (e, m) \<Longrightarrow> x \<noteq> f_name f \<Longrightarrow> m x = msg x"
  by (cases f) (auto simp: Let_def simp del: ParseArray.simps dest!: ParseArray_frame ParseScalar_frame
      split: option.splits if_splits ynode.splits ftype.splits sum.splits prod.splits)

lemma parse_fields_ConsE:
  assumes "parse_fields lib p node (f # fs) path msg = Inr (e, m)"
  obtains e1 m1 e2 where "parse_field lib p node f path msg = Inr (e1, m1)"
    "parse_fields lib p node fs path m1 = Inr (e2, m)" "e = e1 @ e2"
  using assms by (auto split: sum.splits prod.splits)

lemma parse_fields_frame:
  "parse_fields lib p node fs path msg = Inr (e, m) \<Longrightarrow> x \<notin> f_name ` set fs \<Longrightarrow> m x = msg x"
proof (induction fs arbitrary: msg e)
  case (Cons f fs)
  from Cons.prems(1) obtain e1 m1 e2 where "parse_field lib p node f path msg = Inr (e1, m1)"
    "parse_fields lib p node fs path m1 = Inr (e2, m)" by (rule parse_fields_ConsE)
  then show ?case using Cons.IH Cons.prems(2) parse_field_frame by fastforce
qed simp

text \<open>What a field is set to depends on nothing but its own value before.\<close>

lemma ParseArray_local: "fst (ParseArray lib p ns name ty msg') = fst (ParseArray lib p ns name ty msg) \<and>
    (msg' name = msg name \<longrightarrow> snd (ParseArray lib p ns name ty msg') name = snd (ParseArray lib p ns name ty msg) name)"
  by (auto simp: ParseArrayInner_def ParseArrayEnum_def split: cpptype.splits prod.splits ftype.splits)

lemma ParseScalar_local:
  assumes "ParseScalar lib p n name ty key msg = Inr (e, m)" "msg' name = msg name"
  shows "\<exists>m'. ParseScalar lib p n name ty key msg' = Inr (e, m') \<and> m' name = m name"
  using assms by (auto simp: ParseScalar_def set_scalar_def Let_def
      split: option.splits sum.splits if_splits ftype.splits)

lemma parse_field_local:
  assumes "parse_field lib p node f path msg = Inr (e, m)" "msg' (f_name f) = msg (f_name f)"
  shows "\<exists>m'. parse_field lib p node f path msg' = Inr (e, m') \<and> m' (f_name f) = m (f_name f)"
proof -
  obtain name rep ty where f: "f = Field name rep ty" by (cases f)
  show ?thesis
  proof (cases "node_at node (yaml_name p name)")
    case None
    then show ?thesis using assms by (auto simp: f Let_def)
  next
    case (Some n)
    consider "rep" | fs where "\<not> rep" "ty = TYPE_MESSAGE fs" | "\<not> rep" "\<not> is_message ty"
      by (cases ty) (auto simp: is_message_def)
    then show ?thesis
    proof cases
      case 1
      then show ?thesis using assms Some ParseArray_local [of lib p _ name ty msg' msg]
        by (cases n) (auto simp: f Let_def simp del: ParseArray.simps, metis fst_conv snd_conv surj_pair)
    next
      case 2
      then show ?thesis using assms Some
        by (cases n) (auto simp: f Let_def sub_message_def split: sum.splits prod.splits)
    next
      case 3
      then have f': "f = Field name False ty" using f by simp
      show ?thesis using assms ParseScalar_local [of lib p n name ty _ msg e m msg']
        unfolding f' parse_field_scalar [OF Some 3(2)] by (cases n) auto
    qed
  qed
qed

lemma parse_field_transfer:
  assumes "parse_field lib p node f path msg = Inr (e, msg)" "msg' (f_name f) = msg (f_name f)"
  shows "parse_field lib p node f path msg' = Inr (e, msg')"
proof -
  obtain m' where m': "parse_field lib p node f path msg' = Inr (e, m')" "m' (f_name f) = msg (f_name f)"
    using parse_field_local [of lib p node f path msg e msg msg', OF assms] by (elim exE conjE) rule
  have "m' x = msg' x" for x
    using parse_field_frame [OF m'(1), of x] m'(2) assms(2) by (cases "x = f_name f") simp_all
  then have "m' = msg'" by (rule ext)
  then show ?thesis using m'(1) by (simp only:)
qed

section \<open>Parsing is idempotent\<close>

fun wf_field :: "field \<Rightarrow> bool" and wf_fields :: "field list \<Rightarrow> bool" where
  "wf_field (Field name rep ty) =
     (snake_name name \<and> (case ty of TYPE_MESSAGE fs \<Rightarrow> wf_fields fs | _ \<Rightarrow> True))"
| "wf_fields [] = True"
| "wf_fields (f # fs) = (wf_field f \<and> wf_fields fs \<and> f_name f \<notin> f_name ` set fs)"

lemma ParseArray_twice: "ParseArray lib p ns name ty msg = (e, m) \<Longrightarrow> ParseArray lib p ns name ty m = (e, m)"
  by (auto simp: ParseArrayInner_def ParseArrayEnum_def split: cpptype.splits prod.splits ftype.splits)

lemma ParseScalar_twice:
  "ParseScalar lib p n name ty key msg = Inr (e, m) \<Longrightarrow> ParseScalar lib p n name ty key m = Inr (e, m)"
  by (auto simp: ParseScalar_def set_scalar_def Let_def split: option.splits sum.splits if_splits ftype.splits)

lemma parse_twice:
  "wf_field f \<Longrightarrow> parse_field lib p node f path msg = Inr (e, m) \<Longrightarrow> parse_field lib p node f path m = Inr (e, m)"
  "wf_fields fs \<Longrightarrow> parse_fields lib p node fs path msg = Inr (e, m) \<Longrightarrow> parse_fields lib p node fs path m = Inr (e, m)"
proof (induction lib p node f path msg and lib p node fs path msg arbitrary: e m and e m
    rule: parse_field_parse_fields.induct)
  case (1 lib p node name rep ty path msg)
  show ?case
  proof (cases "node_at node (yaml_name p name)")
    case None
    then show ?thesis using "1.prems" by (auto simp: Let_def split: if_splits)
  next
    case (Some n)
    consider "rep" | fs where "\<not> rep" "ty = TYPE_MESSAGE fs" | "\<not> rep" "\<not> is_message ty"
      by (cases ty) (auto simp: is_message_def)
    then show ?thesis
    proof cases
      case 1
      then show ?thesis using "1.prems" Some
        by (cases n) (auto simp: Let_def simp del: ParseArray.simps dest: ParseArray_twice)
    next
      case 2
      show ?thesis
      proof (cases n)
        case (YMap kvs)
        then obtain m0 where m0: "parse_fields lib p n fs (ConcatPath path (yaml_name p name)) (sub_message msg name) = Inr (e, m0)"
          "m = msg(name \<mapsto> PMsg m0)"
          using "1.prems" Some 2 by (auto simp: Let_def split: sum.splits prod.splits)
        have "parse_fields lib p n fs (ConcatPath path (yaml_name p name)) m0 = Inr (e, m0)"
          using "1.IH" [OF refl Some 2 YMap _ m0(1)] "1.prems"(1) 2(2) by simp
        then show ?thesis using Some 2 YMap m0(2) by (auto simp: Let_def sub_message_def)
      qed (use "1.prems" Some 2 in \<open>auto simp: Let_def\<close>)
    next
      case 3
      then have rep: "rep = False" by simp
      show ?thesis using "1.prems"(2) ParseScalar_twice [of lib p n name ty _ msg e m]
        unfolding rep parse_field_scalar [OF Some 3(2)] by (cases n) auto
    qed
  qed
next
  case (3 lib p node f fs path msg)
  from "3.prems"(2) obtain e1 m1 e2 where run: "parse_field lib p node f path msg = Inr (e1, m1)"
    "parse_fields lib p node fs path m1 = Inr (e2, m)" "e = e1 @ e2" by (rule parse_fields_ConsE)
  have "m (f_name f) = m1 (f_name f)" using parse_fields_frame [OF run(2)] "3.prems"(1) by simp
  moreover have "parse_field lib p node f path m1 = Inr (e1, m1)" using "3.IH"(1) [OF _ run(1)] "3.prems"(1) by simp
  ultimately have "parse_field lib p node f path m = Inr (e1, m)" 
    using parse_field_transfer [of lib p node f path m1 e1 m] by (simp only:)
  moreover have "parse_fields lib p node fs path m = Inr (e2, m)"
    using "3.IH"(2) [OF run(1) refl _ run(2)] "3.prems"(1) by simp
  ultimately show ?case using run(3) by simp
qed simp

section \<open>Printing a message\<close>

text \<open>
  A document that says what a message holds, given how the library prints values, and the messages
  that can be printed: every value has the type of its field and is read back by the conversion.
\<close>

fun enum_name_of :: "(string \<times> int) list \<Rightarrow> int \<Rightarrow> string" where
  "enum_name_of [] i = []"
| "enum_name_of ((name, j) # vs) i = (if i = j then name else enum_name_of vs i)"

definition print_scalar :: "('v \<Rightarrow> string) \<Rightarrow> ftype \<Rightarrow> 'v pval \<Rightarrow> ynode" where
  "print_scalar shw ty v =
     (case (v, ty) of
        (PVal x, _) \<Rightarrow> YScalar (shw x)
      | (PEnum i, TYPE_ENUM vs) \<Rightarrow> YScalar (enum_name_of vs i)
      | (PList xs, _) \<Rightarrow> YSeq (map (YScalar \<circ> shw) xs)
      | (PEnums is, TYPE_ENUM vs) \<Rightarrow> YSeq (map (YScalar \<circ> enum_name_of vs) is)
      | _ \<Rightarrow> YNull)"

fun print_field :: "('v \<Rightarrow> string) \<Rightarrow> ParserYaml \<Rightarrow> field \<Rightarrow> 'v pval \<Rightarrow> ynode"
and print_fields :: "('v \<Rightarrow> string) \<Rightarrow> ParserYaml \<Rightarrow> field list \<Rightarrow> 'v message \<Rightarrow> (string \<times> ynode) list"
where
  "print_field shw p (Field name rep ty) v =
     (case (ty, v) of
        (TYPE_MESSAGE fs, PMsg m) \<Rightarrow> YMap (print_fields shw p fs m)
      | _ \<Rightarrow> print_scalar shw ty v)"
| "print_fields shw p [] m = []"
| "print_fields shw p (f # fs) m =
     (case m (f_name f) of None \<Rightarrow> [] | Some v \<Rightarrow> [(yaml_name p (f_name f), print_field shw p f v)]) @ print_fields shw p fs m"

definition enum_ok :: "(string \<times> int) list \<Rightarrow> int \<Rightarrow> bool" where
  "enum_ok vs i \<longleftrightarrow> map_of vs (map toupper (enum_name_of vs i)) = Some i"

definition array_ctype :: "ftype \<Rightarrow> ctype option" where
  "array_ctype ty =
     (case documented_cpp_type ty of
        CPPTYPE_INT32 \<Rightarrow> Some C_int32 | CPPTYPE_UINT32 \<Rightarrow> Some C_uint32 | CPPTYPE_INT64 \<Rightarrow> Some C_int64
      | CPPTYPE_UINT64 \<Rightarrow> Some C_uint64 | CPPTYPE_DOUBLE \<Rightarrow> Some C_double | CPPTYPE_FLOAT \<Rightarrow> Some C_float
      | CPPTYPE_BOOL \<Rightarrow> Some C_bool | CPPTYPE_STRING \<Rightarrow> Some C_string | _ \<Rightarrow> None)"

definition reads_back :: "'v yaml_lib \<Rightarrow> ('v \<Rightarrow> string) \<Rightarrow> ctype option \<Rightarrow> 'v \<Rightarrow> bool" where
  "reads_back lib shw t v \<longleftrightarrow> (case t of None \<Rightarrow> False | Some c \<Rightarrow> yl_as lib c (YScalar (shw v)) = Inr v)"

fun printable_field :: "'v yaml_lib \<Rightarrow> ('v \<Rightarrow> string) \<Rightarrow> field \<Rightarrow> 'v pval \<Rightarrow> bool"
and printable :: "'v yaml_lib \<Rightarrow> ('v \<Rightarrow> string) \<Rightarrow> field list \<Rightarrow> 'v message \<Rightarrow> bool"
where
  "printable_field lib shw (Field name rep ty) v =
     (case v of
        PMsg m \<Rightarrow> \<not> rep \<and> (case ty of TYPE_MESSAGE fs \<Rightarrow> printable lib shw fs m \<and> dom m \<subseteq> f_name ` set fs | _ \<Rightarrow> False)
      | PVal x \<Rightarrow> \<not> rep \<and> ty \<noteq> TYPE_SINT64 \<and> reads_back lib shw (scalar_ctype ty) x
      | PEnum i \<Rightarrow> \<not> rep \<and> (case ty of TYPE_ENUM vs \<Rightarrow> enum_ok vs i | _ \<Rightarrow> False)
      | PList xs \<Rightarrow> rep \<and> list_all (reads_back lib shw (array_ctype ty)) xs \<and> array_ctype ty \<noteq> None
      | PEnums is \<Rightarrow> rep \<and> (case ty of TYPE_ENUM vs \<Rightarrow> list_all (enum_ok vs) is | _ \<Rightarrow> False))"
| "printable lib shw [] m = True"
| "printable lib shw (f # fs) m =
     ((case m (f_name f) of None \<Rightarrow> True | Some v \<Rightarrow> printable_field lib shw f v) \<and> printable lib shw fs m)"

lemma convert_elements_ok:
  "list_all (\<lambda>x. f (g x) = Inr x) xs \<Longrightarrow> convert_elements f (map g xs) = ([], xs)"
  by (induction xs) auto

lemma ParseArray_print:
  assumes "printable_field lib shw (Field name True ty) v" "\<And>s. yl_as_string lib (YScalar s) = Inr s"
    "yl_cpp_type lib = documented_cpp_type"
  shows "\<exists>ns. print_field shw p (Field name True ty) v = YSeq ns \<and> ParseArray lib p ns name ty msg = ([], msg(name \<mapsto> v))"
proof (cases v)
  case (PList xs)
  obtain c where c: "array_ctype ty = Some c" "list_all (\<lambda>x. yl_as lib c (YScalar (shw x)) = Inr x) xs"
    using assms(1) by (auto simp: PList reads_back_def list_all_iff)
  then have "convert_elements (TryConvert p (yl_as lib c)) (map (YScalar \<circ> shw) xs) = ([], xs)"
    by (intro convert_elements_ok) (auto simp: TryConvert_def list_all_iff)
  moreover have "ParseArray lib p ns name ty msg = ParseArrayInner lib p c ns name msg" for ns
    using c(1) by (auto simp: array_ctype_def assms(3) split: cpptype.splits)
  ultimately show ?thesis by (cases ty) (simp_all add: PList print_scalar_def ParseArrayInner_def del: ParseArray.simps)
next
  case (PEnums js)
  then obtain vs where ty: "ty = TYPE_ENUM vs" "list_all (enum_ok vs) js" using assms(1) by (cases ty) auto
  then have "convert_elements (enum_element lib p vs name) (map (YScalar \<circ> enum_name_of vs) js) = ([], js)"
    by (intro convert_elements_ok) (auto simp: enum_element_def TryConvert_def assms(2) enum_ok_def list_all_iff Let_def)
  then show ?thesis by (simp add: ty PEnums print_scalar_def ParseArrayEnum_def assms(3))
qed (use assms(1) in auto)

lemma ParseScalar_print:
  assumes "printable_field lib shw (Field name False ty) v" "\<not> is_message ty" "\<And>s. yl_as_string lib (YScalar s) = Inr s"
    "yl_cpp_type lib = documented_cpp_type"
  shows "\<exists>s. print_field shw p (Field name False ty) v = YScalar s \<and>
    ParseScalar lib p (YScalar s) name ty key msg = Inr ([], msg(name \<mapsto> v))"
proof (cases v)
  case (PVal x)
  then obtain c where c: "scalar_ctype ty = Some c" "yl_as lib c (YScalar (shw x)) = Inr x" "ty \<noteq> TYPE_SINT64"
    using assms(1) by (auto simp: reads_back_def split: option.splits)
  then have "documented_cpp_type ty = accessor_type c" by (cases ty) auto
  then show ?thesis using c assms(2)
    by (cases ty) (auto simp: PVal print_scalar_def ParseScalar_def TryConvert_def set_scalar_def is_message_def assms(4))
next
  case (PEnum i)
  then obtain vs where "ty = TYPE_ENUM vs" "enum_ok vs i" using assms(1) by (cases ty) auto
  then show ?thesis by (simp add: PEnum print_scalar_def ParseScalar_def assms(3) enum_ok_def Let_def)
qed (use assms(1,2) in \<open>auto simp: is_message_def split: ftype.splits\<close>)

section \<open>The round trip\<close>

lemma wf_fields_member: "wf_fields fs \<Longrightarrow> f \<in> set fs \<Longrightarrow> wf_field f"
  by (induction fs) auto

lemma map_of_print_fields:
  assumes "wf_fields fs"
  shows "f \<in> set fs \<Longrightarrow>
      map_of (print_fields shw p fs m) (yaml_name p (f_name f)) = map_option (print_field shw p f) (m (f_name f))"
    "snake_name x \<Longrightarrow> x \<notin> f_name ` set fs \<Longrightarrow> map_of (print_fields shw p fs m) (yaml_name p x) = None"
proof -
  have names: "snake_name (f_name g)" if "wf_field g" for g using that by (cases g) simp
  have "(f \<in> set fs \<longrightarrow>
      map_of (print_fields shw p fs m) (yaml_name p (f_name f)) = map_option (print_field shw p f) (m (f_name f))) \<and>
    (snake_name x \<and> x \<notin> f_name ` set fs \<longrightarrow> map_of (print_fields shw p fs m) (yaml_name p x) = None)" for f x
    using assms
  proof (induction fs arbitrary: f x)
    case (Cons g fs)
    then have IH: "f \<in> set fs \<Longrightarrow> map_of (print_fields shw p fs m) (yaml_name p (f_name f)) =
        map_option (print_field shw p f) (m (f_name f))"
      "snake_name x \<Longrightarrow> x \<notin> f_name ` set fs \<Longrightarrow> map_of (print_fields shw p fs m) (yaml_name p x) = None" for f x
      by simp_all
    have wf: "snake_name (f_name g)" "f_name g \<notin> f_name ` set fs" "\<And>f. f \<in> set fs \<Longrightarrow> snake_name (f_name f)"
      using Cons.prems names by (auto dest: wf_fields_member)
    have "f_name f \<noteq> f_name g" if "f \<in> set fs" for f using that wf(2) by (metis imageI)
    then show ?case using IH wf
      by (cases "m (f_name g)") (auto simp: yaml_name_eq map_add_def split: option.split)
  qed simp
  then show "f \<in> set fs \<Longrightarrow>
      map_of (print_fields shw p fs m) (yaml_name p (f_name f)) = map_option (print_field shw p f) (m (f_name f))"
    "snake_name x \<Longrightarrow> x \<notin> f_name ` set fs \<Longrightarrow> map_of (print_fields shw p fs m) (yaml_name p x) = None"
    by blast+
qed

lemma restrict_to_dom: "dom m \<subseteq> A \<Longrightarrow> (\<lambda>x. if x \<in> A then m x else None) = m"
  by (rule ext) (metis domIff subsetD)

lemma parse_print:
  "wf_field f \<Longrightarrow> printable_field lib shw f v \<Longrightarrow> (\<And>s. yl_as_string lib (YScalar s) = Inr s) \<Longrightarrow> yl_cpp_type lib = documented_cpp_type \<Longrightarrow>
   py_validation_mode p \<noteq> STRICT \<Longrightarrow> node_at node (yaml_name p (f_name f)) = Some (print_field shw p f v) \<Longrightarrow>
   msg (f_name f) = None \<Longrightarrow> parse_field lib p node f path msg = Inr ([], msg(f_name f \<mapsto> v))"
  "wf_fields fs \<Longrightarrow> printable lib shw fs m \<Longrightarrow> (\<And>s. yl_as_string lib (YScalar s) = Inr s) \<Longrightarrow> yl_cpp_type lib = documented_cpp_type \<Longrightarrow>
   py_validation_mode p \<noteq> STRICT \<Longrightarrow>
   (\<And>f. f \<in> set fs \<Longrightarrow> node_at node (yaml_name p (f_name f)) = map_option (print_field shw p f) (m (f_name f))) \<Longrightarrow>
   (\<And>f. f \<in> set fs \<Longrightarrow> msg (f_name f) = None) \<Longrightarrow>
   parse_fields lib p node fs path msg = Inr ([], \<lambda>x. if x \<in> f_name ` set fs then m x else msg x)"
proof (induction lib shw f v and lib shw fs m arbitrary: node path msg and node path msg
    rule: printable_field_printable.induct)
  case (1 lib shw name rep ty v)
  consider "rep" | fs m where "\<not> rep" "ty = TYPE_MESSAGE fs" "v = PMsg m" | "\<not> rep" "\<not> is_message ty"
    using "1.prems"(2) by (cases ty; cases v) (auto simp: is_message_def reads_back_def)
  then show ?case
  proof cases
    case 1
    then show ?thesis using ParseArray_print [of lib shw name ty v p msg] "1.prems"
      by (auto simp: Let_def fun_upd_def simp del: ParseArray.simps printable_field.simps print_field.simps)
  next
    case 2
    let ?sub = "YMap (print_fields shw p fs m)"
    have wf: "wf_fields fs" and m: "printable lib shw fs m" "dom m \<subseteq> f_name ` set fs" using "1.prems"(1,2) 2 by auto
    have "parse_fields lib p ?sub fs path' (sub_message msg name) =
        Inr ([], \<lambda>x. if x \<in> f_name ` set fs then m x else sub_message msg name x)" for path'
      by (rule "1.IH" [OF 2(3,2) wf m(1) "1.prems"(3,4,5)])
        (use "1.prems"(7) in \<open>simp_all add: map_of_print_fields(1) [OF wf] sub_message_def\<close>)
    moreover have "(\<lambda>x. if x \<in> f_name ` set fs then m x else sub_message msg name x) = m"
      using restrict_to_dom [OF m(2)] "1.prems"(7) by (simp add: sub_message_def cong: if_cong)
    ultimately show ?thesis using "1.prems"(6) 2 by (simp add: Let_def fun_upd_def)
  next
    case 3
    then have rep: "rep = False" by simp
    show ?thesis
      using ParseScalar_print [of lib shw name ty v p "yaml_name p name" msg] "1.prems" 3(2)
      unfolding rep by (auto simp: parse_field_scalar fun_upd_def simp del: printable_field.simps print_field.simps parse_field.simps)
  qed
next
  case (3 lib shw f fs m)
  let ?msg = "case m (f_name f) of None \<Rightarrow> msg | Some v \<Rightarrow> msg(f_name f \<mapsto> v)"
  have "parse_field lib p node f path msg = Inr ([], ?msg)"
  proof (cases "m (f_name f)")
    case None
    obtain name rep ty where "f = Field name rep ty" by (cases f)
    then show ?thesis using None "3.prems"(5) "3.prems"(6) [of f] by (simp add: Let_def)
  next
    case (Some v)
    then show ?thesis
      using "3.IH"(1) [OF Some _ _ "3.prems"(3,4,5), of node msg path] "3.prems"(1,2) "3.prems"(6,7) [of f]
      by (simp add: fun_upd_def)
  qed
  moreover have "parse_fields lib p node fs path ?msg = Inr ([], \<lambda>x. if x \<in> f_name ` set fs then m x else ?msg x)"
  proof (rule "3.IH"(2) [OF _ _ "3.prems"(3,4,5)])
    show "?msg (f_name g) = None" if "g \<in> set fs" for g
    proof -
      have "f_name g \<noteq> f_name f" using that "3.prems"(1) by (metis imageI wf_fields.simps(2))
      then show ?thesis using that "3.prems"(7) [of g] by (simp split: option.split)
    qed
  qed (use "3.prems"(1,2,6) in simp_all)
  moreover have "(\<lambda>x. if x \<in> f_name ` set fs then m x else ?msg x) = (\<lambda>x. if x \<in> f_name ` set (f # fs) then m x else msg x)"
    using "3.prems"(7) [of f] by (auto simp: fun_eq_iff split: option.split)
  ultimately show ?case by (simp only: parse_fields.simps sum.case prod.case append_Nil)
qed simp

lemma find_field_member: "wf_fields fs \<Longrightarrow> f \<in> set fs \<Longrightarrow> find_field fs (f_name f) = Some f"
  by (induction fs) (auto simp: find_field_def)

lemma print_scalar_not_map [simp]: "print_scalar shw ty v \<noteq> YMap sub"
  by (auto simp: print_scalar_def split: pval.split ftype.split)

lemma unknown_print:
  "printable_field lib shw f v \<Longrightarrow> wf_field f \<Longrightarrow> print_field shw p f v = YMap sub \<Longrightarrow>
   \<not> f_repeated f \<and> (\<exists>fs'. f_type f = TYPE_MESSAGE fs' \<and> FindUnknownFields lib p fs' sub = Inr [])"
  "printable lib shw fs m \<Longrightarrow> wf_fields fs \<Longrightarrow> set fs \<subseteq> set fs0 \<Longrightarrow> wf_fields fs0 \<Longrightarrow>
   FindUnknownFields lib p fs0 (print_fields shw p fs m) = Inr []"
proof (induction lib shw f v and lib shw fs m arbitrary: sub and fs0 rule: printable_field_printable.induct)
  case (1 lib shw name rep ty v)
  then show ?case by (cases v; cases ty) auto
next
  case (3 lib shw f fs m)
  then have rest: "FindUnknownFields lib p fs0 (print_fields shw p fs m) = Inr []" by simp
  show ?case
  proof (cases "m (f_name f)")
    case (Some v)
    have "known_name p (yaml_name p (f_name f)) = f_name f"
      using "3.prems"(2) by (cases f) (simp add: known_name_yaml_name)
    moreover have "find_field fs0 (f_name f) = Some f" using "3.prems"(3,4) by (simp add: find_field_member)
    moreover have "\<not> f_repeated f \<and> (\<exists>fs'. f_type f = TYPE_MESSAGE fs' \<and> FindUnknownFields lib p fs' sub = Inr [])"
      if "print_field shw p f v = YMap sub" for sub
      using "3.IH"(1) [OF Some _ _ that] "3.prems"(1,2) Some by simp
    ultimately show ?thesis using rest Some by (auto split: ynode.split)
  qed (use rest in simp)
qed simp

section \<open>Properties\<close>

text \<open>
  (C11) Every message can be configured: the document that spells out a message, with the names
  of its fields in the case the parser expects, is read back to that message without errors, also when unknown
  fields are refused. The names follow the protobuf convention, and the library reads a value as it prints it.
\<close>

theorem Parse_roundtrip:
  assumes "wf_fields fs" "printable lib shw fs m" "dom m \<subseteq> f_name ` set fs"
    "\<And>s. yl_as_string lib (YScalar s) = Inr s" "yl_cpp_type lib = documented_cpp_type" "py_validation_mode p \<noteq> STRICT"
  shows "Parse lib p fs (YMap (print_fields shw p fs m)) Map.empty = Inr ([], m)"
proof -
  have "parse_fields lib p (YMap (print_fields shw p fs m)) fs [] (\<lambda>x. None) =
      Inr ([], \<lambda>x. if x \<in> f_name ` set fs then m x else (\<lambda>x. None) x)"
    by (rule parse_print(2) [OF assms(1,2,4,5,6)]) (simp_all add: map_of_print_fields(1) [OF assms(1)])
  then show ?thesis
    using restrict_to_dom [OF assms(3)] unknown_print(2) [OF assms(2,1) subset_refl assms(1)] by (simp add: Parse_def FindUnknownFields_node_def)
qed

definition example_lib :: "string yaml_lib" where
  "example_lib =
     \<lparr>yl_as = (\<lambda>t n. case n of YScalar s \<Rightarrow> Inr s | _ \<Rightarrow> Inl ''bad conversion''),
      yl_as_string = (\<lambda>n. case n of YScalar s \<Rightarrow> Inr s | _ \<Rightarrow> Inl ''bad conversion''),
      yl_int64 = (\<lambda>i. ''0''), yl_cpp_type = documented_cpp_type, yl_type_name = (\<lambda>ty. [])\<rparr>"

definition example_fields :: "field list" where
  "example_fields =
     [Field ''networking'' False (TYPE_MESSAGE
        [Field ''external_ips'' False (TYPE_MESSAGE
           [Field ''enabled'' False (TYPE_ENUM [(''DISABLED'', 0), (''ENABLED'', 1)])]),
         Field ''max_connections_per_minute'' False TYPE_INT64])]"

definition example_parser :: "ValidationMode \<Rightarrow> ParserYaml" where
  "example_parser mode = \<lparr>py_file = ''config.yaml'', py_read_camelcase = True, py_validation_mode = mode\<rparr>"

definition example_message :: "string message" where
  "example_message =
     [''networking'' \<mapsto> PMsg [''external_ips'' \<mapsto> PMsg [''enabled'' \<mapsto> PEnum 1],
                              ''max_connections_per_minute'' \<mapsto> PVal ''100'']]"

theorem Parse_roundtrip_witness:
  "Parse example_lib (example_parser UNKNOWN_FIELDS_ONLY) example_fields
     (YMap (print_fields (\<lambda>s. s) (example_parser UNKNOWN_FIELDS_ONLY) example_fields example_message)) Map.empty =
   Inr ([], example_message)"
proof (rule Parse_roundtrip)
  show "wf_fields example_fields" by code_simp
  show "printable example_lib (\<lambda>s. s) example_fields example_message"
    by (simp add: example_fields_def example_message_def example_lib_def reads_back_def enum_ok_def toupper_def islower_def less_eq_char_def)
qed (simp_all add: example_lib_def example_parser_def example_message_def example_fields_def)

text \<open>
  Parsing the same document again changes nothing, whatever errors it has: the fields it mentions are
  overwritten and not appended to. Fields of the message that the descriptor does not list are left alone.
\<close>

theorem Parse_idempotent:
  assumes "wf_fields fs" "Parse lib p fs node msg = Inr (errors, m)"
  shows "Parse lib p fs node m = Inr (errors, m) \<and> (\<forall>x. x \<in> f_name ` set fs \<or> m x = msg x)"
proof (cases "node = YNull \<or> (\<exists>s. node = YScalar s)")
  case True
  then show ?thesis using assms(2) by (auto simp: Parse_def)
next
  case False
  then obtain e where run: "parse_fields lib p node fs [] msg = Inr (e, m)"
    using assms(2) by (cases node) (auto simp: Parse_def split: sum.splits prod.splits if_splits)
  show ?thesis
    using False assms(2) parse_twice(2) [OF assms(1) run] parse_fields_frame [OF run] run
    by (cases node) (auto simp: Parse_def split: sum.splits if_splits)
qed

theorem Parse_idempotent_witness:
  "Parse example_lib (example_parser PERMISSIVE) example_fields (YMap [(''networking'', YSeq [])]) example_message =
   Parse example_lib (example_parser PERMISSIVE) example_fields (YMap [(''networking'', YSeq [])])
     (snd (projr (Parse example_lib (example_parser PERMISSIVE) example_fields (YMap [(''networking'', YSeq [])]) example_message)))"
proof -
  let ?run = "Parse example_lib (example_parser PERMISSIVE) example_fields (YMap [(''networking'', YSeq [])])"
  have wf: "wf_fields example_fields" by code_simp
  have "\<exists>e. ?run example_message = Inr (e, example_message)"
    by (simp add: Parse_def example_fields_def example_parser_def Let_def yaml_name_def SnakeCaseToCamel_def)
  then obtain e where run: "?run example_message = Inr (e, example_message)" ..
  then show ?thesis using Parse_idempotent [OF wf run] by simp
qed

text \<open>Descriptors whose scalars are all set with the setter of their type.\<close>

fun safe_field :: "field \<Rightarrow> bool" and safe_fields :: "field list \<Rightarrow> bool" where
  "safe_field (Field name rep ty) =
     ((rep \<or> ty \<noteq> TYPE_SINT64) \<and> (case ty of TYPE_MESSAGE fs \<Rightarrow> safe_fields fs | _ \<Rightarrow> True))"
| "safe_fields [] = True"
| "safe_fields (f # fs) = (safe_field f \<and> safe_fields fs)"

lemma ParseScalar_total:
  assumes "ty \<noteq> TYPE_SINT64" "\<And>s. yl_as_string lib (YScalar s) = Inr s" "yl_cpp_type lib = documented_cpp_type"
  shows "\<exists>r. ParseScalar lib p (YScalar s) name ty key msg = Inr r"
  using assms by (cases ty) (auto simp: ParseScalar_def set_scalar_def Let_def split: sum.split option.split)

lemma parse_total:
  "safe_field f \<Longrightarrow> (\<And>s. yl_as_string lib (YScalar s) = Inr s) \<Longrightarrow>
   yl_cpp_type lib = documented_cpp_type \<Longrightarrow> \<exists>r. parse_field lib p node f path msg = Inr r"
  "safe_fields fs \<Longrightarrow> (\<And>s. yl_as_string lib (YScalar s) = Inr s) \<Longrightarrow>
   yl_cpp_type lib = documented_cpp_type \<Longrightarrow> \<exists>r. parse_fields lib p node fs path msg = Inr r"
proof (induction lib p node f path msg and lib p node fs path msg rule: parse_field_parse_fields.induct)
  case (1 lib p node name rep ty path msg)
  show ?case
  proof (cases "node_at node (yaml_name p name)")
    case (Some n)
    consider "rep" | fs where "\<not> rep" "ty = TYPE_MESSAGE fs" | "\<not> rep" "\<not> is_message ty"
      by (cases ty) (auto simp: is_message_def)
    then show ?thesis
    proof cases
      case 2
      have "\<exists>r. parse_fields lib p n fs (ConcatPath path (yaml_name p name)) (sub_message msg name) = Inr r"
        if "n = YMap kvs" for kvs using "1.IH" [OF refl Some 2 that _ "1.prems"(2,3)] "1.prems"(1) 2 by simp
      then show ?thesis using Some 2 by (cases n) (auto simp: Let_def)
    next
      case 3
      then have rep: "rep = False" by simp
      show ?thesis unfolding rep parse_field_scalar [OF Some 3(2)]
        using ParseScalar_total [of ty lib] "1.prems" rep by (cases n) auto
    qed (use Some in \<open>cases n; simp add: Let_def\<close>)
  qed (simp add: Let_def)
next
  case (3 lib p node f fs path msg)
  then obtain e1 m1 where f: "parse_field lib p node f path msg = Inr (e1, m1)" by auto
  then have "\<exists>r. parse_fields lib p node fs path m1 = Inr r" using 3 by simp
  then show ?case using f by auto
qed simp

text \<open>
  In the mode the collector uses the parser never fails: whatever the document is, it returns its errors and
  the message, provided no singular field of the descriptor has type \<^verbatim>\<open>sint64\<close>, whose value the parser would
  set with the setter of unsigned integers. Such a field ends the program when it is converted.
\<close>

theorem Parse_never_fails:
  assumes "\<And>s. yl_as_string lib (YScalar s) = Inr s" "py_validation_mode p = PERMISSIVE" "yl_cpp_type lib = documented_cpp_type"
  shows "(safe_fields fs \<longrightarrow> (\<exists>errors m. Parse lib p fs node msg = Inr (errors, m))) \<and>
    (yl_as lib C_uint64 (YScalar s) = Inr v \<longrightarrow>
      Parse lib p [Field name False TYPE_SINT64] (YMap [(yaml_name p name, YScalar s)]) msg = Inl Reflection_usage)"
proof (intro conjI impI)
  assume "safe_fields fs"
  then obtain e m where "parse_fields lib p node fs [] msg = Inr (e, m)" using parse_total(2) [OF _ assms(1,3)] by fastforce
  then show "\<exists>errors m. Parse lib p fs node msg = Inr (errors, m)"
    using assms(2) by (cases node) (auto simp: Parse_def)
qed (simp add: Parse_def Let_def ParseScalar_def TryConvert_def set_scalar_def assms(3))

theorem Parse_never_fails_witness:
  "(\<exists>errors m. Parse example_lib (example_parser PERMISSIVE) example_fields (YSeq [YNull]) Map.empty = Inr (errors, m)) \<and>
   Parse example_lib (example_parser PERMISSIVE) [Field ''offset'' False TYPE_SINT64] (YMap [(''offset'', YScalar ''5'')]) Map.empty =
     Inl Reflection_usage"
proof -
  have "yaml_name (example_parser PERMISSIVE) ''offset'' = ''offset''" by code_simp
  moreover have "safe_fields example_fields" by code_simp
  ultimately show ?thesis
    using Parse_never_fails [of example_lib "example_parser PERMISSIVE" example_fields "YSeq [YNull]" Map.empty "''5''" "''5''" "''offset''"]
      Parse_never_fails [of example_lib "example_parser PERMISSIVE" "[]" YNull Map.empty "''5''" "''5''" "''offset''"]
    by (simp add: example_lib_def example_parser_def)
qed

lemma camel_to_snake_lower: "list_all (\<lambda>c. \<not> isupper c) s \<Longrightarrow> camel_to_snake_loop first s = s"
  by (induction s arbitrary: first) (auto simp: tolower_id)

lemma snake_rest_lower: "snake_rest s \<Longrightarrow> list_all (\<lambda>c. \<not> isupper c) s"
  by (induction s rule: snake_rest.induct) (auto simp: isupper_iff islower_iff split: if_splits)

lemma CamelCaseToSnake_snake: "snake_name s \<Longrightarrow> CamelCaseToSnake s = s"
  by (cases s) (auto simp: snake_name_def CamelCaseToSnake_def tolower_id camel_to_snake_lower
      dest: snake_rest_tl snake_rest_lower)

text \<open>
  The search for unknown fields misses keys in the wrong case. A parser for camel case takes the key
  \<^verbatim>\<open>external_ips\<close> for a known field, because converting it to snake case leaves it as it is, and yet reads nothing from
  it; so in the mode that refuses unknown fields the entry is silently ignored.
\<close>

theorem wrong_case_key_ignored:
  assumes "py_read_camelcase p" "py_validation_mode p = UNKNOWN_FIELDS_ONLY" "snake_name name" "SnakeCaseToCamel name \<noteq> name"
  shows "Parse lib p [Field name repeated ty] (YMap [(name, YScalar s)]) msg = Inr ([], msg)"
  using assms by (simp add: Parse_def Let_def yaml_name_def known_name_def CamelCaseToSnake_snake
      FindUnknownFields_node_def find_field_def)

theorem wrong_case_key_ignored_witness:
  "Parse example_lib (example_parser UNKNOWN_FIELDS_ONLY) [Field ''external_ips'' False TYPE_STRING]
     (YMap [(''external_ips'', YScalar ''on'')]) Map.empty = Inr ([], Map.empty)"
proof (rule wrong_case_key_ignored)
  show "snake_name ''external_ips''" "SnakeCaseToCamel ''external_ips'' \<noteq> ''external_ips''" by code_simp+
qed (simp_all add: example_parser_def)

end
