(* ===== verification/Config_Watch.thy ===== *)
theory Config_Watch
  imports Config_Yaml Net_Address
begin

text \<open>
  Reloading of the configuration: the wrapper \<^verbatim>\<open>Inotify\<close> of \<^verbatim>\<open>Inotify.cpp\<close> with its buffer of raw events and its store
  of watchers, and the handlers of \<^verbatim>\<open>ConfigLoader\<close> that react to the events. The kernel and the file system are
  arguments of every step: what \<^verbatim>\<open>inotify_add_watch\<close>, \<^verbatim>\<open>select\<close> and \<^verbatim>\<open>read\<close> return and what is found under a path at
  that moment. A path is its text. Calls of \<^verbatim>\<open>inotify_rm_watch\<close>, whose result nobody uses, are left out.
  What is found under the paths does not change while one handler runs; it may be different at every event.
\<close>

section \<open>Events\<close>

definition IN_ACCESS :: u32 where "IN_ACCESS = 0x1"
definition IN_MODIFY :: u32 where "IN_MODIFY = 0x2"
definition IN_ATTRIB :: u32 where "IN_ATTRIB = 0x4"
definition IN_CLOSE_WRITE :: u32 where "IN_CLOSE_WRITE = 0x8"
definition IN_CLOSE_NOWRITE :: u32 where "IN_CLOSE_NOWRITE = 0x10"
definition IN_OPEN :: u32 where "IN_OPEN = 0x20"
definition IN_MOVED_FROM :: u32 where "IN_MOVED_FROM = 0x40"
definition IN_MOVED_TO :: u32 where "IN_MOVED_TO = 0x80"
definition IN_CREATE :: u32 where "IN_CREATE = 0x100"
definition IN_DELETE :: u32 where "IN_DELETE = 0x200"
definition IN_DELETE_SELF :: u32 where "IN_DELETE_SELF = 0x400"
definition IN_MOVE_SELF :: u32 where "IN_MOVE_SELF = 0x800"
definition IN_UNMOUNT :: u32 where "IN_UNMOUNT = 0x2000"
definition IN_Q_OVERFLOW :: u32 where "IN_Q_OVERFLOW = 0x4000"
definition IN_IGNORED :: u32 where "IN_IGNORED = 0x8000"
definition IN_DONT_FOLLOW :: u32 where "IN_DONT_FOLLOW = 0x2000000"
definition IN_ISDIR :: u32 where "IN_ISDIR = 0x40000000"
definition IN_ONESHOT :: u32 where "IN_ONESHOT = 0x80000000"

lemmas in_flags =
  IN_ACCESS_def IN_MODIFY_def IN_ATTRIB_def IN_CLOSE_WRITE_def IN_CLOSE_NOWRITE_def IN_OPEN_def IN_MOVED_FROM_def
  IN_MOVED_TO_def IN_CREATE_def IN_DELETE_def IN_DELETE_SELF_def IN_MOVE_SELF_def IN_UNMOUNT_def IN_Q_OVERFLOW_def
  IN_IGNORED_def IN_DONT_FOLLOW_def IN_ISDIR_def IN_ONESHOT_def

text \<open>An event as it lies in memory: a header of sixteen bytes and \<open>ev_len\<close> bytes with the name, padded by zeros.\<close>

record inotify_event =
  ev_wd :: u32
  ev_mask :: u32
  ev_cookie :: u32
  ev_len :: u32
  ev_area :: bytes

definition event_wd :: "inotify_event \<Rightarrow> int" where
  "event_wd ev = sint (ev_wd ev)"

definition event_name :: "inotify_event \<Rightarrow> string" where
  "event_name ev = map (\<lambda>b. char_of (unat b)) (takeWhile (\<lambda>b. b \<noteq> 0) (ev_area ev))"

definition event_has :: "inotify_event \<Rightarrow> u32 \<Rightarrow> bool" where
  "event_has ev flags \<longleftrightarrow> ev_mask ev AND flags \<noteq> 0"

definition MASK_TABLE :: "(u32 \<times> string) list" where
  "MASK_TABLE =
     [(IN_ACCESS, ''access''), (IN_MODIFY, ''modify''), (IN_ATTRIB, ''attrib''), (IN_CLOSE_WRITE, ''close_write''),
      (IN_CLOSE_NOWRITE, ''close_nowrite''), (IN_OPEN, ''open''), (IN_MOVED_FROM, ''moved_from''), (IN_MOVED_TO, ''moved_to''),
      (IN_CREATE, ''create''), (IN_DELETE, ''delete''), (IN_DELETE_SELF, ''delete_self''), (IN_MOVE_SELF, ''move_self''),
      (IN_UNMOUNT, ''unmount''), (IN_Q_OVERFLOW, ''q_overflow''), (IN_IGNORED, ''ignored''), (IN_ISDIR, ''isdir''),
      (IN_ONESHOT, ''oneshot'')]"

definition MaskToString :: "u32 \<Rightarrow> string" where
  "MaskToString m =
     fold (\<lambda>(b, s) out. if m AND b \<noteq> 0 then (if out \<noteq> [] then out @ '' | '' else out) @ s else out) MASK_TABLE []"

section \<open>The wrapper\<close>

record Watcher =
  w_wd :: int
  w_path :: string
  w_tag :: int

record Inotify =
  in_fd :: int
  in_buffer :: bytes
  in_curr_byte :: u64
  in_read_data :: u64
  in_watchers :: "Watcher list"

definition BUFFER_SIZE :: nat where "BUFFER_SIZE = 1024"

definition mk_Inotify :: "int \<Rightarrow> Inotify" where
  "mk_Inotify fd = \<lparr>in_fd = fd, in_buffer = replicate BUFFER_SIZE 0, in_curr_byte = 0, in_read_data = 0, in_watchers = []\<rparr>"

definition Inotify_IsValid :: "Inotify \<Rightarrow> bool" where
  "Inotify_IsValid x \<longleftrightarrow> in_fd x > 0"

text \<open>An iterator is a position, the end is \<open>None\<close>.\<close>

fun find_pos :: "('a \<Rightarrow> bool) \<Rightarrow> 'a list \<Rightarrow> nat option" where
  "find_pos P [] = None"
| "find_pos P (x # xs) = (if P x then Some 0 else map_option Suc (find_pos P xs))"

definition FindWatcher_path :: "string \<Rightarrow> Inotify \<Rightarrow> nat option" where
  "FindWatcher_path needle x = find_pos (\<lambda>w. w_path w = needle) (in_watchers x)"

definition FindWatcher_wd :: "int \<Rightarrow> Inotify \<Rightarrow> nat option" where
  "FindWatcher_wd needle x = find_pos (\<lambda>w. w_wd w = needle) (in_watchers x)"

definition AddWatcher :: "(string \<Rightarrow> u32 \<Rightarrow> int) \<Rightarrow> string \<Rightarrow> u32 \<Rightarrow> int \<Rightarrow> Inotify \<Rightarrow> int \<times> Inotify" where
  "AddWatcher add_watch p flags tag x =
     (let wd = add_watch p flags
      in if wd < 0 then (- 1, x)
         else case FindWatcher_path p x of
                None \<Rightarrow> (wd, x\<lparr>in_watchers := in_watchers x @ [\<lparr>w_wd = wd, w_path = p, w_tag = tag\<rparr>]\<rparr>)
              | Some i \<Rightarrow>
                  (let w = in_watchers x ! i;
                       w' = (if w_wd w \<noteq> wd then w\<lparr>w_wd := wd\<rparr> else w)
                   in (wd, x\<lparr>in_watchers := (in_watchers x)[i := w'\<lparr>w_tag := tag\<rparr>]\<rparr>)))"

definition FILE_FLAGS :: u32 where
  "FILE_FLAGS = IN_MODIFY OR IN_MOVE_SELF OR IN_DELETE_SELF OR IN_DONT_FOLLOW"

definition DIRECTORY_FLAGS :: u32 where
  "DIRECTORY_FLAGS = IN_CREATE OR IN_DELETE OR IN_MOVE_SELF OR IN_DELETE_SELF OR IN_DONT_FOLLOW"

definition AddFileWatcher :: "(string \<Rightarrow> u32 \<Rightarrow> int) \<Rightarrow> string \<Rightarrow> int \<Rightarrow> Inotify \<Rightarrow> int \<times> Inotify" where
  "AddFileWatcher add_watch p tag x = AddWatcher add_watch p FILE_FLAGS tag x"

definition AddDirectoryWatcher :: "(string \<Rightarrow> u32 \<Rightarrow> int) \<Rightarrow> string \<Rightarrow> int \<Rightarrow> Inotify \<Rightarrow> int \<times> Inotify" where
  "AddDirectoryWatcher add_watch p tag x = AddWatcher add_watch p DIRECTORY_FLAGS tag x"

definition RemoveWatcher :: "nat option \<Rightarrow> Inotify \<Rightarrow> Inotify" where
  "RemoveWatcher it x =
     (case it of
        None \<Rightarrow> x
      | Some i \<Rightarrow> x\<lparr>in_watchers := take i (in_watchers x) @ drop (Suc i) (in_watchers x)\<rparr>)"

text \<open>Reading past the end of the buffer: \<^verbatim>\<open>at\<close> throws, and a header that does not fit is undefined.\<close>

datatype read_failure = Out_of_range | Undefined_read

datatype InotifyResult = INOTIFY_OK inotify_event | INOTIFY_ERROR | INOTIFY_TIMEOUT

definition u32_at :: "bytes \<Rightarrow> nat \<Rightarrow> u32" where
  "u32_at buf i = ucast (word_of_mem (take 4 (drop i buf)))"

definition event_at :: "bytes \<Rightarrow> nat \<Rightarrow> read_failure + inotify_event" where
  "event_at buf i =
     (if i \<ge> BUFFER_SIZE then Inl Out_of_range
      else if i + 16 > BUFFER_SIZE then Inl Undefined_read
      else Inr \<lparr>ev_wd = u32_at buf i, ev_mask = u32_at buf (i + 4), ev_cookie = u32_at buf (i + 8), ev_len = u32_at buf (i + 12),
                ev_area = take (unat (u32_at buf (i + 12))) (drop (i + 16) buf)\<rparr>)"

text \<open>
  \<open>selected\<close> is what \<^verbatim>\<open>select\<close> returns; \<open>got\<close> is \<open>None\<close> when \<^verbatim>\<open>read\<close> returns -1 and otherwise the bytes it stores. The
  comparison of the unsigned count with zero is the one of the source.
\<close>

definition GetNext :: "int \<Rightarrow> bytes option \<Rightarrow> Inotify \<Rightarrow> read_failure + InotifyResult \<times> Inotify" where
  "GetNext selected got x =
     (if in_curr_byte x < in_read_data x then
        (case event_at (in_buffer x) (unat (in_curr_byte x)) of
           Inl f \<Rightarrow> Inl f
         | Inr ev \<Rightarrow> Inr (INOTIFY_OK ev, x\<lparr>in_curr_byte := in_curr_byte x + (16 + ucast (ev_len ev))\<rparr>))
      else if selected < 0 then Inr (INOTIFY_ERROR, x)
      else if selected = 0 then Inr (INOTIFY_TIMEOUT, x)
      else
        (let x1 = (case got of
                     None \<Rightarrow> x\<lparr>in_read_data := - 1\<rparr>
                   | Some bs \<Rightarrow> x\<lparr>in_read_data := of_nat (length bs), in_buffer := bs @ drop (length bs) (in_buffer x)\<rparr>)
         in if in_read_data x1 < 0 then Inr (INOTIFY_ERROR, x1)
            else case event_at (in_buffer x1) 0 of
                   Inl f \<Rightarrow> Inl f
                 | Inr ev \<Rightarrow> Inr (INOTIFY_OK ev, x1\<lparr>in_curr_byte := 16 + ucast (ev_len ev)\<rparr>)))"

section \<open>The loader\<close>

definition LOADER_PARENT_PATH :: int where "LOADER_PARENT_PATH = 1"
definition LOADER_CONFIG_FILE :: int where "LOADER_CONFIG_FILE = 2"
definition LOADER_CONFIG_REALPATH :: int where "LOADER_CONFIG_REALPATH = 3"

lemmas loader_tags = LOADER_PARENT_PATH_def LOADER_CONFIG_FILE_def LOADER_CONFIG_REALPATH_def

text \<open>The file system at one moment; \<^verbatim>\<open>canonical\<close> throws when it cannot resolve a path: \<open>None\<close>.\<close>

record file_system =
  fs_exists :: "string \<Rightarrow> bool"
  fs_is_symlink :: "string \<Rightarrow> bool"
  fs_canonical :: "string \<Rightarrow> string option"
  fs_load :: "string \<Rightarrow> string + ynode"
  fs_add_watch :: "string \<Rightarrow> u32 \<Rightarrow> int"

record 'v loader =
  ld_dir :: string
  ld_name :: string
  ld_inotify :: Inotify
  ld_config :: "'v message option"

datatype loader_failure = Parse_failure failure | Filesystem_error

definition ld_file :: "'v loader \<Rightarrow> string" where
  "ld_file l = ld_dir l @ ''/'' @ ld_name l"

text \<open>What the runtime configuration is loaded with: the conversions, the parser and the descriptor.\<close>

record 'v load_env =
  le_lib :: "'v yaml_lib"
  le_parser :: ParserYaml
  le_fields :: "field list"

definition load_now :: "'v load_env \<Rightarrow> file_system \<Rightarrow> 'v loader \<Rightarrow> loader_failure + 'v loader" where
  "load_now le fs l =
     (case LoadConfiguration (le_lib le) (le_parser le) (le_fields le) None
             (if fs_exists fs (ld_file l) then Some (fs_load fs (ld_file l)) else None) (ld_config l) of
        Inl f \<Rightarrow> Inl (Parse_failure f)
      | Inr (res, config) \<Rightarrow> Inr (l\<lparr>ld_config := config\<rparr>))"

definition ResetRuntimeConfig :: "'v loader \<Rightarrow> 'v loader" where
  "ResetRuntimeConfig l = l\<lparr>ld_config := None\<rparr>"

definition watch_file :: "file_system \<Rightarrow> string \<Rightarrow> int \<Rightarrow> 'v loader \<Rightarrow> 'v loader" where
  "watch_file fs p tag l = l\<lparr>ld_inotify := snd (AddFileWatcher (fs_add_watch fs) p tag (ld_inotify l))\<rparr>"

definition watch_realpath :: "file_system \<Rightarrow> string \<Rightarrow> 'v loader \<Rightarrow> loader_failure + 'v loader" where
  "watch_realpath fs p l =
     (case fs_canonical fs p of
        None \<Rightarrow> Inl Filesystem_error
      | Some q \<Rightarrow> Inr (watch_file fs q LOADER_CONFIG_REALPATH l))"

definition watch_realpath_if_symlink :: "file_system \<Rightarrow> string \<Rightarrow> 'v loader \<Rightarrow> loader_failure + 'v loader" where
  "watch_realpath_if_symlink fs p l = (if fs_is_symlink fs p then watch_realpath fs p l else Inr l)"

definition HandleConfigDirectoryEvent ::
  "'v load_env \<Rightarrow> file_system \<Rightarrow> inotify_event \<Rightarrow> 'v loader \<Rightarrow> loader_failure + bool \<times> 'v loader" where
  "HandleConfigDirectoryEvent le fs ev l =
     (if event_has ev (IN_MOVE_SELF OR IN_DELETE_SELF) then Inr (False, l)
      else if ld_name l \<noteq> event_name ev then Inr (True, l)
      else if event_has ev (IN_CREATE OR IN_MOVED_TO) then
        (case load_now le fs (watch_file fs (ld_file l) LOADER_CONFIG_FILE l) of
           Inl f \<Rightarrow> Inl f
         | Inr l' \<Rightarrow> map_sum (\<lambda>f. f) (Pair True) (watch_realpath_if_symlink fs (ld_file l) l'))
      else if event_has ev (IN_DELETE OR IN_MOVED_FROM) then
        Inr (True, ResetRuntimeConfig (l\<lparr>ld_inotify := RemoveWatcher (FindWatcher_path (ld_file l) (ld_inotify l)) (ld_inotify l)\<rparr>))
      else Inr (True, l))"

definition HandleConfigFileEvent ::
  "'v load_env \<Rightarrow> file_system \<Rightarrow> inotify_event \<Rightarrow> nat \<Rightarrow> 'v loader \<Rightarrow> loader_failure + 'v loader" where
  "HandleConfigFileEvent le fs ev w l =
     (let path = w_path (in_watchers (ld_inotify l) ! w)
      in if event_has ev IN_MODIFY then
           (case watch_realpath_if_symlink fs path l of Inl f \<Rightarrow> Inl f | Inr l' \<Rightarrow> load_now le fs l')
         else if event_has ev (IN_MOVE_SELF OR IN_DELETE_SELF) then
           (if fs_exists fs path then
              (case watch_realpath_if_symlink fs path (watch_file fs path LOADER_CONFIG_FILE l) of
                 Inl f \<Rightarrow> Inl f | Inr l' \<Rightarrow> load_now le fs l')
            else Inr (ResetRuntimeConfig (l\<lparr>ld_inotify := RemoveWatcher (Some w) (ld_inotify l)\<rparr>)))
         else Inr l)"

definition HandleConfigRealpathEvent ::
  "'v load_env \<Rightarrow> file_system \<Rightarrow> inotify_event \<Rightarrow> nat \<Rightarrow> 'v loader \<Rightarrow> loader_failure + 'v loader" where
  "HandleConfigRealpathEvent le fs ev w l =
     (if event_has ev IN_MODIFY then load_now le fs l
      else if event_has ev (IN_DELETE_SELF OR IN_MOVE_SELF) then
        (if fs_is_symlink fs (ld_file l) then
           (case watch_realpath fs (ld_file l) l of Inl f \<Rightarrow> Inl f | Inr l' \<Rightarrow> load_now le fs l')
         else Inr (ResetRuntimeConfig (l\<lparr>ld_inotify := RemoveWatcher (Some w) (ld_inotify l)\<rparr>)))
      else Inr l)"

definition HandleEvent ::
  "'v load_env \<Rightarrow> file_system \<Rightarrow> inotify_event \<Rightarrow> 'v loader \<Rightarrow> loader_failure + bool \<times> 'v loader" where
  "HandleEvent le fs ev l =
     (case FindWatcher_wd (event_wd ev) (ld_inotify l) of
        None \<Rightarrow> Inr (True, l)
      | Some w \<Rightarrow>
          (let tag = w_tag (in_watchers (ld_inotify l) ! w)
           in if tag = LOADER_PARENT_PATH then HandleConfigDirectoryEvent le fs ev l
              else if tag = LOADER_CONFIG_FILE then map_sum (\<lambda>f. f) (Pair True) (HandleConfigFileEvent le fs ev w l)
              else if tag = LOADER_CONFIG_REALPATH then map_sum (\<lambda>f. f) (Pair True) (HandleConfigRealpathEvent le fs ev w l)
              else Inr (True, l)))"

text \<open>The start of \<^verbatim>\<open>WatchFile\<close>, with whether the loop is entered, and the loop over the results it gets.\<close>

definition WatchFile_start :: "'v load_env \<Rightarrow> file_system \<Rightarrow> 'v loader \<Rightarrow> loader_failure + bool \<times> 'v loader" where
  "WatchFile_start le fs l =
     (if \<not> Inotify_IsValid (ld_inotify l) then Inr (False, l)
      else case AddDirectoryWatcher (fs_add_watch fs) (ld_dir l) LOADER_PARENT_PATH (ld_inotify l) of
             (wd, x) \<Rightarrow>
               if wd < 0 then Inr (False, l\<lparr>ld_inotify := x\<rparr>)
               else
                 (let l1 = l\<lparr>ld_inotify := x\<rparr>
                  in if fs_exists fs (ld_file l1) then
                       (case watch_realpath_if_symlink fs (ld_file l1) (watch_file fs (ld_file l1) LOADER_CONFIG_FILE l1) of
                          Inl f \<Rightarrow> Inl f
                        | Inr l2 \<Rightarrow> map_sum (\<lambda>f. f) (Pair True) (load_now le fs l2))
                     else Inr (True, l1)))"

fun watch_loop :: "'v load_env \<Rightarrow> (file_system \<times> InotifyResult) list \<Rightarrow> 'v loader \<Rightarrow> loader_failure + 'v loader" where
  "watch_loop le [] l = Inr l"
| "watch_loop le ((fs, res) # steps) l =
     (case res of
        INOTIFY_OK ev \<Rightarrow>
          (case HandleEvent le fs ev l of
             Inl f \<Rightarrow> Inl f
           | Inr (going, l') \<Rightarrow> if \<not> going then Inr l' else watch_loop le steps l')
      | _ \<Rightarrow> watch_loop le steps l)"

section \<open>The buffer as a queue of events\<close>

definition u32_bytes :: "u32 \<Rightarrow> bytes" where
  "u32_bytes w = take 4 (mem_bytes (ucast w))"

text \<open>An event as the kernel writes it.\<close>

definition encode_event :: "inotify_event \<Rightarrow> bytes" where
  "encode_event ev = u32_bytes (ev_wd ev) @ u32_bytes (ev_mask ev) @ u32_bytes (ev_cookie ev) @ u32_bytes (ev_len ev) @ ev_area ev"

definition event_ok :: "inotify_event \<Rightarrow> bool" where
  "event_ok ev \<longleftrightarrow> length (ev_area ev) = unat (ev_len ev)"

definition encode_events :: "inotify_event list \<Rightarrow> bytes" where
  "encode_events evs = concat (map encode_event evs)"

text \<open>The events between the two indices of the buffer.\<close>

definition pending :: "Inotify \<Rightarrow> inotify_event list \<Rightarrow> bool" where
  "pending x evs \<longleftrightarrow> list_all event_ok evs \<and> length (in_buffer x) = BUFFER_SIZE \<and>
     (evs = [] \<and> in_read_data x \<le> in_curr_byte x \<or>
      in_curr_byte x \<le> in_read_data x \<and> unat (in_read_data x) \<le> BUFFER_SIZE \<and>
      take (unat (in_read_data x) - unat (in_curr_byte x)) (drop (unat (in_curr_byte x)) (in_buffer x)) = encode_events evs)"

lemma length_u32_bytes [simp]: "length (u32_bytes w) = 4"
  by (simp add: u32_bytes_def mem_bytes_def)

lemma u32_bytes_roundtrip: "ucast (word_of_mem (u32_bytes w)) = w"
proof (rule bit_word_eqI)
  fix n assume "n < LENGTH(32)"
  then have n: "n < 32" by simp
  then have "n div 8 < 4" by simp
  then show "bit (ucast (word_of_mem (u32_bytes w)) :: u32) n \<longleftrightarrow> bit w n"
    using n by (simp add: bit_ucast_iff bit_word_of_mem bit_mem_bytes u32_bytes_def)
qed

lemma u32_at_append: "length xs = i \<Longrightarrow> u32_at (xs @ u32_bytes w @ ys) i = w"
  by (simp add: u32_at_def u32_bytes_roundtrip)

lemma length_encode_event: "event_ok ev \<Longrightarrow> length (encode_event ev) = 16 + unat (ev_len ev)"
  by (simp add: encode_event_def event_ok_def)

lemma event_at_encode:
  assumes "event_ok ev" "length xs = i" "i + 16 \<le> BUFFER_SIZE"
  shows "event_at (xs @ encode_event ev @ ys) i = Inr ev"
proof -
  let ?b = "xs @ encode_event ev @ ys"
  have at: "u32_at ?b i = ev_wd ev" "u32_at ?b (i + 4) = ev_mask ev" "u32_at ?b (i + 8) = ev_cookie ev" "u32_at ?b (i + 12) = ev_len ev"
    using u32_at_append [of xs i "ev_wd ev"] u32_at_append [of "xs @ u32_bytes (ev_wd ev)" "i + 4" "ev_mask ev"]
      u32_at_append [of "xs @ u32_bytes (ev_wd ev) @ u32_bytes (ev_mask ev)" "i + 8" "ev_cookie ev"]
      u32_at_append [of "xs @ u32_bytes (ev_wd ev) @ u32_bytes (ev_mask ev) @ u32_bytes (ev_cookie ev)" "i + 12" "ev_len ev"]
      assms(2) by (simp_all add: encode_event_def)
  moreover have "take (unat (ev_len ev)) (drop (i + 16) ?b) = ev_area ev"
    using assms(1,2) by (simp add: encode_event_def event_ok_def)
  ultimately show ?thesis using assms(3) by (simp add: event_at_def)
qed

lemma encode_events_Cons [simp]: "encode_events (ev # evs) = encode_event ev @ encode_events evs"
  by (simp add: encode_events_def)

lemma encode_events_Nil [simp]: "encode_events [] = []"
  by (simp add: encode_events_def)

lemma unat_ucast_u64: "unat (ucast (w :: u32) :: u64) = unat w"
  using unsigned_less [of w, where ?'a = nat] by (simp add: unsigned_ucast_eq take_bit_nat_eq_self_iff)

lemma GetNext_pending:
  assumes "pending x (ev # evs)"
  shows "\<exists>x'. GetNext selected got x = Inr (INOTIFY_OK ev, x') \<and> pending x' evs \<and> in_watchers x' = in_watchers x"
proof -
  let ?c = "unat (in_curr_byte x)" and ?r = "unat (in_read_data x)" and ?b = "in_buffer x"
  have ok: "event_ok ev" "list_all event_ok evs" "length ?b = BUFFER_SIZE" and r: "?r \<le> BUFFER_SIZE"
    and enc: "take (?r - ?c) (drop ?c ?b) = encode_event ev @ encode_events evs"
    using assms by (auto simp: pending_def)
  have len: "16 + unat (ev_len ev) + length (encode_events evs) = ?r - ?c"
    using arg_cong [OF enc, of length] length_encode_event [OF ok(1)] ok(3) r by simp
  then have c: "?c + 16 + unat (ev_len ev) \<le> ?r" by linarith
  have b: "?b = take ?c ?b @ encode_event ev @ (encode_events evs @ drop ?r ?b)"
  proof -
    have "?b = take ?c ?b @ take (?r - ?c) (drop ?c ?b) @ drop (?r - ?c) (drop ?c ?b)" by (metis append_take_drop_id)
    then show ?thesis using c enc by simp
  qed
  have event: "event_at ?b ?c = Inr ev"
    using event_at_encode [OF ok(1), of "take ?c ?b" ?c "encode_events evs @ drop ?r ?b"] b c r ok(3) by simp
  let ?c' = "in_curr_byte x + (16 + ucast (ev_len ev))"
  have "unat (16 + ucast (ev_len ev) :: u64) = 16 + unat (ev_len ev)"
    using c r by (simp add: unat_word_ariths unat_ucast_u64 BUFFER_SIZE_def)
  then have c': "unat ?c' = ?c + 16 + unat (ev_len ev)"
    using c r by (simp add: unat_word_ariths BUFFER_SIZE_def)
  have less: "in_curr_byte x < in_read_data x" using c by (simp add: word_less_nat_alt)
  have "take (?r - unat ?c') (drop (unat ?c') ?b) = encode_events evs"
  proof -
    have "drop (unat ?c') ?b = encode_events evs @ drop ?r ?b"
      using arg_cong [OF b, of "drop (length (take ?c ?b) + length (encode_event ev))"] length_encode_event [OF ok(1)] c r ok(3)
      by (simp add: c' add.assoc)
    then show ?thesis using len c' by simp
  qed
  then have "pending (x\<lparr>in_curr_byte := ?c'\<rparr>) evs"
    using ok r c c' by (simp add: pending_def word_le_nat_alt)
  then show ?thesis using event less by (simp add: GetNext_def)
qed

lemma GetNext_reads:
  assumes "pending x []" "selected > 0" "got = Some (encode_events (ev # evs))" "list_all event_ok (ev # evs)"
    "length (encode_events (ev # evs)) \<le> BUFFER_SIZE"
  shows "\<exists>x'. GetNext selected got x = Inr (INOTIFY_OK ev, x') \<and> pending x' evs \<and> in_watchers x' = in_watchers x"
proof -
  let ?bs = "encode_events (ev # evs)"
  let ?x1 = "x\<lparr>in_read_data := of_nat (length ?bs), in_buffer := ?bs @ drop (length ?bs) (in_buffer x)\<rparr>"
  let ?x0 = "?x1\<lparr>in_curr_byte := 0\<rparr>"
  have idle: "\<not> in_curr_byte x < in_read_data x"
    using assms(1) by (auto simp: pending_def BUFFER_SIZE_def word_less_nat_alt word_le_nat_alt)
  have n: "unat (of_nat (length ?bs) :: u64) = length ?bs" using assms(5)
    by (simp add: unat_of_nat BUFFER_SIZE_def del: encode_events_Cons of_nat_add)
  have "length (in_buffer x) = BUFFER_SIZE" using assms(1) by (simp add: pending_def)
  then have "pending ?x0 (ev # evs)"
    unfolding pending_def using assms(4,5) n by (simp del: encode_events_Cons of_nat_add)
  then obtain x' where x': "GetNext selected got ?x0 = Inr (INOTIFY_OK ev, x')" "pending x' evs" "in_watchers x' = in_watchers x"
    using GetNext_pending [of ?x0 ev evs selected got] by auto
  have "unat (of_nat (length ?bs) :: u64) > 0" using n assms(4) by (simp add: length_encode_event)
  then have "0 < (of_nat (length ?bs) :: u64)" by (simp only: word_less_nat_alt) simp
  then have "GetNext selected got x = GetNext selected got ?x0"
    using idle assms(2,3) by (simp add: GetNext_def Let_def del: encode_events_Cons split: sum.split)
  then show ?thesis using x' by simp
qed

text \<open>
  The reader of events is a queue: the events the kernel writes with one \<^verbatim>\<open>read\<close> are returned one at a time, in
  their order and unchanged; the kernel is asked again when all of them have been returned and
  not before, and a timeout or a failing \<^verbatim>\<open>select\<close> leaves the queue empty.
\<close>

theorem GetNext_queue:
  assumes "pending x evs"
  shows "case evs of
      ev # rest \<Rightarrow> (\<exists>x'. GetNext selected got x = Inr (INOTIFY_OK ev, x') \<and> pending x' rest \<and> in_watchers x' = in_watchers x)
    | [] \<Rightarrow>
        (selected = 0 \<longrightarrow> GetNext selected got x = Inr (INOTIFY_TIMEOUT, x)) \<and>
        (selected < 0 \<longrightarrow> GetNext selected got x = Inr (INOTIFY_ERROR, x)) \<and>
        (\<forall>ev rest. selected > 0 \<and> list_all event_ok (ev # rest) \<and> length (encode_events (ev # rest)) \<le> BUFFER_SIZE \<longrightarrow>
          (\<exists>x'. GetNext selected (Some (encode_events (ev # rest))) x = Inr (INOTIFY_OK ev, x') \<and> pending x' rest \<and> in_watchers x' = in_watchers x))"
proof (cases evs)
  case Nil
  then have empty: "pending x []" using assms by simp
  then have "\<not> in_curr_byte x < in_read_data x"
    by (auto simp: pending_def BUFFER_SIZE_def word_less_nat_alt word_le_nat_alt)
  then have "GetNext 0 got x = Inr (INOTIFY_TIMEOUT, x)" "selected < 0 \<Longrightarrow> GetNext selected got x = Inr (INOTIFY_ERROR, x)"
    by (simp_all add: GetNext_def)
  then show ?thesis unfolding Nil list.case using GetNext_reads [OF empty _ refl] by blast
next
  case (Cons ev rest)
  then show ?thesis using GetNext_pending assms by simp
qed

definition example_event :: "u32 \<Rightarrow> inotify_event" where
  "example_event m = \<lparr>ev_wd = 3, ev_mask = m, ev_cookie = 0, ev_len = 4, ev_area = [99, 102, 103, 0]\<rparr>"

lemma pending_init: "pending (mk_Inotify fd) []"
  by (simp add: pending_def mk_Inotify_def)

theorem GetNext_queue_witness:
  "\<exists>x'. GetNext 1 (Some (encode_events [example_event 2, example_event 4])) (mk_Inotify 7) = Inr (INOTIFY_OK (example_event 2), x') \<and>
    pending x' [example_event 4]"
proof -
  have "list_all event_ok [example_event 2, example_event 4]" by (simp add: event_ok_def example_event_def)
  moreover have "length (encode_events [example_event 2, example_event 4]) \<le> BUFFER_SIZE" by code_simp
  ultimately show ?thesis
    using GetNext_queue [OF pending_init, of 1 None 7] unfolding list.case by (metis zero_less_one)
qed

text \<open>
  A failing \<^verbatim>\<open>read\<close> is not noticed: the count is unsigned, so the test for a negative count is never true. The reader
  then returns the event at the start of the old buffer again, and it does not ask the
  kernel any more, whatever happens there, but walks on through the old bytes; in a buffer of zeros the walk ends in an exception.
\<close>

theorem failed_read_unnoticed:
  assumes "pending x []" "selected > 0" "event_at (in_buffer x) 0 = Inr ev"
    "GetNext selected None x = Inr (res, x')"
  shows "res = INOTIFY_OK ev \<and>
    (in_curr_byte x' < in_read_data x') \<and> GetNext s1 g1 x' = GetNext s2 g2 x' \<and>
    GetNext s1 g1 ((mk_Inotify fd)\<lparr>in_read_data := - 1, in_curr_byte := 1024\<rparr>) = Inl Out_of_range"
proof -
  have idle: "\<not> in_curr_byte x < in_read_data x"
    using assms(1) by (auto simp: pending_def BUFFER_SIZE_def word_less_nat_alt word_le_nat_alt)
  then have run: "res = INOTIFY_OK ev" "x' = x\<lparr>in_read_data := - 1, in_curr_byte := 16 + ucast (ev_len ev)\<rparr>"
    using assms(2-4) by (auto simp: GetNext_def Let_def)
  have "unat (16 + ucast (ev_len ev) :: u64) < 2 ^ 64 - 1"
    using unsigned_less [of "ev_len ev", where ?'a = nat]
    by (simp add: unat_word_ariths unat_ucast_u64)
  then have "in_curr_byte x' < in_read_data x'" unfolding run by (simp add: word_less_nat_alt unsigned_minus_1_eq_mask mask_eq_exp_minus_1)
  moreover have "(1024 :: u64) < - 1" by (simp add: word_less_nat_alt unsigned_minus_1_eq_mask mask_eq_exp_minus_1)
  then have "GetNext s1 g1 ((mk_Inotify fd)\<lparr>in_read_data := - 1, in_curr_byte := 1024\<rparr>) = Inl Out_of_range"
    by (simp add: GetNext_def event_at_def BUFFER_SIZE_def)
  ultimately show ?thesis using run(1) by (simp add: GetNext_def)
qed

lemma word_of_mem_zeros [simp]: "word_of_mem (replicate n 0) = 0"
  by (induction n) simp_all

lemma event_at_zeros: "event_at (replicate BUFFER_SIZE 0) 0 = Inr \<lparr>ev_wd = 0, ev_mask = 0, ev_cookie = 0, ev_len = 0, ev_area = []\<rparr>"
  by (simp add: event_at_def BUFFER_SIZE_def u32_at_def)

theorem failed_read_unnoticed_witness:
  "\<exists>ev x'. GetNext 1 None (mk_Inotify 7) = Inr (INOTIFY_OK ev, x') \<and> GetNext 0 None x' = GetNext (- 1) None x'"
proof -
  let ?ev = "\<lparr>ev_wd = 0, ev_mask = 0, ev_cookie = 0, ev_len = 0, ev_area = []\<rparr>"
  have buf: "event_at (in_buffer (mk_Inotify 7)) 0 = Inr ?ev" by (simp add: mk_Inotify_def event_at_zeros)
  have run: "\<exists>res x'. GetNext 1 None (mk_Inotify 7) = Inr (res, x')"
    by (simp add: GetNext_def mk_Inotify_def event_at_zeros)
  then obtain res x' where "GetNext 1 None (mk_Inotify 7) = Inr (res, x')" by blast
  then show ?thesis using failed_read_unnoticed [OF pending_init _ buf, of 1 res x' 0 None "- 1" None] by auto
qed

section \<open>The store of watchers\<close>

lemma find_pos_Some: "find_pos P xs = Some i \<Longrightarrow> i < length xs \<and> P (xs ! i)"
  by (induction xs arbitrary: i) (auto split: if_splits)

lemma find_pos_None: "find_pos P xs = None \<longleftrightarrow> list_all (\<lambda>x. \<not> P x) xs"
  by (induction xs) auto

definition store_ok :: "Inotify \<Rightarrow> bool" where
  "store_ok x \<longleftrightarrow> distinct (map w_path (in_watchers x)) \<and> list_all (\<lambda>w. w_wd w \<ge> 0) (in_watchers x)"

text \<open>The watcher the store has for a path.\<close>

definition watcher_of :: "Inotify \<Rightarrow> string \<Rightarrow> Watcher option" where
  "watcher_of x p = find (\<lambda>w. w_path w = p) (in_watchers x)"

lemma find_distinct:
  "distinct (map f xs) \<Longrightarrow> find (\<lambda>x. f x = p) xs = Some w \<longleftrightarrow> w \<in> set xs \<and> f w = p"
  by (induction xs) (auto simp: rev_image_eqI)

lemma watcher_of_iff: "store_ok x \<Longrightarrow> watcher_of x p = Some w \<longleftrightarrow> w \<in> set (in_watchers x) \<and> w_path w = p"
  unfolding watcher_of_def store_ok_def using find_distinct [of w_path] by blast

lemma watcher_of_eqI:
  assumes "store_ok x" "store_ok y"
    "\<And>w. w_path w = p \<Longrightarrow> w \<in> set (in_watchers x) \<longleftrightarrow> w \<in> set (in_watchers y)"
  shows "watcher_of x p = watcher_of y p"
  using watcher_of_iff [OF assms(1)] watcher_of_iff [OF assms(2)] assms(3) by (metis option.exhaust)

lemma AddWatcher_store:
  assumes "store_ok x" "AddWatcher add p flags tag x = (wd, x')"
  shows "store_ok x'" "add p flags \<ge> 0 \<Longrightarrow> watcher_of x' p = Some \<lparr>w_wd = add p flags, w_path = p, w_tag = tag\<rparr>"
    "q \<noteq> p \<Longrightarrow> watcher_of x' q = watcher_of x q"
proof -
  let ?ws = "in_watchers x" and ?new = "\<lparr>w_wd = add p flags, w_path = p, w_tag = tag\<rparr>"
  have dist: "distinct (map w_path ?ws)" "distinct ?ws" and wds: "list_all (\<lambda>w. w_wd w \<ge> 0) ?ws"
    using assms(1) by (auto simp: store_ok_def distinct_map)
  have main: "store_ok x' \<and> (add p flags \<ge> 0 \<longrightarrow> ?new \<in> set (in_watchers x')) \<and>
    (\<forall>w. w_path w \<noteq> p \<longrightarrow> w \<in> set (in_watchers x') \<longleftrightarrow> w \<in> set ?ws)"
  proof (cases "add p flags < 0")
    case True
    then show ?thesis using assms by (simp add: AddWatcher_def)
  next
    case False
    show ?thesis
    proof (cases "FindWatcher_path p x")
      case None
      then have "x' = x\<lparr>in_watchers := ?ws @ [?new]\<rparr>" using assms(2) False by (auto simp: AddWatcher_def Let_def)
      moreover have "p \<notin> w_path ` set ?ws" using None by (auto simp: FindWatcher_path_def find_pos_None list_all_iff)
      ultimately show ?thesis using dist wds False by (auto simp: store_ok_def)
    next
      case (Some i)
      then have i: "i < length ?ws" "w_path (?ws ! i) = p" using find_pos_Some by (fastforce simp: FindWatcher_path_def)+
      then have new: "(?ws ! i)\<lparr>w_wd := add p flags, w_tag := tag\<rparr> = ?new" by (cases "?ws ! i") simp
      have x': "x' = x\<lparr>in_watchers := ?ws[i := ?new]\<rparr>"
      proof -
        have "w_wd (?ws ! i) = add p flags \<Longrightarrow> (?ws ! i)\<lparr>w_tag := tag\<rparr> = ?new"
          using i(2) by (cases "?ws ! i") simp
        then show ?thesis using assms(2) False Some new by (clarsimp simp: AddWatcher_def Let_def split: if_splits)
      qed
      have "map w_path (?ws[i := ?new]) = map w_path ?ws" using i by (simp add: map_update list_update_same_conv)
      moreover have "set (?ws[i := ?new]) = insert ?new (set ?ws - {?ws ! i})"
        by (rule set_update_distinct [OF dist(2) i(1)])
      ultimately show ?thesis using dist wds False i x' by (auto simp: store_ok_def list_all_iff)
    qed
  qed
  then show ok: "store_ok x'" by blast
  show "add p flags \<ge> 0 \<Longrightarrow> watcher_of x' p = Some ?new" using main watcher_of_iff [OF ok] by simp
  show "q \<noteq> p \<Longrightarrow> watcher_of x' q = watcher_of x q" using main by (intro watcher_of_eqI [OF ok assms(1)]) auto
qed

lemma RemoveWatcher_store:
  assumes "store_ok x" "i < length (in_watchers x)"
  shows "store_ok (RemoveWatcher (Some i) x)" "watcher_of (RemoveWatcher (Some i) x) (w_path (in_watchers x ! i)) = None"
    "q \<noteq> w_path (in_watchers x ! i) \<Longrightarrow> watcher_of (RemoveWatcher (Some i) x) q = watcher_of x q"
proof -
  let ?ws = "in_watchers x" and ?x = "RemoveWatcher (Some i) x"
  have split: "?ws = take i ?ws @ ?ws ! i # drop (Suc i) ?ws" using id_take_nth_drop assms(2) by blast
  have x': "in_watchers ?x = take i ?ws @ drop (Suc i) ?ws" by (simp add: RemoveWatcher_def)
  have dist: "distinct (map w_path (take i ?ws @ ?ws ! i # drop (Suc i) ?ws))" using assms(1) split by (simp add: store_ok_def)
  show ok: "store_ok ?x"
    using dist assms(1) by (auto simp: store_ok_def x' list_all_iff dest: in_set_takeD in_set_dropD)
  have gone: "w \<in> set (in_watchers ?x) \<longleftrightarrow> w \<in> set ?ws \<and> w_path w \<noteq> w_path (?ws ! i)" for w
    using dist arg_cong [OF split, of set] by (auto simp: x' simp flip: image_iff dest: rev_image_eqI [of w _ "w_path (?ws ! i)" w_path])
  then show "watcher_of ?x (w_path (?ws ! i)) = None" using watcher_of_iff [OF ok] by (metis option.exhaust)
  show "q \<noteq> w_path (?ws ! i) \<Longrightarrow> watcher_of ?x q = watcher_of x q"
    using gone by (intro watcher_of_eqI [OF ok assms(1)]) auto
qed

section \<open>The loader\<close>

text \<open>While the loop runs the directory of the file is watched.\<close>

definition dir_watched :: "'v loader \<Rightarrow> bool" where
  "dir_watched l \<longleftrightarrow> (\<exists>w. watcher_of (ld_inotify l) (ld_dir l) = Some w \<and> w_tag w = LOADER_PARENT_PATH)"

definition loader_ok :: "'v loader \<Rightarrow> bool" where
  "loader_ok l \<longleftrightarrow> store_ok (ld_inotify l) \<and> dir_watched l"

text \<open>The file of the configuration does not resolve to its own directory.\<close>

definition fs_ok :: "string \<Rightarrow> file_system \<Rightarrow> bool" where
  "fs_ok dir fs \<longleftrightarrow> (\<forall>p. fs_canonical fs p \<noteq> Some dir)"

lemma load_now_frame:
  "load_now le fs l = Inr l' \<Longrightarrow> ld_inotify l' = ld_inotify l \<and> ld_dir l' = ld_dir l \<and> ld_name l' = ld_name l"
  by (auto simp: load_now_def split: sum.splits)

lemma file_not_dir: "ld_file l \<noteq> ld_dir l"
  by (simp add: ld_file_def)

lemma watch_file_ok:
  assumes "loader_ok l" "p \<noteq> ld_dir l"
  shows "loader_ok (watch_file fs p tag l)"
proof -
  obtain wd x' where add: "AddWatcher (fs_add_watch fs) p FILE_FLAGS tag (ld_inotify l) = (wd, x')" by fastforce
  have "store_ok (ld_inotify l)" using assms(1) by (simp add: loader_ok_def)
  from AddWatcher_store(1,3) [OF this add] show ?thesis
    using assms by (simp add: loader_ok_def dir_watched_def watch_file_def AddFileWatcher_def add)
qed

lemma watch_file_dir [simp]: "ld_dir (watch_file fs p tag l) = ld_dir l" "ld_name (watch_file fs p tag l) = ld_name l"
    "ld_config (watch_file fs p tag l) = ld_config l" "ld_file (watch_file fs p tag l) = ld_file l"
  by (simp_all add: watch_file_def ld_file_def)

lemma watch_realpath_ok:
  assumes "watch_realpath fs p l = Inr l'" "fs_ok (ld_dir l) fs"
  shows "(loader_ok l \<longrightarrow> loader_ok l') \<and> ld_dir l' = ld_dir l \<and> ld_name l' = ld_name l \<and> ld_config l' = ld_config l"
proof -
  obtain q where q: "fs_canonical fs p = Some q" "l' = watch_file fs q LOADER_CONFIG_REALPATH l"
    using assms(1) by (auto simp: watch_realpath_def split: option.splits)
  then have "q \<noteq> ld_dir l" using assms(2) by (auto simp: fs_ok_def)
  then show ?thesis using q(2) watch_file_ok [of l q] by simp
qed

lemma watch_realpath_if_symlink_ok:
  assumes "watch_realpath_if_symlink fs p l = Inr l'" "fs_ok (ld_dir l) fs"
  shows "(loader_ok l \<longrightarrow> loader_ok l') \<and> ld_dir l' = ld_dir l \<and> ld_name l' = ld_name l \<and> ld_config l' = ld_config l"
  using assms watch_realpath_ok by (auto simp: watch_realpath_if_symlink_def split: if_splits)

lemma load_now_ok: "load_now le fs l = Inr l' \<Longrightarrow> loader_ok l' = loader_ok l \<and> ld_dir l' = ld_dir l"
  by (auto simp: loader_ok_def dir_watched_def dest: load_now_frame)

lemma remove_ok:
  assumes "loader_ok l" "i < length (in_watchers (ld_inotify l))" "w_path (in_watchers (ld_inotify l) ! i) \<noteq> ld_dir l"
  shows "loader_ok (ResetRuntimeConfig (l\<lparr>ld_inotify := RemoveWatcher (Some i) (ld_inotify l)\<rparr>))"
  using assms RemoveWatcher_store [of "ld_inotify l" i]
  by (auto simp: loader_ok_def dir_watched_def ResetRuntimeConfig_def)

lemma other_tag_not_dir:
  assumes "loader_ok l" "w \<in> set (in_watchers (ld_inotify l))" "w_tag w \<noteq> LOADER_PARENT_PATH"
  shows "w_path w \<noteq> ld_dir l"
proof
  assume dir: "w_path w = ld_dir l"
  have ok: "store_ok (ld_inotify l)" using assms(1) by (simp add: loader_ok_def)
  have "watcher_of (ld_inotify l) (ld_dir l) = Some w" using watcher_of_iff [OF ok] assms(2) dir by simp
  then show False using assms(1,3) by (simp add: loader_ok_def dir_watched_def)
qed

lemma map_sum_Inr: "map_sum f g s = Inr y \<longleftrightarrow> (\<exists>z. s = Inr z \<and> y = g z)"
  by (cases s) auto

lemma HandleConfigDirectoryEvent_ok:
  assumes "loader_ok l" "fs_ok (ld_dir l) fs" "HandleConfigDirectoryEvent le fs ev l = Inr (going, l')"
  shows "loader_ok l' \<and> ld_dir l' = ld_dir l"
proof -
  have rm: "loader_ok (ResetRuntimeConfig (l\<lparr>ld_inotify := RemoveWatcher it (ld_inotify l)\<rparr>))"
    if it: "it = FindWatcher_path (ld_file l) (ld_inotify l)" for it
  proof (cases it)
    case None
    then show ?thesis using assms(1) by (simp add: RemoveWatcher_def ResetRuntimeConfig_def loader_ok_def dir_watched_def)
  next
    case (Some i)
    then have "i < length (in_watchers (ld_inotify l)) \<and> w_path (in_watchers (ld_inotify l) ! i) = ld_file l"
      using it find_pos_Some [of _ _ i] by (simp add: FindWatcher_path_def)
    then show ?thesis using Some remove_ok [OF assms(1), of i] file_not_dir [of l] by simp
  qed
  have add: "loader_ok (watch_file fs (ld_file l) LOADER_CONFIG_FILE l)" using watch_file_ok [OF assms(1) file_not_dir] .
  from assms(3) consider (same) "l' = l"
    | (create) l1 where "load_now le fs (watch_file fs (ld_file l) LOADER_CONFIG_FILE l) = Inr l1"
        "watch_realpath_if_symlink fs (ld_file l) l1 = Inr l'"
    | (delete) "l' = ResetRuntimeConfig (l\<lparr>ld_inotify := RemoveWatcher (FindWatcher_path (ld_file l) (ld_inotify l)) (ld_inotify l)\<rparr>)"
    by (auto simp: HandleConfigDirectoryEvent_def map_sum_Inr split: if_splits sum.splits)
  then show ?thesis
  proof cases
    case create
    then have "loader_ok l1" "ld_dir l1 = ld_dir l" using load_now_ok [OF create(1)] add by simp_all
    then show ?thesis using watch_realpath_if_symlink_ok [OF create(2)] assms(2) by simp
  qed (use assms(1) rm in \<open>simp_all add: ResetRuntimeConfig_def\<close>)
qed

lemma HandleConfigFileEvent_ok:
  assumes "loader_ok l" "fs_ok (ld_dir l) fs" "w < length (in_watchers (ld_inotify l))"
    "w_tag (in_watchers (ld_inotify l) ! w) \<noteq> LOADER_PARENT_PATH" "HandleConfigFileEvent le fs ev w l = Inr l'"
  shows "loader_ok l' \<and> ld_dir l' = ld_dir l"
proof -
  let ?p = "w_path (in_watchers (ld_inotify l) ! w)"
  have p: "?p \<noteq> ld_dir l" using other_tag_not_dir [OF assms(1) _ assms(4)] assms(3) by simp
  from assms(5) consider (same) "l' = l"
    | (modify) l1 where "watch_realpath_if_symlink fs ?p l = Inr l1" "load_now le fs l1 = Inr l'"
    | (again) l1 where "watch_realpath_if_symlink fs ?p (watch_file fs ?p LOADER_CONFIG_FILE l) = Inr l1" "load_now le fs l1 = Inr l'"
    | (gone) "l' = ResetRuntimeConfig (l\<lparr>ld_inotify := RemoveWatcher (Some w) (ld_inotify l)\<rparr>)"
    by (auto simp: HandleConfigFileEvent_def Let_def split: if_splits sum.splits)
  then show ?thesis
  proof cases
    case modify
    then show ?thesis using watch_realpath_if_symlink_ok [OF modify(1)] assms(1,2) load_now_ok [OF modify(2)] by simp
  next
    case again
    then show ?thesis
      using watch_realpath_if_symlink_ok [OF again(1)] watch_file_ok [OF assms(1) p, of fs] assms(2) load_now_ok [OF again(2)] by simp
  qed (use assms(1) remove_ok [OF assms(1,3) p] in \<open>simp_all add: ResetRuntimeConfig_def\<close>)
qed

lemma HandleConfigRealpathEvent_ok:
  assumes "loader_ok l" "fs_ok (ld_dir l) fs" "w < length (in_watchers (ld_inotify l))"
    "w_tag (in_watchers (ld_inotify l) ! w) \<noteq> LOADER_PARENT_PATH" "HandleConfigRealpathEvent le fs ev w l = Inr l'"
  shows "loader_ok l' \<and> ld_dir l' = ld_dir l"
proof -
  have p: "w_path (in_watchers (ld_inotify l) ! w) \<noteq> ld_dir l" using other_tag_not_dir [OF assms(1) _ assms(4)] assms(3) by simp
  have "l' = l \<or> load_now le fs l = Inr l' \<or>
      (\<exists>l1. watch_realpath fs (ld_file l) l = Inr l1 \<and> load_now le fs l1 = Inr l') \<or>
      l' = ResetRuntimeConfig (l\<lparr>ld_inotify := RemoveWatcher (Some w) (ld_inotify l)\<rparr>)"
    using assms(5) by (simp add: HandleConfigRealpathEvent_def split: if_splits sum.splits)
  then consider (same) "l' = l" | (modify) "load_now le fs l = Inr l'"
    | (again) l1 where "watch_realpath fs (ld_file l) l = Inr l1" "load_now le fs l1 = Inr l'"
    | (gone) "l' = ResetRuntimeConfig (l\<lparr>ld_inotify := RemoveWatcher (Some w) (ld_inotify l)\<rparr>)"
    by blast
  then show ?thesis
  proof cases
    case modify
    then show ?thesis using assms(1) load_now_ok [OF modify] by simp
  next
    case again
    then show ?thesis using watch_realpath_ok [OF again(1)] assms(1,2) load_now_ok [OF again(2)] by simp
  qed (use assms(1) remove_ok [OF assms(1,3) p] in \<open>simp_all add: ResetRuntimeConfig_def\<close>)
qed

lemma HandleEvent_ok:
  assumes "loader_ok l" "fs_ok (ld_dir l) fs" "HandleEvent le fs ev l = Inr (going, l')"
  shows "loader_ok l' \<and> ld_dir l' = ld_dir l"
proof (cases "FindWatcher_wd (event_wd ev) (ld_inotify l)")
  case None
  then show ?thesis using assms by (simp add: HandleEvent_def)
next
  case (Some w)
  then have w: "w < length (in_watchers (ld_inotify l))" using find_pos_Some by (fastforce simp: FindWatcher_wd_def)
  show ?thesis
    using assms(3) Some HandleConfigDirectoryEvent_ok [OF assms(1,2)] HandleConfigFileEvent_ok [OF assms(1,2) w]
      HandleConfigRealpathEvent_ok [OF assms(1,2) w] assms(1)
    by (auto simp: HandleEvent_def Let_def map_sum_Inr loader_tags split: if_splits)
qed

text \<open>
  (C23) The watchers stay consistent over any run of the loop and any changes of the file system: no path has two
  watchers, every watch descriptor is one the kernel gave, and the directory of the configuration file stays
  watched, so that a new file is noticed as long as the loop runs.
\<close>

theorem watch_loop_invariant:
  assumes "loader_ok l" "list_all (\<lambda>(fs, res). fs_ok (ld_dir l) fs) steps" "watch_loop le steps l = Inr l'"
  shows "distinct (map w_path (in_watchers (ld_inotify l'))) \<and> list_all (\<lambda>w. w_wd w \<ge> 0) (in_watchers (ld_inotify l')) \<and>
    (\<exists>w. watcher_of (ld_inotify l') (ld_dir l) = Some w \<and> w_tag w = LOADER_PARENT_PATH)"
proof -
  have "loader_ok l' \<and> ld_dir l' = ld_dir l"
    using assms
  proof (induction le steps l rule: watch_loop.induct)
    case (2 le fs res steps l)
    show ?case
    proof (cases res)
      case (INOTIFY_OK ev)
      then obtain going l1 where run: "HandleEvent le fs ev l = Inr (going, l1)" using "2.prems"(3) by (auto split: sum.splits)
      have ok: "loader_ok l1 \<and> ld_dir l1 = ld_dir l" using HandleEvent_ok [OF "2.prems"(1) _ run] "2.prems"(2) by simp
      show ?thesis
      proof (cases going)
        case True
        then show ?thesis using "2.IH"(1) [OF INOTIFY_OK run refl] "2.prems"(2,3) ok run INOTIFY_OK by simp
      qed (use "2.prems"(3) ok run INOTIFY_OK in simp)
    qed (use 2 in simp_all)
  qed simp
  then show ?thesis by (auto simp: loader_ok_def store_ok_def dir_watched_def)
qed

definition example_fs :: file_system where
  "example_fs =
     \<lparr>fs_exists = (\<lambda>p. True), fs_is_symlink = (\<lambda>p. False), fs_canonical = (\<lambda>p. None),
      fs_load = (\<lambda>p. Inr (YMap [(''networking'', YMap [(''maxConnectionsPerMinute'', YScalar ''7'')])])),
      fs_add_watch = (\<lambda>p flags. int (length p))\<rparr>"

definition example_env :: "string load_env" where
  "example_env = \<lparr>le_lib = example_lib, le_parser = example_parser PERMISSIVE, le_fields = example_fields\<rparr>"

definition example_loader :: "string loader" where
  "example_loader =
     \<lparr>ld_dir = ''dir'', ld_name = ''cfg'',
      ld_inotify = (mk_Inotify 9)\<lparr>in_watchers := [\<lparr>w_wd = 3, w_path = ''dir'', w_tag = LOADER_PARENT_PATH\<rparr>]\<rparr>, ld_config = None\<rparr>"

lemma example_loader_ok: "loader_ok example_loader"
  by (simp add: loader_ok_def store_ok_def dir_watched_def watcher_of_def example_loader_def)

lemma example_fs_ok: "fs_ok dir example_fs"
  by (simp add: fs_ok_def example_fs_def)

theorem watch_loop_invariant_witness:
  "\<exists>l'. watch_loop example_env [(example_fs, INOTIFY_OK (example_event IN_DELETE)), (example_fs, INOTIFY_TIMEOUT)] example_loader =
      Inr l' \<and> distinct (map w_path (in_watchers (ld_inotify l')))"
proof -
  let ?steps = "[(example_fs, INOTIFY_OK (example_event IN_DELETE)), (example_fs, INOTIFY_TIMEOUT)]"
  have "\<exists>l'. watch_loop example_env ?steps example_loader = Inr l'"
    by (simp add: HandleEvent_def HandleConfigDirectoryEvent_def FindWatcher_wd_def event_wd_def example_event_def
        example_loader_def event_has_def in_flags loader_tags Let_def)
  then obtain l' where run: "watch_loop example_env ?steps example_loader = Inr l'" ..
  then show ?thesis using watch_loop_invariant [OF example_loader_ok _ run] by (simp add: example_fs_ok)
qed

section \<open>What the events do to the configuration\<close>

text \<open>The configuration after a reload: what the file says, or the one before when the file has errors.\<close>

definition new_config :: "'v load_env \<Rightarrow> file_system \<Rightarrow> 'v loader \<Rightarrow> 'v message option" where
  "new_config le fs l =
     (case Parse_file (le_lib le) (le_parser le) (le_fields le) (fs_load fs (ld_file l)) (NewRuntimeConfig (le_lib le)) of
        Inr ([], m) \<Rightarrow> Some m
      | _ \<Rightarrow> ld_config l)"

definition parses :: "'v load_env \<Rightarrow> file_system \<Rightarrow> 'v loader \<Rightarrow> bool" where
  "parses le fs l \<longleftrightarrow>
     (\<exists>r. Parse_file (le_lib le) (le_parser le) (le_fields le) (fs_load fs (ld_file l)) (NewRuntimeConfig (le_lib le)) = Inr r)"

lemma load_now_new_config:
  assumes "fs_exists fs (ld_file l)" "parses le fs l"
  shows "load_now le fs l = Inr (l\<lparr>ld_config := new_config le fs l\<rparr>)"
proof -
  obtain errors m where "Parse_file (le_lib le) (le_parser le) (le_fields le) (fs_load fs (ld_file l)) (NewRuntimeConfig (le_lib le)) =
      Inr (errors, m)" using assms(2) by (auto simp: parses_def)
  then show ?thesis using assms(1) by (cases errors) (simp_all add: load_now_def LoadConfiguration_def new_config_def Let_def)
qed

lemma new_config_cong:
  "ld_file l' = ld_file l \<Longrightarrow> ld_config l' = ld_config l \<Longrightarrow> new_config le fs l' = new_config le fs l \<and> parses le fs l' = parses le fs l"
  by (simp add: new_config_def parses_def split: sum.split list.split)

text \<open>No symbolic link is dangling, and none leads to the name of the configuration file.\<close>

definition links_resolve :: "file_system \<Rightarrow> 'v loader \<Rightarrow> bool" where
  "links_resolve fs l \<longleftrightarrow> (\<forall>p. fs_is_symlink fs p \<longrightarrow> (\<exists>q. fs_canonical fs p = Some q \<and> q \<noteq> ld_file l))"

lemma watch_realpath_if_symlink_total:
  assumes "links_resolve fs l" "store_ok (ld_inotify l)"
  shows "\<exists>x. watch_realpath_if_symlink fs p l = Inr (l\<lparr>ld_inotify := x\<rparr>) \<and> store_ok x \<and>
    watcher_of x (ld_file l) = watcher_of (ld_inotify l) (ld_file l)"
proof (cases "fs_is_symlink fs p")
  case True
  then obtain q where q: "fs_canonical fs p = Some q" "q \<noteq> ld_file l" using assms(1) by (auto simp: links_resolve_def)
  obtain wd x where add: "AddWatcher (fs_add_watch fs) q FILE_FLAGS LOADER_CONFIG_REALPATH (ld_inotify l) = (wd, x)" by fastforce
  then show ?thesis
    using True q AddWatcher_store [OF assms(2) add]
    by (intro exI [of _ x]) (simp add: watch_realpath_if_symlink_def watch_realpath_def watch_file_def AddFileWatcher_def)
next
  case False
  then show ?thesis using assms(2) by (intro exI [of _ "ld_inotify l"]) (simp add: watch_realpath_if_symlink_def)
qed

lemma watch_file_watcher:
  assumes "store_ok (ld_inotify l)" "fs_add_watch fs p FILE_FLAGS \<ge> 0"
  shows "store_ok (ld_inotify (watch_file fs p tag l))"
    "watcher_of (ld_inotify (watch_file fs p tag l)) p = Some \<lparr>w_wd = fs_add_watch fs p FILE_FLAGS, w_path = p, w_tag = tag\<rparr>"
proof -
  obtain wd x where add: "AddWatcher (fs_add_watch fs) p FILE_FLAGS tag (ld_inotify l) = (wd, x)" by fastforce
  show "store_ok (ld_inotify (watch_file fs p tag l))"
    "watcher_of (ld_inotify (watch_file fs p tag l)) p = Some \<lparr>w_wd = fs_add_watch fs p FILE_FLAGS, w_path = p, w_tag = tag\<rparr>"
    using AddWatcher_store [OF assms(1) add] assms(2) by (simp_all add: watch_file_def AddFileWatcher_def add)
qed

lemma create_event:
  assumes "loader_ok l" "links_resolve fs l" "fs_exists fs (ld_file l)" "parses le fs l" "fs_add_watch fs (ld_file l) FILE_FLAGS \<ge> 0"
    "\<not> event_has ev (IN_MOVE_SELF OR IN_DELETE_SELF)" "ld_name l = event_name ev" "event_has ev (IN_CREATE OR IN_MOVED_TO)"
  shows "\<exists>l'. HandleConfigDirectoryEvent le fs ev l = Inr (True, l') \<and> ld_config l' = new_config le fs l \<and>
    watcher_of (ld_inotify l') (ld_file l) =
      Some \<lparr>w_wd = fs_add_watch fs (ld_file l) FILE_FLAGS, w_path = ld_file l, w_tag = LOADER_CONFIG_FILE\<rparr>"
proof -
  let ?l1 = "watch_file fs (ld_file l) LOADER_CONFIG_FILE l"
  let ?l2 = "?l1\<lparr>ld_config := new_config le fs l\<rparr>"
  have store: "store_ok (ld_inotify l)" using assms(1) by (simp add: loader_ok_def)
  note w = watch_file_watcher [OF store assms(5), of LOADER_CONFIG_FILE]
  have load: "load_now le fs ?l1 = Inr ?l2"
    using load_now_new_config [of fs ?l1 le] assms(3,4) new_config_cong [of ?l1 l] by simp
  have "links_resolve fs ?l2" "ld_file ?l2 = ld_file l" using assms(2) by (simp_all add: links_resolve_def ld_file_def)
  then obtain x where "watch_realpath_if_symlink fs (ld_file l) ?l2 = Inr (?l2\<lparr>ld_inotify := x\<rparr>)"
    "watcher_of x (ld_file l) = watcher_of (ld_inotify ?l1) (ld_file l)"
    using watch_realpath_if_symlink_total [of fs ?l2 "ld_file l"] w(1) by auto
  then show ?thesis using assms(6-8) load w(2) by (simp add: HandleConfigDirectoryEvent_def)
qed

lemma file_event:
  assumes "loader_ok l" "links_resolve fs l" "fs_exists fs (ld_file l)" "parses le fs l" "event_has ev IN_MODIFY"
  shows "\<exists>l'. HandleConfigFileEvent le fs ev w l = Inr l' \<and> ld_config l' = new_config le fs l"
    "\<exists>l'. HandleConfigRealpathEvent le fs ev w l = Inr l' \<and> ld_config l' = new_config le fs l"
proof -
  have store: "store_ok (ld_inotify l)" using assms(1) by (simp add: loader_ok_def)
  obtain x where x: "watch_realpath_if_symlink fs (w_path (in_watchers (ld_inotify l) ! w)) l = Inr (l\<lparr>ld_inotify := x\<rparr>)"
    using watch_realpath_if_symlink_total [OF assms(2) store] by blast
  have same: "ld_file (l\<lparr>ld_inotify := x\<rparr>) = ld_file l" by (simp add: ld_file_def)
  show "\<exists>l'. HandleConfigFileEvent le fs ev w l = Inr l' \<and> ld_config l' = new_config le fs l"
    using load_now_new_config [of fs "l\<lparr>ld_inotify := x\<rparr>" le] new_config_cong [OF same] assms(3-5) same x
    by (simp add: HandleConfigFileEvent_def Let_def)
  show "\<exists>l'. HandleConfigRealpathEvent le fs ev w l = Inr l' \<and> ld_config l' = new_config le fs l"
    using load_now_new_config [OF assms(3,4)] assms(5) by (simp add: HandleConfigRealpathEvent_def)
qed

text \<open>
  (C12) The configuration follows the file. When the file appears in its directory the loader watches it and
  loads it; when the file or what it links to is modified the loader loads it again; when it
  is deleted the configuration is reset and the file is no longer watched. A file with errors leaves the
  configuration as it was. No symbolic link may be dangling, and the parser must not fail.
\<close>

theorem reload_exact:
  assumes "loader_ok l" "links_resolve fs l" "FindWatcher_wd (event_wd ev) (ld_inotify l) = Some w"
    "w_tag (in_watchers (ld_inotify l) ! w) = tag" "fs_add_watch fs (ld_file l) FILE_FLAGS \<ge> 0" "parses le fs l"
  shows "(tag = LOADER_PARENT_PATH \<and> ev_mask ev = IN_CREATE \<and> event_name ev = ld_name l \<and> fs_exists fs (ld_file l) \<longrightarrow>
      (\<exists>l'. HandleEvent le fs ev l = Inr (True, l') \<and> ld_config l' = new_config le fs l \<and>
        watcher_of (ld_inotify l') (ld_file l) =
          Some \<lparr>w_wd = fs_add_watch fs (ld_file l) FILE_FLAGS, w_path = ld_file l, w_tag = LOADER_CONFIG_FILE\<rparr>)) \<and>
    (tag \<in> {LOADER_CONFIG_FILE, LOADER_CONFIG_REALPATH} \<and> ev_mask ev = IN_MODIFY \<and> fs_exists fs (ld_file l) \<longrightarrow>
      (\<exists>l'. HandleEvent le fs ev l = Inr (True, l') \<and> ld_config l' = new_config le fs l)) \<and>
    (tag = LOADER_PARENT_PATH \<and> ev_mask ev = IN_DELETE \<and> event_name ev = ld_name l \<longrightarrow>
      (\<exists>l'. HandleEvent le fs ev l = Inr (True, l') \<and> ld_config l' = None \<and> watcher_of (ld_inotify l') (ld_file l) = None))"
proof (intro conjI impI)
  assume "tag = LOADER_PARENT_PATH \<and> ev_mask ev = IN_CREATE \<and> event_name ev = ld_name l \<and> fs_exists fs (ld_file l)"
  then show "\<exists>l'. HandleEvent le fs ev l = Inr (True, l') \<and> ld_config l' = new_config le fs l \<and>
        watcher_of (ld_inotify l') (ld_file l) =
          Some \<lparr>w_wd = fs_add_watch fs (ld_file l) FILE_FLAGS, w_path = ld_file l, w_tag = LOADER_CONFIG_FILE\<rparr>"
    using create_event [OF assms(1,2) _ assms(6,5), of ev] assms(3,4)
    by (simp add: HandleEvent_def event_has_def in_flags Let_def)
next
  assume "tag \<in> {LOADER_CONFIG_FILE, LOADER_CONFIG_REALPATH} \<and> ev_mask ev = IN_MODIFY \<and> fs_exists fs (ld_file l)"
  then show "\<exists>l'. HandleEvent le fs ev l = Inr (True, l') \<and> ld_config l' = new_config le fs l"
    using file_event [OF assms(1,2) _ assms(6), of ev w] assms(3,4)
    by (auto simp: HandleEvent_def event_has_def in_flags loader_tags Let_def)
next
  assume gone: "tag = LOADER_PARENT_PATH \<and> ev_mask ev = IN_DELETE \<and> event_name ev = ld_name l"
  let ?it = "FindWatcher_path (ld_file l) (ld_inotify l)"
  have store: "store_ok (ld_inotify l)" using assms(1) by (simp add: loader_ok_def)
  have "watcher_of (RemoveWatcher ?it (ld_inotify l)) (ld_file l) = None"
  proof (cases ?it)
    case None
    then have "\<forall>v \<in> set (in_watchers (ld_inotify l)). w_path v \<noteq> ld_file l"
      by (simp add: FindWatcher_path_def find_pos_None list_all_iff)
    then show ?thesis using None by (simp add: RemoveWatcher_def watcher_of_def find_None_iff)
  next
    case (Some i)
    then have "i < length (in_watchers (ld_inotify l))" "w_path (in_watchers (ld_inotify l) ! i) = ld_file l"
      using find_pos_Some [of "\<lambda>w. w_path w = ld_file l" "in_watchers (ld_inotify l)" i] by (simp_all add: FindWatcher_path_def)
    then show ?thesis using RemoveWatcher_store(2) [OF store, of i] Some by simp
  qed
  then show "\<exists>l'. HandleEvent le fs ev l = Inr (True, l') \<and> ld_config l' = None \<and> watcher_of (ld_inotify l') (ld_file l) = None"
    using gone assms(3,4)
    by (simp add: HandleEvent_def HandleConfigDirectoryEvent_def event_has_def in_flags loader_tags ResetRuntimeConfig_def Let_def)
qed

lemma example_parses: "parses example_env example_fs example_loader"
proof -
  let ?doc = "YMap [(''networking'', YMap [(''maxConnectionsPerMinute'', YScalar ''7'')])]"
  have "safe_fields example_fields" by code_simp
  moreover have "yl_as_string example_lib (YScalar s) = Inr s" "yl_cpp_type example_lib = documented_cpp_type" for s
    by (simp_all add: example_lib_def)
  ultimately obtain r where
    "parse_fields example_lib (example_parser PERMISSIVE) ?doc example_fields [] (NewRuntimeConfig example_lib) = Inr r"
    using parse_total(2) by blast
  then show ?thesis
    by (cases r) (simp add: parses_def Parse_file_def Parse_def example_env_def example_fs_def example_parser_def)
qed

theorem reload_exact_witness:
  "\<exists>l'. HandleEvent example_env example_fs (example_event IN_CREATE) example_loader = Inr (True, l') \<and>
    watcher_of (ld_inotify l') ''dir/cfg'' = Some \<lparr>w_wd = 7, w_path = ''dir/cfg'', w_tag = LOADER_CONFIG_FILE\<rparr>"
proof -
  have wd: "FindWatcher_wd (event_wd (example_event IN_CREATE)) (ld_inotify example_loader) = Some 0"
    by (simp add: FindWatcher_wd_def event_wd_def example_event_def example_loader_def)
  have tag: "w_tag (in_watchers (ld_inotify example_loader) ! 0) = LOADER_PARENT_PATH" by (simp add: example_loader_def)
  have name: "event_name (example_event IN_CREATE) = ld_name example_loader" by code_simp
  have path: "ld_file example_loader = ''dir/cfg''" by (simp add: ld_file_def example_loader_def)
  have links: "links_resolve example_fs example_loader" by (simp add: links_resolve_def example_fs_def)
  have add: "fs_add_watch example_fs (ld_file example_loader) FILE_FLAGS \<ge> 0" by (simp add: example_fs_def)
  show ?thesis
    using reload_exact [OF example_loader_ok links wd tag add example_parses] name
    by (simp add: path example_event_def example_fs_def) blast
qed

text \<open>
  A dangling link ends the collector: when the target of the configuration file is deleted and the file is a link that
  does not resolve any more, resolving it throws in the thread of the loader. The same happens when a
  link to nothing is created under the name of the file.
\<close>

theorem dangling_link_fatal:
  assumes "fs_is_symlink fs (ld_file l)" "fs_canonical fs (ld_file l) = None" "\<not> fs_exists fs (ld_file l)"
  shows "(ev_mask ev = IN_DELETE_SELF \<longrightarrow> HandleConfigRealpathEvent le fs ev w l = Inl Filesystem_error) \<and>
    (ev_mask ev = IN_CREATE \<and> event_name ev = ld_name l \<longrightarrow> HandleConfigDirectoryEvent le fs ev l = Inl Filesystem_error)"
  using assms
  by (simp add: HandleConfigRealpathEvent_def HandleConfigDirectoryEvent_def watch_realpath_def watch_realpath_if_symlink_def
      event_has_def in_flags load_now_def LoadConfiguration_def)

theorem dangling_link_fatal_witness:
  "HandleConfigRealpathEvent example_env
     (example_fs\<lparr>fs_exists := \<lambda>p. False, fs_is_symlink := \<lambda>p. True\<rparr>) (example_event IN_DELETE_SELF) 0 example_loader =
   Inl Filesystem_error"
  using dangling_link_fatal [of "example_fs\<lparr>fs_exists := \<lambda>p. False, fs_is_symlink := \<lambda>p. True\<rparr>" example_loader
      "example_event IN_DELETE_SELF" example_env 0]
  by (simp add: example_fs_def example_event_def)

text \<open>
  A file that is moved into the directory is not noticed: the watcher of the directory does not ask for the
  events of moves, which the handler has branches for.
\<close>

theorem moves_not_watched:
  "DIRECTORY_FLAGS AND (IN_MOVED_TO OR IN_MOVED_FROM) = 0"
  by (simp add: DIRECTORY_FLAGS_def in_flags)

end
