(* ===== verification/Config_Types.thy ===== *)
theory Config_Types
  imports Config_Yaml
begin

text \<open>
  The parser of the configuration respects the types of the descriptor: the message it fills holds, in every declared field and at every depth, a
  value of the declared type. Protobuf's reflection interface checks this at run time and ends the program where it is violated.
\<close>

section \<open>Typed messages\<close>

text \<open>
  \<open>has\<close> says which values a C++ type has. The C++ type of a field, \<open>array_ctype\<close>, is that of the table in the documentation of
  protobuf, for singular and for repeated fields; it is not the table the parser converts scalars with. An enumeration has
  the numbers it declares.
\<close>

fun typed_value :: "(ctype \<Rightarrow> 'v \<Rightarrow> bool) \<Rightarrow> field \<Rightarrow> 'v pval \<Rightarrow> bool"
and typed_fields :: "(ctype \<Rightarrow> 'v \<Rightarrow> bool) \<Rightarrow> field list \<Rightarrow> 'v message \<Rightarrow> bool"
where
  "typed_value has (Field name rep ty) v =
     (case v of
        PVal x \<Rightarrow> \<not> rep \<and> (case array_ctype ty of Some t \<Rightarrow> has t x | None \<Rightarrow> False)
      | PEnum i \<Rightarrow> \<not> rep \<and> (case ty of TYPE_ENUM enum \<Rightarrow> i \<in> snd ` set enum | _ \<Rightarrow> False)
      | PList xs \<Rightarrow> rep \<and> (case array_ctype ty of Some t \<Rightarrow> list_all (has t) xs | None \<Rightarrow> False)
      | PEnums is \<Rightarrow> rep \<and> (case ty of TYPE_ENUM enum \<Rightarrow> set is \<subseteq> snd ` set enum | _ \<Rightarrow> False)
      | PMsg m \<Rightarrow> \<not> rep \<and> (case ty of TYPE_MESSAGE fs \<Rightarrow> dom m \<subseteq> f_name ` set fs \<and> typed_fields has fs m | _ \<Rightarrow> False))"
| "typed_fields has [] m = True"
| "typed_fields has (f # fs) m =
     ((case m (f_name f) of None \<Rightarrow> True | Some v \<Rightarrow> typed_value has f v) \<and> typed_fields has fs m)"

definition typed_message :: "(ctype \<Rightarrow> 'v \<Rightarrow> bool) \<Rightarrow> field list \<Rightarrow> 'v message \<Rightarrow> bool" where
  "typed_message has fs m \<longleftrightarrow> dom m \<subseteq> f_name ` set fs \<and> typed_fields has fs m"

lemma typed_fields_iff: "typed_fields has fs m \<longleftrightarrow> (\<forall>f \<in> set fs. \<forall>v. m (f_name f) = Some v \<longrightarrow> typed_value has f v)"
  by (induction fs) (auto split: option.split)

text \<open>What the conversions of the library promise.\<close>

definition sound_lib :: "(ctype \<Rightarrow> 'v \<Rightarrow> bool) \<Rightarrow> 'v yaml_lib \<Rightarrow> bool" where
  "sound_lib has lib \<longleftrightarrow> yl_cpp_type lib = documented_cpp_type \<and> (\<forall>t n v. yl_as lib t n = Inr v \<longrightarrow> has t v)"

section \<open>Fields\<close>

lemma convert_elements_all: "convert_elements f ns = (errors, vs) \<Longrightarrow> \<forall>v \<in> set vs. \<exists>n \<in> set ns. f n = Inr v"
  by (induction ns arbitrary: errors vs) (auto split: prod.splits sum.splits)

lemma TryConvert_sound: "sound_lib has lib \<Longrightarrow> TryConvert p (yl_as lib t) n = Inr v \<Longrightarrow> has t v"
  by (auto simp: TryConvert_def sound_lib_def split: sum.splits)

lemma ParseArrayInner_typed:
  assumes "sound_lib has lib" "array_ctype ty = Some t" "ParseArrayInner lib p t ns name msg = (e, m)"
  shows "\<exists>v. m = msg(name \<mapsto> v) \<and> typed_value has (Field name True ty) v"
proof -
  obtain errors vs where c: "convert_elements (TryConvert p (yl_as lib t)) ns = (errors, vs)" by force
  have "list_all (has t) vs" using convert_elements_all [OF c] TryConvert_sound [OF assms(1)] by (fastforce simp: list_all_iff)
  then have "typed_value has (Field name True ty) (PList vs)" using assms(2) by simp
  moreover have "m = msg(name \<mapsto> PList vs)" using assms(3) c by (simp add: ParseArrayInner_def)
  ultimately show ?thesis by blast
qed

lemma enum_element_declared: "enum_element lib p enum name n = Inr i \<Longrightarrow> i \<in> snd ` set enum"
  unfolding enum_element_def Let_def by (auto split: sum.splits option.splits dest!: map_of_SomeD intro: rev_image_eqI)

lemma ParseArrayEnum_typed:
  assumes "ParseArrayEnum lib p enum ns name msg = (e, m)"
  shows "\<exists>v. m = msg(name \<mapsto> v) \<and> typed_value has (Field name True (TYPE_ENUM enum)) v"
proof -
  obtain errors vs where c: "convert_elements (enum_element lib p enum name) ns = (errors, vs)" by force
  have "set vs \<subseteq> snd ` set enum" using convert_elements_all [OF c] enum_element_declared by blast
  then have "typed_value has (Field name True (TYPE_ENUM enum)) (PEnums vs)" by simp
  moreover have "m = msg(name \<mapsto> PEnums vs)" using assms c by (simp add: ParseArrayEnum_def)
  ultimately show ?thesis by blast
qed

lemma ParseArray_typed:
  assumes "sound_lib has lib" and "ParseArray lib p ns name ty msg = (e, m)"
  shows "m = msg \<or> (\<exists>v. m = msg(name \<mapsto> v) \<and> typed_value has (Field name True ty) v)"
proof (cases ty)
  case (TYPE_ENUM enum)
  then show ?thesis using assms ParseArrayEnum_typed [of lib p enum ns name msg e m has] by (simp add: sound_lib_def)
next
  case (TYPE_MESSAGE fs)
  then show ?thesis using assms by (simp add: sound_lib_def)
qed (use assms ParseArrayInner_typed [OF assms(1), of ty _ p ns name msg e m] in \<open>simp_all add: sound_lib_def array_ctype_def\<close>)

lemma setter_type: "documented_cpp_type ty = accessor_type t \<Longrightarrow> array_ctype ty = Some t"
  by (cases t) (simp_all add: array_ctype_def)

lemma ParseScalar_typed:
  assumes "sound_lib has lib" and "ParseScalar lib p n name ty key msg = Inr (e, m)"
  shows "m = msg \<or> (\<exists>v. m = msg(name \<mapsto> v) \<and> typed_value has (Field name False ty) v)"
proof (cases "scalar_ctype ty")
  case (Some t)
  show ?thesis
  proof (cases "TryConvert p (yl_as lib t) n")
    case (Inr v)
    then have set_ok: "yl_cpp_type lib ty = accessor_type t" "m = msg(name \<mapsto> PVal v)"
      using assms(2) Some by (auto simp: ParseScalar_def set_scalar_def split: if_splits)
    then have "array_ctype ty = Some t" using assms(1) setter_type by (simp add: sound_lib_def)
    then have "typed_value has (Field name False ty) (PVal v)" using TryConvert_sound [OF assms(1) Inr] by simp
    then show ?thesis using set_ok(2) by blast
  qed (use assms(2) Some in \<open>simp add: ParseScalar_def\<close>)
next
  case None
  show ?thesis
  proof (cases ty)
    case (TYPE_ENUM enum)
    have "typed_value has (Field name False ty) (PEnum i)" if "map_of enum k = Some i" for k i
      using map_of_SomeD [OF that] TYPE_ENUM by (auto intro: rev_image_eqI)
    then show ?thesis using assms(2) TYPE_ENUM
      by (auto simp: ParseScalar_def Let_def split: sum.splits option.splits simp del: typed_value.simps)
  qed (use assms(2) None in \<open>simp_all add: ParseScalar_def\<close>)
qed

section \<open>Messages\<close>

lemma parse_typed:
  "sound_lib has lib \<Longrightarrow> wf_field f \<Longrightarrow> parse_field lib p node f path msg = Inr (e, m) \<Longrightarrow>
   (\<And>v. msg (f_name f) = Some v \<Longrightarrow> typed_value has f v) \<Longrightarrow> m (f_name f) = Some v \<Longrightarrow> typed_value has f v"
  "sound_lib has lib \<Longrightarrow> wf_fields fs \<Longrightarrow> parse_fields lib p node fs path msg = Inr (e, m) \<Longrightarrow>
   typed_fields has fs msg \<Longrightarrow> typed_fields has fs m"
proof (induction lib p node f path msg and lib p node fs path msg arbitrary: e m v and e m rule: parse_field_parse_fields.induct)
  case (1 lib p node name rep ty path msg)
  show ?case
  proof (cases "node_at node (yaml_name p name)")
    case None
    then show ?thesis using "1.prems" by (auto simp: Let_def split: if_splits simp del: typed_value.simps)
  next
    case (Some n)
    consider "rep" | fs where "\<not> rep" "ty = TYPE_MESSAGE fs" | "\<not> rep" "\<not> is_message ty"
      by (cases ty) (auto simp: is_message_def)
    then show ?thesis
    proof cases
      case 1
      show ?thesis
      proof (cases n)
        case (YSeq ns)
        then have "ParseArray lib p ns name ty msg = (e, m)" using "1.prems"(3) Some 1 by (simp add: Let_def del: ParseArray.simps)
        then show ?thesis using ParseArray_typed [OF "1.prems"(1)] "1.prems"(4,5) 1 by (force simp del: typed_value.simps ParseArray.simps)
      qed (use "1.prems" Some 1 in \<open>auto simp: Let_def simp del: typed_value.simps\<close>)
    next
      case 2
      show ?thesis
      proof (cases n)
        case (YMap kvs)
        then obtain m0 where m0: "parse_fields lib p n fs (ConcatPath path (yaml_name p name)) (sub_message msg name) = Inr (e, m0)"
          "m = msg(name \<mapsto> PMsg m0)"
          using "1.prems"(3) Some 2 by (auto simp: Let_def split: sum.splits prod.splits)
        have sub: "typed_fields has fs (sub_message msg name) \<and> dom (sub_message msg name) \<subseteq> f_name ` set fs"
        proof (cases "\<exists>m1. msg name = Some (PMsg m1)")
          case True
          then obtain m1 where m1: "msg name = Some (PMsg m1)" by blast
          then show ?thesis using "1.prems"(4) [of "PMsg m1"] 2 by (simp add: sub_message_def)
        next
          case False
          then have "sub_message msg name = Map.empty" by (auto simp: sub_message_def split: option.split pval.split)
          then show ?thesis by (simp add: typed_fields_iff)
        qed
        have "typed_fields has fs m0"
          using "1.IH" [OF refl Some 2 YMap "1.prems"(1) _ m0(1)] "1.prems"(2) 2 sub by simp
        moreover have "dom m0 \<subseteq> f_name ` set fs" using parse_fields_frame [OF m0(1)] sub by (fastforce simp: dom_def)
        moreover have "v = PMsg m0" using "1.prems"(5) m0(2) by simp
        ultimately show ?thesis using 2 by simp
      qed (use "1.prems" Some 2 in \<open>auto simp: Let_def simp del: typed_value.simps\<close>)
    next
      case 3
      then have rep: "rep = False" by simp
      have "m = msg \<or> (\<exists>v. m = msg(name \<mapsto> v) \<and> typed_value has (Field name False ty) v)"
        using "1.prems"(3) ParseScalar_typed [OF "1.prems"(1)]
        unfolding rep parse_field_scalar [OF Some 3(2)] by (cases n) (auto simp del: typed_value.simps)
      then show ?thesis using "1.prems"(4,5) rep by (auto simp del: typed_value.simps)
    qed
  qed
next
  case (3 lib p node f fs path msg)
  from "3.prems"(3) obtain e1 m1 e2 where run: "parse_field lib p node f path msg = Inr (e1, m1)"
    "parse_fields lib p node fs path m1 = Inr (e2, m)" by (rule parse_fields_ConsE)
  have wf: "wf_field f" "wf_fields fs" "f_name f \<notin> f_name ` set fs" using "3.prems"(2) by auto
  have head: "typed_value has f v" if "m1 (f_name f) = Some v" for v
    by (rule "3.IH"(1) [OF "3.prems"(1) wf(1) run(1) _ that]) (use "3.prems"(4) in \<open>simp split: option.splits\<close>)
  have "m1 (f_name g) = msg (f_name g)" if "g \<in> set fs" for g
    by (rule parse_field_frame [OF run(1)]) (use that wf(3) in \<open>metis image_eqI\<close>)
  then have "typed_fields has fs m1" using "3.prems"(4) by (simp add: typed_fields_iff)
  then have "typed_fields has fs m" using "3.IH"(2) [OF run(1) refl "3.prems"(1) wf(2) run(2)] by simp
  moreover have "m (f_name f) = m1 (f_name f)" using parse_fields_frame [OF run(2) wf(3)] .
  ultimately show ?case using head by (auto split: option.split)
qed simp

lemma Parse_typed:
  assumes "sound_lib has lib" and "wf_fields fs" and "typed_message has fs msg" and "Parse lib p fs node msg = Inr (errors, m)"
  shows "typed_message has fs m"
proof -
  have "m = msg \<or> (\<exists>e. parse_fields lib p node fs [] msg = Inr (e, m))"
    using assms(4) by (auto simp: Parse_def split: ynode.splits sum.splits prod.splits if_splits)
  then show ?thesis
  proof
    assume "\<exists>e. parse_fields lib p node fs [] msg = Inr (e, m)"
    then obtain e where run: "parse_fields lib p node fs [] msg = Inr (e, m)" by blast
    have "typed_fields has fs m" using parse_typed(2) [OF assms(1,2) run] assms(3) by (simp add: typed_message_def)
    moreover have "dom m \<subseteq> f_name ` set fs"
    proof
      fix x assume "x \<in> dom m"
      then show "x \<in> f_name ` set fs" using parse_fields_frame [OF run, of x] assms(3) unfolding typed_message_def dom_def by force
    qed
    ultimately show ?thesis by (simp add: typed_message_def)
  qed (use assms(3) in simp)
qed

text \<open>
  (C39) The parser returns and respects types. In the mode the collector uses, whatever the document is, the parser
  neither throws nor misuses protobuf's accessors: it returns its errors and a message whose declared fields hold, at
  every depth, values of the types protobuf documents for them, with no other fields. Conditions: the message it starts from is such a
  message, no singular field of the descriptor has type \<^verbatim>\<open>sint64\<close>, and the conversions of the library return values of the type they
  are for and read a scalar as a string.
\<close>

theorem Parse_well_typed:
  assumes "sound_lib has lib" "\<And>s. yl_as_string lib (YScalar s) = Inr s" "py_validation_mode p = PERMISSIVE"
    and "wf_fields fs" "safe_fields fs" "typed_message has fs msg"
  shows "\<exists>errors m. Parse lib p fs node msg = Inr (errors, m) \<and> typed_message has fs m"
proof -
  have cpp: "yl_cpp_type lib = documented_cpp_type" using assms(1) by (simp add: sound_lib_def)
  obtain e m where "parse_fields lib p node fs [] msg = Inr (e, m)"
    using parse_total(2) [OF assms(5,2) cpp] by fastforce
  then obtain errors m where run: "Parse lib p fs node msg = Inr (errors, m)"
    using assms(3) by (cases node) (auto simp: Parse_def)
  then show ?thesis using Parse_typed [OF assms(1,4,6) run] by blast
qed

text \<open>Values that carry their C++ type, a library that produces them, and a descriptor with singular and repeated fields.\<close>

definition tagged_lib :: "(ctype \<times> string) yaml_lib" where
  "tagged_lib =
     \<lparr>yl_as = (\<lambda>t n. case n of YScalar s \<Rightarrow> Inr (t, s) | _ \<Rightarrow> Inl ''bad conversion''),
      yl_as_string = (\<lambda>n. case n of YScalar s \<Rightarrow> Inr s | _ \<Rightarrow> Inl ''bad conversion''),
      yl_int64 = (\<lambda>i. (C_int64, ''0'')), yl_cpp_type = documented_cpp_type, yl_type_name = (\<lambda>ty. [])\<rparr>"

definition tagged_fields :: "field list" where
  "tagged_fields =
     [Field ''networking'' False (TYPE_MESSAGE
        [Field ''max_connections'' False TYPE_INT64, Field ''offsets'' True TYPE_SINT64, Field ''ratio'' False TYPE_FLOAT])]"

theorem Parse_well_typed_witness:
  "\<exists>errors m. Parse tagged_lib (example_parser PERMISSIVE) tagged_fields
       (YMap [(''networking'', YMap [(''maxConnections'', YScalar ''7''), (''offsets'', YSeq [YScalar ''1'', YNull]), (''ratio'', YSeq [])])])
       Map.empty = Inr (errors, m) \<and>
     typed_message (\<lambda>t v. fst v = t) tagged_fields m"
proof (rule Parse_well_typed)
  show "sound_lib (\<lambda>t v. fst v = t) tagged_lib" by (auto simp: sound_lib_def tagged_lib_def split: ynode.splits)
  show "wf_fields tagged_fields" "safe_fields tagged_fields" by code_simp+
  show "typed_message (\<lambda>t v. fst v = t) tagged_fields Map.empty" by (simp add: typed_message_def typed_fields_iff)
qed (simp_all add: tagged_lib_def example_parser_def)

end
