(* ===== verification/Duplex_Stream.thy ===== *)
theory Duplex_Stream
  imports Collector_Prelude
begin

text \<open>
  The bidirectional stream client of \<^verbatim>\<open>collector/lib/DuplexGRPC.h\<close>. The state of a client records its flag word,
  its buffers and, as the effects on the libraries it calls, the operations handed to the stream
  (\<open>dc_calls\<close>), those of them whose completion has not been delivered yet (\<open>dc_out\<close>) and the arguments of the
  read callback (\<open>dc_read_log\<close>). What the completion queue returns is an argument: a sequence of outcomes, where
  an exhausted sequence stands for deadlines that pass. The queue delivers completions of operations
  that were handed to the stream (\<open>cq_valid\<close>). A message or a status the library stores through a
  pointer comes with the completion of the operation. Callbacks do not use the client.
\<close>

section \<open>Operations, flags and results\<close>

datatype Op = OP_START | OP_READ | OP_WRITE | OP_WRITES_DONE | OP_FINISH | OP_SHUTDOWN

fun OpToTag :: "Op \<Rightarrow> nat" where
  "OpToTag OP_START = 0"
| "OpToTag OP_READ = 1"
| "OpToTag OP_WRITE = 2"
| "OpToTag OP_WRITES_DONE = 3"
| "OpToTag OP_FINISH = 4"
| "OpToTag OP_SHUTDOWN = 5"

definition kNumOps :: nat where "kNumOps = 6"

definition TagToOp :: "nat \<Rightarrow> Op option" where
  "TagToOp tag = List.find (\<lambda>op. OpToTag op = tag)
     [OP_START, OP_READ, OP_WRITE, OP_WRITES_DONE, OP_FINISH, OP_SHUTDOWN]"

type_synonym Flags = u32

definition Done :: "Op \<Rightarrow> Flags" where
  "Done op = push_bit (OpToTag op) 1"

definition Pending :: "Op \<Rightarrow> Flags" where
  "Pending op = push_bit (OpToTag op + kNumOps) 1"

definition STREAM_ERROR :: Flags where
  "STREAM_ERROR = push_bit 31 1"

datatype OpError = OE_OK | OE_ALREADY_PENDING | OE_ALREADY_DONE | OE_ILLEGAL_STATE | OE_SHUTDOWN

record OpDescriptor =
  od_op :: Op
  od_error :: OpError

record OpResult =
  or_op :: Op
  or_ok :: bool

datatype Status = ST_OK | ST_ALREADY_PENDING | ST_ALREADY_DONE | ST_ERROR | ST_TIMEOUT | ST_ILLEGAL_STATE
  | ST_SHUTDOWN | ST_INTERNAL_ERROR

text \<open>A \<^verbatim>\<open>Result\<close> wraps a status.\<close>

type_synonym Result = Status

definition Result_ok :: "Result \<Rightarrow> bool" where
  "Result_ok r \<longleftrightarrow> r = ST_OK"

definition Result_done :: "Result \<Rightarrow> bool" where
  "Result_done r \<longleftrightarrow> r = ST_OK \<or> r = ST_ALREADY_DONE"

definition IsTimeout :: "Result \<Rightarrow> bool" where
  "IsTimeout r \<longleftrightarrow> r = ST_TIMEOUT"

definition Result_of_bool :: "bool \<Rightarrow> Result" where
  "Result_of_bool ok = (if ok then ST_OK else ST_ERROR)"

datatype NextStatus = CQ_SHUTDOWN | CQ_TIMEOUT | CQ_GOT_EVENT

fun Result_of_NextStatus :: "NextStatus \<Rightarrow> Result" where
  "Result_of_NextStatus CQ_SHUTDOWN = ST_SHUTDOWN"
| "Result_of_NextStatus CQ_TIMEOUT = ST_TIMEOUT"
| "Result_of_NextStatus CQ_GOT_EVENT = ST_OK"

fun Result_of_OpError :: "OpError \<Rightarrow> Result" where
  "Result_of_OpError OE_OK = ST_OK"
| "Result_of_OpError OE_ALREADY_PENDING = ST_ALREADY_PENDING"
| "Result_of_OpError OE_ALREADY_DONE = ST_ALREADY_DONE"
| "Result_of_OpError OE_ILLEGAL_STATE = ST_ILLEGAL_STATE"
| "Result_of_OpError OE_SHUTDOWN = ST_SHUTDOWN"

section \<open>The client\<close>

datatype StatusCode = GRPC_OK | GRPC_UNKNOWN | GRPC_DEADLINE_EXCEEDED | GRPC_OTHER nat

type_synonym grpc_status = "StatusCode \<times> string"

record 'r client =
  dc_flags :: Flags
  dc_status :: grpc_status
  dc_has_callback :: bool
  dc_read_buf :: 'r
  dc_read_buf_valid :: bool
  dc_calls :: "Op list"
  dc_out :: "Op list"
  dc_read_log :: "'r option list"
  dc_cancelled :: bool
  dc_cq_shutdown :: bool

text \<open>An outcome of \<^verbatim>\<open>AsyncNext\<close>; a completion carries what the library stored in the buffers.\<close>

datatype 'r cq_next = NextEvent Op bool 'r grpc_status | NextTimeout | NextShutdown

definition SetFlags :: "Flags \<Rightarrow> 'r client \<Rightarrow> Flags \<times> 'r client" where
  "SetFlags fl s = (fl AND NOT (dc_flags s), s\<lparr>dc_flags := dc_flags s OR fl\<rparr>)"

definition ClearFlags :: "Flags \<Rightarrow> 'r client \<Rightarrow> Flags \<times> 'r client" where
  "ClearFlags fl s = (fl AND dc_flags s, s\<lparr>dc_flags := dc_flags s AND NOT fl\<rparr>)"

definition CheckFlags :: "Flags \<Rightarrow> 'r client \<Rightarrow> Flags" where
  "CheckFlags fl s = dc_flags s AND fl"

definition rw_call :: "Op \<Rightarrow> 'r client \<Rightarrow> 'r client" where
  "rw_call op s = s\<lparr>dc_calls := dc_calls s @ [op], dc_out := dc_out s @ [op]\<rparr>"

definition DoAsync :: "bool \<Rightarrow> Op \<Rightarrow> 'r client \<Rightarrow> OpDescriptor \<times> 'r client" where
  "DoAsync idempotent op s =
     (if idempotent \<and> CheckFlags (Done op) s \<noteq> 0 then (\<lparr>od_op = op, od_error = OE_ALREADY_DONE\<rparr>, s)
      else if CheckFlags (Pending op) s \<noteq> 0 then (\<lparr>od_op = op, od_error = OE_ALREADY_PENDING\<rparr>, s)
      else if CheckFlags (Done OP_SHUTDOWN OR Pending OP_SHUTDOWN) s \<noteq> 0 then (\<lparr>od_op = op, od_error = OE_SHUTDOWN\<rparr>, s)
      else if CheckFlags (Done OP_FINISH OR Pending OP_FINISH) s \<noteq> 0 then (\<lparr>od_op = op, od_error = OE_ILLEGAL_STATE\<rparr>, s)
      else
        let s1 = snd (ClearFlags (Done op) s);
            s2 = snd (SetFlags (Pending op) s1)
        in (\<lparr>od_op = op, od_error = OE_OK\<rparr>, rw_call op s2))"

definition WriteAsyncInternal :: "'r client \<Rightarrow> OpDescriptor \<times> 'r client" where
  "WriteAsyncInternal s = DoAsync False OP_WRITE s"

definition WritesDoneAsyncInternal :: "'r client \<Rightarrow> OpDescriptor \<times> 'r client" where
  "WritesDoneAsyncInternal s = DoAsync True OP_WRITES_DONE s"

definition FinishAsyncInternal :: "'r client \<Rightarrow> OpDescriptor \<times> 'r client" where
  "FinishAsyncInternal s = DoAsync False OP_FINISH s"

definition ReadAsyncInternal :: "'r client \<Rightarrow> OpDescriptor \<times> 'r client" where
  "ReadAsyncInternal s = DoAsync False OP_READ s"

definition ReadNext :: "'r client \<Rightarrow> 'r client" where
  "ReadNext s = snd (ReadAsyncInternal (s\<lparr>dc_read_buf_valid := False\<rparr>))"

definition DuplexClientReaderWriter :: "bool \<Rightarrow> 'r \<Rightarrow> 'r client" where
  "DuplexClientReaderWriter has_callback empty_msg =
     ReadNext (snd (SetFlags (Pending OP_START) (rw_call OP_START
       \<lparr>dc_flags = 0, dc_status = (GRPC_OK, []), dc_has_callback = has_callback, dc_read_buf = empty_msg,
        dc_read_buf_valid = False, dc_calls = [], dc_out = [], dc_read_log = [], dc_cancelled = False,
        dc_cq_shutdown = False\<rparr>)))"

section \<open>Events\<close>

definition HandleRead :: "bool \<Rightarrow> 'r client \<Rightarrow> 'r client" where
  "HandleRead ok s =
     (if dc_has_callback s
      then ReadNext (s\<lparr>dc_read_log := dc_read_log s @ [if ok then Some (dc_read_buf s) else None]\<rparr>)
      else s\<lparr>dc_read_buf_valid := ok\<rparr>)"

definition HandleFinish :: "bool \<Rightarrow> 'r client \<Rightarrow> 'r client" where
  "HandleFinish ok s =
     (if \<not> ok \<and> fst (dc_status s) = GRPC_OK then s\<lparr>dc_status := (GRPC_UNKNOWN, ''Finish operation unsuccessful'')\<rparr> else s)"

definition ProcessEvent :: "Op \<Rightarrow> bool \<Rightarrow> 'r client \<Rightarrow> 'r client" where
  "ProcessEvent op ok s =
     (let s1 = (if \<not> ok then snd (FinishAsyncInternal s) else s);
          fl = (if \<not> ok then Done op OR STREAM_ERROR else Done op);
          s2 = snd (ClearFlags (Pending op) s1);
          s3 = snd (SetFlags fl s2)
      in case op of OP_READ \<Rightarrow> HandleRead ok s3 | OP_FINISH \<Rightarrow> HandleFinish ok s3 | _ \<Rightarrow> s3)"

text \<open>The completion as the library leaves it: the operation is over and its buffer is filled.\<close>

definition cq_store :: "Op \<Rightarrow> 'r \<Rightarrow> grpc_status \<Rightarrow> 'r client \<Rightarrow> 'r client" where
  "cq_store op msg st s =
     (let s1 = s\<lparr>dc_out := remove1 op (dc_out s)\<rparr>
      in case op of OP_READ \<Rightarrow> s1\<lparr>dc_read_buf := msg\<rparr> | OP_FINISH \<Rightarrow> s1\<lparr>dc_status := st\<rparr> | _ \<Rightarrow> s1)"

fun ProcessSingle :: "'r cq_next \<Rightarrow> 'r client \<Rightarrow> Result \<times> OpResult option \<times> 'r client" where
  "ProcessSingle (NextEvent op ok msg st) s =
     (Result_of_NextStatus CQ_GOT_EVENT, Some \<lparr>or_op = op, or_ok = ok\<rparr>, ProcessEvent op ok (cq_store op msg st s))"
| "ProcessSingle NextShutdown s = (Result_of_NextStatus CQ_SHUTDOWN, None, snd (SetFlags (Done OP_SHUTDOWN) s))"
| "ProcessSingle NextTimeout s = (Result_of_NextStatus CQ_TIMEOUT, None, s)"

section \<open>Waiting\<close>

text \<open>The loops process at least one outcome; they return what is left of the sequence.\<close>

fun Poll :: "(Flags \<Rightarrow> bool) \<Rightarrow> 'r cq_next list \<Rightarrow> 'r client \<Rightarrow> Result \<times> 'r cq_next list \<times> 'r client" where
  "Poll flags_checker [] s = (case ProcessSingle NextTimeout s of (res, _, s') \<Rightarrow> (res, [], s'))"
| "Poll flags_checker (e # evs) s =
     (case ProcessSingle e s of (res, _, s') \<Rightarrow>
        if Result_ok res \<and> \<not> flags_checker (dc_flags s') then Poll flags_checker evs s' else (res, evs, s'))"

definition PollAny :: "Flags \<Rightarrow> 'r cq_next list \<Rightarrow> 'r client \<Rightarrow> Result \<times> 'r cq_next list \<times> 'r client" where
  "PollAny desired = Poll (\<lambda>fl. fl AND desired \<noteq> 0)"

definition PollAll :: "Flags \<Rightarrow> 'r cq_next list \<Rightarrow> 'r client \<Rightarrow> Result \<times> 'r cq_next list \<times> 'r client" where
  "PollAll desired = Poll (\<lambda>fl. fl AND desired = desired)"

fun sync_loop :: "Op \<Rightarrow> 'r cq_next list \<Rightarrow> 'r client \<Rightarrow> Result \<times> 'r cq_next list \<times> 'r client" where
  "sync_loop op [] s = (case ProcessSingle NextTimeout s of (res, _, s') \<Rightarrow> (res, [], s'))"
| "sync_loop op (e # evs) s =
     (case ProcessSingle e s of
        (res, None, s') \<Rightarrow> (res, evs, s')
      | (res, Some r, s') \<Rightarrow> if or_op r \<noteq> op then sync_loop op evs s' else (Result_of_bool (or_ok r), evs, s'))"

definition DoSync ::
  "bool \<Rightarrow> ('r client \<Rightarrow> OpDescriptor \<times> 'r client) \<Rightarrow> 'r cq_next list \<Rightarrow> 'r client \<Rightarrow> Result \<times> 'r cq_next list \<times> 'r client" where
  "DoSync idempotent async_method evs s =
     (case async_method s of (op_desc, s1) \<Rightarrow>
        let op_error = (if idempotent \<and> od_error op_desc = OE_ALREADY_PENDING then OE_OK else od_error op_desc)
        in if op_error \<noteq> OE_OK then (Result_of_OpError op_error, evs, s1) else sync_loop (od_op op_desc) evs s1)"

section \<open>The interface\<close>

definition WaitUntilStarted :: "'r cq_next list \<Rightarrow> 'r client \<Rightarrow> Result \<times> 'r cq_next list \<times> 'r client" where
  "WaitUntilStarted = PollAll (Done OP_START)"

definition Sleep :: "'r cq_next list \<Rightarrow> 'r client \<Rightarrow> bool \<times> 'r cq_next list \<times> 'r client" where
  "Sleep evs s = (case PollAny (STREAM_ERROR OR Done OP_FINISH) evs s of (res, rest) \<Rightarrow> (IsTimeout res, rest))"

definition WritesDoneAsync :: "'r client \<Rightarrow> Result \<times> 'r client" where
  "WritesDoneAsync s = (case WritesDoneAsyncInternal s of (d, s') \<Rightarrow> (Result_of_OpError (od_error d), s'))"

definition WritesDone :: "'r cq_next list \<Rightarrow> 'r client \<Rightarrow> Result \<times> 'r cq_next list \<times> 'r client" where
  "WritesDone = DoSync True WritesDoneAsyncInternal"

definition FinishAsync :: "'r client \<Rightarrow> Result \<times> 'r client" where
  "FinishAsync s = (case FinishAsyncInternal s of (d, s') \<Rightarrow> (Result_of_OpError (od_error d), s'))"

definition WaitUntilFinished :: "'r cq_next list \<Rightarrow> 'r client \<Rightarrow> Result \<times> 'r cq_next list \<times> 'r client" where
  "WaitUntilFinished = PollAll (Done OP_FINISH)"

definition Finish_into :: "'r cq_next list \<Rightarrow> 'r client \<Rightarrow> (Result \<times> grpc_status option) \<times> 'r cq_next list \<times> 'r client" where
  "Finish_into evs s =
     (case DoSync True FinishAsyncInternal evs s of (res, evs', s') \<Rightarrow>
        ((res, if Result_ok res then Some (dc_status s') else None), evs', s'))"

definition Finish :: "'r cq_next list \<Rightarrow> 'r client \<Rightarrow> grpc_status \<times> 'r cq_next list \<times> 'r client" where
  "Finish evs s =
     (case DoSync True FinishAsyncInternal evs s of (res, evs', s') \<Rightarrow>
        (if Result_ok res then dc_status s'
         else if IsTimeout res then (GRPC_DEADLINE_EXCEEDED, ''timed out waiting for operation status'')
         else (GRPC_UNKNOWN, ''unknown error retrieving status''), evs', s'))"

definition TryCancel :: "'r client \<Rightarrow> 'r client" where
  "TryCancel s = s\<lparr>dc_cancelled := True\<rparr>"

definition Shutdown :: "'r client \<Rightarrow> Result \<times> 'r client" where
  "Shutdown s =
     (let s0 = s\<lparr>dc_cancelled := True\<rparr>
      in if CheckFlags (Done OP_SHUTDOWN) s0 \<noteq> 0 then (ST_ALREADY_DONE, s0)
         else case SetFlags (Pending OP_SHUTDOWN) s0 of (new_flags, s1) \<Rightarrow>
           if new_flags = 0 then (ST_ALREADY_PENDING, s1) else (ST_OK, s1\<lparr>dc_cq_shutdown := True\<rparr>))"

definition Write :: "'r cq_next list \<Rightarrow> 'r client \<Rightarrow> Result \<times> 'r cq_next list \<times> 'r client" where
  "Write = DoSync False WriteAsyncInternal"

definition WriteAsync :: "'r client \<Rightarrow> Result \<times> 'r client" where
  "WriteAsync s = (case WriteAsyncInternal s of (d, s') \<Rightarrow> (Result_of_OpError (od_error d), s'))"

definition Read :: "'r cq_next list \<Rightarrow> 'r client \<Rightarrow> (Result \<times> 'r option) \<times> 'r cq_next list \<times> 'r client" where
  "Read evs s =
     (if dc_has_callback s then ((ST_ILLEGAL_STATE, None), evs, s)
      else case PollAll (Done OP_READ) evs s of (result, evs', s') \<Rightarrow>
        if \<not> Result_ok result then ((result, None), evs', s')
        else if \<not> dc_read_buf_valid s' then ((ST_ERROR, None), evs', s')
        else ((ST_OK, Some (dc_read_buf s')), evs', ReadNext s'))"

text \<open>The destructor drains the queue.\<close>

definition destroy :: "'r cq_next list \<Rightarrow> 'r client \<Rightarrow> 'r cq_next list \<times> 'r client" where
  "destroy evs s = (case Poll (\<lambda>_. False) evs (snd (Shutdown s)) of (_, rest) \<Rightarrow> rest)"

section \<open>The flag word\<close>

definition is_done :: "'r client \<Rightarrow> Op \<Rightarrow> bool" where
  "is_done s op \<longleftrightarrow> bit (dc_flags s) (OpToTag op)"

definition is_pending :: "'r client \<Rightarrow> Op \<Rightarrow> bool" where
  "is_pending s op \<longleftrightarrow> bit (dc_flags s) (OpToTag op + kNumOps)"

definition has_error :: "'r client \<Rightarrow> bool" where
  "has_error s \<longleftrightarrow> bit (dc_flags s) 31"

lemma OpToTag_le: "OpToTag op \<le> 5"
  by (cases op) simp_all

lemma OpToTag_inject: "OpToTag a = OpToTag b \<longleftrightarrow> a = b"
  by (cases a; cases b) simp_all

lemma TagToOp_OpToTag: "TagToOp (OpToTag op) = Some op"
  by (cases op) (simp_all add: TagToOp_def)

lemma tag_distinct:
  "OpToTag a \<noteq> OpToTag b + kNumOps" "OpToTag b + kNumOps \<noteq> OpToTag a"
  "OpToTag a \<noteq> 31" "OpToTag a + kNumOps \<noteq> 31" "31 \<noteq> OpToTag a" "31 \<noteq> OpToTag a + kNumOps"
  using OpToTag_le [of a] OpToTag_le [of b] by (simp_all add: kNumOps_def)

lemma bit_flag_values:
  "bit (Done op) n \<longleftrightarrow> n = OpToTag op" "bit (Pending op) n \<longleftrightarrow> n = OpToTag op + kNumOps" "bit STREAM_ERROR n \<longleftrightarrow> n = 31"
proof -
  show "bit (Done op) n \<longleftrightarrow> n = OpToTag op" "bit (Pending op) n \<longleftrightarrow> n = OpToTag op + kNumOps"
    using OpToTag_le [of op] by (auto simp: Done_def Pending_def kNumOps_def bit_simps)
  show "bit STREAM_ERROR n \<longleftrightarrow> n = 31"
    unfolding STREAM_ERROR_def bit_push_bit_iff by (auto simp: bit_1_iff)
qed

lemma flag_values_exp: "Done op = 2 ^ OpToTag op" "Pending op = 2 ^ (OpToTag op + kNumOps)"
  by (simp_all add: Done_def Pending_def push_bit_eq_mult)

lemma CheckFlags_iff [simp]:
  "CheckFlags (Done op) s = 0 \<longleftrightarrow> \<not> is_done s op" "CheckFlags (Pending op) s = 0 \<longleftrightarrow> \<not> is_pending s op"
  "CheckFlags (Done a OR Pending b) s = 0 \<longleftrightarrow> \<not> is_done s a \<and> \<not> is_pending s b"
proof -
  show single: "CheckFlags (Done op) s = 0 \<longleftrightarrow> \<not> is_done s op" "CheckFlags (Pending op) s = 0 \<longleftrightarrow> \<not> is_pending s op" for op
    by (simp_all add: CheckFlags_def is_done_def is_pending_def flag_values_exp and_exp_eq_0_iff_not_bit)
  show "CheckFlags (Done a OR Pending b) s = 0 \<longleftrightarrow> \<not> is_done s a \<and> \<not> is_pending s b"
    unfolding single [symmetric] by (simp add: CheckFlags_def bit.conj_disj_distrib or_eq_0_iff)
qed

lemma bit_SetFlags: "bit (dc_flags (snd (SetFlags fl s))) n \<longleftrightarrow> bit (dc_flags s) n \<or> bit fl n"
  by (simp add: SetFlags_def bit_or_iff)

lemma bit_ClearFlags: "bit (dc_flags (snd (ClearFlags fl s))) n \<longleftrightarrow> bit (dc_flags s) n \<and> \<not> bit fl n"
  using bit_imp_le_length [of "dc_flags s" n] by (auto simp: ClearFlags_def bit_and_iff bit_not_iff)

lemmas flag_bits = is_done_def is_pending_def has_error_def bit_SetFlags bit_ClearFlags bit_flag_values
  tag_distinct OpToTag_inject bit_or_iff

lemma set_flags_views [simp]:
  "is_done (snd (SetFlags (Done a) s)) op \<longleftrightarrow> is_done s op \<or> op = a"
  "is_pending (snd (SetFlags (Done a) s)) op \<longleftrightarrow> is_pending s op"
  "has_error (snd (SetFlags (Done a) s)) \<longleftrightarrow> has_error s"
  "is_done (snd (SetFlags (Pending a) s)) op \<longleftrightarrow> is_done s op"
  "is_pending (snd (SetFlags (Pending a) s)) op \<longleftrightarrow> is_pending s op \<or> op = a"
  "has_error (snd (SetFlags (Pending a) s)) \<longleftrightarrow> has_error s"
  "is_done (snd (SetFlags (Done a OR STREAM_ERROR) s)) op \<longleftrightarrow> is_done s op \<or> op = a"
  "is_pending (snd (SetFlags (Done a OR STREAM_ERROR) s)) op \<longleftrightarrow> is_pending s op"
  "has_error (snd (SetFlags (Done a OR STREAM_ERROR) s))"
  by (simp_all add: flag_bits)

lemma clear_flags_views [simp]:
  "is_done (snd (ClearFlags (Done a) s)) op \<longleftrightarrow> is_done s op \<and> op \<noteq> a"
  "is_pending (snd (ClearFlags (Done a) s)) op \<longleftrightarrow> is_pending s op"
  "has_error (snd (ClearFlags (Done a) s)) \<longleftrightarrow> has_error s"
  "is_done (snd (ClearFlags (Pending a) s)) op \<longleftrightarrow> is_done s op"
  "is_pending (snd (ClearFlags (Pending a) s)) op \<longleftrightarrow> is_pending s op \<and> op \<noteq> a"
  "has_error (snd (ClearFlags (Pending a) s)) \<longleftrightarrow> has_error s"
  by (simp_all add: flag_bits)

lemma flags_frame [simp]:
  "dc_calls (snd (SetFlags fl s)) = dc_calls s" "dc_out (snd (SetFlags fl s)) = dc_out s"
  "dc_read_log (snd (SetFlags fl s)) = dc_read_log s" "dc_has_callback (snd (SetFlags fl s)) = dc_has_callback s"
  "dc_calls (snd (ClearFlags fl s)) = dc_calls s" "dc_out (snd (ClearFlags fl s)) = dc_out s"
  "dc_read_log (snd (ClearFlags fl s)) = dc_read_log s" "dc_has_callback (snd (ClearFlags fl s)) = dc_has_callback s"
  by (simp_all add: SetFlags_def ClearFlags_def)

lemma views_cong:
  assumes "dc_flags t = dc_flags s"
  shows "is_done t = is_done s" "is_pending t = is_pending s" "has_error t = has_error s"
  using assms by (auto simp: is_done_def is_pending_def has_error_def)

lemma views_update [simp]:
  "is_done (s\<lparr>dc_read_log := x0\<rparr>) = is_done s" "is_pending (s\<lparr>dc_read_log := x0\<rparr>) = is_pending s" "has_error (s\<lparr>dc_read_log := x0\<rparr>) = has_error s"
  "is_done (s\<lparr>dc_cancelled := x1\<rparr>) = is_done s" "is_pending (s\<lparr>dc_cancelled := x1\<rparr>) = is_pending s" "has_error (s\<lparr>dc_cancelled := x1\<rparr>) = has_error s"
  "is_done (s\<lparr>dc_read_buf_valid := x2\<rparr>) = is_done s" "is_pending (s\<lparr>dc_read_buf_valid := x2\<rparr>) = is_pending s" "has_error (s\<lparr>dc_read_buf_valid := x2\<rparr>) = has_error s"
  "is_done (s\<lparr>dc_status := x3\<rparr>) = is_done s" "is_pending (s\<lparr>dc_status := x3\<rparr>) = is_pending s" "has_error (s\<lparr>dc_status := x3\<rparr>) = has_error s"
  "is_done (s\<lparr>dc_cq_shutdown := x4\<rparr>) = is_done s" "is_pending (s\<lparr>dc_cq_shutdown := x4\<rparr>) = is_pending s" "has_error (s\<lparr>dc_cq_shutdown := x4\<rparr>) = has_error s"
  by (auto simp: is_done_def is_pending_def has_error_def)

lemma rw_call_frame [simp]:
  "dc_calls (rw_call op s) = dc_calls s @ [op]" "dc_out (rw_call op s) = dc_out s @ [op]"
  "dc_read_log (rw_call op s) = dc_read_log s" "dc_has_callback (rw_call op s) = dc_has_callback s"
  "is_done (rw_call op s) = is_done s" "is_pending (rw_call op s) = is_pending s" "has_error (rw_call op s) = has_error s"
  by (auto simp: rw_call_def is_done_def is_pending_def has_error_def)

text \<open>The stream is being finished or shut down; nothing is issued any more.\<close>

definition closing :: "'r client \<Rightarrow> bool" where
  "closing s \<longleftrightarrow> is_done s OP_FINISH \<or> is_pending s OP_FINISH \<or> is_done s OP_SHUTDOWN \<or> is_pending s OP_SHUTDOWN"

definition can_issue :: "bool \<Rightarrow> Op \<Rightarrow> 'r client \<Rightarrow> bool" where
  "can_issue idempotent op s \<longleftrightarrow> \<not> closing s \<and> \<not> is_pending s op \<and> \<not> (idempotent \<and> is_done s op)"

lemma DoAsync_OK_iff: "od_error (fst (DoAsync i op s)) = OE_OK \<longleftrightarrow> can_issue i op s"
  by (auto simp: DoAsync_def can_issue_def closing_def Let_def)

lemma DoAsync_refused: "\<not> can_issue i op s \<Longrightarrow> snd (DoAsync i op s) = s"
  by (auto simp: DoAsync_def can_issue_def closing_def Let_def)

lemma DoAsync_issued:
  assumes "can_issue i op s"
  shows "snd (DoAsync i op s) = rw_call op (snd (SetFlags (Pending op) (snd (ClearFlags (Done op) s))))"
  using assms by (auto simp: DoAsync_def can_issue_def closing_def Let_def)

lemma DoAsync_op [simp]: "od_op (fst (DoAsync i op s)) = op"
  by (simp add: DoAsync_def Let_def)

lemma DoAsync_frame [simp]:
  "dc_read_log (snd (DoAsync i op s)) = dc_read_log s" "dc_has_callback (snd (DoAsync i op s)) = dc_has_callback s"
  by (cases "can_issue i op s"; simp add: DoAsync_issued DoAsync_refused)+

section \<open>The protocol\<close>

definition cq_ok :: "'r client \<Rightarrow> 'r cq_next \<Rightarrow> bool" where
  "cq_ok s e \<longleftrightarrow> (case e of NextEvent op _ _ _ \<Rightarrow> op \<in> set (dc_out s) | _ \<Rightarrow> True)"

inductive client_step :: "'r client \<Rightarrow> 'r client \<Rightarrow> bool" where
  write_step: "client_step s (snd (WriteAsyncInternal s))"
| writes_done_step: "client_step s (snd (WritesDoneAsyncInternal s))"
| finish_step: "client_step s (snd (FinishAsyncInternal s))"
| read_step: "\<not> dc_has_callback s \<Longrightarrow> client_step s (ReadNext s)"
| cancel_step: "client_step s (TryCancel s)"
| shutdown_step: "client_step s (snd (Shutdown s))"
| event_step: "cq_ok s e \<Longrightarrow> client_step s (snd (snd (ProcessSingle e s)))"

text \<open>The operations the library works on are those flagged as pending, each once.\<close>

definition out_inv :: "'r client \<Rightarrow> bool" where
  "out_inv s \<longleftrightarrow> distinct (dc_out s) \<and> (\<forall>op. op \<in> set (dc_out s) \<longleftrightarrow> op \<noteq> OP_SHUTDOWN \<and> is_pending s op)"

text \<open>The order of the calls: the start comes first and only there, and nothing follows the finish.\<close>

definition calls_inv :: "'r client \<Rightarrow> bool" where
  "calls_inv s \<longleftrightarrow>
     (OP_FINISH \<in> set (dc_calls s) \<longrightarrow> is_done s OP_FINISH \<or> is_pending s OP_FINISH) \<and>
     (OP_WRITES_DONE \<in> set (dc_calls s) \<longrightarrow> is_done s OP_WRITES_DONE \<or> is_pending s OP_WRITES_DONE) \<and>
     count_list (dc_calls s) OP_WRITES_DONE \<le> 1 \<and> OP_FINISH \<notin> set (butlast (dc_calls s)) \<and>
     (\<exists>rest. dc_calls s = OP_START # rest \<and> OP_START \<notin> set rest)"

definition end_inv :: "'r client \<Rightarrow> bool" where
  "end_inv s \<longleftrightarrow> (has_error s \<longrightarrow> closing s) \<and>
     (None \<in> set (dc_read_log s) \<longrightarrow> closing s \<and> OP_READ \<notin> set (dc_out s)) \<and>
     None \<notin> set (butlast (dc_read_log s)) \<and> (dc_has_callback s \<or> dc_read_log s = [])"

definition client_inv :: "'r client \<Rightarrow> bool" where
  "client_inv s \<longleftrightarrow> out_inv s \<and> calls_inv s \<and> end_inv s"

lemma client_inv_frame:
  assumes "client_inv s" "dc_flags t = dc_flags s" "dc_calls t = dc_calls s" "dc_out t = dc_out s"
    "dc_read_log t = dc_read_log s" "dc_has_callback t = dc_has_callback s"
  shows "client_inv t"
  using assms(1)
  unfolding client_inv_def out_inv_def calls_inv_def end_inv_def closing_def assms(3-6) views_cong [OF assms(2)] .

lemma DoAsync_inv:
  assumes inv: "client_inv s" and op: "op \<in> {OP_READ, OP_WRITE, OP_FINISH} \<or> (op = OP_WRITES_DONE \<and> i)"
  shows "client_inv (snd (DoAsync i op s))"
proof (cases "can_issue i op s")
  case True
  then have nc: "\<not> closing s" "\<not> is_pending s op" "i \<Longrightarrow> \<not> is_done s op" by (auto simp: can_issue_def)
  let ?t = "snd (DoAsync i op s)"
  have "out_inv ?t"
    using inv op nc by (auto simp: DoAsync_issued [OF True] client_inv_def out_inv_def)
  moreover have "calls_inv ?t"
  proof -
    have "OP_FINISH \<notin> set (dc_calls s)" "op = OP_WRITES_DONE \<Longrightarrow> OP_WRITES_DONE \<notin> set (dc_calls s)"
      using inv op nc by (auto simp: client_inv_def calls_inv_def closing_def)
    then show ?thesis
      using inv op by (auto simp: DoAsync_issued [OF True] client_inv_def calls_inv_def count_list_0_iff)
  qed
  moreover have "end_inv ?t"
    using inv nc by (auto simp: DoAsync_issued [OF True] client_inv_def end_inv_def)
  ultimately show ?thesis by (simp add: client_inv_def)
qed (use inv in \<open>simp add: DoAsync_refused\<close>)

lemma ReadNext_inv: "client_inv s \<Longrightarrow> client_inv (ReadNext s)"
  unfolding ReadNext_def ReadAsyncInternal_def by (rule DoAsync_inv) (auto elim: client_inv_frame)

lemma client_inv_init: "client_inv (DuplexClientReaderWriter cb m)"
proof -
  let ?e = "\<lparr>dc_flags = 0, dc_status = (GRPC_OK, []), dc_has_callback = cb, dc_read_buf = m,
        dc_read_buf_valid = False, dc_calls = [], dc_out = [], dc_read_log = [], dc_cancelled = False,
        dc_cq_shutdown = False\<rparr> :: 'a client"
  have "\<not> is_done ?e op" "\<not> is_pending ?e op" "\<not> has_error ?e" for op
    by (simp_all add: is_done_def is_pending_def has_error_def)
  then have "client_inv (snd (SetFlags (Pending OP_START) (rw_call OP_START ?e)))"
    by (simp add: client_inv_def out_inv_def calls_inv_def end_inv_def) auto
  then show ?thesis unfolding DuplexClientReaderWriter_def by (rule ReadNext_inv)
qed

lemma Finish_closing: "closing (snd (FinishAsyncInternal s))"
  unfolding FinishAsyncInternal_def
  by (cases "can_issue False OP_FINISH s") (auto simp: DoAsync_issued DoAsync_refused can_issue_def closing_def)

lemma cq_store_frame [simp]:
  "dc_calls (cq_store op msg st s) = dc_calls s" "dc_out (cq_store op msg st s) = remove1 op (dc_out s)"
  "dc_read_log (cq_store op msg st s) = dc_read_log s" "dc_has_callback (cq_store op msg st s) = dc_has_callback s"
  "is_done (cq_store op msg st s) = is_done s" "is_pending (cq_store op msg st s) = is_pending s"
  "has_error (cq_store op msg st s) = has_error s"
  by (auto simp: cq_store_def Let_def is_done_def is_pending_def has_error_def split: Op.split)

text \<open>The completion of an operation, before its handler runs.\<close>

definition completed :: "Op \<Rightarrow> bool \<Rightarrow> 'r client \<Rightarrow> 'r client" where
  "completed op ok s0 =
     snd (SetFlags (if \<not> ok then Done op OR STREAM_ERROR else Done op)
       (snd (ClearFlags (Pending op) (if \<not> ok then snd (FinishAsyncInternal s0) else s0))))"

lemma completed_ok_inv:
  assumes inv: "client_inv s" and op: "op \<in> set (dc_out s)"
  shows "client_inv (completed op True (cq_store op msg st s))"
proof -
  have "op \<noteq> OP_SHUTDOWN" "is_pending s op" using inv op by (auto simp: client_inv_def out_inv_def)
  then show ?thesis
    using inv op
    by (auto simp: completed_def client_inv_def out_inv_def calls_inv_def end_inv_def closing_def)
qed

lemma completed_failed_inv:
  assumes inv: "client_inv s" and op: "op \<in> set (dc_out s)"
  shows "client_inv (completed op False (cq_store op msg st s))"
proof -
  let ?s0 = "cq_store op msg st s"
  have pend: "op \<noteq> OP_SHUTDOWN" "is_pending s op" "distinct (dc_out s)"
    using inv op by (auto simp: client_inv_def out_inv_def)
  show ?thesis
  proof (cases "can_issue False OP_FINISH ?s0")
    case True
    then have "\<not> closing s" and ne: "op \<noteq> OP_FINISH" "OP_FINISH \<notin> set (dc_out s)" "OP_FINISH \<notin> set (dc_calls s)"
      using pend inv by (auto simp: can_issue_def closing_def client_inv_def out_inv_def calls_inv_def)
    then show ?thesis
      using inv op pend by (auto simp: completed_def FinishAsyncInternal_def DoAsync_issued [OF True] client_inv_def
          out_inv_def calls_inv_def end_inv_def closing_def)
  next
    case False
    then have "closing s" by (auto simp: can_issue_def closing_def)
    then show ?thesis
      using inv op pend by (auto simp: completed_def FinishAsyncInternal_def DoAsync_refused [OF False] client_inv_def
          out_inv_def calls_inv_def end_inv_def closing_def)
  qed
qed

lemma completed_inv:
  "client_inv s \<Longrightarrow> op \<in> set (dc_out s) \<Longrightarrow> client_inv (completed op ok (cq_store op msg st s))"
  using completed_ok_inv [of s op msg st] completed_failed_inv [of s op msg st] by (cases ok) auto

lemma completed_closing: "closing (completed op False s)"
  using Finish_closing [of s] by (auto simp: completed_def closing_def)

lemma completed_frame [simp]:
  "dc_read_log (completed op ok s) = dc_read_log s" "dc_has_callback (completed op ok s) = dc_has_callback s"
  by (simp_all add: completed_def FinishAsyncInternal_def)

lemma HandleRead_inv:
  assumes inv: "client_inv t" and out: "OP_READ \<notin> set (dc_out t)" and log: "None \<notin> set (dc_read_log t)"
    and failed: "\<not> ok \<Longrightarrow> closing t"
  shows "client_inv (HandleRead ok t)"
proof (cases "dc_has_callback t")
  case True
  let ?u = "t\<lparr>dc_read_log := dc_read_log t @ [if ok then Some (dc_read_buf t) else None]\<rparr>"
  have "out_inv ?u" "calls_inv ?u" using inv by (simp_all add: client_inv_def out_inv_def calls_inv_def)
  moreover have "end_inv ?u" using inv out log failed True by (auto simp: client_inv_def end_inv_def closing_def)
  ultimately have "client_inv ?u" by (simp add: client_inv_def)
  then show ?thesis using ReadNext_inv [of ?u] True by (simp add: HandleRead_def)
next
  case False
  then show ?thesis using client_inv_frame [OF inv] by (simp add: HandleRead_def)
qed

lemma ProcessEvent_inv:
  assumes inv: "client_inv s" and op: "op \<in> set (dc_out s)"
  shows "client_inv (ProcessEvent op ok (cq_store op msg st s))"
proof -
  let ?t = "completed op ok (cq_store op msg st s)"
  have inv': "client_inv ?t" by (rule completed_inv [OF assms])
  have split: "ProcessEvent op ok (cq_store op msg st s) =
      (case op of OP_READ \<Rightarrow> HandleRead ok ?t | OP_FINISH \<Rightarrow> HandleFinish ok ?t | _ \<Rightarrow> ?t)"
    unfolding ProcessEvent_def completed_def Let_def by (rule refl)
  have read: "client_inv (HandleRead ok ?t)" if "op = OP_READ"
  proof (rule HandleRead_inv [OF inv'])
    have "\<not> is_pending ?t OP_READ"
      using that by (auto simp: completed_def)
    then show "OP_READ \<notin> set (dc_out ?t)" using inv' by (auto simp: client_inv_def out_inv_def)
    show "None \<notin> set (dc_read_log ?t)" using inv op that by (auto simp: client_inv_def end_inv_def)
  qed (use completed_closing in auto)
  have "client_inv (HandleFinish ok ?t)" using client_inv_frame [OF inv'] by (simp add: HandleFinish_def)
  then show ?thesis using inv' read unfolding split by (cases op) auto
qed

lemma client_step_inv: "client_step s t \<Longrightarrow> client_inv s \<Longrightarrow> client_inv t"
proof (induction rule: client_step.induct)
  case (shutdown_step s)
  have "client_inv (snd (SetFlags (Pending OP_SHUTDOWN) s))"
    using shutdown_step by (auto simp: client_inv_def out_inv_def calls_inv_def end_inv_def closing_def)
  then have "client_inv (snd (Shutdown s))" if "\<not> is_done s OP_SHUTDOWN"
    using that
    by (auto simp: Shutdown_def Let_def SetFlags_def elim!: client_inv_frame)
  moreover have "client_inv (snd (Shutdown s))" if "is_done s OP_SHUTDOWN"
    using that shutdown_step
    by (auto simp: Shutdown_def Let_def elim!: client_inv_frame)
  ultimately show ?case by blast
next
  case (event_step s e)
  show ?case
  proof (cases e)
    case (NextEvent op ok msg st)
    then show ?thesis using ProcessEvent_inv [of s op ok msg st] event_step by (simp add: cq_ok_def)
  next
    case NextShutdown
    then show ?thesis
      using event_step by (auto simp: client_inv_def out_inv_def calls_inv_def end_inv_def closing_def)
  qed (use event_step in simp)
next
  case (cancel_step s)
  then show ?case by (auto simp: TryCancel_def elim: client_inv_frame)
qed (auto intro: ReadNext_inv DoAsync_inv simp: WriteAsyncInternal_def WritesDoneAsyncInternal_def FinishAsyncInternal_def)

lemma client_steps_inv: "client_step\<^sup>*\<^sup>* s t \<Longrightarrow> client_inv s \<Longrightarrow> client_inv t"
  by (induction rule: rtranclp_induct) (auto intro: client_step_inv)

lemma DoAsync_closing: "closing s \<Longrightarrow> snd (DoAsync i op s) = s"
  by (rule DoAsync_refused) (simp add: can_issue_def)

lemma ReadNext_closing: "closing s \<Longrightarrow> dc_calls (ReadNext s) = dc_calls s \<and> closing (ReadNext s)"
  by (simp add: ReadNext_def ReadAsyncInternal_def DoAsync_closing closing_def)

lemma completed_stays_closing:
  "closing s \<Longrightarrow> closing (completed op ok s) \<and> dc_calls (completed op ok s) = dc_calls s"
  by (auto simp: completed_def FinishAsyncInternal_def DoAsync_closing) (auto simp: closing_def)

lemma ProcessEvent_completed:
  "ProcessEvent op ok s =
     (case op of OP_READ \<Rightarrow> HandleRead ok (completed op ok s) | OP_FINISH \<Rightarrow> HandleFinish ok (completed op ok s)
      | _ \<Rightarrow> completed op ok s)"
  unfolding ProcessEvent_def completed_def Let_def by (rule refl)

lemma ProcessEvent_closing:
  assumes "closing s"
  shows "closing (ProcessEvent op ok s) \<and> dc_calls (ProcessEvent op ok s) = dc_calls s"
proof -
  let ?t = "completed op ok s"
  have t: "closing ?t" "dc_calls ?t = dc_calls s" using completed_stays_closing [OF assms] by auto
  have "closing (HandleRead ok ?t) \<and> dc_calls (HandleRead ok ?t) = dc_calls s"
    using t ReadNext_closing [of "?t\<lparr>dc_read_log := dc_read_log ?t @ [if ok then Some (dc_read_buf ?t) else None]\<rparr>"]
    by (auto simp: HandleRead_def closing_def)
  moreover have "closing (HandleFinish ok ?t) \<and> dc_calls (HandleFinish ok ?t) = dc_calls s"
    using t by (auto simp: HandleFinish_def closing_def)
  ultimately show ?thesis using t unfolding ProcessEvent_completed by (cases op) auto
qed

lemma closing_step: "client_step s t \<Longrightarrow> closing s \<Longrightarrow> closing t \<and> dc_calls t = dc_calls s"
proof (induction rule: client_step.induct)
  case (event_step s e)
  show ?case
  proof (cases e)
    case (NextEvent op ok msg st)
    have "closing (cq_store op msg st s)" using event_step by (simp add: closing_def)
    from ProcessEvent_closing [OF this] show ?thesis by (simp add: NextEvent)
  qed (use event_step in \<open>auto simp: closing_def\<close>)
next
  case (shutdown_step s)
  then show ?case
    by (auto simp: Shutdown_def Let_def closing_def is_done_def is_pending_def SetFlags_def bit_or_iff split: prod.splits)
next
  case (cancel_step s)
  then show ?case by (simp add: TryCancel_def closing_def)
qed (simp_all add: WriteAsyncInternal_def WritesDoneAsyncInternal_def FinishAsyncInternal_def DoAsync_closing ReadNext_closing)

lemma closing_steps: "client_step\<^sup>*\<^sup>* s t \<Longrightarrow> closing s \<Longrightarrow> closing t \<and> dc_calls t = dc_calls s"
  by (induction rule: rtranclp_induct) (auto dest: closing_step)

lemma ReadNext_log [simp]: "dc_read_log (ReadNext s) = dc_read_log s"
  by (simp add: ReadNext_def ReadAsyncInternal_def)

lemma log_step:
  assumes "client_step s t" "OP_READ \<notin> set (dc_out s)"
  shows "dc_read_log t = dc_read_log s"
  using assms
proof (induction rule: client_step.induct)
  case (event_step s e)
  show ?case
  proof (cases e)
    case (NextEvent op ok msg st)
    then have "op \<noteq> OP_READ" using event_step by (auto simp: cq_ok_def)
    then show ?thesis by (cases op) (simp_all add: NextEvent ProcessEvent_completed HandleFinish_def)
  qed simp_all
qed (auto simp: WriteAsyncInternal_def WritesDoneAsyncInternal_def FinishAsyncInternal_def TryCancel_def Shutdown_def Let_def
    SetFlags_def)

lemma log_steps:
  "client_step\<^sup>*\<^sup>* s t \<Longrightarrow> client_inv s \<Longrightarrow> None \<in> set (dc_read_log s) \<Longrightarrow> dc_read_log t = dc_read_log s"
proof (induction rule: rtranclp_induct)
  case (step t u)
  then have "client_inv t" using client_steps_inv by blast
  then have "OP_READ \<notin> set (dc_out t)" using step by (auto simp: client_inv_def end_inv_def)
  then show ?case using step log_step by metis
qed simp

section \<open>Properties\<close>

text \<open>
  (C5) The client never misuses the stream, whatever its users call and in whatever order
  completions arrive: no operation is handed to the library while one of the same kind is under way, the
  pending flags tell exactly which are, the start is the first call and the only one of its kind, the
  writes are closed at most once, and nothing is called after the finish.
\<close>

theorem stream_protocol:
  assumes "client_step\<^sup>*\<^sup>* (DuplexClientReaderWriter cb m) s"
  shows "distinct (dc_out s) \<and> set (dc_out s) = {op. op \<noteq> OP_SHUTDOWN \<and> CheckFlags (Pending op) s \<noteq> 0} \<and>
    hd (dc_calls s) = OP_START \<and> OP_START \<notin> set (tl (dc_calls s)) \<and>
    count_list (dc_calls s) OP_WRITES_DONE \<le> 1 \<and> OP_FINISH \<notin> set (butlast (dc_calls s))"
proof -
  have inv: "out_inv s" "calls_inv s"
    using client_steps_inv [OF assms client_inv_init] by (simp_all add: client_inv_def)
  have "distinct (dc_out s)" "set (dc_out s) = {op. op \<noteq> OP_SHUTDOWN \<and> CheckFlags (Pending op) s \<noteq> 0}"
    using inv(1) by (simp_all add: out_inv_def set_eq_iff)
  moreover obtain rest where "dc_calls s = OP_START # rest" "OP_START \<notin> set rest" using inv(2) by (auto simp: calls_inv_def)
  ultimately show ?thesis using inv(2) by (simp add: calls_inv_def)
qed

text \<open>A stream with a read callback whose start fails; the client asks for the final status itself.\<close>

definition example_failed :: "nat client" where
  "example_failed = snd (snd (ProcessSingle (NextEvent OP_START False 0 (GRPC_OK, [])) (DuplexClientReaderWriter True 0)))"

lemma init_state:
  "DuplexClientReaderWriter cb m =
     \<lparr>dc_flags = 0x0C0, dc_status = (GRPC_OK, []), dc_has_callback = cb, dc_read_buf = m, dc_read_buf_valid = False,
      dc_calls = [OP_START, OP_READ], dc_out = [OP_START, OP_READ], dc_read_log = [], dc_cancelled = False,
      dc_cq_shutdown = False\<rparr>"
  by (simp add: DuplexClientReaderWriter_def ReadNext_def ReadAsyncInternal_def DoAsync_def SetFlags_def ClearFlags_def
      rw_call_def CheckFlags_def Done_def Pending_def kNumOps_def Let_def)

lemma example_reachable: "client_step\<^sup>*\<^sup>* (DuplexClientReaderWriter True 0) example_failed"
  unfolding example_failed_def by (rule r_into_rtranclp, rule event_step) (simp add: cq_ok_def init_state)

lemma example_failed_state: "dc_calls example_failed = [OP_START, OP_READ, OP_FINISH] \<and> bit (dc_flags example_failed) 31"
  by (simp add: example_failed_def init_state ProcessEvent_def FinishAsyncInternal_def DoAsync_def SetFlags_def ClearFlags_def
      rw_call_def CheckFlags_def Done_def Pending_def kNumOps_def Let_def cq_store_def STREAM_ERROR_def)

theorem stream_protocol_witness:
  "distinct (dc_out example_failed) \<and> OP_FINISH \<notin> set (butlast (dc_calls example_failed))"
  using stream_protocol [OF example_reachable] by blast

text \<open>
  (C17) A failed operation ends the stream: once the error flag is set, no operation is ever handed to the
  library again and every further write is refused.
\<close>

theorem stream_error_final:
  assumes "client_step\<^sup>*\<^sup>* (DuplexClientReaderWriter cb m) s" "bit (dc_flags s) 31" "client_step\<^sup>*\<^sup>* s t"
  shows "dc_calls t = dc_calls s \<and> fst (WriteAsync t) \<noteq> ST_OK \<and> dc_calls (snd (WriteAsync t)) = dc_calls s"
proof -
  have "client_inv s" by (rule client_steps_inv [OF assms(1) client_inv_init])
  then have "closing s" using assms(2) by (auto simp: client_inv_def end_inv_def has_error_def)
  then have t: "closing t" "dc_calls t = dc_calls s" using closing_steps [OF assms(3)] by auto
  then have "od_error (fst (DoAsync False OP_WRITE t)) \<noteq> OE_OK" unfolding DoAsync_OK_iff by (simp add: can_issue_def)
  then have "fst (WriteAsync t) \<noteq> ST_OK"
    by (cases "od_error (fst (DoAsync False OP_WRITE t))")
      (auto simp: WriteAsync_def WriteAsyncInternal_def split: prod.splits)
  then show ?thesis
    using t DoAsync_closing [of t False OP_WRITE] by (auto simp: WriteAsync_def WriteAsyncInternal_def split: prod.splits)
qed

theorem stream_error_final_witness:
  "fst (WriteAsync example_failed) \<noteq> ST_OK \<and> dc_calls (snd (WriteAsync example_failed)) = [OP_START, OP_READ, OP_FINISH]"
  using stream_error_final [OF example_reachable _ rtranclp.rtrancl_refl] example_failed_state by auto

text \<open>
  (C22) The read callback learns of the end of the stream once: the null message is the last one it gets,
  and after it the callback is never called again.
\<close>

theorem read_callback_ends_once:
  assumes "client_step\<^sup>*\<^sup>* (DuplexClientReaderWriter cb m) s" "None \<in> set (dc_read_log s)" "client_step\<^sup>*\<^sup>* s t"
  shows "dc_read_log t = dc_read_log s \<and> None \<notin> set (butlast (dc_read_log s))"
proof -
  have inv: "client_inv s" by (rule client_steps_inv [OF assms(1) client_inv_init])
  then show ?thesis using log_steps [OF assms(3) inv assms(2)] by (simp add: client_inv_def end_inv_def)
qed

text \<open>The end of the stream arrives as a failed read.\<close>

definition example_ended :: "nat client" where
  "example_ended = snd (snd (ProcessSingle (NextEvent OP_READ False 0 (GRPC_OK, [])) (DuplexClientReaderWriter True 0)))"

theorem read_callback_ends_once_witness: "None \<notin> set (butlast (dc_read_log example_ended))"
proof -
  have reach: "client_step\<^sup>*\<^sup>* (DuplexClientReaderWriter True 0) example_ended"
    unfolding example_ended_def by (rule r_into_rtranclp, rule event_step) (simp add: cq_ok_def init_state)
  have "None \<in> set (dc_read_log example_ended)"
    by (simp add: example_ended_def ProcessEvent_completed HandleRead_def init_state cq_store_def)
  then show ?thesis using read_callback_ends_once [OF reach _ rtranclp.rtrancl_refl] by simp
qed

text \<open>Operations that wait are made of the steps above, with the outcomes the queue may return.\<close>

fun cq_valid :: "'r client \<Rightarrow> 'r cq_next list \<Rightarrow> bool" where
  "cq_valid s [] = True"
| "cq_valid s (e # evs) = (cq_ok s e \<and> cq_valid (snd (snd (ProcessSingle e s))) evs)"

lemma Poll_steps: "cq_valid s evs \<Longrightarrow> client_step\<^sup>*\<^sup>* s (snd (snd (Poll c evs s)))"
proof (induction evs arbitrary: s)
  case (Cons e evs)
  obtain res r s' where ps: "ProcessSingle e s = (res, r, s')" by (metis prod_cases3)
  have "client_step s s'" using event_step [of s e] Cons.prems by (simp add: ps)
  moreover have "client_step\<^sup>*\<^sup>* s' (snd (snd (Poll c evs s')))" using Cons by (simp add: ps)
  ultimately show ?case by (simp add: ps converse_rtranclp_into_rtranclp)
qed simp

lemma sync_loop_steps: "cq_valid s evs \<Longrightarrow> client_step\<^sup>*\<^sup>* s (snd (snd (sync_loop op evs s)))"
proof (induction evs arbitrary: s)
  case (Cons e evs)
  obtain res r s' where ps: "ProcessSingle e s = (res, r, s')" by (metis prod_cases3)
  have "client_step s s'" using event_step [of s e] Cons.prems by (simp add: ps)
  moreover have "client_step\<^sup>*\<^sup>* s' (snd (snd (sync_loop op evs s')))" using Cons by (simp add: ps)
  ultimately show ?case by (simp add: ps converse_rtranclp_into_rtranclp split: option.split)
qed simp

lemma DoSync_steps:
  assumes "client_step s (snd (f s))" "cq_valid (snd (f s)) evs"
  shows "client_step\<^sup>*\<^sup>* s (snd (snd (DoSync i f evs s)))"
  using converse_rtranclp_into_rtranclp [OF assms(1) sync_loop_steps [OF assms(2)]] assms(1)
  by (auto simp: DoSync_def Let_def split: prod.split)

lemma Read_steps:
  assumes "cq_valid s evs"
  shows "client_step\<^sup>*\<^sup>* s (snd (snd (Read evs s)))"
proof -
  obtain res evs' s' where poll: "PollAll (Done OP_READ) evs s = (res, evs', s')" by (metis prod_cases3)
  have steps: "client_step\<^sup>*\<^sup>* s s'" using Poll_steps [OF assms] poll by (metis PollAll_def snd_conv)
  have "dc_has_callback s' = dc_has_callback s" using steps
  proof (induction rule: rtranclp_induct)
    case (step t u)
    have "dc_has_callback u = dc_has_callback t" using step(2)
    proof cases
      case (event_step e)
      then show ?thesis
        by (cases e) (auto simp: ProcessEvent_completed HandleRead_def HandleFinish_def ReadNext_def ReadAsyncInternal_def
            split: Op.split)
    qed (auto simp: WriteAsyncInternal_def WritesDoneAsyncInternal_def FinishAsyncInternal_def ReadNext_def
        ReadAsyncInternal_def TryCancel_def Shutdown_def SetFlags_def Let_def)
    then show ?case using step by simp
  qed simp
  then show ?thesis
    using steps by (auto simp: Read_def poll intro: rtranclp.rtrancl_into_rtrancl read_step)
qed

text \<open>
  The waiting interface is built from the steps the protocol is stated for: writing, ending the writes,
  finishing, reading, waiting for flags and destroying a client are sequences of them for every sequence
  of outcomes the completion queue may return.
\<close>

theorem waiting_refines_steps:
  "(cq_valid (snd (WriteAsyncInternal s)) evs \<longrightarrow> client_step\<^sup>*\<^sup>* s (snd (snd (Write evs s)))) \<and>
   (cq_valid (snd (WritesDoneAsyncInternal s)) evs \<longrightarrow> client_step\<^sup>*\<^sup>* s (snd (snd (WritesDone evs s)))) \<and>
   (cq_valid (snd (FinishAsyncInternal s)) evs \<longrightarrow> client_step\<^sup>*\<^sup>* s (snd (snd (Finish evs s)))) \<and>
   (cq_valid s evs \<longrightarrow> client_step\<^sup>*\<^sup>* s (snd (snd (Read evs s)))) \<and>
   (cq_valid s evs \<longrightarrow> client_step\<^sup>*\<^sup>* s (snd (snd (PollAny desired evs s)))) \<and>
   (cq_valid (snd (Shutdown s)) evs \<longrightarrow> client_step\<^sup>*\<^sup>* s (snd (destroy evs s)))"
proof (intro conjI impI)
  assume "cq_valid (snd (FinishAsyncInternal s)) evs"
  from DoSync_steps [of s FinishAsyncInternal, OF finish_step this, of True]
  show "client_step\<^sup>*\<^sup>* s (snd (snd (Finish evs s)))" by (auto simp: Finish_def split: prod.split)
next
  assume "cq_valid (snd (Shutdown s)) evs"
  from converse_rtranclp_into_rtranclp [OF shutdown_step Poll_steps [OF this]]
  show "client_step\<^sup>*\<^sup>* s (snd (destroy evs s))" unfolding destroy_def by (metis (no_types, lifting) case_prod_unfold)
qed (simp_all add: Write_def WritesDone_def PollAny_def DoSync_steps write_step writes_done_step Read_steps Poll_steps)

theorem waiting_refines_steps_witness:
  "client_step\<^sup>*\<^sup>* example_failed (snd (snd (PollAny STREAM_ERROR [NextTimeout] example_failed)))"
  using waiting_refines_steps [of example_failed "[NextTimeout]" STREAM_ERROR] by (simp add: cq_ok_def)

text \<open>
  The completion of an operation a blocking call waits for: the first outcome that is not the completion
  of another operation, if it is one of that operation, with its success and the status it carries.
\<close>

definition other_event :: "Op \<Rightarrow> 'r cq_next \<Rightarrow> bool" where
  "other_event op e \<longleftrightarrow> (case e of NextEvent op' _ _ _ \<Rightarrow> op' \<noteq> op | _ \<Rightarrow> False)"

definition completion_of :: "Op \<Rightarrow> 'r cq_next list \<Rightarrow> (bool \<times> grpc_status) option" where
  "completion_of op evs =
     (case dropWhile (other_event op) evs of NextEvent _ ok _ st # _ \<Rightarrow> Some (ok, st) | _ \<Rightarrow> None)"

definition is_event :: "'r cq_next \<Rightarrow> bool" where
  "is_event e \<longleftrightarrow> (case e of NextEvent _ _ _ _ \<Rightarrow> True | _ \<Rightarrow> False)"

definition after_events :: "'r cq_next list \<Rightarrow> 'r client \<Rightarrow> 'r client" where
  "after_events evs s = fold (\<lambda>e s. snd (snd (ProcessSingle e s))) evs s"

lemma completion_of_Cons:
  "completion_of op (NextEvent op' ok msg st # evs) = (if op' = op then Some (ok, st) else completion_of op evs)"
  "completion_of op (NextTimeout # evs) = None" "completion_of op (NextShutdown # evs) = None"
  by (simp_all add: completion_of_def other_event_def)

lemma completion_of_Nil: "completion_of op [] = None"
  by (simp add: completion_of_def)

lemma sync_loop_result:
  "(fst (sync_loop op evs s) = ST_OK \<longleftrightarrow> (\<exists>st. completion_of op evs = Some (True, st))) \<and>
   (fst (sync_loop op evs s) = ST_ERROR \<longleftrightarrow> (\<exists>st. completion_of op evs = Some (False, st)))"
proof (induction evs arbitrary: s)
  case (Cons e evs)
  then show ?case by (cases e) (auto simp: completion_of_Cons Result_of_bool_def)
qed (simp add: completion_of_Nil)

lemma finish_loop_status:
  "completion_of OP_FINISH evs = Some (True, st) \<Longrightarrow> dc_status (snd (snd (sync_loop OP_FINISH evs s))) = st"
proof (induction evs arbitrary: s)
  case (Cons e evs)
  then show ?case
    by (cases e) (auto simp: completion_of_Cons ProcessEvent_def HandleFinish_def SetFlags_def ClearFlags_def
        cq_store_def Let_def split: if_splits)
qed (simp add: completion_of_Nil)

text \<open>A blocking call proceeds to wait if it could issue its operation or, when asked to, found it pending.\<close>

lemma DoSync_waits:
  fixes i j :: bool and op :: Op and s :: "'r client"
  defines "go \<equiv> can_issue j op s \<or> i \<and> is_pending s op \<and> \<not> (j \<and> is_done s op)"
  shows "fst (DoSync i (DoAsync j op) evs s) = ST_OK \<longleftrightarrow> go \<and> (\<exists>st. completion_of op evs = Some (True, st))"
    and "fst (DoSync i (DoAsync j op) evs s) = ST_ERROR \<longleftrightarrow> go \<and> (\<exists>st. completion_of op evs = Some (False, st))"
    and "go \<Longrightarrow> DoSync i (DoAsync j op) evs s = sync_loop op evs (snd (DoAsync j op s))"
proof -
  obtain d s1 where d: "DoAsync j op s = (d, s1)" by fastforce
  have op: "od_op d = op" using DoAsync_op [of j op s] by (simp add: d)
  have err: "od_error d = OE_OK \<or> i \<and> od_error d = OE_ALREADY_PENDING \<longleftrightarrow> go"
    using d by (auto simp: go_def DoAsync_def can_issue_def closing_def Let_def split: if_splits)
  show wait: "go \<Longrightarrow> DoSync i (DoAsync j op) evs s = sync_loop op evs (snd (DoAsync j op s))"
    using err op by (auto simp: DoSync_def d Let_def)
  have refuse: "fst (DoSync i (DoAsync j op) evs s) \<noteq> ST_OK \<and> fst (DoSync i (DoAsync j op) evs s) \<noteq> ST_ERROR" if "\<not> go"
    using err that by (cases "od_error d") (auto simp: DoSync_def d Let_def)
  show "fst (DoSync i (DoAsync j op) evs s) = ST_OK \<longleftrightarrow> go \<and> (\<exists>st. completion_of op evs = Some (True, st))"
    "fst (DoSync i (DoAsync j op) evs s) = ST_ERROR \<longleftrightarrow> go \<and> (\<exists>st. completion_of op evs = Some (False, st))"
    using wait refuse sync_loop_result [of op evs "snd (DoAsync j op s)"] by metis+
qed

lemma after_events_Cons [simp]:
  "after_events [] s = s" "after_events (e # evs) s = after_events evs (snd (snd (ProcessSingle e s)))"
  by (simp_all add: after_events_def)

lemma Poll_OK_iff:
  "fst (Poll c evs s) = ST_OK \<longleftrightarrow>
     (\<exists>n < length evs. (\<forall>e \<in> set (take (Suc n) evs). is_event e) \<and> c (dc_flags (after_events (take (Suc n) evs) s)))"
proof (induction evs arbitrary: s)
  case (Cons e evs)
  show ?case
  proof (cases "is_event e")
    case True
    then obtain op ok msg st where e: "e = NextEvent op ok msg st" by (cases e) (auto simp: is_event_def)
    let ?s = "snd (snd (ProcessSingle e s))"
    have split_n: "(\<exists>n < Suc m. P n) \<longleftrightarrow> P 0 \<or> (\<exists>n < m. P (Suc n))" for m P
      using less_Suc_eq_0_disj by auto
    have res: "fst (ProcessSingle e s) = ST_OK" by (simp add: e)
    show ?thesis
      using Cons [of ?s] True res by (auto simp: split_n split_beta Result_ok_def simp del: ProcessSingle.simps)
  next
    case False
    then show ?thesis by (cases e) (auto simp: is_event_def Result_ok_def)
  qed
qed simp

lemma Poll_OK_flags: "fst (Poll c evs s) = ST_OK \<Longrightarrow> c (dc_flags (snd (snd (Poll c evs s))))"
proof (induction evs arbitrary: s)
  case (Cons e evs)
  then show ?case by (cases e) (auto simp: Result_ok_def split: if_splits)
qed simp

text \<open>
  (C18) What the blocking calls report. A write succeeds exactly when it could be issued and its own
  successful completion is the first outcome of the queue that is not the completion of another
  operation; with a failed completion there it reports an error. Ending the writes and finishing do so
  too, and they also wait for an operation of theirs that is already pending; finishing gives the status
  its completion carries, and a status only then. Waiting for flags succeeds exactly when one of the
  desired flags is set after some completion that arrives before a timeout or a shutdown of the queue, and
  then it is set in the state the call returns in.
\<close>

theorem blocking_calls_report:
  "(fst (Write evs s) = ST_OK \<longleftrightarrow>
      can_issue False OP_WRITE s \<and> (\<exists>st. completion_of OP_WRITE evs = Some (True, st))) \<and>
   (fst (Write evs s) = ST_ERROR \<longleftrightarrow>
      can_issue False OP_WRITE s \<and> (\<exists>st. completion_of OP_WRITE evs = Some (False, st))) \<and>
   (fst (WritesDone evs s) = ST_OK \<longleftrightarrow>
      (can_issue True OP_WRITES_DONE s \<or> is_pending s OP_WRITES_DONE \<and> \<not> is_done s OP_WRITES_DONE) \<and>
      (\<exists>st. completion_of OP_WRITES_DONE evs = Some (True, st))) \<and>
   (snd (fst (Finish_into evs s)) = Some status \<longleftrightarrow>
      (can_issue False OP_FINISH s \<or> is_pending s OP_FINISH) \<and> completion_of OP_FINISH evs = Some (True, status)) \<and>
   (fst (PollAny desired evs s) = ST_OK \<longleftrightarrow>
      (\<exists>n < length evs. list_all is_event (take (Suc n) evs) \<and>
         CheckFlags desired (after_events (take (Suc n) evs) s) \<noteq> 0)) \<and>
   (fst (PollAny desired evs s) = ST_OK \<longrightarrow> CheckFlags desired (snd (snd (PollAny desired evs s))) \<noteq> 0)"
proof (intro conjI)
  show "fst (Write evs s) = ST_OK \<longleftrightarrow>
      can_issue False OP_WRITE s \<and> (\<exists>st. completion_of OP_WRITE evs = Some (True, st))"
    "fst (Write evs s) = ST_ERROR \<longleftrightarrow>
      can_issue False OP_WRITE s \<and> (\<exists>st. completion_of OP_WRITE evs = Some (False, st))"
    using DoSync_waits(1,2) [of False False OP_WRITE evs s] by (simp_all add: Write_def WriteAsyncInternal_def [abs_def])
  show "fst (WritesDone evs s) = ST_OK \<longleftrightarrow>
      (can_issue True OP_WRITES_DONE s \<or> is_pending s OP_WRITES_DONE \<and> \<not> is_done s OP_WRITES_DONE) \<and>
      (\<exists>st. completion_of OP_WRITES_DONE evs = Some (True, st))"
    using DoSync_waits(1) [of True True OP_WRITES_DONE evs s] by (simp add: WritesDone_def WritesDoneAsyncInternal_def [abs_def])
  show "snd (fst (Finish_into evs s)) = Some status \<longleftrightarrow>
      (can_issue False OP_FINISH s \<or> is_pending s OP_FINISH) \<and> completion_of OP_FINISH evs = Some (True, status)"
    using DoSync_waits(1,3) [where i = True and j = False and op = OP_FINISH and evs = evs and s = s]
      finish_loop_status [of evs _ "snd (DoAsync False OP_FINISH s)"]
    by (auto simp: Finish_into_def FinishAsyncInternal_def [abs_def] Result_ok_def split_beta)
  show "fst (PollAny desired evs s) = ST_OK \<longleftrightarrow>
      (\<exists>n < length evs. list_all is_event (take (Suc n) evs) \<and>
         CheckFlags desired (after_events (take (Suc n) evs) s) \<noteq> 0)"
    by (simp add: PollAny_def Poll_OK_iff CheckFlags_def list_all_iff)
  show "fst (PollAny desired evs s) = ST_OK \<longrightarrow> CheckFlags desired (snd (snd (PollAny desired evs s))) \<noteq> 0"
    using Poll_OK_flags by (auto simp: PollAny_def CheckFlags_def)
qed

theorem blocking_calls_report_witness:
  "let started = snd (snd (ProcessSingle (NextEvent OP_START True 0 (GRPC_OK, [])) (DuplexClientReaderWriter True (0 :: nat))))
   in fst (Write [NextEvent OP_READ True 7 (GRPC_OK, []), NextEvent OP_WRITE True 0 (GRPC_OK, [])] started) = ST_OK \<and>
      fst (PollAny (Done OP_READ) [NextTimeout] started) \<noteq> ST_OK"
proof -
  let ?started = "snd (snd (ProcessSingle (NextEvent OP_START True 0 (GRPC_OK, [])) (DuplexClientReaderWriter True (0 :: nat))))"
  have "can_issue False OP_WRITE ?started"
    by (simp add: init_state ProcessEvent_def SetFlags_def ClearFlags_def Done_def Pending_def kNumOps_def Let_def
        cq_store_def can_issue_def closing_def is_done_def is_pending_def)
  then show ?thesis
    using blocking_calls_report [of "[NextEvent OP_READ True 7 (GRPC_OK, []), NextEvent OP_WRITE True 0 (GRPC_OK, [])]" ?started]
      blocking_calls_report [of "[NextTimeout]" ?started _ "Done OP_READ"]
    unfolding Let_def by (simp add: completion_of_Cons is_event_def)
qed

text \<open>
  The pattern the documentation recommends does not work: after \<^verbatim>\<open>PollAny(CAN_READ)\<close> has reported that a message
  is there, \<^verbatim>\<open>TryRead\<close> waits for yet another event before it looks at the flags, so without one it
  times out although the message lies in the buffer.
\<close>

theorem TryRead_misses_polled_message:
  "\<exists>s. PollAny (Done OP_READ) [NextEvent OP_READ True msg (GRPC_OK, [])] (DuplexClientReaderWriter False empty) = (ST_OK, [], s) \<and>
    dc_read_buf_valid s \<and> dc_read_buf s = msg \<and> fst (Read [] s) = (ST_TIMEOUT, None)"
  by (simp add: PollAny_def init_state ProcessEvent_def SetFlags_def ClearFlags_def Done_def Pending_def kNumOps_def Let_def
      cq_store_def HandleRead_def Read_def PollAll_def Result_ok_def)

text \<open>
  A status that was already received is lost: once the finish has completed, as it does by itself after
  a failure, \<^verbatim>\<open>Finish\<close> reports an unknown error instead of the status the stream ended with.
\<close>

theorem Finish_after_finish_unknown:
  assumes "CheckFlags (Done OP_FINISH) s \<noteq> 0" "CheckFlags (Pending OP_FINISH) s = 0"
  shows "fst (Finish evs s) = (GRPC_UNKNOWN, ''unknown error retrieving status'')"
proof -
  have "od_error (fst (DoAsync False OP_FINISH s)) = OE_SHUTDOWN \<or> od_error (fst (DoAsync False OP_FINISH s)) = OE_ILLEGAL_STATE"
    using assms by (simp add: DoAsync_def)
  then show ?thesis
    by (auto simp: Finish_def DoSync_def FinishAsyncInternal_def Let_def Result_ok_def IsTimeout_def split: prod.split)
qed

theorem Finish_after_finish_unknown_witness:
  "\<exists>s. s = snd (snd (ProcessSingle (NextEvent OP_FINISH True (0 :: nat) (GRPC_OTHER 14, ''unavailable'')) example_failed)) \<and>
    dc_status s = (GRPC_OTHER 14, ''unavailable'') \<and> fst (Finish [] s) = (GRPC_UNKNOWN, ''unknown error retrieving status'')"
proof -
  define s where "s = snd (snd (ProcessSingle (NextEvent OP_FINISH True (0 :: nat) (GRPC_OTHER 14, ''unavailable'')) example_failed))"
  have "is_done s OP_FINISH" "\<not> is_pending s OP_FINISH" "dc_status s = (GRPC_OTHER 14, ''unavailable'')"
    by (simp_all add: s_def ProcessEvent_completed HandleFinish_def completed_def)
      (simp add: SetFlags_def ClearFlags_def cq_store_def)
  then show ?thesis using Finish_after_finish_unknown [of s "[]"] s_def by simp
qed

end
