(* ===== verification/Notifier_Thread.thy ===== *)
theory Notifier_Thread
  imports Network_Status Duplex_Stream
begin

text \<open>
  The thread of the network status notifier: \<^verbatim>\<open>RunSingle\<close> over the writer it is given and \<^verbatim>\<open>Run\<close> of \<^verbatim>\<open>NetworkStatusNotifier.cpp\<close>, with the choice
  of the writer in \<^verbatim>\<open>NetworkConnectionInfoServiceComm.cpp\<close> and the writer to standard output of \<^verbatim>\<open>DuplexGRPC.h\<close>. The inputs of the rounds
  are sequences without an end, and a loop that never returns has the value \<open>None\<close>.
\<close>

section \<open>Writers\<close>

text \<open>The part of \<^verbatim>\<open>IDuplexClientWriter\<close> the loop uses, with the number of the round for what the outside world answers.\<close>

record 'w writer_ops =
  wo_Sleep :: "nat \<Rightarrow> 'w \<Rightarrow> bool \<times> 'w"
  wo_Write :: "nat \<Rightarrow> NetworkConnectionInfo \<Rightarrow> 'w \<Rightarrow> bool \<times> 'w"

text \<open>The writer to standard output: its state is what it has written.\<close>

definition Stdout_Write :: "'m \<Rightarrow> 'm list \<Rightarrow> Result \<times> 'm list" where "Stdout_Write obj out = (ST_OK, out @ [obj])"
definition Stdout_WriteAsync :: "'m \<Rightarrow> 'm list \<Rightarrow> Result \<times> 'm list" where "Stdout_WriteAsync obj out = (ST_OK, out @ [obj])"
definition Stdout_Sleep :: "'m list \<Rightarrow> bool \<times> 'm list" where "Stdout_Sleep out = (True, out)"
definition Stdout_WaitUntilStarted :: Result where "Stdout_WaitUntilStarted = ST_OK"
definition Stdout_WritesDone :: Result where "Stdout_WritesDone = ST_OK"
definition Stdout_WritesDoneAsync :: Result where "Stdout_WritesDoneAsync = ST_OK"
definition Stdout_FinishAsync :: Result where "Stdout_FinishAsync = ST_OK"
definition Stdout_WaitUntilFinished :: Result where "Stdout_WaitUntilFinished = ST_OK"
definition Stdout_Finish_into :: Result where "Stdout_Finish_into = ST_OK"
definition Stdout_Finish :: grpc_status where "Stdout_Finish = (GRPC_OK, ''Ok'')"
definition Stdout_Shutdown :: Result where "Stdout_Shutdown = ST_OK"

definition stdout_writer :: "NetworkConnectionInfo list writer_ops" where
  "stdout_writer =
     \<lparr>wo_Sleep = (\<lambda>i out. Stdout_Sleep out), wo_Write = (\<lambda>i msg out. map_prod Result_ok id (Stdout_Write msg out))\<rparr>"

text \<open>The writer of a stream, with what the completion queue delivers in each call.\<close>

definition stream_writer :: "(nat \<Rightarrow> 'r cq_next list) \<Rightarrow> (nat \<Rightarrow> 'r cq_next list) \<Rightarrow> 'r client writer_ops" where
  "stream_writer sleep_evs write_evs =
     \<lparr>wo_Sleep = (\<lambda>i s. case Sleep (sleep_evs i) s of (going, _, s') \<Rightarrow> (going, s')),
      wo_Write = (\<lambda>i msg s. case Write (write_evs i) s of (res, _, s') \<Rightarrow> (Result_ok res, s'))\<rparr>"

section \<open>One stream\<close>

text \<open>A round: the message to write, if there is one, and the new state of the loop.\<close>

definition round_step :: "notifier_config \<Rightarrow> round_input \<Rightarrow> loop_state \<Rightarrow> NetworkConnectionInfo option \<times> loop_state" where
  "round_step cfg inp ls =
     (let (ok, ct) = UpdateAllConnsAndEndpoints cfg inp (ri_others inp 0 (ls_tracker ls));
          ls1 = ls\<lparr>ls_tracker := ct\<rparr>
      in if \<not> ok then (None, ls1)
         else (let (delta_conn, delta_cep, ls2) = report_round cfg inp ls1
               in (CreateInfoMessage (ri_per_container_limit inp) (ri_message_time inp) delta_conn delta_cep, ls2)))"

partial_function (option) RunSingle_thread ::
  "notifier_config \<Rightarrow> 'w writer_ops \<Rightarrow> (nat \<Rightarrow> round_input) \<Rightarrow> nat \<Rightarrow> 'w \<Rightarrow> loop_state \<Rightarrow> ('w \<times> loop_state) option" where
  "RunSingle_thread cfg wo inps i w ls =
     (case wo_Sleep wo i w of
        (going, w1) \<Rightarrow>
          if \<not> going then Some (w1, ls)
          else case round_step cfg (inps i) ls of
                 (None, ls') \<Rightarrow> RunSingle_thread cfg wo inps (Suc i) w1 ls'
               | (Some msg, ls') \<Rightarrow>
                   (case wo_Write wo i msg w1 of
                      (written, w2) \<Rightarrow> if \<not> written then Some (w2, ls') else RunSingle_thread cfg wo inps (Suc i) w2 ls'))"

section \<open>The thread\<close>

text \<open>Waiting for the stream to start has no effect on what follows but a log message.\<close>

definition WaitUntilWriterStarted :: "Result \<Rightarrow> string" where
  "WaitUntilWriterStarted res =
     (if \<not> Result_ok res then ''Failed to establish network connection info stream.''
      else ''Established network connection info stream.'')"

text \<open>What happens in an attempt: the pause, the wait for the channel, the rounds, and the flag at the end.\<close>

record attempt =
  at_pause :: bool
  at_ready :: bool
  at_external_ips :: ExternalIPsConfig
  at_now :: int
  at_inputs :: "nat \<Rightarrow> round_input"
  at_should_stop :: bool

definition WaitForConnectionReady :: "bool \<Rightarrow> bool \<Rightarrow> bool" where
  "WaitForConnectionReady channel ready = (if \<not> channel then True else ready)"

text \<open>\<open>open_stream\<close> gives the writer of each attempt with its first state.\<close>

partial_function (option) Notifier_Run ::
  "notifier_config \<Rightarrow> bool \<Rightarrow> (nat \<Rightarrow> 'w writer_ops \<times> 'w) \<Rightarrow> (nat \<Rightarrow> attempt) \<Rightarrow> nat \<Rightarrow> ConnectionTracker \<Rightarrow> ConnectionTracker option" where
  "Notifier_Run cfg channel open_stream attempts i ct =
     (if \<not> at_pause (attempts i) then Some ct
      else if \<not> WaitForConnectionReady channel (at_ready (attempts i)) then Some ct
      else case RunSingle_thread cfg (fst (open_stream i)) (at_inputs (attempts i)) 0 (snd (open_stream i))
                  \<lparr>ls_tracker = ct, ls_old_conn_state = [], ls_old_cep_state = [], ls_prev_external_ips = at_external_ips (attempts i),
                   ls_time_at_last_scrape = at_now (attempts i)\<rparr> of
             None \<Rightarrow> None
           | Some (w, ls) \<Rightarrow>
               if at_should_stop (attempts i) then Some (ls_tracker ls)
               else Notifier_Run cfg channel open_stream attempts (Suc i) (ls_tracker ls))"

section \<open>A writer that ends the rounds\<close>

text \<open>Sleeping succeeds for \<open>n\<close> rounds, and a write succeeds if the input of the round says so.\<close>

definition scripted_writer :: "nat \<Rightarrow> (nat \<Rightarrow> round_input) \<Rightarrow> NetworkConnectionInfo list writer_ops" where
  "scripted_writer n inps =
     \<lparr>wo_Sleep = (\<lambda>i out. (i < n, out)), wo_Write = (\<lambda>i msg out. if ri_write_ok (inps i) then (True, out @ [msg]) else (False, out))\<rparr>"

lemma RunSingle_loop_step:
  "RunSingle_loop cfg (inp # inps) ls =
     (case round_step cfg inp ls of
        (None, ls') \<Rightarrow> RunSingle_loop cfg inps ls'
      | (Some msg, ls') \<Rightarrow> if \<not> ri_write_ok inp then ([], ls')
                           else (let (msgs, ls3) = RunSingle_loop cfg inps ls' in (msg # msgs, ls3)))"
  by (simp add: round_step_def Let_def split: prod.split option.split)

lemma scripted_runs:
  "RunSingle_thread cfg (scripted_writer n inps) inps (n - k) out ls =
     (case RunSingle_loop cfg (map inps [n - k..<n]) ls of (msgs, ls') \<Rightarrow> Some (out @ msgs, ls'))" if "k \<le> n"
  using that
proof (induction k arbitrary: out ls)
  case 0
  show ?case by (subst RunSingle_thread.simps) (simp add: scripted_writer_def)
next
  case (Suc k)
  define i where "i = n - Suc k"
  have i: "i < n" "Suc i = n - k" using Suc.prems by (auto simp: i_def)
  have upt: "map inps [i..<n] = inps i # map inps [Suc i..<n]" using i(1) by (simp add: upt_conv_Cons)
  obtain m ls' where r: "round_step cfg (inps i) ls = (m, ls')" by force
  note IH = Suc.IH [OF Suc_leD [OF Suc.prems], folded i(2)]
  show ?case
    unfolding i_def [symmetric] upt RunSingle_loop_step
    by (subst RunSingle_thread.simps, cases m) (simp_all add: scripted_writer_def [of n inps] r i(1) IH [unfolded scripted_writer_def] split: prod.split)
qed

text \<open>
  The loop over the writer does the rounds of the specification: with a writer whose sleep succeeds for \<open>n\<close> rounds it ends, has written
  exactly the messages of those rounds up to the first failed write, and leaves the same state.
\<close>

theorem RunSingle_thread_refines:
  "RunSingle_thread cfg (scripted_writer n inps) inps 0 []
     \<lparr>ls_tracker = ct, ls_old_conn_state = [], ls_old_cep_state = [], ls_prev_external_ips = external_ips, ls_time_at_last_scrape = now\<rparr> =
     Some (RunSingle cfg external_ips now (map inps [0..<n]) ct)"
  using scripted_runs [of n n cfg inps "[]"] by (simp add: RunSingle_def split: prod.splits)

section \<open>A writer that never ends\<close>

text \<open>A writer whose sleep always succeeds and which never fails to write.\<close>

locale tireless_writer =
  fixes wo :: "'w writer_ops"
  assumes sleep_goes_on: "fst (wo_Sleep wo i w)"
    and write_succeeds: "fst (wo_Write wo i msg w)"
begin

lemma no_failure: "wo_Sleep wo i w \<noteq> (False, w')" "wo_Write wo i msg w \<noteq> (False, w')"
  using sleep_goes_on [of i w] write_succeeds [of i msg w] by auto

lemma RunSingle_never_returns: "RunSingle_thread cfg wo inps i w ls = None"
proof -
  have "False" if "RunSingle_thread cfg wo inps i w ls = Some r" for r
  proof -
    have "wo = wo \<longrightarrow> False"
    proof (rule RunSingle_thread.raw_induct [where P = "\<lambda>_ wo' _ _ _ _ _. wo' = wo \<longrightarrow> False", OF _ that])
      fix RunSingle cfg wo' inps i w ls y
      assume IH: "\<And>cfg wo' inps i w ls y. RunSingle cfg wo' inps i w ls = Some y \<Longrightarrow> wo' = wo \<longrightarrow> False"
        and body: "(case wo_Sleep wo' i w of
            (going, w1) \<Rightarrow>
              if \<not> going then Some (w1, ls)
              else case round_step cfg (inps i) ls of
                     (None, ls') \<Rightarrow> RunSingle cfg wo' inps (Suc i) w1 ls'
                   | (Some msg, ls') \<Rightarrow>
                       (case wo_Write wo' i msg w1 of
                          (written, w2) \<Rightarrow> if \<not> written then Some (w2, ls') else RunSingle cfg wo' inps (Suc i) w2 ls')) = Some y"
      show "wo' = wo \<longrightarrow> False"
        using IH body no_failure by (auto split: prod.splits option.splits if_splits)
    qed
    then show False by simp
  qed
  then show ?thesis by (cases "RunSingle_thread cfg wo inps i w ls") auto
qed

end

interpretation stdout_writer: tireless_writer stdout_writer
  by unfold_locales (simp_all add: stdout_writer_def Stdout_Sleep_def Stdout_Write_def Result_ok_def)

section \<open>When the thread ends\<close>

text \<open>A writer whose sleep fails at the latest in round \<open>n\<close>, as that of a stream that is cancelled or broken.\<close>

locale mortal_writer =
  fixes wo :: "'w writer_ops" and n :: nat
  assumes sleep_fails: "\<not> fst (wo_Sleep wo n w)"
begin

lemma RunSingle_returns: "i \<le> n \<Longrightarrow> RunSingle_thread cfg wo inps i w ls \<noteq> None"
proof (induction "n - i" arbitrary: i w ls)
  case 0
  then have i: "i = n" by simp
  obtain w1 where "wo_Sleep wo n w = (False, w1)" using sleep_fails [of w] by (cases "wo_Sleep wo n w") auto
  then show ?case unfolding i by (subst RunSingle_thread.simps) simp
next
  case (Suc k)
  then have IH: "RunSingle_thread cfg wo inps (Suc i) w ls \<noteq> None" for w ls by simp
  show ?case using IH by (subst RunSingle_thread.simps) (simp del: not_None_eq split: prod.split option.split)
qed

end

lemma error_kept: "has_error s \<Longrightarrow> has_error (snd (DoAsync i op s))"
  using OpToTag_le [of op]
  unfolding DoAsync_def Let_def by (auto simp: rw_call_def has_error_def bit_SetFlags bit_ClearFlags bit_flag_values)

lemma failed_event_error: "has_error (ProcessEvent op False s)"
proof -
  have err: "has_error (completed op False s)" by (simp add: completed_def)
  then have "has_error (HandleRead False (completed op False s))" "has_error (HandleFinish False (completed op False s))"
    by (auto simp: HandleRead_def HandleFinish_def ReadNext_def ReadAsyncInternal_def intro!: error_kept)
  with err show ?thesis by (cases op) (simp_all add: ProcessEvent_completed)
qed

lemma broken_Poll:
  assumes "NextTimeout \<notin> set pre"
  shows "\<not> IsTimeout (fst (PollAny (STREAM_ERROR OR Done OP_FINISH) (pre @ NextEvent op False msg st # post) s))"
  using assms
proof (induction pre arbitrary: s)
  case Nil
  define s' where "s' = ProcessEvent op False (cq_store op msg st s)"
  have "bit (dc_flags s' AND (STREAM_ERROR OR Done OP_FINISH)) 31"
    using failed_event_error [of op "cq_store op msg st s"] by (simp add: has_error_def s'_def bit_and_iff bit_or_iff bit_flag_values)
  then have "dc_flags s' AND (STREAM_ERROR OR Done OP_FINISH) \<noteq> 0" by auto
  then show ?case by (simp add: PollAny_def IsTimeout_def s'_def)
next
  case (Cons e pre)
  then show ?case by (cases e) (auto simp: PollAny_def IsTimeout_def Result_ok_def)
qed

lemma stream_mortal:
  assumes "sleep_evs n = pre @ NextEvent op False msg st # post" and "NextTimeout \<notin> set pre"
  shows "mortal_writer (stream_writer sleep_evs write_evs) n"
proof
  show "\<not> fst (wo_Sleep (stream_writer sleep_evs write_evs) n w)" for w
    using broken_Poll [OF assms(2), of op msg st post w] by (auto simp: stream_writer_def Sleep_def assms(1) split: prod.split)
qed

interpretation broken_stream: mortal_writer "stream_writer (\<lambda>i. if i < n then sleep_evs i else [NextEvent op False msg st]) write_evs" n
  by (rule stream_mortal [where pre = "[]"]) simp_all

section \<open>Stopping the notifier\<close>

text \<open>
  (C35) A notifier that reports over a stream ends when it is told to stop: if in every attempt up to the one that sees the flag the queue
  at some time delivers a failed operation, as it does once the call is cancelled, the thread returns, whatever else happens in its rounds.
\<close>

theorem stream_notifier_ends:
  assumes broken: "\<And>i. i \<le> k \<Longrightarrow> \<exists>n pre op msg st post. sleep_evs i n = pre @ NextEvent op False msg st # post \<and> NextTimeout \<notin> set pre"
    and stop: "at_should_stop (attempts k)"
  shows "\<exists>ct'. Notifier_Run cfg True (\<lambda>i. (stream_writer (sleep_evs i) (write_evs i), first i)) attempts 0 ct = Some ct'"
proof -
  let ?open = "\<lambda>i. (stream_writer (sleep_evs i) (write_evs i), first i)"
  have single: "RunSingle_thread cfg (stream_writer (sleep_evs i) (write_evs i)) inps 0 w ls \<noteq> None" if "i \<le> k" for i inps w ls
    using broken [OF that] mortal_writer.RunSingle_returns [OF stream_mortal, of "sleep_evs i"] by blast
  have "Notifier_Run cfg True ?open attempts i ct \<noteq> None" if "i \<le> k" for i ct
    using that
  proof (induction "k - i" arbitrary: i ct)
    case 0
    then have "i = k" by simp
    then show ?case using stop single [of k] by (subst Notifier_Run.simps) (simp del: not_None_eq split: prod.split option.split)
  next
    case (Suc j)
    then have IH: "Notifier_Run cfg True ?open attempts (Suc i) ct \<noteq> None" for ct by simp
    show ?case using IH single [OF Suc.prems] by (subst Notifier_Run.simps) (simp del: not_None_eq split: prod.split option.split)
  qed
  then show ?thesis by blast
qed

definition example_attempt :: attempt where
  "example_attempt =
     \<lparr>at_pause = True, at_ready = True, at_external_ips = ExternalIPsConfig_default, at_now = 0,
      at_inputs = (\<lambda>_. sample_round),
      at_should_stop = True\<rparr>"

theorem stream_notifier_ends_witness:
  "\<exists>ct'. Notifier_Run sample_config True
     (\<lambda>i. (stream_writer (\<lambda>n. if n < 3 then [NextTimeout] else [NextEvent OP_WRITE True 0 (GRPC_OK, []), NextEvent OP_READ False 0 (GRPC_OK, [])])
             (\<lambda>_. [NextEvent OP_WRITE True 0 (GRPC_OK, [])]), DuplexClientReaderWriter True (0 :: nat))) (\<lambda>_. example_attempt) 0 ConnectionTracker_init = Some ct'"
proof (rule stream_notifier_ends [where k = 0])
  show "at_should_stop example_attempt" by (simp add: example_attempt_def)
  show "\<exists>(n :: nat) pre op msg st post. (if n < 3 then [NextTimeout] else [NextEvent OP_WRITE True 0 (GRPC_OK, []), NextEvent OP_READ False (0 :: nat) (GRPC_OK, [])]) =
      pre @ NextEvent op False msg st # post \<and> NextTimeout \<notin> set pre" if "i \<le> 0" for i :: nat
    by (rule exI [of _ "3 :: nat"], rule exI [of _ "[NextEvent OP_WRITE True 0 (GRPC_OK, [])]"]) auto
qed

lemma stdout_notifier_hangs: "at_pause (attempts i) \<Longrightarrow> Notifier_Run cfg False (\<lambda>i. (stdout_writer, out i)) attempts i ct = None"
  by (subst Notifier_Run.simps) (simp add: WaitForConnectionReady_def stdout_writer.RunSingle_never_returns)

end
