(* ===== verification/Notifier_Stop.thy ===== *)
theory Notifier_Stop
  imports Notifier_Thread
begin

text \<open>
  Stopping the notifier while its thread runs: the connection object of \<^verbatim>\<open>NetworkConnectionInfoServiceComm.cpp\<close> with the context of the
  call, and the interleavings of \<^verbatim>\<open>NetworkStatusNotifier::Stop\<close> with \<^verbatim>\<open>NetworkStatusNotifier::Run\<close>, one step for each operation
  on the context or on the flag of the thread.
\<close>

section \<open>The connection object\<close>

record client_context =
  cx_metadata :: "(string \<times> string) list"
  cx_cancelled :: bool

record comm =
  cm_channel :: bool
  cm_context :: "client_context option"

definition kHostnameMetadataKey :: string where "kHostnameMetadataKey = ''rox-collector-hostname''"
definition kCapsMetadataKey :: string where "kCapsMetadataKey = ''rox-collector-capabilities''"
definition kSupportedCaps :: string where "kSupportedCaps = ''public-ips,network-graph-external-srcs''"

definition CreateClientContext :: "string \<Rightarrow> client_context" where
  "CreateClientContext hostname =
     \<lparr>cx_metadata = [(kHostnameMetadataKey, hostname), (kCapsMetadataKey, kSupportedCaps)], cx_cancelled = False\<rparr>"

definition mk_comm :: "bool \<Rightarrow> comm" where
  "mk_comm channel = \<lparr>cm_channel = channel, cm_context = None\<rparr>"

definition ResetClientContext :: "string \<Rightarrow> comm \<Rightarrow> comm" where
  "ResetClientContext hostname c = c\<lparr>cm_context := Some (CreateClientContext hostname)\<rparr>"

definition Comm_TryCancel :: "comm \<Rightarrow> comm" where
  "Comm_TryCancel c =
     (case cm_context c of None \<Rightarrow> c | Some cx \<Rightarrow> c\<lparr>cm_context := Some (cx\<lparr>cx_cancelled := True\<rparr>)\<rparr>)"

datatype opened = Opened_stream "client_context option" | Opened_stdout

definition PushNetworkConnectionInfoOpenStream :: "string \<Rightarrow> comm \<Rightarrow> opened \<times> comm" where
  "PushNetworkConnectionInfoOpenStream hostname c =
     (let c1 = (if cm_context c = None then ResetClientContext hostname c else c)
      in (if cm_channel c1 then Opened_stream (cm_context c1) else Opened_stdout, c1))"

definition cancelled :: "comm \<Rightarrow> bool" where
  "cancelled c = (case cm_context c of None \<Rightarrow> False | Some cx \<Rightarrow> cx_cancelled cx)"

section \<open>The two threads\<close>

text \<open>
  Where the thread of the notifier is in \<^verbatim>\<open>Run\<close>, and where the thread that stops it is in \<^verbatim>\<open>Stop\<close>. \<open>At_wait\<close> is the look at the
  flag in the loop of \<^verbatim>\<open>WaitForChannelReady\<close> and \<open>At_connect\<close> the wait for the channel that follows it.
\<close>

datatype notifier_run_pc = At_pause | At_reset | At_wait | At_connect | At_open | At_single | At_check | Ended
datatype notifier_stop_pc = Before_cancel | Before_flag | Joining

record notifier_stopping =
  ns_run :: notifier_run_pc
  ns_stop :: notifier_stop_pc
  ns_should_stop :: bool
  ns_comm :: comm

definition notifier_stopping_init :: "bool \<Rightarrow> notifier_stopping" where
  "notifier_stopping_init channel = \<lparr>ns_run = At_pause, ns_stop = Before_cancel, ns_should_stop = False, ns_comm = mk_comm channel\<rparr>"

text \<open>
  With a channel, \<^verbatim>\<open>RunSingle\<close> is left when the context of the call is cancelled or the stream breaks; \<open>keeps\<close> says that the server keeps
  the stream. Without a channel it is not left. A channel in its shutdown state ends the program and is not a step.
\<close>

inductive notifier_step :: "bool \<Rightarrow> string \<Rightarrow> notifier_stopping \<Rightarrow> notifier_stopping \<Rightarrow> bool" for keeps :: bool and hostname :: string where
  pause_over: "ns_run s = At_pause \<Longrightarrow> \<not> ns_should_stop s \<Longrightarrow> notifier_step keeps hostname s (s\<lparr>ns_run := At_reset\<rparr>)"
| pause_stopped: "ns_run s = At_pause \<Longrightarrow> ns_should_stop s \<Longrightarrow> notifier_step keeps hostname s (s\<lparr>ns_run := Ended\<rparr>)"
| reset: "ns_run s = At_reset \<Longrightarrow>
    notifier_step keeps hostname s (s\<lparr>ns_run := At_wait, ns_comm := ResetClientContext hostname (ns_comm s)\<rparr>)"
| no_channel: "ns_run s = At_wait \<Longrightarrow> \<not> cm_channel (ns_comm s) \<Longrightarrow>
    notifier_step keeps hostname s (s\<lparr>ns_run := At_open\<rparr>)"
| interrupted: "ns_run s = At_wait \<Longrightarrow> cm_channel (ns_comm s) \<Longrightarrow> ns_should_stop s \<Longrightarrow>
    notifier_step keeps hostname s (s\<lparr>ns_run := Ended\<rparr>)"
| not_interrupted: "ns_run s = At_wait \<Longrightarrow> cm_channel (ns_comm s) \<Longrightarrow> \<not> ns_should_stop s \<Longrightarrow>
    notifier_step keeps hostname s (s\<lparr>ns_run := At_connect\<rparr>)"
| connected: "ns_run s = At_connect \<Longrightarrow> notifier_step keeps hostname s (s\<lparr>ns_run := At_open\<rparr>)"
| not_connected: "ns_run s = At_connect \<Longrightarrow> notifier_step keeps hostname s (s\<lparr>ns_run := At_wait\<rparr>)"
| open_stream: "ns_run s = At_open \<Longrightarrow>
    notifier_step keeps hostname s
      (s\<lparr>ns_run := At_single, ns_comm := snd (PushNetworkConnectionInfoOpenStream hostname (ns_comm s))\<rparr>)"
| stream_over: "ns_run s = At_single \<Longrightarrow> cm_channel (ns_comm s) \<Longrightarrow> cancelled (ns_comm s) \<or> \<not> keeps \<Longrightarrow>
    notifier_step keeps hostname s (s\<lparr>ns_run := At_check\<rparr>)"
| stop_seen: "ns_run s = At_check \<Longrightarrow> ns_should_stop s \<Longrightarrow> notifier_step keeps hostname s (s\<lparr>ns_run := Ended\<rparr>)"
| again: "ns_run s = At_check \<Longrightarrow> \<not> ns_should_stop s \<Longrightarrow> notifier_step keeps hostname s (s\<lparr>ns_run := At_pause\<rparr>)"
| cancel: "ns_stop s = Before_cancel \<Longrightarrow>
    notifier_step keeps hostname s (s\<lparr>ns_stop := Before_flag, ns_comm := Comm_TryCancel (ns_comm s)\<rparr>)"
| set_flag: "ns_stop s = Before_flag \<Longrightarrow>
    notifier_step keeps hostname s (s\<lparr>ns_stop := Joining, ns_should_stop := True\<rparr>)"

inductive_cases notifier_stepE: "notifier_step keeps hostname s t"

lemmas notifier_step_rules = notifier_step.intros

section \<open>Stopping in time\<close>

text \<open>The flag is set, and if the thread is past its last look at it on the way to a stream, or has one, the call is cancelled.\<close>

definition stop_safe :: "notifier_stopping \<Rightarrow> bool" where
  "stop_safe s \<longleftrightarrow> cm_channel (ns_comm s) \<and> ns_should_stop s \<and> 
     (ns_run s = At_connect \<or> ns_run s = At_open \<or> ns_run s = At_single \<longrightarrow> cancelled (ns_comm s))"

fun run_rank :: "notifier_run_pc \<Rightarrow> nat" where
  "run_rank Ended = 0" | "run_rank At_pause = 1" | "run_rank At_check = 2" | "run_rank At_wait = 3"
| "run_rank At_reset = 4" | "run_rank At_single = 3" | "run_rank At_open = 4"
| "run_rank At_connect = 5"

fun stop_rank :: "notifier_stop_pc \<Rightarrow> nat" where
  "stop_rank Before_cancel = 2" | "stop_rank Before_flag = 1" | "stop_rank Joining = 0"

definition steps_left :: "notifier_stopping \<Rightarrow> nat" where
  "steps_left s = run_rank (ns_run s) + stop_rank (ns_stop s)"

lemma comm_views [simp]:
  "cm_channel (ResetClientContext hostname c) = cm_channel c" "cm_channel (Comm_TryCancel c) = cm_channel c"
  "cm_channel (snd (PushNetworkConnectionInfoOpenStream hostname c)) = cm_channel c"
  "\<not> cancelled (ResetClientContext hostname c)"
  by (auto simp: ResetClientContext_def Comm_TryCancel_def PushNetworkConnectionInfoOpenStream_def cancelled_def CreateClientContext_def Let_def
      split: option.split)

lemma cancelled_kept:
  "cancelled c \<Longrightarrow> cancelled (Comm_TryCancel c)" "cancelled c \<Longrightarrow> cancelled (snd (PushNetworkConnectionInfoOpenStream hostname c))"
  by (auto simp: Comm_TryCancel_def PushNetworkConnectionInfoOpenStream_def cancelled_def Let_def split: option.splits)

lemma stop_safe_step:
  assumes "notifier_step keeps hostname s t" and "stop_safe s"
  shows "stop_safe t \<and> steps_left t < steps_left s"
  using assms by (cases rule: notifier_step.cases) (auto simp: stop_safe_def steps_left_def cancelled_kept)

lemma stop_safe_steps: "(notifier_step keeps hostname)\<^sup>*\<^sup>* s t \<Longrightarrow> stop_safe s \<Longrightarrow> stop_safe t"
  by (induction rule: rtranclp_induct) (auto dest: stop_safe_step)

lemma stop_safe_bounded: "(notifier_step keeps hostname ^^ n) s t \<Longrightarrow> stop_safe s \<Longrightarrow> steps_left t + n \<le> steps_left s \<and> stop_safe t"
proof (induction n arbitrary: t)
  case (Suc n)
  then obtain u where "(notifier_step keeps hostname ^^ n) s u" "notifier_step keeps hostname u t" by auto
  with Suc.IH [of u] Suc.prems(2) stop_safe_step [of keeps hostname u t] show ?case by auto
qed simp

lemma stop_safe_progress:
  assumes "stop_safe s" and "ns_run s \<noteq> Ended"
  shows "\<exists>t. notifier_step keeps hostname s t"
  using assms by (cases "ns_run s") (auto simp: stop_safe_def intro: notifier_step_rules)

lemma steps_left_le: "steps_left s \<le> 7"
  unfolding steps_left_def by (cases "ns_run s"; cases "ns_stop s") simp_all

text \<open>
  (C37) Stopping in time works, with a channel: once the flag is set, and the call is cancelled in case the thread waits for the channel after its
  last look at the flag, opens a stream or has one, every run of the two threads stops after at most seven steps, and where no step is left the
  thread of the notifier has ended and the join returns. This holds whether or not the channel connects and whatever the server does.
\<close>

theorem safe_stop_ends:
  assumes "stop_safe s"
  shows "(\<forall>n t. (notifier_step keeps hostname ^^ n) s t \<longrightarrow> n \<le> 7) \<and>
    (\<forall>t. (notifier_step keeps hostname)\<^sup>*\<^sup>* s t \<and> (\<nexists>u. notifier_step keeps hostname t u) \<longrightarrow> ns_run t = Ended)"
proof (intro conjI allI impI)
  show "n \<le> 7" if "(notifier_step keeps hostname ^^ n) s t" for n t
    using stop_safe_bounded [OF that assms] steps_left_le [of s] by simp
  show "ns_run t = Ended" if "(notifier_step keeps hostname)\<^sup>*\<^sup>* s t \<and> (\<nexists>u. notifier_step keeps hostname t u)" for t
    using stop_safe_progress stop_safe_steps [OF _ assms] that by blast
qed

text \<open>A stop that comes while the thread waits for the channel, with the call cancelled before it.\<close>

definition example_stopping :: notifier_stopping where
  "example_stopping =
     \<lparr>ns_run = At_connect, ns_stop = Joining, ns_should_stop = True, ns_comm = Comm_TryCancel (ResetClientContext ''node'' (mk_comm True))\<rparr>"

theorem safe_stop_ends_witness:
  "stop_safe example_stopping \<and> (\<nexists>t. (notifier_step True ''node'' ^^ 8) example_stopping t) \<and>
   (\<nexists>t. (notifier_step True ''node'')\<^sup>*\<^sup>* example_stopping t \<and> (\<nexists>u. notifier_step True ''node'' t u) \<and> ns_run t \<noteq> Ended)"
proof -
  have safe: "stop_safe example_stopping" by (simp add: example_stopping_def stop_safe_def cancelled_def Comm_TryCancel_def ResetClientContext_def mk_comm_def)
  note ends = safe_stop_ends [OF safe, of True "''node''"]
  have "\<not> (notifier_step True ''node'' ^^ 8) example_stopping t" for t
  proof
    assume "(notifier_step True ''node'' ^^ 8) example_stopping t"
    with ends have "8 \<le> (7 :: nat)" by blast
    then show False by simp
  qed
  with safe ends show ?thesis by blast
qed

section \<open>Stopping too early\<close>

text \<open>The call is cancelled before the context of the stream exists, and the flag is set after it was last looked at.\<close>

definition race_end :: "string \<Rightarrow> notifier_stopping" where
  "race_end hostname =
     \<lparr>ns_run = At_single, ns_stop = Joining, ns_should_stop = True, ns_comm = ResetClientContext hostname (mk_comm True)\<rparr>"

lemma race_reachable: "(notifier_step keeps hostname)\<^sup>*\<^sup>* (notifier_stopping_init True) (race_end hostname)"
proof -
  let ?c0 = "mk_comm True" and ?c1 = "ResetClientContext hostname (mk_comm True)"
  let ?s = "\<lambda>r p f c. \<lparr>ns_run = r, ns_stop = p, ns_should_stop = f, ns_comm = c\<rparr>"
  have "notifier_step keeps hostname (notifier_stopping_init True) (?s At_reset Before_cancel False ?c0)"
    using pause_over [of "notifier_stopping_init True"] by (simp add: notifier_stopping_init_def)
  moreover have "notifier_step keeps hostname (?s At_reset Before_cancel False ?c0) (?s At_reset Before_flag False ?c0)"
    using cancel [of "?s At_reset Before_cancel False ?c0"] by (simp add: Comm_TryCancel_def mk_comm_def)
  moreover have "notifier_step keeps hostname (?s At_reset Before_flag False ?c0) (?s At_wait Before_flag False ?c1)"
    using reset [of "?s At_reset Before_flag False ?c0"] by simp
  moreover have "notifier_step keeps hostname (?s At_wait Before_flag False ?c1) (?s At_connect Before_flag False ?c1)"
    using not_interrupted [of "?s At_wait Before_flag False ?c1"] by (simp add: mk_comm_def)
  moreover have "notifier_step keeps hostname (?s At_connect Before_flag False ?c1) (?s At_open Before_flag False ?c1)"
    using connected [of "?s At_connect Before_flag False ?c1"] by simp
  moreover have "notifier_step keeps hostname (?s At_open Before_flag False ?c1) (?s At_single Before_flag False ?c1)"
    using open_stream [of "?s At_open Before_flag False ?c1"] by (simp add: PushNetworkConnectionInfoOpenStream_def ResetClientContext_def Let_def)
  moreover have "notifier_step keeps hostname (?s At_single Before_flag False ?c1) (race_end hostname)"
    using set_flag [of "?s At_single Before_flag False ?c1"] by (simp add: race_end_def)
  ultimately show ?thesis by (meson converse_rtranclp_into_rtranclp rtranclp.rtrancl_refl)
qed

text \<open>
  (C38) Stopping can wait for ever although there is a channel: the call is cancelled before the flag is set, so if the thread makes a new
  context in between, its stream is not cancelled, and as long as the server keeps the stream neither thread can go on.
\<close>

theorem stop_can_hang:
  "\<exists>t. (notifier_step True hostname)\<^sup>*\<^sup>* (notifier_stopping_init True) t \<and> ns_stop t = Joining \<and> ns_run t \<noteq> Ended \<and> (\<nexists>u. notifier_step True hostname t u)"
proof (intro exI conjI)
  show "(notifier_step True hostname)\<^sup>*\<^sup>* (notifier_stopping_init True) (race_end hostname)" by (rule race_reachable)
  show "\<nexists>u. notifier_step True hostname (race_end hostname) u" by (auto simp: race_end_def elim: notifier_stepE)
qed (simp_all add: race_end_def)

end
