(* ===== verification/Process_Store.thy ===== *)
theory Process_Store
  imports Net_Connection Str_Util
begin

text \<open>
  The processes behind listening endpoints: \<^verbatim>\<open>Process.h\<close>, \<^verbatim>\<open>Process.cpp\<close> and the queue of requests for process
  information of \<^verbatim>\<open>system-inspector/Service.cpp\<close>. Objects have identities: a shared pointer is the number of an object in
  a heap, with the count of its owners; the cache and the queue hold weak pointers, which keep nothing alive. A callback
  is a member of its object and is found by the same number. The thread information comes from the Falco
  libraries; it is a record.
\<close>

section \<open>Processes\<close>

record proc_info =
  pi_container_id :: string
  pi_comm :: string
  pi_exe :: string
  pi_exe_path :: string
  pi_args :: "string list"

record process =
  pc_pid :: u64
  pc_pending :: bool
  pc_threadinfo :: "proc_info option"
  pc_refs :: nat

definition NOT_AVAILABLE :: string where "NOT_AVAILABLE = ''N/A''"

text \<open>\<open>st_instance\<close> tells whether there is an inspector to ask.\<close>

record store =
  st_heap :: "nat \<rightharpoonup> process"
  st_next :: nat
  st_cache :: "u64 \<rightharpoonup> nat"
  st_queue :: "(u64 \<times> nat) list"
  st_instance :: bool
  st_info_hit :: nat
  st_info_miss :: nat

definition mk_ProcessStore :: "bool \<Rightarrow> store" where
  "mk_ProcessStore instance =
     \<lparr>st_heap = Map.empty, st_next = 0, st_cache = Map.empty, st_queue = [], st_instance = instance, st_info_hit = 0, st_info_miss = 0\<rparr>"

definition GetProcessInformation :: "u64 \<Rightarrow> nat \<Rightarrow> store \<Rightarrow> store" where
  "GetProcessInformation pid callback st = st\<lparr>st_queue := st_queue st @ [(pid, callback)]\<rparr>"

text \<open>A new object with one owner.\<close>

definition mk_Process :: "u64 \<Rightarrow> store \<Rightarrow> nat \<times> store" where
  "mk_Process pid st =
     (let i = st_next st;
          p = \<lparr>pc_pid = pid, pc_pending = st_instance st, pc_threadinfo = None, pc_refs = 1\<rparr>;
          st1 = st\<lparr>st_heap := (st_heap st)(i \<mapsto> p), st_next := Suc i\<rparr>
      in (i, if st_instance st then GetProcessInformation pid i st1 else st1))"

text \<open>A weak pointer gives an owner only while there is one.\<close>

definition lock_process :: "nat \<Rightarrow> store \<Rightarrow> nat option \<times> store" where
  "lock_process i st =
     (case st_heap st i of
        Some p \<Rightarrow>
          if pc_refs p = 0 then (None, st)
          else (Some i, st\<lparr>st_heap := (st_heap st)(i \<mapsto> p\<lparr>pc_refs := Suc (pc_refs p)\<rparr>)\<rparr>)
      | None \<Rightarrow> (None, st))"

definition Fetch :: "u64 \<Rightarrow> store \<Rightarrow> nat option \<times> store" where
  "Fetch pid st =
     (case st_cache st pid of
        Some i \<Rightarrow> lock_process i st
      | None \<Rightarrow>
          (let (i, st1) = mk_Process pid st
           in (Some i, st1\<lparr>st_cache := (st_cache st1)(pid \<mapsto> i)\<rparr>)))"

text \<open>An owner goes away; the last one starts the destructor, which takes the process out of the cache.\<close>

definition drop_owner :: "nat \<Rightarrow> store \<Rightarrow> store" where
  "drop_owner i st =
     (case st_heap st i of
        None \<Rightarrow> st
      | Some p \<Rightarrow> st\<lparr>st_heap := (st_heap st)(i \<mapsto> p\<lparr>pc_refs := pc_refs p - 1\<rparr>)\<rparr>)"

definition destroy_Process :: "nat \<Rightarrow> store \<Rightarrow> store" where
  "destroy_Process i st =
     (case st_heap st i of
        None \<Rightarrow> st
      | Some p \<Rightarrow> st\<lparr>st_cache := (st_cache st)(pc_pid p := None), st_heap := (st_heap st)(i := None)\<rparr>)"

definition release :: "nat \<Rightarrow> store \<Rightarrow> store" where
  "release i st =
     (let st1 = drop_owner i st
      in case st_heap st1 i of
           None \<Rightarrow> st1
         | Some p \<Rightarrow> if pc_refs p = 0 then destroy_Process i st1 else st1)"

definition ProcessInfoResolved :: "nat \<Rightarrow> proc_info option \<Rightarrow> store \<Rightarrow> store" where
  "ProcessInfoResolved i process_info st =
     (case st_heap st i of
        None \<Rightarrow> st
      | Some p \<Rightarrow> st\<lparr>st_heap := (st_heap st)(i \<mapsto> p\<lparr>pc_threadinfo := process_info, pc_pending := False\<rparr>)\<rparr>)"

text \<open>Answering all requests; \<open>get_thread_ref\<close> is the thread table of the inspector.\<close>

fun serve_loop :: "(u64 \<Rightarrow> proc_info option) \<Rightarrow> (u64 \<times> nat) list \<Rightarrow> store \<Rightarrow> store" where
  "serve_loop get_thread_ref [] st = st\<lparr>st_queue := []\<rparr>"
| "serve_loop get_thread_ref ((pid, callback) # rest) st =
     serve_loop get_thread_ref rest
       (case st_heap st callback of
          Some p \<Rightarrow> ProcessInfoResolved callback (get_thread_ref pid) st
        | None \<Rightarrow> st)"

definition ServePendingProcessRequests :: "(u64 \<Rightarrow> proc_info option) \<Rightarrow> store \<Rightarrow> store" where
  "ServePendingProcessRequests get_thread_ref st = serve_loop get_thread_ref (st_queue st) st"

text \<open>When the inspector goes away, every request is answered with nothing.\<close>

definition cancel_requests :: "store \<Rightarrow> store" where
  "cancel_requests st = serve_loop (\<lambda>_. None) (st_queue st) st"

text \<open>\<open>meanwhile\<close> is what other threads do during the wait, which ends when the information arrives or after 30 seconds.\<close>

definition WaitForProcessInfo :: "(store \<Rightarrow> store) \<Rightarrow> nat \<Rightarrow> store \<Rightarrow> store" where
  "WaitForProcessInfo meanwhile i st =
     (case st_heap st i of
        None \<Rightarrow> st
      | Some p \<Rightarrow>
          if pc_pending p then meanwhile (st\<lparr>st_info_miss := Suc (st_info_miss st)\<rparr>)
          else st\<lparr>st_info_hit := Suc (st_info_hit st)\<rparr>)"

definition info_field :: "(proc_info \<Rightarrow> string) \<Rightarrow> (store \<Rightarrow> store) \<Rightarrow> nat \<Rightarrow> store \<Rightarrow> string \<times> store" where
  "info_field f meanwhile i st =
     (let st1 = WaitForProcessInfo meanwhile i st
      in (case st_heap st1 i of
            None \<Rightarrow> NOT_AVAILABLE
          | Some p \<Rightarrow> (case pc_threadinfo p of None \<Rightarrow> NOT_AVAILABLE | Some t \<Rightarrow> f t), st1))"

definition Process_container_id :: "(store \<Rightarrow> store) \<Rightarrow> nat \<Rightarrow> store \<Rightarrow> string \<times> store" where
  "Process_container_id = info_field pi_container_id"

definition Process_comm :: "(store \<Rightarrow> store) \<Rightarrow> nat \<Rightarrow> store \<Rightarrow> string \<times> store" where
  "Process_comm = info_field pi_comm"

definition Process_exe :: "(store \<Rightarrow> store) \<Rightarrow> nat \<Rightarrow> store \<Rightarrow> string \<times> store" where
  "Process_exe = info_field pi_exe"

definition Process_exe_path :: "(store \<Rightarrow> store) \<Rightarrow> nat \<Rightarrow> store \<Rightarrow> string \<times> store" where
  "Process_exe_path = info_field pi_exe_path"

definition Process_args :: "(store \<Rightarrow> store) \<Rightarrow> nat \<Rightarrow> store \<Rightarrow> string \<times> store" where
  "Process_args = info_field (\<lambda>t. if pi_args t = [] then [] else join (CHR '' '') (pi_args t))"

section \<open>The store\<close>

text \<open>
  The steps of the threads that use the store, in any order: fetching, the two parts of giving up an owner, which
  are steps of their own so that others may come in between, and the inspector's answers. A pointer is only
  released by an owner, so the object is alive; the destructor runs once nobody owns the object. The table
  itself has no lock in the code: two threads inside it at once are outside the model.
\<close>

inductive store_reach :: "store \<Rightarrow> bool" where
  sr_init: "store_reach (mk_ProcessStore instance)"
| sr_fetch: "store_reach st \<Longrightarrow> store_reach (snd (Fetch pid st))"
| sr_drop: "store_reach st \<Longrightarrow> st_heap st i = Some p \<Longrightarrow> pc_refs p > 0 \<Longrightarrow> store_reach (drop_owner i st)"
| sr_destroy: "store_reach st \<Longrightarrow> st_heap st i = Some p \<Longrightarrow> pc_refs p = 0 \<Longrightarrow> store_reach (destroy_Process i st)"
| sr_serve: "store_reach st \<Longrightarrow> store_reach (ServePendingProcessRequests get_thread_ref st)"
| sr_cancel: "store_reach st \<Longrightarrow> store_reach (cancel_requests st)"

text \<open>The cache has exactly the objects that are not destroyed yet, each under its process, and whoever waits has a request in the queue.\<close>

definition store_inv :: "store \<Rightarrow> bool" where
  "store_inv st \<longleftrightarrow>
     (\<forall>pid i. st_cache st pid = Some i \<longleftrightarrow> (\<exists>p. st_heap st i = Some p \<and> pc_pid p = pid)) \<and>
     (\<forall>i p. st_heap st i = Some p \<longrightarrow> i < st_next st \<and>
        (pc_pending p \<longrightarrow> (pc_pid p, i) \<in> set (st_queue st))) \<and>
     (\<forall>(pid, i) \<in> set (st_queue st). i < st_next st \<and> (\<forall>p. st_heap st i = Some p \<longrightarrow> pc_pid p = pid))"

lemma store_invD:
  assumes "store_inv st"
  shows "st_cache st pid = Some i \<longleftrightarrow> (\<exists>p. st_heap st i = Some p \<and> pc_pid p = pid)"
    "st_heap st i = Some p \<Longrightarrow> i < st_next st"
    "st_heap st i = Some p \<Longrightarrow> pc_pending p \<Longrightarrow> (pc_pid p, i) \<in> set (st_queue st)"
    "(pid, i) \<in> set (st_queue st) \<Longrightarrow> i < st_next st"
    "(pid, i) \<in> set (st_queue st) \<Longrightarrow> st_heap st i = Some p \<Longrightarrow> pc_pid p = pid"
  using assms unfolding store_inv_def by blast+

lemma store_invI:
  assumes "\<And>pid i. st_cache st pid = Some i \<longleftrightarrow> (\<exists>p. st_heap st i = Some p \<and> pc_pid p = pid)"
    "\<And>i p. st_heap st i = Some p \<Longrightarrow> i < st_next st"
    "\<And>i p. st_heap st i = Some p \<Longrightarrow> pc_pending p \<Longrightarrow> (pc_pid p, i) \<in> set (st_queue st)"
    "\<And>pid i. (pid, i) \<in> set (st_queue st) \<Longrightarrow> i < st_next st"
    "\<And>pid i p. (pid, i) \<in> set (st_queue st) \<Longrightarrow> st_heap st i = Some p \<Longrightarrow> pc_pid p = pid"
  shows "store_inv st"
  using assms unfolding store_inv_def by blast

lemma fresh_object: "store_inv st \<Longrightarrow> st_heap st (st_next st) = None"
  using store_invD(2) [of st "st_next st"] by (cases "st_heap st (st_next st)") auto

lemma store_inv_update:
  assumes "store_inv st" "st_next st' = st_next st" "st_queue st' = st_queue st"
    "\<And>j q. st_heap st' j = Some q \<Longrightarrow>
       \<exists>q'. st_heap st j = Some q' \<and> pc_pid q' = pc_pid q \<and> (pc_pending q \<longrightarrow> pc_pending q')"
    "\<And>pid j. st_cache st' pid = Some j \<longleftrightarrow> (\<exists>p. st_heap st' j = Some p \<and> pc_pid p = pid)"
  shows "store_inv st'"
proof (rule store_invI)
  note inv = store_invD [OF assms(1)]
  show "\<And>i p. st_heap st' i = Some p \<Longrightarrow> i < st_next st'" using assms(2,4) inv(2) by metis
  show "\<And>i p. st_heap st' i = Some p \<Longrightarrow> pc_pending p \<Longrightarrow> (pc_pid p, i) \<in> set (st_queue st')" using assms(3,4) inv(3) by metis
  show "\<And>pid i. (pid, i) \<in> set (st_queue st') \<Longrightarrow> i < st_next st'" using assms(2,3) inv(4) by metis
  show "\<And>pid i p. (pid, i) \<in> set (st_queue st') \<Longrightarrow> st_heap st' i = Some p \<Longrightarrow> pc_pid p = pid" using assms(3,4) inv(5) by metis
qed (use assms(5) in blast)

text \<open>Changing the count of the owners of an object.\<close>

lemma refs_inv:
  assumes "store_inv st" "st_heap st i = Some p"
  shows "store_inv (st\<lparr>st_heap := (st_heap st)(i \<mapsto> p\<lparr>pc_refs := n\<rparr>)\<rparr>)"
proof -
  have "st_cache st q = Some j \<longleftrightarrow> (\<exists>p'. ((st_heap st)(i \<mapsto> p\<lparr>pc_refs := n\<rparr>)) j = Some p' \<and> pc_pid p' = q)" for q j
    using store_invD(1) [OF assms(1), of q j] assms(2) by (cases "j = i") auto
  then show ?thesis using assms(2) by (intro store_inv_update [OF assms(1)]) (auto split: if_splits)
qed

lemma Fetch_inv:
  assumes "store_inv st"
  shows "store_inv (snd (Fetch pid st))"
proof (cases "st_cache st pid")
  case None
  note inv = store_invD [OF assms]
  have none: "\<And>i p. st_heap st i = Some p \<Longrightarrow> pc_pid p \<noteq> pid" using None inv(1) by (metis option.distinct(1))
  have bounds: "\<And>i p. st_heap st i = Some p \<Longrightarrow> i < Suc (st_next st)" "\<And>q i. (q, i) \<in> set (st_queue st) \<Longrightarrow> i < Suc (st_next st)"
    "\<And>q. (q, st_next st) \<notin> set (st_queue st)"
    using inv(2,4) by (auto intro: less_SucI)
  show ?thesis
    using None fresh_object [OF assms] none inv bounds
    by (intro store_invI)
      (auto simp: Fetch_def mk_Process_def GetProcessInformation_def Let_def split: if_splits)
next
  case (Some i)
  then obtain p where "st_heap st i = Some p" using store_invD(1) [OF assms] by metis
  then show ?thesis using Some assms refs_inv [OF assms] by (simp add: Fetch_def lock_process_def)
qed

lemma drop_inv: "store_inv st \<Longrightarrow> store_inv (drop_owner i st)"
  by (simp add: drop_owner_def refs_inv split: option.split)

lemma destroy_inv:
  assumes "store_inv st"
  shows "store_inv (destroy_Process i st)"
proof (cases "st_heap st i")
  case (Some p)
  note inv = store_invD [OF assms]
  have uniq: "pc_pid q \<noteq> pc_pid p" if "st_heap st j = Some q" "j \<noteq> i" for j q
    using inv(1) [of "pc_pid p" j] inv(1) [of "pc_pid p" i] that Some by auto
  have "((st_cache st)(pc_pid p := None)) q = Some j \<longleftrightarrow> (\<exists>p'. ((st_heap st)(i := None)) j = Some p' \<and> pc_pid p' = q)" for q j
    using inv(1) [of q j] uniq [of j] Some by (cases "j = i"; cases "q = pc_pid p") (simp, simp, force, simp)
  then show ?thesis by (intro store_inv_update [OF assms]) (auto simp: destroy_Process_def Some split: if_splits)
qed (simp add: destroy_Process_def assms)

text \<open>Giving up an owner without interruption is a sequence of the two steps.\<close>

lemma release_reach:
  assumes "store_reach st" "st_heap st i = Some p" "pc_refs p > 0"
  shows "store_reach (release i st)"
  using sr_drop [OF assms] sr_destroy [OF sr_drop [OF assms]]
  by (auto simp: release_def Let_def split: option.split)

text \<open>Answering the requests: what happens to each object.\<close>

lemma ProcessInfoResolved_simps [simp]:
  "st_cache (ProcessInfoResolved i x st) = st_cache st" "st_next (ProcessInfoResolved i x st) = st_next st"
  "st_instance (ProcessInfoResolved i x st) = st_instance st"
  "st_heap (ProcessInfoResolved i x st) =
     (st_heap st)(i := map_option (\<lambda>p. p\<lparr>pc_threadinfo := x, pc_pending := False\<rparr>) (st_heap st i))"
  by (auto simp: ProcessInfoResolved_def split: option.splits)

lemma serve_loop_frame:
  "st_cache (serve_loop r q st) = st_cache st" "st_next (serve_loop r q st) = st_next st"
  "st_instance (serve_loop r q st) = st_instance st" "st_queue (serve_loop r q st) = []"
  by (induction r q st rule: serve_loop.induct) (auto split: option.splits)

definition queue_ok :: "(u64 \<times> nat) list \<Rightarrow> (nat \<rightharpoonup> process) \<Rightarrow> bool" where
  "queue_ok q h \<longleftrightarrow> (\<forall>(pid, i) \<in> set q. \<forall>p. h i = Some p \<longrightarrow> pc_pid p = pid)"

lemma serve_loop_heap:
  assumes "queue_ok q (st_heap st)"
  shows "st_heap (serve_loop r q st) i =
     (if i \<in> snd ` set q then map_option (\<lambda>p. p\<lparr>pc_threadinfo := r (pc_pid p), pc_pending := False\<rparr>) (st_heap st i) else st_heap st i)"
  using assms
proof (induction q arbitrary: st)
  case (Cons a q)
  obtain pid j where a: "a = (pid, j)" by force
  let ?st = "case st_heap st j of Some p \<Rightarrow> ProcessInfoResolved j (r pid) st | None \<Rightarrow> st"
  have j: "pc_pid p = pid" if "st_heap st j = Some p" for p using Cons.prems that a by (simp add: queue_ok_def)
  have heap: "st_heap ?st = (st_heap st)(j := map_option (\<lambda>p. p\<lparr>pc_threadinfo := r (pc_pid p), pc_pending := False\<rparr>) (st_heap st j))"
    using j by (auto split: option.splits)
  have "queue_ok q (st_heap ?st)" using Cons.prems unfolding heap queue_ok_def by (auto split: if_splits)
  note IH = Cons.IH [OF this, unfolded heap]
  have step: "serve_loop r (a # q) st = serve_loop r q ?st" by (simp add: a)
  show ?case unfolding step IH by (cases "st_heap st i") (auto simp: a)
qed simp

lemma serve_inv:
  assumes "store_inv st"
  shows "store_inv (serve_loop r (st_queue st) st)"
proof -
  note inv = store_invD [OF assms]
  have q: "queue_ok (st_queue st) (st_heap st)" using inv(5) by (auto simp: queue_ok_def)
  have "\<not> pc_pending p" if "st_heap (serve_loop r (st_queue st) st) i = Some p" for i p
    using that inv(3) [of i] unfolding serve_loop_heap [OF q] by (force split: if_splits)
  moreover have "st_heap (serve_loop r (st_queue st) st) i = Some p \<Longrightarrow> \<exists>p'. st_heap st i = Some p' \<and> pc_pid p = pc_pid p'"
    "(\<exists>p. st_heap (serve_loop r (st_queue st) st) i = Some p \<and> pc_pid p = pid) \<longleftrightarrow> (\<exists>p. st_heap st i = Some p \<and> pc_pid p = pid)" for i p pid
    unfolding serve_loop_heap [OF q] by (auto split: if_splits)
  ultimately show ?thesis
    using inv(1,2) by (intro store_invI, simp_all only: serve_loop_frame list.set empty_iff) metis+
qed

lemma store_reach_inv: "store_reach st \<Longrightarrow> store_inv st"
  by (induction rule: store_reach.induct)
    (simp_all add: Fetch_inv drop_inv destroy_inv serve_inv ServePendingProcessRequests_def cancel_requests_def,
     simp add: store_inv_def mk_ProcessStore_def)


text \<open>Serving a queue answers exactly the objects in it that still wait.\<close>

lemma serve_loop_answers:
  assumes "store_reach st" and "st_heap (serve_loop r (st_queue st) st) i = Some p'"
  shows "\<exists>p. st_heap st i = Some p \<and> \<not> pc_pending p' \<and> pc_refs p' = pc_refs p \<and> (pc_pending p \<longrightarrow> pc_threadinfo p' = r (pc_pid p)) \<and>
    ((pc_pid p, i) \<notin> set (st_queue st) \<longrightarrow> p' = p)"
proof -
  note inv = store_invD [OF store_reach_inv [OF assms(1)]]
  have q: "queue_ok (st_queue st) (st_heap st)" using inv(5) by (auto simp: queue_ok_def)
  obtain p where p: "st_heap st i = Some p" using assms(2) unfolding serve_loop_heap [OF q] by (auto split: if_splits)
  have mem: "i \<in> snd ` set (st_queue st) \<longleftrightarrow> (pc_pid p, i) \<in> set (st_queue st)"
  proof
    assume "i \<in> snd ` set (st_queue st)"
    then obtain pid where "(pid, i) \<in> set (st_queue st)" by auto
    then show "(pc_pid p, i) \<in> set (st_queue st)" using inv(5) p by blast
  qed (rule rev_image_eqI, auto)
  show ?thesis
    using assms(2) p inv(3) [OF p] unfolding serve_loop_heap [OF q] mem
    by (cases "(pc_pid p, i) \<in> set (st_queue st)") auto
qed

lemma serve_loop_dom:
  assumes "store_reach st"
  shows "dom (st_heap (serve_loop r (st_queue st) st)) = dom (st_heap st)"
proof -
  have q: "queue_ok (st_queue st) (st_heap st)"
    using store_invD(5) [OF store_reach_inv [OF assms]] by (auto simp: queue_ok_def)
  show ?thesis unfolding dom_def serve_loop_heap [OF q] by auto
qed

text \<open>
  (C31) Every request is answered: after the requests have been served nobody waits and the queue is empty; a process that
  waited has got what the inspector knows about it, and the others are unchanged.
\<close>

theorem serve_answers_all:
  assumes "store_reach st"
  shows "let st' = ServePendingProcessRequests r st in
    st_queue st' = [] \<and> dom (st_heap st') = dom (st_heap st) \<and>
    (\<forall>i p p'. st_heap st i = Some p \<and> st_heap st' i = Some p' \<longrightarrow>
       \<not> pc_pending p' \<and> pc_refs p' = pc_refs p \<and> (pc_pending p \<longrightarrow> pc_threadinfo p' = r (pc_pid p)) \<and>
       ((pc_pid p, i) \<notin> set (st_queue st) \<longrightarrow> p' = p))"
  using serve_loop_answers [OF assms] serve_loop_dom [OF assms]
  unfolding Let_def ServePendingProcessRequests_def serve_loop_frame by fastforce

definition example_store :: store where
  "example_store = snd (Fetch 7 (mk_ProcessStore True))"

lemma example_store_reach: "store_reach example_store"
  unfolding example_store_def by (intro store_reach.intros)

lemma example_store_heap:
  "st_heap example_store 0 = Some \<lparr>pc_pid = 7, pc_pending = True, pc_threadinfo = None, pc_refs = 1\<rparr>"
  "st_queue example_store = [(7, 0)]"
  by (simp_all add: example_store_def mk_ProcessStore_def Fetch_def mk_Process_def GetProcessInformation_def Let_def)


theorem serve_answers_all_witness:
  "\<exists>p. st_heap (ServePendingProcessRequests (\<lambda>_. None) example_store) 0 = Some p \<and> \<not> pc_pending p"
proof -
  note all = serve_answers_all [OF example_store_reach, of "\<lambda>_. None", unfolded Let_def]
  have "0 \<in> dom (st_heap (ServePendingProcessRequests (\<lambda>_. None) example_store))"
    using all example_store_heap(1) by auto
  then show ?thesis using all example_store_heap(1) by blast
qed

section \<open>Races\<close>

text \<open>
  Beside the steps above the two halves of answering a request are apart: getting hold of the
  callback, which is bound to the address of its object, and calling it. The mutex of the queue keeps new requests out in between.
\<close>

datatype serving = Idle | Calling u64 nat

record race =
  ra_store :: store
  ra_serving :: serving
  ra_use_after_free :: bool

inductive race_step :: "(u64 \<Rightarrow> proc_info option) \<Rightarrow> race \<Rightarrow> race \<Rightarrow> bool" for r where
  race_fetch: "ra_serving s = Idle \<Longrightarrow> race_step r s (s\<lparr>ra_store := snd (Fetch pid (ra_store s))\<rparr>)"
| race_drop: "st_heap (ra_store s) i = Some p \<Longrightarrow> pc_refs p > 0 \<Longrightarrow> race_step r s (s\<lparr>ra_store := drop_owner i (ra_store s)\<rparr>)"
| race_destroy: "st_heap (ra_store s) i = Some p \<Longrightarrow> pc_refs p = 0 \<Longrightarrow> race_step r s (s\<lparr>ra_store := destroy_Process i (ra_store s)\<rparr>)"
| race_lock: "ra_serving s = Idle \<Longrightarrow> st_queue (ra_store s) = (pid, i) # rest \<Longrightarrow> st_heap (ra_store s) i = Some p \<Longrightarrow>
    race_step r s (s\<lparr>ra_serving := Calling pid i\<rparr>)"
| race_skip: "ra_serving s = Idle \<Longrightarrow> st_queue (ra_store s) = (pid, i) # rest \<Longrightarrow> st_heap (ra_store s) i = None \<Longrightarrow>
    race_step r s (s\<lparr>ra_store := (ra_store s)\<lparr>st_queue := rest\<rparr>\<rparr>)"
| race_call: "ra_serving s = Calling pid i \<Longrightarrow> st_queue (ra_store s) = (pid, i) # rest \<Longrightarrow>
    race_step r s (s\<lparr>ra_serving := Idle, ra_store := (ProcessInfoResolved i (r pid) (ra_store s))\<lparr>st_queue := rest\<rparr>,
      ra_use_after_free := (ra_use_after_free s \<or> st_heap (ra_store s) i = None)\<rparr>)"

definition race_init :: race where
  "race_init = \<lparr>ra_store = mk_ProcessStore True, ra_serving = Idle, ra_use_after_free = False\<rparr>"

text \<open>
  What the threads can run into. Between the last owner's release and the destructor a fetch gives
  a null pointer, although it promises an entry; and the destructor can finish between getting hold of the callback
  and calling it, so that the call uses an object that is gone.
\<close>

theorem process_store_races:
  "(\<exists>s. (race_step r)\<^sup>*\<^sup>* race_init s \<and> fst (Fetch 7 (ra_store s)) = None) \<and>
   (\<exists>s. (race_step r)\<^sup>*\<^sup>* race_init s \<and> ra_use_after_free s)"
proof -
  let ?p = "\<lparr>pc_pid = 7, pc_pending = True, pc_threadinfo = None, pc_refs = 1\<rparr>"
  let ?s1 = "race_init\<lparr>ra_store := example_store\<rparr>"
  let ?s2 = "?s1\<lparr>ra_store := drop_owner 0 example_store\<rparr>"
  have s1: "race_step r race_init ?s1"
    using race_fetch [of race_init r 7] by (simp add: race_init_def example_store_def)
  have "race_step r ?s1 ?s2" using race_drop [of ?s1 0 ?p r] example_store_heap by simp
  then have "(race_step r)\<^sup>*\<^sup>* race_init ?s2" using s1 by (meson converse_rtranclp_into_rtranclp r_into_rtranclp)
  moreover have "fst (Fetch 7 (drop_owner 0 example_store)) = None"
    by (simp add: example_store_def mk_ProcessStore_def Fetch_def mk_Process_def GetProcessInformation_def Let_def
        drop_owner_def lock_process_def)
  ultimately have one: "\<exists>s. (race_step r)\<^sup>*\<^sup>* race_init s \<and> fst (Fetch 7 (ra_store s)) = None" by force
  let ?c1 = "?s1\<lparr>ra_serving := Calling 7 0\<rparr>"
  let ?c2 = "?c1\<lparr>ra_store := drop_owner 0 example_store\<rparr>"
  let ?c3 = "?c1\<lparr>ra_store := destroy_Process 0 (drop_owner 0 example_store)\<rparr>"
  have d: "st_heap (drop_owner 0 example_store) 0 = Some (?p\<lparr>pc_refs := 0\<rparr>)" "st_queue (drop_owner 0 example_store) = [(7, 0)]"
    using example_store_heap by (simp_all add: drop_owner_def)
  have g: "st_heap (destroy_Process 0 (drop_owner 0 example_store)) 0 = None"
    "st_queue (destroy_Process 0 (drop_owner 0 example_store)) = [(7, 0)]"
    using d by (simp_all add: destroy_Process_def)
  have "race_step r ?s1 ?c1" using race_lock [of ?s1 7 0 "[]" ?p r] example_store_heap by (simp add: race_init_def)
  moreover have "race_step r ?c1 ?c2" using race_drop [of ?c1 0 ?p r] example_store_heap by simp
  moreover have "race_step r ?c2 ?c3" using race_destroy [of ?c2 0 "?p\<lparr>pc_refs := 0\<rparr>" r] d by simp
  moreover obtain c4 where "race_step r ?c3 c4" "ra_use_after_free c4" using race_call [of ?c3 7 0 "[]" r] g by force
  ultimately have "\<exists>s. (race_step r)\<^sup>*\<^sup>* race_init s \<and> ra_use_after_free s"
    using s1 by (meson converse_rtranclp_into_rtranclp r_into_rtranclp)
  with one show ?thesis by blast
qed

end
