(* ===== verification/Network_Signals.thy ===== *)
theory Network_Signals
  imports Conn_Tracker Str_Util
begin

text \<open>
  Kernel events: the tables of \<^verbatim>\<open>EventNames.cpp\<close> and \<^verbatim>\<open>EventMap.h\<close> and the handler of \<^verbatim>\<open>NetworkSignalHandler.cpp\<close>,
  which turns events on sockets into updates of the connection tracker. The event table and the system
  call table belong to the Falco libraries; they are arguments. An event is the record of what the
  handler reads from the libraries about it. An exception is the left case of a sum.
\<close>

section \<open>Event names\<close>

record EventNames =
  en_events_by_name :: "(string, nat list) umap"
  en_names_by_id :: "string list"
  en_syscall_by_id :: "u16 list"

definition push_event :: "string \<Rightarrow> nat \<Rightarrow> (string, nat list) umap \<Rightarrow> (string, nat list) umap" where
  "push_event name i m = um_assign (=) m name ((case um_find (=) m name of None \<Rightarrow> [] | Some ids \<Rightarrow> ids) @ [i])"

definition events_by_name :: "(nat \<Rightarrow> bool) \<Rightarrow> string list \<Rightarrow> (string, nat list) umap" where
  "events_by_name is_enter event_info =
     fold (\<lambda>(i, name) m.
       let m = push_event name i m
       in if is_enter i then push_event (name @ ''>'') i m else push_event (name @ ''<'') i m)
       (List.enumerate 0 event_info) []"

definition bad_syscall :: "nat \<Rightarrow> string" where
  "bad_syscall i = ''Invalid syscall event id '' @ print_nat i"

fun syscall_loop :: "(nat \<times> nat) list \<Rightarrow> nat \<Rightarrow> u16 list \<Rightarrow> string + u16 list" where
  "syscall_loop [] i tab = Inr tab"
| "syscall_loop ((enter_evt, exit_evt) # rest) i tab =
     (if enter_evt \<ge> length tab then Inl (bad_syscall enter_evt)
      else
        (let tab = tab[enter_evt := of_nat i]
         in if exit_evt \<ge> length tab then Inl (bad_syscall exit_evt)
            else syscall_loop rest (Suc i) (tab[exit_evt := of_nat i])))"

definition mk_EventNames :: "(nat \<Rightarrow> bool) \<Rightarrow> string list \<Rightarrow> (nat \<times> nat) list \<Rightarrow> string + EventNames" where
  "mk_EventNames is_enter event_info syscall_table =
     (case syscall_loop syscall_table 0 (replicate (length event_info) 0) of
        Inl e \<Rightarrow> Inl e
      | Inr tab \<Rightarrow> Inr \<lparr>en_events_by_name = events_by_name is_enter event_info,
                       en_names_by_id = event_info, en_syscall_by_id = tab\<rparr>)"

definition GetEventIDs :: "EventNames \<Rightarrow> string \<Rightarrow> string + nat list" where
  "GetEventIDs en name =
     (case um_find (=) (en_events_by_name en) name of
        None \<Rightarrow> Inl (''Invalid event name '' @ [CHR 0x27] @ name @ [CHR 0x27])
      | Some ids \<Rightarrow> Inr ids)"

definition GetEventName :: "EventNames \<Rightarrow> nat \<Rightarrow> string + string" where
  "GetEventName en i =
     (if i \<ge> length (en_names_by_id en) then Inl (''Invalid event id '' @ print_nat i) else Inr (en_names_by_id en ! i))"

definition GetEventSyscallID :: "EventNames \<Rightarrow> nat \<Rightarrow> string + u16" where
  "GetEventSyscallID en i =
     (if i \<ge> length (en_syscall_by_id en) then Inl (''Invalid event id '' @ print_nat i) else Inr (en_syscall_by_id en ! i))"

section \<open>Event maps\<close>

type_synonym 'a EventMap = "'a list"

definition EventMap_Set :: "EventNames \<Rightarrow> string \<Rightarrow> 'a \<Rightarrow> 'a EventMap \<Rightarrow> string + 'a EventMap" where
  "EventMap_Set en name v values =
     (case GetEventIDs en name of Inl e \<Rightarrow> Inl e | Inr ids \<Rightarrow> Inr (fold (\<lambda>i vs. vs[i := v]) ids values))"

fun EventMap_init_loop :: "EventNames \<Rightarrow> (string \<times> 'a) list \<Rightarrow> 'a EventMap \<Rightarrow> string + 'a EventMap" where
  "EventMap_init_loop en [] values = Inr values"
| "EventMap_init_loop en ((name, v) # init) values =
     (case EventMap_Set en name v values of Inl e \<Rightarrow> Inl e | Inr values' \<Rightarrow> EventMap_init_loop en init values')"

definition mk_EventMap :: "EventNames \<Rightarrow> (string \<times> 'a) list \<Rightarrow> 'a \<Rightarrow> string + 'a EventMap" where
  "mk_EventMap en init initVal = EventMap_init_loop en init (replicate (length (en_names_by_id en)) initVal)"

definition EventMap_at :: "'a EventMap \<Rightarrow> nat \<Rightarrow> string + 'a" where
  "EventMap_at values i = (if i \<ge> length values then Inl (''Invalid event id '' @ print_nat i) else Inr (values ! i))"

section \<open>The network signal handler\<close>

datatype Modifier = MOD_INVALID | MOD_ADD | MOD_REMOVE

definition modifier_init :: "(string \<times> Modifier) list" where
  "modifier_init =
     [(''close<'', MOD_REMOVE), (''shutdown<'', MOD_REMOVE), (''connect<'', MOD_ADD), (''accept<'', MOD_ADD),
      (''accept4<'', MOD_ADD), (''getsockopt<'', MOD_ADD), (''sendto<'', MOD_ADD), (''sendto>'', MOD_ADD),
      (''sendmsg<'', MOD_ADD), (''sendmsg>'', MOD_ADD), (''sendmmsg<'', MOD_ADD), (''recvfrom<'', MOD_ADD),
      (''recvfrom>'', MOD_ADD), (''recvmsg<'', MOD_ADD), (''recvmsg>'', MOD_ADD), (''recvmmsg<'', MOD_ADD),
      (''recvmmsg>'', MOD_ADD)]"

definition modifiers :: "EventNames \<Rightarrow> string + Modifier EventMap" where
  "modifiers en = mk_EventMap en modifier_init MOD_INVALID"

datatype SignalResult = SIG_PROCESSED | SIG_IGNORED | SIG_ERROR | SIG_NEEDS_REFRESH | SIG_FINISHED

datatype scap_l4 = SCAP_L4_TCP | SCAP_L4_UDP | SCAP_L4_OTHER

text \<open>The tuple of a socket; the members are in network order.\<close>

datatype fd_type =
    SCAP_FD_IPV4_SOCK u32 u16 u32 u16
  | SCAP_FD_IPV6_SOCK "u32 \<times> u32 \<times> u32 \<times> u32" u16 "u32 \<times> u32 \<times> u32 \<times> u32" u16
  | SCAP_FD_OTHER

record fd_info =
  fd_socket_failed :: bool
  fd_socket_pending :: bool
  fd_role_server :: bool
  fd_role_client :: bool
  fd_l4proto :: scap_l4
  fd_m_type :: fd_type

record sinsp_evt =
  evt_type :: nat
  evt_ts :: u64
  evt_fd_info :: "fd_info option"
  evt_rawres :: "int option"
  evt_container_id :: "string option"

record NetworkSignalHandler =
  nh_collect_connection_status :: bool
  nh_track_send_recv :: bool

definition mk_NetworkSignalHandler :: NetworkSignalHandler where
  "mk_NetworkSignalHandler = \<lparr>nh_collect_connection_status = True, nh_track_send_recv = False\<rparr>"

definition ipv6_of_m_b :: "u32 \<times> u32 \<times> u32 \<times> u32 \<Rightarrow> Address" where
  "ipv6_of_m_b b = (case b of (w0, w1, w2, w3) \<Rightarrow> Address_ipv6_u32 w0 w1 w2 w3)"

fun socket_endpoints :: "fd_type \<Rightarrow> (Endpoint \<times> Endpoint) option" where
  "socket_endpoints (SCAP_FD_IPV4_SOCK sip sport dip dport) =
     Some (Endpoint_of_address (Address_ipv4 sip) sport, Endpoint_of_address (Address_ipv4 dip) dport)"
| "socket_endpoints (SCAP_FD_IPV6_SOCK sip sport dip dport) =
     Some (Endpoint_of_address (ipv6_of_m_b sip) sport, Endpoint_of_address (ipv6_of_m_b dip) dport)"
| "socket_endpoints SCAP_FD_OTHER = None"

fun l4proto_of_scap :: "scap_l4 \<Rightarrow> L4Proto option" where
  "l4proto_of_scap SCAP_L4_TCP = Some TCP"
| "l4proto_of_scap SCAP_L4_UDP = Some UDP"
| "l4proto_of_scap SCAP_L4_OTHER = None"

definition GetConnection :: "NetworkSignalHandler \<Rightarrow> sinsp_evt \<Rightarrow> Connection option" where
  "GetConnection h evt =
     (case evt_fd_info evt of
        None \<Rightarrow> None
      | Some fd \<Rightarrow>
          if nh_collect_connection_status h \<and> fd_socket_failed fd then None
          else if nh_collect_connection_status h \<and> fd_socket_pending fd then None
          else if evt_rawres evt = None \<or> the (evt_rawres evt) < 0 then None
          else
            let is_server = fd_role_server fd
            in if \<not> is_server \<and> \<not> fd_role_client fd then None
               else
                 Option.bind (l4proto_of_scap (fd_l4proto fd)) (\<lambda>l4proto.
                 Option.bind (socket_endpoints (fd_m_type fd)) (\<lambda>(client, server).
                   let local_ep = (if is_server then server else client);
                       remote_ep = (if is_server then client else server)
                   in case evt_container_id evt of
                        None \<Rightarrow> None
                      | Some container_id \<Rightarrow> Some (mk_Connection container_id local_ep remote_ep l4proto is_server))))"

definition HandleSignal ::
  "Modifier EventMap \<Rightarrow> NetworkSignalHandler \<Rightarrow> sinsp_evt \<Rightarrow> ConnectionTracker \<Rightarrow>
   string + SignalResult \<times> ConnectionTracker" where
  "HandleSignal mods h evt ct =
     (case EventMap_at mods (evt_type evt) of
        Inl e \<Rightarrow> Inl e
      | Inr modifier \<Rightarrow>
          if modifier = MOD_INVALID then Inr (SIG_IGNORED, ct)
          else case GetConnection h evt of
                 None \<Rightarrow> Inr (SIG_IGNORED, ct)
               | Some conn \<Rightarrow>
                   if \<not> IsRelevantConnection conn then Inr (SIG_IGNORED, ct)
                   else Inr (SIG_PROCESSED,
                             UpdateConnection conn (uint (evt_ts evt div 1000)) (modifier = MOD_ADD) ct))"

definition GetRelevantEvents :: "NetworkSignalHandler \<Rightarrow> string list" where
  "GetRelevantEvents h =
     [''close<'', ''shutdown<'', ''connect<'', ''accept<'', ''accept4<'', ''getsockopt<''] @
     (if nh_track_send_recv h
      then [''sendto<'', ''sendto>'', ''sendmsg<'', ''sendmsg>'', ''sendmmsg<'', ''recvfrom<'', ''recvfrom>'',
            ''recvmsg<'', ''recvmsg>'', ''recvmmsg<'', ''recvmmsg>'', ''recvmsg<'', ''recvmsg>'']
      else [])"

section \<open>Which events a name stands for\<close>

definition tagged :: "(nat \<Rightarrow> bool) \<Rightarrow> string list \<Rightarrow> nat \<Rightarrow> string" where
  "tagged is_enter event_info i = event_info ! i @ (if is_enter i then ''>'' else ''<'')"

definition ids_of :: "(string, nat list) umap \<Rightarrow> string \<Rightarrow> nat set" where
  "ids_of m name = (case um_find (=) m name of None \<Rightarrow> {} | Some ids \<Rightarrow> set ids)"

lemma ids_of_push: "ids_of (push_event name i m) n = ids_of m n \<union> (if n = name then {i} else {})"
  by (auto simp: ids_of_def push_event_def val_key.find_assign split: option.split)

lemma ids_of_fold:
  "ids_of (fold (\<lambda>(i, name) m. let m = push_event name i m
      in if is_enter i then push_event (name @ ''>'') i m else push_event (name @ ''<'') i m) (List.enumerate k xs) m) n =
   ids_of m n \<union> {i. k \<le> i \<and> i < k + length xs \<and>
     (n = xs ! (i - k) \<or> n = xs ! (i - k) @ (if is_enter i then ''>'' else ''<''))}"
proof (induction xs arbitrary: k m)
  case (Cons x xs)
  have "{i. k \<le> i \<and> i < k + length (x # xs) \<and>
      (n = (x # xs) ! (i - k) \<or> n = (x # xs) ! (i - k) @ (if is_enter i then ''>'' else ''<''))} =
    {i. Suc k \<le> i \<and> i < Suc k + length xs \<and>
      (n = xs ! (i - Suc k) \<or> n = xs ! (i - Suc k) @ (if is_enter i then ''>'' else ''<''))} \<union>
    (if n = x \<or> n = x @ (if is_enter k then ''>'' else ''<'') then {k} else {})"
    (is "?A = ?B")
  proof (intro equalityI subsetI)
    fix i assume "i \<in> ?A"
    then show "i \<in> ?B" by (cases "i = k") (auto simp: nth_Cons' Suc_le_eq)
  next
    fix i assume "i \<in> ?B"
    then show "i \<in> ?A" by (auto simp: nth_Cons' split: if_splits)
  qed
  then show ?case using Cons.IH [of "Suc k"] by (auto simp: ids_of_push Let_def)
qed auto

lemma ids_of_events_by_name:
  "ids_of (events_by_name is_enter info) n =
     {i. i < length info \<and> (n = info ! i \<or> n = tagged is_enter info i)}"
  using ids_of_fold [of is_enter 0 info "[]" n] by (simp add: events_by_name_def ids_of_def tagged_def)

lemma nth_fold_update:
  "length (fold (\<lambda>i vs. vs[i := v]) ids vs) = length vs \<and>
   (i < length vs \<longrightarrow> fold (\<lambda>i vs. vs[i := v]) ids vs ! i = (if i \<in> set ids then v else vs ! i))"
  by (induction ids arbitrary: vs) (auto simp: nth_list_update)

lemma EventMap_init_loop_nth:
  "EventMap_init_loop en init vs = Inr vs' \<Longrightarrow> length vs' = length vs \<and>
   (i < length vs \<longrightarrow>
     vs' ! i = fold (\<lambda>(name, v) x. if i \<in> ids_of (en_events_by_name en) name then v else x) init (vs ! i))"
proof (induction init arbitrary: vs)
  case (Cons a init)
  obtain name v where a: "a = (name, v)" by (cases a)
  from Cons.prems obtain ids where ids: "um_find (=) (en_events_by_name en) name = Some ids"
    and rest: "EventMap_init_loop en init (fold (\<lambda>i vs. vs[i := v]) ids vs) = Inr vs'"
    by (auto simp: a EventMap_Set_def GetEventIDs_def split: option.splits)
  show ?case using Cons.IH [OF rest] nth_fold_update [of v ids vs i] by (auto simp: a ids_of_def ids)
qed simp

lemma fold_no_match: "list_all (\<lambda>(k, v). k \<noteq> t) init \<Longrightarrow> fold (\<lambda>(k, v) x. if t = k then v else x) init d = d"
  by (induction init) auto

lemma fold_match_map_of:
  "distinct (map fst init) \<Longrightarrow>
   fold (\<lambda>(k, v) x. if t = k then v else x) init d = (case map_of init t of None \<Rightarrow> d | Some v \<Rightarrow> v)"
proof (induction init arbitrary: d)
  case (Cons a init)
  obtain k v where a: "a = (k, v)" by (cases a)
  show ?case
  proof (cases "t = k")
    case True
    then have "list_all (\<lambda>(k', v). k' \<noteq> t) init" using Cons.prems by (force simp: a list_all_iff)
    then show ?thesis using True by (simp add: a fold_no_match)
  next
    case False
    then show ?thesis using Cons by (simp add: a)
  qed
qed simp

section \<open>Properties\<close>

text \<open>
  The handler classifies every event by its name and direction alone: with event names that carry no
  direction mark, an event closes a connection, reports one or is ignored exactly as the table says for
  its name followed by the mark of its direction.
\<close>

theorem modifiers_by_name:
  assumes "mk_EventNames is_enter info table = Inr en" "modifiers en = Inr mods" "i < length info"
    "list_all (\<lambda>n. n \<notin> set (map fst modifier_init)) info"
  shows "EventMap_at mods i =
    Inr (case map_of modifier_init (tagged is_enter info i) of None \<Rightarrow> MOD_INVALID | Some m \<Rightarrow> m)"
proof -
  have en: "en_events_by_name en = events_by_name is_enter info" "en_names_by_id en = info"
    using assms(1) by (auto simp: mk_EventNames_def split: sum.splits)
  have ids: "i \<in> ids_of (en_events_by_name en) k \<longleftrightarrow> tagged is_enter info i = k" if "k \<in> set (map fst modifier_init)" for k
    using that assms(3,4) by (auto simp: en ids_of_events_by_name list_all_iff)
  have "length mods = length info"
    and "mods ! i = fold (\<lambda>(name, v) x. if i \<in> ids_of (en_events_by_name en) name then v else x) modifier_init MOD_INVALID"
    using EventMap_init_loop_nth [of en modifier_init "replicate (length info) MOD_INVALID" mods i] assms(2,3)
    by (simp_all add: modifiers_def mk_EventMap_def en)
  moreover have "fold (\<lambda>(name, v) x. if i \<in> ids_of (en_events_by_name en) name then v else x) modifier_init MOD_INVALID =
      fold (\<lambda>(k, v) x. if tagged is_enter info i = k then v else x) modifier_init MOD_INVALID"
  proof (rule fold_cong [OF refl refl])
    fix kv assume "kv \<in> set modifier_init"
    then have "fst kv \<in> set (map fst modifier_init)" by simp
    from ids [OF this] show "(case kv of (name, v) \<Rightarrow> \<lambda>x. if i \<in> ids_of (en_events_by_name en) name then v else x) =
        (case kv of (k, v) \<Rightarrow> \<lambda>x. if tagged is_enter info i = k then v else x)"
      by (simp add: case_prod_unfold)
  qed
  moreover have "distinct (map fst modifier_init)" by (simp add: modifier_init_def)
  ultimately show ?thesis using assms(3) by (simp add: EventMap_at_def fold_match_map_of)
qed

text \<open>A small event table: every event twice, entering before leaving.\<close>

definition example_info :: "string list" where
  "example_info = concat (map (\<lambda>n. [n, n])
     [''open'', ''close'', ''shutdown'', ''connect'', ''accept'', ''accept4'', ''getsockopt'', ''sendto'', ''sendmsg'',
      ''sendmmsg'', ''recvfrom'', ''recvmsg'', ''recvmmsg''])"

theorem modifiers_by_name_witness:
  "\<exists>en mods. mk_EventNames even example_info [(0, 1)] = Inr en \<and> modifiers en = Inr mods \<and>
    EventMap_at mods 3 = Inr MOD_REMOVE \<and> EventMap_at mods 2 = Inr MOD_INVALID"
proof -
  obtain en where en: "mk_EventNames even example_info [(0, 1)] = Inr en"
    by (simp add: mk_EventNames_def example_info_def)
  have "(case mk_EventNames even example_info [(0, 1)] of Inl _ \<Rightarrow> False | Inr en \<Rightarrow>
      (case modifiers en of Inl _ \<Rightarrow> False | Inr _ \<Rightarrow> True))" by code_simp
  then obtain mods where mods: "modifiers en = Inr mods" unfolding en by (auto split: sum.splits)
  have marks: "list_all (\<lambda>n. n \<notin> set (map fst modifier_init)) example_info" by code_simp
  show ?thesis
    using modifiers_by_name [OF en mods _ marks, of 3] modifiers_by_name [OF en mods _ marks, of 2] en mods
    by (simp add: example_info_def tagged_def modifier_init_def)
qed

lemma HandleSignal_cases:
  assumes "EventMap_at mods (evt_type evt) = Inr m"
  shows "HandleSignal mods h evt ct =
    (case GetConnection h evt of
       Some c \<Rightarrow> if m \<noteq> MOD_INVALID \<and> IsRelevantConnection c
                then Inr (SIG_PROCESSED, UpdateConnection c (uint (evt_ts evt div 1000)) (m = MOD_ADD) ct)
                else Inr (SIG_IGNORED, ct)
     | None \<Rightarrow> Inr (SIG_IGNORED, ct))"
  using assms by (auto simp: HandleSignal_def split: option.split)

lemma event_micros_bounds: "0 \<le> uint (ts div 1000 :: u64)" "uint (ts div 1000 :: u64) < 2 ^ 63"
proof -
  have "uint (ts div 1000) = uint ts div 1000" by (simp add: uint_div)
  moreover have "uint ts < 2 ^ 64" using uint_lt2p [of ts] by simp
  ultimately show "uint (ts div 1000) < 2 ^ 63" by simp
qed simp

text \<open>
  (C15) The life of a socket as the kernel reports it: an event that opens a connection and a later one that
  closes it leave the connection inactive since the time of the closing, in whatever order the two
  events are handled and whatever older status was stored; both are processed and no other connection is touched.
\<close>

theorem socket_lifecycle:
  assumes "EventMap_at mods (evt_type e1) = Inr MOD_ADD" "EventMap_at mods (evt_type e2) = Inr MOD_REMOVE"
    "GetConnection h e1 = Some c" "GetConnection h e2 = Some c" "IsRelevantConnection c"
    "uint (evt_ts e1 div 1000) < uint (evt_ts e2 div 1000)"
    "case um_find Connection_keq (ct_conn_state ct) c of None \<Rightarrow> True
     | Some st \<Rightarrow> LastActiveTime st < uint (evt_ts e1 div 1000)"
  shows "\<exists>ct1 ct2 ct1' ct2'.
    HandleSignal mods h e1 ct = Inr (SIG_PROCESSED, ct1) \<and> HandleSignal mods h e2 ct1 = Inr (SIG_PROCESSED, ct2) \<and>
    HandleSignal mods h e2 ct = Inr (SIG_PROCESSED, ct1') \<and> HandleSignal mods h e1 ct1' = Inr (SIG_PROCESSED, ct2') \<and>
    um_find Connection_keq (ct_conn_state ct2) c = Some (mk_ConnStatus (uint (evt_ts e2 div 1000)) False) \<and>
    um_find Connection_keq (ct_conn_state ct2') c = Some (mk_ConnStatus (uint (evt_ts e2 div 1000)) False) \<and>
    (\<forall>j. Connection_keq c j \<or>
      um_find Connection_keq (ct_conn_state ct2) j = um_find Connection_keq (ct_conn_state ct) j \<and>
      um_find Connection_keq (ct_conn_state ct2') j = um_find Connection_keq (ct_conn_state ct) j)"
proof -
  let ?t1 = "uint (evt_ts e1 div 1000)" and ?t2 = "uint (evt_ts e2 div 1000)"
  let ?add = "UpdateConnection c ?t1 True" and ?del = "UpdateConnection c ?t2 False"
  have run: "HandleSignal mods h e1 ct' = Inr (SIG_PROCESSED, ?add ct')"
    "HandleSignal mods h e2 ct' = Inr (SIG_PROCESSED, ?del ct')" for ct'
    using assms(1-5) by (simp_all add: HandleSignal_cases)
  have times: "LastActiveTime (mk_ConnStatus ?t1 True) = ?t1" "LastActiveTime (mk_ConnStatus ?t2 False) = ?t2"
    using event_micros_bounds [of "evt_ts e1"] event_micros_bounds [of "evt_ts e2"] by simp_all
  have "um_find Connection_keq (ct_conn_state (?del (?add ct))) c = Some (mk_ConnStatus ?t2 False)"
    "um_find Connection_keq (ct_conn_state (?add (?del ct))) c = Some (mk_ConnStatus ?t2 False)"
    using assms(6,7) by (auto simp: find_UpdateConnection conn_key.keq_refl times split: option.splits)
  moreover have "um_find Connection_keq (ct_conn_state (?del (?add ct))) j = um_find Connection_keq (ct_conn_state ct) j"
    "um_find Connection_keq (ct_conn_state (?add (?del ct))) j = um_find Connection_keq (ct_conn_state ct) j"
    if "\<not> Connection_keq c j" for j using that by (simp_all add: find_UpdateConnection)
  ultimately show ?thesis using run by blast
qed

definition example_socket :: "nat \<Rightarrow> u64 \<Rightarrow> sinsp_evt" where
  "example_socket type ts =
     \<lparr>evt_type = type, evt_ts = ts,
      evt_fd_info = Some \<lparr>fd_socket_failed = False, fd_socket_pending = False, fd_role_server = False, fd_role_client = True,
        fd_l4proto = SCAP_L4_TCP, fd_m_type = SCAP_FD_IPV4_SOCK 0x0100000A 40000 0x0200000A 443\<rparr>,
      evt_rawres = Some 0, evt_container_id = Some ''0123456789ab''\<rparr>"

theorem socket_lifecycle_witness:
  "\<exists>c ct1 ct2. HandleSignal [MOD_ADD, MOD_REMOVE] mk_NetworkSignalHandler (example_socket 0 5000) ConnectionTracker_init =
      Inr (SIG_PROCESSED, ct1) \<and>
    HandleSignal [MOD_ADD, MOD_REMOVE] mk_NetworkSignalHandler (example_socket 1 9000) ct1 = Inr (SIG_PROCESSED, ct2) \<and>
    um_find Connection_keq (ct_conn_state ct2) c = Some (mk_ConnStatus 9 False)"
proof -
  let ?h = mk_NetworkSignalHandler and ?mods = "[MOD_ADD, MOD_REMOVE]"
  define c where "c = mk_Connection ''0123456789ab'' (Endpoint_of_address (Address_ipv4 0x0100000A) 40000)
    (Endpoint_of_address (Address_ipv4 0x0200000A) 443) TCP False"
  have conn: "GetConnection ?h (example_socket k ts) = Some c" for k ts
    by (simp add: GetConnection_def example_socket_def c_def mk_NetworkSignalHandler_def)
  have rel: "IsRelevantConnection c" unfolding c_def by code_simp
  have "um_find Connection_keq (ct_conn_state ConnectionTracker_init) c = None" by (simp add: ConnectionTracker_init_def)
  then show ?thesis
    using socket_lifecycle [of ?mods "example_socket 0 5000" "example_socket 1 9000", OF _ _ conn conn rel,
        of ConnectionTracker_init]
    by (fastforce simp: EventMap_at_def example_socket_def)
qed

text \<open>
  Events that did not succeed leave the tracker alone: a failed or pending asynchronous connect, a
  negative result, a socket without a role, a protocol other than TCP and UDP, a socket of another
  family, a process outside containers, loopback traffic and an event that is not in the table.
\<close>

theorem unsuccessful_events_ignored:
  assumes "EventMap_at mods (evt_type evt) = Inr m" "nh_collect_connection_status h"
    "m = MOD_INVALID \<or> evt_rawres evt = None \<or> the (evt_rawres evt) < 0 \<or> evt_container_id evt = None \<or>
     (case evt_fd_info evt of None \<Rightarrow> True | Some fd \<Rightarrow>
        fd_socket_failed fd \<or> fd_socket_pending fd \<or> (\<not> fd_role_server fd \<and> \<not> fd_role_client fd) \<or>
        fd_l4proto fd = SCAP_L4_OTHER \<or> fd_m_type fd = SCAP_FD_OTHER) \<or>
     (\<exists>c. GetConnection h evt = Some c \<and> IsLocal (ep_address (conn_remote c)))"
  shows "HandleSignal mods h evt ct = Inr (SIG_IGNORED, ct)"
proof (cases "GetConnection h evt")
  case (Some c)
  then have "m = MOD_INVALID \<or> \<not> IsRelevantConnection c"
    using assms(2,3)
    by (auto simp: GetConnection_def IsRelevantConnection_def Let_def bind_eq_Some_conv split: option.splits if_splits)
  then show ?thesis using Some by (auto simp: HandleSignal_cases [OF assms(1)])
qed (simp add: HandleSignal_cases [OF assms(1)])

theorem unsuccessful_events_ignored_witness:
  "HandleSignal [MOD_ADD] mk_NetworkSignalHandler ((example_socket 0 5000)\<lparr>evt_rawres := Some (- 111)\<rparr>) ConnectionTracker_init =
    Inr (SIG_IGNORED, ConnectionTracker_init)"
  by (rule unsuccessful_events_ignored) (simp_all add: EventMap_at_def example_socket_def mk_NetworkSignalHandler_def)

end
