(* ===== verification/Process_Signals.thy ===== *)
theory Process_Signals
  imports Network_Signals Rate_Limit Duplex_Stream
begin

text \<open>
  Process signals: the formatter of \<^verbatim>\<open>ProcessSignalFormatter.cpp\<close>, the handler of \<^verbatim>\<open>ProcessSignalHandler.cpp\<close> and
  the client of \<^verbatim>\<open>SignalServiceClient.cpp\<close> they send through, which works on the stream client of
  \<open>Duplex_Stream\<close>. What the Falco libraries tell about a thread is a record; the ancestors a traversal visits,
  the UTF-8 scanner \<open>span\<close> and the identifiers of signals are arguments. A message field keeps the value the
  code assigns to it.
\<close>

section \<open>Threads and signals\<close>

record threadinfo =
  ti_comm :: string
  ti_exepath :: string
  ti_args :: "string list"
  ti_pid :: int
  ti_vpid :: int
  ti_uid :: u32
  ti_gid :: u32
  ti_clone_ts :: u64
  ti_container_id :: string

text \<open>A thread with what the thread table knows about it; a main thread's ancestors come nearest first.\<close>

record thread =
  th_info :: threadinfo
  th_is_main :: bool
  th_main_thread_known :: bool
  th_ancestors :: "threadinfo option list"

record LineageInfo =
  li_parent_uid :: u32
  li_parent_exec_file_path :: string

record ProcessSignal =
  ps_id :: string
  ps_name :: string
  ps_exec_file_path :: string
  ps_args :: string
  ps_pid :: int
  ps_uid :: u32
  ps_gid :: u32
  ps_time_ns :: u64
  ps_container_id :: string
  ps_scraped :: bool
  ps_lineage_info :: "LineageInfo list"

definition ProcessSignal_default :: ProcessSignal where
  "ProcessSignal_default =
     \<lparr>ps_id = [], ps_name = [], ps_exec_file_path = [], ps_args = [], ps_pid = 0, ps_uid = 0, ps_gid = 0, ps_time_ns = 0,
      ps_container_id = [], ps_scraped = False, ps_lineage_info = []\<rparr>"

text \<open>What the event extractor returns for an event; the getters are independent.\<close>

record process_evt =
  pe_type :: nat
  pe_ts :: u64
  pe_comm :: "string option"
  pe_exepath :: "string option"
  pe_proc_args :: "string option"
  pe_pid :: "int option"
  pe_uid :: "u32 option"
  pe_gid :: "u32 option"
  pe_container_id :: "string option"
  pe_thread :: "thread option"

datatype ProcessSignalType = PST_EXECVE | PST_UNKNOWN_PROCESS_TYPE

definition process_signals :: "EventNames \<Rightarrow> string + ProcessSignalType EventMap" where
  "process_signals en = mk_EventMap en [(''execve<'', PST_EXECVE)] PST_UNKNOWN_PROCESS_TYPE"

section \<open>The formatter\<close>

definition sanitized :: "(string \<Rightarrow> nat) \<Rightarrow> string \<Rightarrow> string" where
  "sanitized span s = (case SanitizedUTF8 span s of Some t \<Rightarrow> t | None \<Rightarrow> s)"

fun extract_proc_args :: "(string \<Rightarrow> nat) \<Rightarrow> string list \<Rightarrow> string" where
  "extract_proc_args span [] = []"
| "extract_proc_args span [arg] = sanitized span arg"
| "extract_proc_args span (arg # args) = sanitized span arg @ '' '' @ extract_proc_args span args"

definition ValidateProcessDetails :: "threadinfo option \<Rightarrow> bool" where
  "ValidateProcessDetails tinfo =
     (case tinfo of
        None \<Rightarrow> False
      | Some t \<Rightarrow> if ti_exepath t = ''<NA>'' \<and> ti_comm t = ''<NA>'' then False else True)"

record lineage_stats =
  ls_counts :: i64
  ls_total :: i64
  ls_sqr_total :: i64
  ls_string_total :: i64

definition GetTotalStringLength :: "LineageInfo list \<Rightarrow> int" where
  "GetTotalStringLength lineage = fold (\<lambda>l n. n + int (length (li_parent_exec_file_path l))) lineage 0"

definition CountLineage :: "LineageInfo list \<Rightarrow> lineage_stats \<Rightarrow> lineage_stats" where
  "CountLineage lineage st =
     st\<lparr>ls_counts := ls_counts st + 1, ls_total := ls_total st + int (length lineage),
        ls_sqr_total := ls_sqr_total st + int (length lineage) * int (length lineage),
        ls_string_total := ls_string_total st + GetTotalStringLength lineage\<rparr>"

text \<open>The visitor: whether to go on to the next ancestor, and the lineage so far.\<close>

definition visit_parent :: "threadinfo option \<Rightarrow> LineageInfo list \<Rightarrow> bool \<times> LineageInfo list" where
  "visit_parent pt lineage =
     (case pt of
        None \<Rightarrow> (False, lineage)
      | Some p \<Rightarrow>
          if ti_pid p = 0 then (False, lineage)
          else if ti_vpid p = 0 \<and> ti_container_id p = [] then (False, lineage)
          else if ti_vpid p \<noteq> 0 \<and> ti_pid p = ti_vpid p then (False, lineage)
          else if ti_vpid p = - 1 then (False, lineage)
          else
            let lineage' =
              (if lineage = [] \<or> li_parent_exec_file_path (last lineage) \<noteq> ti_exepath p
               then lineage @ [\<lparr>li_parent_uid = ti_uid p, li_parent_exec_file_path = ti_exepath p\<rparr>] else lineage)
            in (\<not> length lineage' \<ge> 10, lineage'))"

fun traverse_parents :: "threadinfo option list \<Rightarrow> LineageInfo list \<Rightarrow> LineageInfo list" where
  "traverse_parents [] lineage = lineage"
| "traverse_parents (pt # pts) lineage =
     (case visit_parent pt lineage of (continue, lineage') \<Rightarrow>
        if continue then traverse_parents pts lineage' else lineage')"

definition GetProcessLineage :: "thread option \<Rightarrow> LineageInfo list \<Rightarrow> lineage_stats \<Rightarrow> LineageInfo list \<times> lineage_stats" where
  "GetProcessLineage tinfo lineage st =
     (case tinfo of
        None \<Rightarrow> (lineage, st)
      | Some t \<Rightarrow>
          if \<not> th_is_main t \<and> \<not> th_main_thread_known t then (lineage, st)
          else let lineage' = traverse_parents (th_ancestors t) lineage in (lineage', CountLineage lineage' st))"

definition available :: "string option \<Rightarrow> bool" where
  "available s \<longleftrightarrow> (case s of None \<Rightarrow> False | Some t \<Rightarrow> t \<noteq> [] \<and> t \<noteq> ''<NA>'')"

definition name_fields :: "(string \<Rightarrow> nat) \<Rightarrow> string option \<Rightarrow> string option \<Rightarrow> ProcessSignal \<Rightarrow> ProcessSignal" where
  "name_fields span name exepath s =
     (let s1 = (if available name then s\<lparr>ps_name := sanitized span (the name)\<rparr>
                else if available exepath then s\<lparr>ps_name := sanitized span (the exepath)\<rparr> else s)
      in if available exepath then s1\<lparr>ps_exec_file_path := sanitized span (the exepath)\<rparr>
         else if available name then s1\<lparr>ps_exec_file_path := sanitized span (the name)\<rparr> else s1)"

definition CreateProcessSignal_evt ::
  "(string \<Rightarrow> nat) \<Rightarrow> string \<Rightarrow> bool \<Rightarrow> process_evt \<Rightarrow> lineage_stats \<Rightarrow> ProcessSignal \<times> lineage_stats" where
  "CreateProcessSignal_evt span uuid disable_arguments event st =
     (let s = name_fields span (pe_comm event) (pe_exepath event) (ProcessSignal_default\<lparr>ps_id := uuid\<rparr>);
          s = (if \<not> disable_arguments
               then (case pe_proc_args event of None \<Rightarrow> s | Some args \<Rightarrow> s\<lparr>ps_args := sanitized span args\<rparr>) else s);
          s = (case pe_pid event of None \<Rightarrow> s | Some pid \<Rightarrow> s\<lparr>ps_pid := pid\<rparr>);
          s = (case pe_uid event of None \<Rightarrow> s | Some uid \<Rightarrow> s\<lparr>ps_uid := uid\<rparr>);
          s = (case pe_gid event of None \<Rightarrow> s | Some gid \<Rightarrow> s\<lparr>ps_gid := gid\<rparr>);
          s = s\<lparr>ps_time_ns := pe_ts event\<rparr>;
          s = (case pe_container_id event of None \<Rightarrow> s | Some cid \<Rightarrow> s\<lparr>ps_container_id := cid\<rparr>);
          (lineage, st') = GetProcessLineage (pe_thread event) [] st
      in (s\<lparr>ps_lineage_info := lineage\<rparr>, st'))"

definition CreateProcessSignal_tinfo ::
  "(string \<Rightarrow> nat) \<Rightarrow> string \<Rightarrow> thread \<Rightarrow> lineage_stats \<Rightarrow> ProcessSignal \<times> lineage_stats" where
  "CreateProcessSignal_tinfo span uuid t st =
     (let tinfo = th_info t;
          s = name_fields span (Some (ti_comm tinfo)) (Some (ti_exepath tinfo)) (ProcessSignal_default\<lparr>ps_id := uuid\<rparr>);
          (lineage, st') = GetProcessLineage (Some t) [] st
      in (s\<lparr>ps_scraped := True, ps_args := extract_proc_args span (ti_args tinfo), ps_pid := ti_pid tinfo,
            ps_uid := ti_uid tinfo, ps_gid := ti_gid tinfo, ps_time_ns := ti_clone_ts tinfo,
            ps_container_id := ti_container_id tinfo, ps_lineage_info := lineage\<rparr>, st'))"

definition ToProtoMessage_evt ::
  "(string \<Rightarrow> nat) \<Rightarrow> string \<Rightarrow> bool \<Rightarrow> ProcessSignalType EventMap \<Rightarrow> process_evt \<Rightarrow> lineage_stats \<Rightarrow>
   string + ProcessSignal option \<times> lineage_stats" where
  "ToProtoMessage_evt span uuid disable_arguments types event st =
     (case EventMap_at types (pe_type event) of
        Inl e \<Rightarrow> Inl e
      | Inr ty \<Rightarrow>
          if ty = PST_UNKNOWN_PROCESS_TYPE then Inr (None, st)
          else if \<not> ValidateProcessDetails (map_option th_info (pe_thread event)) then Inr (None, st)
          else case CreateProcessSignal_evt span uuid disable_arguments event st of (s, st') \<Rightarrow> Inr (Some s, st'))"

definition ToProtoMessage_tinfo ::
  "(string \<Rightarrow> nat) \<Rightarrow> string \<Rightarrow> thread option \<Rightarrow> lineage_stats \<Rightarrow> ProcessSignal option \<times> lineage_stats" where
  "ToProtoMessage_tinfo span uuid tinfo st =
     (case tinfo of
        None \<Rightarrow> (None, st)
      | Some t \<Rightarrow>
          if \<not> ValidateProcessDetails (Some (th_info t)) then (None, st)
          else case CreateProcessSignal_tinfo span uuid t st of (s, st') \<Rightarrow> (Some s, st'))"

section \<open>The client\<close>

text \<open>
  The state of \<^verbatim>\<open>SignalServiceClient\<close>. The field \<open>sc_sent\<close> is not in the class: it records, for the statements
  below, the messages whose write succeeded. The condition the thread waits for, the readiness of the channel and the looks at the stop flag are arguments. \<open>sc_context\<close> says
  whether there is a client context.
\<close>

record 'r SignalServiceClient =
  sc_stream_active :: bool
  sc_first_write :: bool
  sc_context :: bool
  sc_writer :: "'r client option"
  sc_sent :: "ProcessSignal list"

definition mk_SignalServiceClient :: "'r SignalServiceClient" where
  "mk_SignalServiceClient = \<lparr>sc_stream_active = False, sc_first_write = False, sc_context = False, sc_writer = None, sc_sent = []\<rparr>"

definition EstablishGRPCStreamSingle ::
  "bool \<Rightarrow> bool \<Rightarrow> bool \<Rightarrow> 'r \<Rightarrow> 'r cq_next list \<Rightarrow> 'r SignalServiceClient \<Rightarrow> bool \<times> 'r SignalServiceClient" where
  "EstablishGRPCStreamSingle stop_after_wait channel_ready stop_after_channel empty_msg evs c =
     (if stop_after_wait then (False, c)
      else if \<not> channel_ready then (False, c)
      else if stop_after_channel then (False, c)
      else case WaitUntilStarted evs (DuplexClientReaderWriter True empty_msg) of (res, evs', w) \<Rightarrow>
        if \<not> Result_ok res then (True, c\<lparr>sc_context := True, sc_writer := None\<rparr>)
        else (True, c\<lparr>sc_context := True, sc_writer := Some w, sc_first_write := True, sc_stream_active := True\<rparr>))"

text \<open>
  Writing through a stream that is active while no writer is there would be undefined: \<open>None\<close>. After a
  failed write the code also asks the writer for the final status, which it only logs, before it drops the
  writer; nothing of that call is left in the state.
\<close>

definition PushSignals ::
  "'r cq_next list \<Rightarrow> ProcessSignal \<Rightarrow> 'r SignalServiceClient \<Rightarrow> (SignalResult \<times> 'r SignalServiceClient) option" where
  "PushSignals evs msg c =
     (if \<not> sc_stream_active c then Some (SIG_ERROR, c)
      else if sc_first_write c then Some (SIG_NEEDS_REFRESH, c\<lparr>sc_first_write := False\<rparr>)
      else case sc_writer c of
             None \<Rightarrow> None
           | Some w \<Rightarrow>
               (case Write evs w of (res, evs', w') \<Rightarrow>
                  if \<not> Result_ok res then Some (SIG_ERROR, c\<lparr>sc_writer := None, sc_stream_active := False\<rparr>)
                  else Some (SIG_PROCESSED, c\<lparr>sc_writer := Some w', sc_sent := sc_sent c @ [msg]\<rparr>)))"

definition PushSignals_stdout :: "ProcessSignal \<Rightarrow> ProcessSignal list \<Rightarrow> SignalResult \<times> ProcessSignal list" where
  "PushSignals_stdout msg out = (SIG_PROCESSED, out @ [msg])"

text \<open>
  \<open>SignalServiceClient_Stop\<close> is what \<^verbatim>\<open>Stop\<close> does to the client once the thread has ended; without a context
  it would call through a null pointer: \<open>None\<close>. How \<^verbatim>\<open>Stop\<close> ends the thread is a step relation. The thread sleeps on
  the condition variable or is about to look at its predicate; it leaves when it sees the stop flag. (With
  an inactive stream it would go on to establish one, which the relation leaves out.)
\<close>

definition SignalServiceClient_Stop :: "'r SignalServiceClient \<Rightarrow> 'r SignalServiceClient option" where
  "SignalServiceClient_Stop c = (if \<not> sc_context c then None else Some (c\<lparr>sc_context := False\<rparr>))"

datatype stop_pc = AtNotify | AtThreadStop | AtJoin | Stopped

datatype waiter = Asleep | Awake | Exited

record stopping =
  sp_pc :: stop_pc
  sp_waiter :: waiter
  sp_should_stop :: bool
  sp_stream_active :: bool

inductive stop_step :: "stopping \<Rightarrow> stopping \<Rightarrow> bool" where
  notify_one: "sp_pc x = AtNotify \<Longrightarrow>
    stop_step x (x\<lparr>sp_pc := AtThreadStop, sp_waiter := (if sp_waiter x = Asleep then Awake else sp_waiter x)\<rparr>)"
| thread_stop: "sp_pc x = AtThreadStop \<Longrightarrow> stop_step x (x\<lparr>sp_pc := AtJoin, sp_should_stop := True\<rparr>)"
| thread_join: "sp_pc x = AtJoin \<Longrightarrow> sp_waiter x = Exited \<Longrightarrow> stop_step x (x\<lparr>sp_pc := Stopped\<rparr>)"
| wait_again: "sp_waiter x = Awake \<Longrightarrow> sp_stream_active x \<Longrightarrow> \<not> sp_should_stop x \<Longrightarrow> stop_step x (x\<lparr>sp_waiter := Asleep\<rparr>)"
| wait_over: "sp_waiter x = Awake \<Longrightarrow> sp_should_stop x \<Longrightarrow> stop_step x (x\<lparr>sp_waiter := Exited\<rparr>)"

inductive_cases stop_stepE: "stop_step x y"

section \<open>The handler\<close>

definition compute_process_key :: "ProcessSignal \<Rightarrow> string" where
  "compute_process_key s =
     ps_container_id s @ '' '' @ ps_name s @ '' '' @
     (if length (ps_args s) \<le> 256 then ps_args s else take 256 (ps_args s)) @ '' '' @ ps_exec_file_path s"

record process_stats =
  nProcessSent :: u64
  nProcessSendFailures :: u64
  nProcessResolutionFailuresByEvt :: u64
  nProcessResolutionFailuresByTinfo :: u64
  nProcessRateLimitCount :: u64

record 'c ProcessSignalHandler =
  ph_rate_limiter :: RateLimitCache
  ph_stats :: process_stats
  ph_lineage_stats :: lineage_stats
  ph_client :: 'c

text \<open>The part both handlers share: the rate limit, the client \<open>push\<close> and the counters.\<close>

definition send_signal ::
  "(ProcessSignal \<Rightarrow> 'c \<Rightarrow> (SignalResult \<times> 'c) option) \<Rightarrow> int \<times> int \<times> int \<Rightarrow> ProcessSignal \<Rightarrow> 'c ProcessSignalHandler \<Rightarrow>
   (SignalResult \<times> 'c ProcessSignalHandler) option" where
  "send_signal push clock s h =
     (case RateLimitCache_Allow clock (compute_process_key s) (ph_rate_limiter h) of
        None \<Rightarrow> None
      | Some (allowed, limiter) \<Rightarrow>
          (let h1 = h\<lparr>ph_rate_limiter := limiter\<rparr>
           in if \<not> allowed
              then Some (SIG_IGNORED,
                     h1\<lparr>ph_stats := (ph_stats h1)\<lparr>nProcessRateLimitCount := nProcessRateLimitCount (ph_stats h1) + 1\<rparr>\<rparr>)
              else case push s (ph_client h1) of
                     None \<Rightarrow> None
                   | Some (result, c) \<Rightarrow>
                       (let h2 = h1\<lparr>ph_client := c\<rparr>;
                            st = ph_stats h2;
                            st' = (if result = SIG_PROCESSED then st\<lparr>nProcessSent := nProcessSent st + 1\<rparr>
                                   else if result = SIG_ERROR then st\<lparr>nProcessSendFailures := nProcessSendFailures st + 1\<rparr>
                                   else st)
                        in Some (result, h2\<lparr>ph_stats := st'\<rparr>))))"

definition HandleProcessSignal ::
  "(ProcessSignal \<Rightarrow> 'c \<Rightarrow> (SignalResult \<times> 'c) option) \<Rightarrow> int \<times> int \<times> int \<Rightarrow> (string \<Rightarrow> nat) \<Rightarrow> string \<Rightarrow> bool \<Rightarrow>
   ProcessSignalType EventMap \<Rightarrow> process_evt \<Rightarrow> 'c ProcessSignalHandler \<Rightarrow> string + (SignalResult \<times> 'c ProcessSignalHandler) option" where
  "HandleProcessSignal push clock span uuid disable_arguments types evt h =
     (case ToProtoMessage_evt span uuid disable_arguments types evt (ph_lineage_stats h) of
        Inl e \<Rightarrow> Inl e
      | Inr (msg, ls) \<Rightarrow>
          (let h1 = h\<lparr>ph_lineage_stats := ls\<rparr>
           in Inr (case msg of
                     None \<Rightarrow> Some (SIG_IGNORED, h1\<lparr>ph_stats := (ph_stats h1)
                       \<lparr>nProcessResolutionFailuresByEvt := nProcessResolutionFailuresByEvt (ph_stats h1) + 1\<rparr>\<rparr>)
                   | Some s \<Rightarrow> send_signal push clock s h1)))"

definition HandleExistingProcess ::
  "(ProcessSignal \<Rightarrow> 'c \<Rightarrow> (SignalResult \<times> 'c) option) \<Rightarrow> int \<times> int \<times> int \<Rightarrow> (string \<Rightarrow> nat) \<Rightarrow> string \<Rightarrow>
   thread option \<Rightarrow> 'c ProcessSignalHandler \<Rightarrow> (SignalResult \<times> 'c ProcessSignalHandler) option" where
  "HandleExistingProcess push clock span uuid tinfo h =
     (case ToProtoMessage_tinfo span uuid tinfo (ph_lineage_stats h) of
        (msg, ls) \<Rightarrow>
          (let h1 = h\<lparr>ph_lineage_stats := ls\<rparr>
           in case msg of
                None \<Rightarrow> Some (SIG_IGNORED, h1\<lparr>ph_stats := (ph_stats h1)
                  \<lparr>nProcessResolutionFailuresByTinfo := nProcessResolutionFailuresByTinfo (ph_stats h1) + 1\<rparr>\<rparr>)
              | Some s \<Rightarrow> send_signal push clock s h1))"

definition ProcessSignalHandler_Stop ::
  "('c \<Rightarrow> 'c option) \<Rightarrow> 'c ProcessSignalHandler \<Rightarrow> 'c ProcessSignalHandler option" where
  "ProcessSignalHandler_Stop stop h =
     (case stop (ph_client h) of
        None \<Rightarrow> None
      | Some c \<Rightarrow> Some (h\<lparr>ph_client := c, ph_rate_limiter := ResetRateLimitCache (ph_rate_limiter h)\<rparr>))"

section \<open>Lineage\<close>

definition inside_container :: "threadinfo option \<Rightarrow> bool" where
  "inside_container pt \<longleftrightarrow> (case pt of None \<Rightarrow> False | Some p \<Rightarrow>
     ti_pid p \<noteq> 0 \<and> ti_vpid p \<noteq> - 1 \<and> (if ti_vpid p = 0 then ti_container_id p \<noteq> [] else ti_pid p \<noteq> ti_vpid p))"

definition lineage_of :: "threadinfo \<Rightarrow> LineageInfo" where
  "lineage_of p = \<lparr>li_parent_uid = ti_uid p, li_parent_exec_file_path = ti_exepath p\<rparr>"

text \<open>Of neighbours with the same path only the first stays.\<close>

fun collapse :: "LineageInfo list \<Rightarrow> LineageInfo list" where
  "collapse (x # y # zs) =
     (if li_parent_exec_file_path x = li_parent_exec_file_path y then collapse (x # zs) else x # collapse (y # zs))"
| "collapse xs = xs"

lemma collapse_Cons:
  "collapse (x # zs) = x # collapse (dropWhile (\<lambda>z. li_parent_exec_file_path z = li_parent_exec_file_path x) zs)"
proof (induction zs)
  case (Cons y zs)
  then show ?case by (cases "li_parent_exec_file_path x = li_parent_exec_file_path y") auto
qed simp

lemma collapse_neighbours:
  "Suc i < length (collapse xs) \<Longrightarrow>
   li_parent_exec_file_path (collapse xs ! i) \<noteq> li_parent_exec_file_path (collapse xs ! Suc i)"
proof (induction xs arbitrary: i rule: collapse.induct)
  case (1 x y zs)
  show ?case
  proof (cases "li_parent_exec_file_path x = li_parent_exec_file_path y")
    case False
    then show ?thesis using 1 by (cases i) (auto simp: collapse_Cons)
  qed (use 1 in simp)
qed auto

lemma visit_parent_outside: "\<not> inside_container pt \<Longrightarrow> visit_parent pt l = (False, l)"
  by (auto simp: visit_parent_def inside_container_def split: option.splits if_splits)

lemma visit_parent_inside:
  assumes "inside_container (Some p)"
  shows "visit_parent (Some p) l =
    (let l' = (if l = [] \<or> li_parent_exec_file_path (last l) \<noteq> ti_exepath p then l @ [lineage_of p] else l)
     in (length l' < 10, l'))"
  using assms by (auto simp: visit_parent_def inside_container_def lineage_of_def Let_def split: if_splits)

lemma traverse_parents_snoc:
  assumes "length l < 9"
  shows "traverse_parents as (l @ [x]) =
    take 10 (l @ collapse (x # map (lineage_of \<circ> the) (takeWhile inside_container as)))"
  using assms
proof (induction as arbitrary: l x)
  case (Cons a as)
  show ?case
  proof (cases "inside_container a")
    case True
    then obtain p where a: "a = Some p" by (cases a) (auto simp: inside_container_def)
    let ?rest = "map (lineage_of \<circ> the) (takeWhile inside_container as)"
    show ?thesis
    proof (cases "li_parent_exec_file_path x = ti_exepath p")
      case same: True
      then show ?thesis
        using Cons True visit_parent_inside [of p "l @ [x]"] by (simp add: a Let_def lineage_of_def)
    next
      case new: False
      have step: "traverse_parents (a # as) (l @ [x]) =
          (if length l < 8 then traverse_parents as (l @ [x] @ [lineage_of p]) else l @ [x] @ [lineage_of p])"
        using new Cons.prems True visit_parent_inside [of p "l @ [x]"] by (auto simp: a Let_def)
      have goal: "l @ collapse (x # map (lineage_of \<circ> the) (takeWhile inside_container (a # as))) =
          (l @ [x]) @ collapse (lineage_of p # ?rest)"
        using new True by (simp add: a lineage_of_def)
      show ?thesis
      proof (cases "length l < 8")
        case True
        then have "traverse_parents as (l @ [x] @ [lineage_of p]) = take 10 ((l @ [x]) @ collapse (lineage_of p # ?rest))"
          using Cons.IH [of "l @ [x]" "lineage_of p"] by (simp only: append_assoc length_append) simp
        then show ?thesis unfolding step goal using True by (simp only: if_True)
      next
        case False
        then have "length l = 8" using Cons.prems by simp
        then show ?thesis unfolding step goal by (simp add: collapse_Cons)
      qed
    qed
  next
    case False
    then show ?thesis using Cons.prems visit_parent_outside [OF False] by simp
  qed
qed simp

lemma traverse_parents_eq:
  "traverse_parents as [] = take 10 (collapse (map (lineage_of \<circ> the) (takeWhile inside_container as)))"
proof (cases as)
  case (Cons a as')
  show ?thesis
  proof (cases "inside_container a")
    case True
    then obtain p where a: "a = Some p" by (cases a) (auto simp: inside_container_def)
    then show ?thesis
      using True visit_parent_inside [of p "[]"] traverse_parents_snoc [of "[]" as' "lineage_of p"]
      by (simp add: Cons Let_def)
  next
    case False
    then show ?thesis using visit_parent_outside [OF False] by (simp add: Cons)
  qed
qed simp

section \<open>Properties\<close>

text \<open>
  (C24) The lineage of a process is what it should be: the ancestors up to the boundary of the container,
  nearest first, with runs of the same executable collapsed to one entry and cut at ten. So it never
  has more than ten entries or two equal neighbours.
\<close>

theorem lineage_exact:
  "fst (GetProcessLineage (Some t) [] st) =
     (if th_is_main t \<or> th_main_thread_known t
      then take 10 (collapse (map (lineage_of \<circ> the) (takeWhile inside_container (th_ancestors t)))) else []) \<and>
   length (fst (GetProcessLineage (Some t) [] st)) \<le> 10 \<and>
   list_all (\<lambda>i. li_parent_exec_file_path (fst (GetProcessLineage (Some t) [] st) ! i) \<noteq>
       li_parent_exec_file_path (fst (GetProcessLineage (Some t) [] st) ! Suc i))
     [0..<length (fst (GetProcessLineage (Some t) [] st)) - 1]"
proof -
  let ?l = "fst (GetProcessLineage (Some t) [] st)"
  let ?c = "collapse (map (lineage_of \<circ> the) (takeWhile inside_container (th_ancestors t)))"
  have eq: "?l = (if th_is_main t \<or> th_main_thread_known t then take 10 ?c else [])"
    by (simp add: GetProcessLineage_def traverse_parents_eq Let_def)
  moreover have "li_parent_exec_file_path (?l ! i) \<noteq> li_parent_exec_file_path (?l ! Suc i)" if "i < length ?l - 1" for i
    using that collapse_neighbours [of i] by (auto simp: eq split: if_splits)
  ultimately show ?thesis by (simp add: list_all_iff)
qed

section \<open>The contract of a signal client\<close>

text \<open>What a handler relies on: a client says that it processed a signal exactly when it delivered it.\<close>

locale signal_client =
  fixes push :: "ProcessSignal \<Rightarrow> 'c \<Rightarrow> (SignalResult \<times> 'c) option"
    and delivered :: "'c \<Rightarrow> 'm list"
    and payload :: "ProcessSignal \<Rightarrow> 'm"
  assumes push_processed: "push s c = Some (SIG_PROCESSED, c') \<Longrightarrow> delivered c' = delivered c @ [payload s]"
    and push_otherwise: "push s c = Some (r, c') \<Longrightarrow> r \<noteq> SIG_PROCESSED \<Longrightarrow> delivered c' = delivered c"
    and push_ignores_nothing: "push s c = Some (r, c') \<Longrightarrow> r \<in> {SIG_PROCESSED, SIG_ERROR, SIG_NEEDS_REFRESH}"
begin

lemma send_signal_accounts:
  assumes "send_signal push clock s h = Some (r, h')"
  shows "delivered (ph_client h') = delivered (ph_client h) @ (if r = SIG_PROCESSED then [payload s] else [])"
    and "nProcessSent (ph_stats h') = nProcessSent (ph_stats h) + (if r = SIG_PROCESSED then 1 else 0)"
    and "nProcessSendFailures (ph_stats h') = nProcessSendFailures (ph_stats h) + (if r = SIG_ERROR then 1 else 0)"
    and "nProcessRateLimitCount (ph_stats h') = nProcessRateLimitCount (ph_stats h) + (if r = SIG_IGNORED then 1 else 0)"
proof -
  obtain ok lim where allow: "RateLimitCache_Allow clock (compute_process_key s) (ph_rate_limiter h) = Some (ok, lim)"
    using assms by (auto simp: send_signal_def split: option.splits)
  show "delivered (ph_client h') = delivered (ph_client h) @ (if r = SIG_PROCESSED then [payload s] else [])"
    "nProcessSent (ph_stats h') = nProcessSent (ph_stats h) + (if r = SIG_PROCESSED then 1 else 0)"
    "nProcessSendFailures (ph_stats h') = nProcessSendFailures (ph_stats h) + (if r = SIG_ERROR then 1 else 0)"
    "nProcessRateLimitCount (ph_stats h') = nProcessRateLimitCount (ph_stats h) + (if r = SIG_IGNORED then 1 else 0)"
    using assms push_processed [of s "ph_client h"] push_otherwise [of s "ph_client h"]
      push_ignores_nothing [of s "ph_client h"]
    by (cases ok; force simp: send_signal_def allow Let_def split: option.splits if_splits)+
qed

end

lemma PushSignals_cases:
  "PushSignals evs s c = Some (r, c') \<Longrightarrow>
     r = SIG_PROCESSED \<and> sc_sent c' = sc_sent c @ [s] \<or> r \<in> {SIG_ERROR, SIG_NEEDS_REFRESH} \<and> sc_sent c' = sc_sent c"
  by (auto simp: PushSignals_def split: if_splits option.splits prod.splits)

interpretation grpc_client: signal_client "PushSignals evs" sc_sent "\<lambda>s. s"
  by unfold_locales (auto dest!: PushSignals_cases)

interpretation stdout_client: signal_client "\<lambda>s c. Some (PushSignals_stdout s c)" "\<lambda>c. c" "\<lambda>s. s"
  by unfold_locales (auto simp: PushSignals_stdout_def)

section \<open>The signal stream\<close>

inductive signal_step :: "'r SignalServiceClient \<Rightarrow> 'r SignalServiceClient \<Rightarrow> bool" where
  establish_step: "\<not> sc_stream_active c \<Longrightarrow> EstablishGRPCStreamSingle b1 b2 b3 e evs c = (going, c') \<Longrightarrow> signal_step c c'"
| push_step: "PushSignals evs s c = Some (r, c') \<Longrightarrow> signal_step c c'"

lemma active_has_writer: "signal_step c c' \<Longrightarrow> (sc_stream_active c \<longrightarrow> sc_writer c \<noteq> None) \<Longrightarrow> sc_stream_active c' \<longrightarrow> sc_writer c' \<noteq> None"
  by (induction rule: signal_step.induct)
    (auto simp: EstablishGRPCStreamSingle_def PushSignals_def split: if_splits prod.splits option.splits)

text \<open>So a push is defined in every state the client can reach.\<close>

lemma push_defined:
  assumes "signal_step\<^sup>*\<^sup>* mk_SignalServiceClient c"
  shows "PushSignals evs s c \<noteq> None"
proof -
  have "sc_stream_active c \<longrightarrow> sc_writer c \<noteq> None"
    using assms by (induction rule: rtranclp_induct) (auto simp: mk_SignalServiceClient_def dest: active_has_writer)
  then show ?thesis by (auto simp: PushSignals_def split: prod.split)
qed

text \<open>A sequence of pushes, each with the outcomes of the completion queue it meets: the results and the client.\<close>

fun push_run ::
  "('r cq_next list \<times> ProcessSignal) list \<Rightarrow> 'r SignalServiceClient \<Rightarrow> (SignalResult list \<times> 'r SignalServiceClient) option" where
  "push_run [] c = Some ([], c)"
| "push_run ((evs, s) # pushes) c =
     (case PushSignals evs s c of
        None \<Rightarrow> None
      | Some (r, c') \<Rightarrow> map_option (\<lambda>(rs, c''). (r # rs, c'')) (push_run pushes c'))"

lemma push_inactive:
  "\<not> sc_stream_active c \<Longrightarrow> push_run pushes c = Some (replicate (length pushes) SIG_ERROR, c)"
proof (induction pushes)
  case (Cons p pushes)
  then show ?case by (cases p) (simp add: PushSignals_def)
qed simp

lemma PushSignals_established:
  assumes "sc_stream_active c" "\<not> sc_first_write c" "sc_writer c = Some w"
  shows "\<exists>c'. PushSignals evs s c = Some (if fst (Write evs w) = ST_OK then SIG_PROCESSED else SIG_ERROR, c') \<and>
    (if fst (Write evs w) = ST_OK
     then sc_stream_active c' \<and> \<not> sc_first_write c' \<and> sc_writer c' \<noteq> None \<and> sc_sent c' = sc_sent c @ [s]
     else \<not> sc_stream_active c' \<and> sc_writer c' = None \<and> sc_sent c' = sc_sent c)"
  using assms by (simp add: PushSignals_def Result_ok_def split: prod.split)

lemma push_established:
  "sc_stream_active c \<Longrightarrow> \<not> sc_first_write c \<Longrightarrow> sc_writer c \<noteq> None \<Longrightarrow>
   \<exists>n m c'. push_run pushes c = Some (replicate n SIG_PROCESSED @ replicate m SIG_ERROR, c') \<and> n + m = length pushes \<and>
     sc_sent c' = sc_sent c @ map snd (take n pushes) \<and>
     (if m = 0 then sc_stream_active c' \<and> \<not> sc_first_write c' \<and> sc_writer c' \<noteq> None
      else \<not> sc_stream_active c' \<and> sc_writer c' = None)"
proof (induction pushes arbitrary: c)
  case (Cons p pushes)
  obtain evs s where p: "p = (evs, s)" by (cases p)
  obtain w where w: "sc_writer c = Some w" using Cons.prems by blast
  obtain c1 where c1: "PushSignals evs s c = Some (if fst (Write evs w) = ST_OK then SIG_PROCESSED else SIG_ERROR, c1)"
    "if fst (Write evs w) = ST_OK
     then sc_stream_active c1 \<and> \<not> sc_first_write c1 \<and> sc_writer c1 \<noteq> None \<and> sc_sent c1 = sc_sent c @ [s]
     else \<not> sc_stream_active c1 \<and> sc_writer c1 = None \<and> sc_sent c1 = sc_sent c"
    using PushSignals_established [OF Cons.prems(1,2) w, of evs s] by blast
  show ?case
  proof (cases "fst (Write evs w) = ST_OK")
    case True
    obtain n m c' where IH: "push_run pushes c1 = Some (replicate n SIG_PROCESSED @ replicate m SIG_ERROR, c')"
      "n + m = length pushes" "sc_sent c' = sc_sent c1 @ map snd (take n pushes)"
      "if m = 0 then sc_stream_active c' \<and> \<not> sc_first_write c' \<and> sc_writer c' \<noteq> None
       else \<not> sc_stream_active c' \<and> sc_writer c' = None"
      using Cons.IH [of c1] c1(2) True by auto
    show ?thesis using IH c1 True by (intro exI [of _ "Suc n"] exI [of _ m] exI [of _ c']) (simp add: p)
  next
    case False
    then show ?thesis using c1 push_inactive [of c1 pushes]
      by (intro exI [of _ 0] exI [of _ "Suc (length pushes)"] exI [of _ c1]) (simp add: p)
  qed
qed simp

text \<open>
  (C25) The life of a signal stream, from the moment the client's thread has tried to establish it. On an
  established stream the first push asks for a refresh of the existing processes and sends nothing,
  the following ones are delivered, in order, up to the first write that fails; that push and all later
  ones report an error, and the failing one leaves the stream inactive and the writer dropped, which is
  what makes the thread establish a new one. Until then the stream is active and a push reports what its
  write returns. Where the stream could not be established every push reports an error and changes
  nothing.
\<close>

theorem signal_stream_lifecycle:
  assumes "EstablishGRPCStreamSingle stop ready stop' empty_msg starting (c\<lparr>sc_stream_active := False\<rparr>) = (going, c1)"
  shows "if sc_stream_active c1
    then \<exists>n m c2. push_run (p # pushes) c1 =
        Some (SIG_NEEDS_REFRESH # replicate n SIG_PROCESSED @ replicate m SIG_ERROR, c2) \<and> n + m = length pushes \<and>
      sc_sent c2 = sc_sent c1 @ map snd (take n pushes) \<and>
      (if m = 0
       then sc_stream_active c2 \<and>
            (\<exists>w. sc_writer c2 = Some w \<and> map_option fst (PushSignals evs s c2) =
               Some (if fst (Write evs w) = ST_OK then SIG_PROCESSED else SIG_ERROR))
       else \<not> sc_stream_active c2 \<and> sc_writer c2 = None)
    else push_run (p # pushes) c1 = Some (replicate (Suc (length pushes)) SIG_ERROR, c1)"
proof (cases "sc_stream_active c1")
  case True
  then have c1: "sc_first_write c1" "sc_writer c1 \<noteq> None"
    using assms by (auto simp: EstablishGRPCStreamSingle_def split: if_splits prod.splits)
  define c0 where "c0 = c1\<lparr>sc_first_write := False\<rparr>"
  have c0: "sc_stream_active c0" "\<not> sc_first_write c0" "sc_writer c0 \<noteq> None" "sc_sent c0 = sc_sent c1"
    using True c1 by (simp_all add: c0_def)
  have first: "PushSignals evs' s' c1 = Some (SIG_NEEDS_REFRESH, c0)" for evs' s'
    using True c1 by (simp add: PushSignals_def c0_def)
  obtain n m c2 where run: "push_run pushes c0 = Some (replicate n SIG_PROCESSED @ replicate m SIG_ERROR, c2)"
    "n + m = length pushes" "sc_sent c2 = sc_sent c0 @ map snd (take n pushes)"
    "if m = 0 then sc_stream_active c2 \<and> \<not> sc_first_write c2 \<and> sc_writer c2 \<noteq> None
     else \<not> sc_stream_active c2 \<and> sc_writer c2 = None"
    using push_established [OF c0(1-3)] by blast
  have alive: "if m = 0 then sc_stream_active c2 \<and>
            (\<exists>w. sc_writer c2 = Some w \<and> map_option fst (PushSignals evs s c2) =
               Some (if fst (Write evs w) = ST_OK then SIG_PROCESSED else SIG_ERROR))
       else \<not> sc_stream_active c2 \<and> sc_writer c2 = None"
  proof (cases "m = 0")
    case True
    then obtain w where w: "sc_writer c2 = Some w" "sc_stream_active c2" "\<not> sc_first_write c2" using run(4) by auto
    from PushSignals_established [OF w(2,3,1), of evs s] show ?thesis using True w by auto
  qed (use run(4) in simp)
  have "push_run (p # pushes) c1 = Some (SIG_NEEDS_REFRESH # replicate n SIG_PROCESSED @ replicate m SIG_ERROR, c2)"
    using first run(1) by (cases p) simp
  moreover have "sc_sent c2 = sc_sent c1 @ map snd (take n pushes)" using run(3) c0(4) by simp
  ultimately show ?thesis using run(2) alive unfolding if_P [OF True] by blast
next
  case False
  then show ?thesis using push_inactive [OF False, of "p # pushes"] by simp
qed

text \<open>A stream that starts, and four pushes of which the third meets a timeout.\<close>

definition example_stream :: "nat SignalServiceClient" where
  "example_stream = snd (EstablishGRPCStreamSingle False True False 0 [NextEvent OP_START True 0 (GRPC_OK, [])]
     mk_SignalServiceClient)"

definition example_pushes :: "(nat cq_next list \<times> ProcessSignal) list" where
  "example_pushes = map (\<lambda>evs. (evs, ProcessSignal_default)) [[], [NextEvent OP_WRITE True 0 (GRPC_OK, [])], [NextTimeout], []]"

lemma example_stream_run:
  "sc_stream_active example_stream" "sc_sent example_stream = []"
  "map_option fst (push_run example_pushes example_stream) = Some [SIG_NEEDS_REFRESH, SIG_PROCESSED, SIG_ERROR, SIG_ERROR]"
  by (simp_all add: example_stream_def example_pushes_def EstablishGRPCStreamSingle_def WaitUntilStarted_def PollAll_def
      init_state ProcessEvent_def SetFlags_def ClearFlags_def Done_def Pending_def kNumOps_def Let_def cq_store_def
      Result_ok_def PushSignals_def Write_def WriteAsyncInternal_def DoSync_def DoAsync_def CheckFlags_def rw_call_def
      Result_of_bool_def mk_SignalServiceClient_def)

theorem signal_stream_lifecycle_witness:
  "\<exists>c2. push_run example_pushes example_stream = Some ([SIG_NEEDS_REFRESH, SIG_PROCESSED, SIG_ERROR, SIG_ERROR], c2) \<and>
     \<not> sc_stream_active c2 \<and> sc_writer c2 = None \<and> sc_sent c2 = [ProcessSignal_default]"
proof -
  have same: "mk_SignalServiceClient\<lparr>sc_stream_active := False\<rparr> = (mk_SignalServiceClient :: nat SignalServiceClient)"
    by (simp add: mk_SignalServiceClient_def)
  have "EstablishGRPCStreamSingle False True False 0 [NextEvent OP_START True 0 (GRPC_OK, [])]
      (mk_SignalServiceClient\<lparr>sc_stream_active := False\<rparr>) = (True, example_stream)"
    by (simp add: same example_stream_def EstablishGRPCStreamSingle_def split: prod.split)
  note life = signal_stream_lifecycle [OF this, of "hd example_pushes" "tl example_pushes" "[]" ProcessSignal_default,
      unfolded if_P [OF example_stream_run(1)]]
  have "hd example_pushes # tl example_pushes = example_pushes" by (simp add: example_pushes_def)
  then obtain n m c2 where run: "push_run example_pushes example_stream =
      Some (SIG_NEEDS_REFRESH # replicate n SIG_PROCESSED @ replicate m SIG_ERROR, c2)"
    "sc_sent c2 = sc_sent example_stream @ map snd (take n (tl example_pushes))"
    "m \<noteq> 0 \<longrightarrow> \<not> sc_stream_active c2 \<and> sc_writer c2 = None"
    using life by (metis (no_types, lifting))
  have "replicate n SIG_PROCESSED @ replicate m SIG_ERROR = [SIG_PROCESSED, SIG_ERROR, SIG_ERROR]"
    using example_stream_run(3) by (simp add: run(1))
  from this [THEN arg_cong, of length] this [THEN arg_cong, of "\<lambda>l. length (filter ((=) SIG_PROCESSED) l)"]
  have "n = 1 \<and> m = 2" by simp
  then show ?thesis using run example_stream_run(2) by (simp add: example_pushes_def eval_nat_numeral)
qed

definition example_handler :: "nat SignalServiceClient ProcessSignalHandler" where
  "example_handler =
     \<lparr>ph_rate_limiter = RateLimitCache_default, ph_stats = \<lparr>nProcessSent = 0, nProcessSendFailures = 0,
        nProcessResolutionFailuresByEvt = 0, nProcessResolutionFailuresByTinfo = 0, nProcessRateLimitCount = 0\<rparr>,
      ph_lineage_stats = \<lparr>ls_counts = 0, ls_total = 0, ls_sqr_total = 0, ls_string_total = 0\<rparr>,
      ph_client = mk_SignalServiceClient\<rparr>"

text \<open>
  Switching off process arguments works for kernel events only: the signal for a process that existed
  before carries its arguments whether or not they are disabled.
\<close>

theorem arguments_disabled_for_events_only:
  "ps_args (fst (CreateProcessSignal_evt span uuid True event st)) = [] \<and>
   ps_args (fst (CreateProcessSignal_tinfo span uuid t st)) = extract_proc_args span (ti_args (th_info t))"
  by (simp add: CreateProcessSignal_evt_def CreateProcessSignal_tinfo_def name_fields_def ProcessSignal_default_def Let_def
      split: option.split prod.split)

text \<open>
  The order of the two wake-ups in \<^verbatim>\<open>Stop\<close> is wrong. It notifies the thread before it sets the stop flag, so with an
  active stream the thread may wake up, find its predicate still false and sleep again; then \<^verbatim>\<open>Stop\<close> waits in the
  join, nobody notifies the condition variable any more and no step is left. When the thread looks at
  its predicate late enough \<^verbatim>\<open>Stop\<close> does end.
\<close>

lemma stop_run_lost:
  assumes "sp_pc x = AtNotify" "sp_waiter x = Asleep" "\<not> sp_should_stop x" "sp_stream_active x"
  shows "stop_step\<^sup>*\<^sup>* x (x\<lparr>sp_pc := AtJoin, sp_should_stop := True\<rparr>)"
proof -
  let ?x1 = "x\<lparr>sp_pc := AtThreadStop, sp_waiter := Awake\<rparr>" and ?x2 = "x\<lparr>sp_pc := AtThreadStop, sp_waiter := Asleep\<rparr>"
  have "stop_step x ?x1" using notify_one [of x] assms by simp
  moreover have "stop_step ?x1 ?x2" using wait_again [of ?x1] assms by simp
  moreover have "stop_step ?x2 (x\<lparr>sp_pc := AtJoin, sp_should_stop := True\<rparr>)"
    using thread_stop [of ?x2] assms(2) by (cases x) simp
  ultimately show ?thesis by (meson converse_rtranclp_into_rtranclp rtranclp.rtrancl_refl)
qed

lemma stop_run_ends:
  assumes "sp_pc x = AtNotify" "sp_waiter x = Asleep"
  shows "stop_step\<^sup>*\<^sup>* x (x\<lparr>sp_pc := Stopped, sp_waiter := Exited, sp_should_stop := True\<rparr>)"
proof -
  define at where "at pc w b = x\<lparr>sp_pc := pc, sp_waiter := w, sp_should_stop := b\<rparr>" for pc w b
  have [simp]: "(at pc w b)\<lparr>sp_pc := pc'\<rparr> = at pc' w b" "(at pc w b)\<lparr>sp_waiter := w'\<rparr> = at pc w' b"
    "(at pc w b)\<lparr>sp_should_stop := b'\<rparr> = at pc w b'" "sp_pc (at pc w b) = pc" "sp_waiter (at pc w b) = w"
    "sp_should_stop (at pc w b) = b" for pc w b pc' w' b'
    by (simp_all add: at_def)
  have x: "x = at AtNotify Asleep (sp_should_stop x)" unfolding at_def using assms by (cases x) simp
  have "stop_step x (at AtThreadStop Awake (sp_should_stop x))"
    by (subst x) (use notify_one [of "at AtNotify Asleep (sp_should_stop x)"] in simp)
  moreover have "stop_step (at AtThreadStop Awake b) (at AtJoin Awake True)" for b
    using thread_stop [of "at AtThreadStop Awake b"] by simp
  moreover have "stop_step (at AtJoin Awake True) (at AtJoin Exited True)" using wait_over [of "at AtJoin Awake True"] by simp
  moreover have "stop_step (at AtJoin Exited True) (at Stopped Exited True)" using thread_join [of "at AtJoin Exited True"] by simp
  ultimately have "stop_step\<^sup>*\<^sup>* x (at Stopped Exited True)"
    by (meson converse_rtranclp_into_rtranclp rtranclp.rtrancl_refl)
  then show ?thesis by (simp add: at_def)
qed

text \<open>
  Stopping the client of an established stream can block for ever: from the state in which the thread
  sleeps and the stream is active, \<^verbatim>\<open>Stop\<close> can reach a state in the join with the thread asleep and no step left;
  another schedule of the same steps ends. A client that never reached the channel has no context to cancel,
  so stopping it is undefined.
\<close>

theorem Stop_can_block:
  "(let x = \<lparr>sp_pc = AtNotify, sp_waiter = Asleep, sp_should_stop = False, sp_stream_active = True\<rparr>
    in (\<exists>y. stop_step\<^sup>*\<^sup>* x y \<and> sp_pc y = AtJoin \<and> \<not> Ex (stop_step y)) \<and>
       (\<exists>y. stop_step\<^sup>*\<^sup>* x y \<and> sp_pc y = Stopped)) \<and>
   SignalServiceClient_Stop (snd (EstablishGRPCStreamSingle stop False stop' e evs mk_SignalServiceClient)) = None"
proof -
  let ?x = "\<lparr>sp_pc = AtNotify, sp_waiter = Asleep, sp_should_stop = False, sp_stream_active = True\<rparr>"
  let ?y = "?x\<lparr>sp_pc := AtJoin, sp_should_stop := True\<rparr>"
  have "\<not> Ex (stop_step ?y)" by (auto elim!: stop_stepE)
  then have "\<exists>y. stop_step\<^sup>*\<^sup>* ?x y \<and> sp_pc y = AtJoin \<and> \<not> Ex (stop_step y)"
    using stop_run_lost [of ?x] by (intro exI [of _ ?y]) simp
  moreover have "\<exists>y. stop_step\<^sup>*\<^sup>* ?x y \<and> sp_pc y = Stopped"
    using stop_run_ends [of ?x] by (intro exI [of _ "?x\<lparr>sp_pc := Stopped, sp_waiter := Exited, sp_should_stop := True\<rparr>"]) simp
  ultimately show ?thesis
    by (simp add: Let_def SignalServiceClient_Stop_def EstablishGRPCStreamSingle_def mk_SignalServiceClient_def)
qed

end
