(* ===== verification/Std_Numbers.thy ===== *)
theory Std_Numbers
  imports Complex_Main Str_Util "HOL-Library.Log_Nat"
begin

text \<open>
  The conversions of the C++ language and its standard library that the configuration uses:
  \<^verbatim>\<open>std::stoi\<close>, \<^verbatim>\<open>std::stol\<close> and \<^verbatim>\<open>std::stoll\<close> with their exceptions, and binary floating point.
  A finite floating-point number is a rational number, and an operation rounds its exact result to the
  nearest number with \<open>p\<close> significant bits, ties to even: \<open>p = 24\<close> for \<^verbatim>\<open>float\<close>, \<open>p = 53\<close> for \<^verbatim>\<open>double\<close>. All
  values of the program stay far from the limits of the exponents, so these do not occur.
\<close>

section \<open>Reading integers\<close>

datatype std_exception = Invalid_argument | Out_of_range

text \<open>The common part: leading white space, a sign and digits are read, the rest is ignored.\<close>

definition std_read_int :: "nat \<Rightarrow> string \<Rightarrow> std_exception + int" where
  "std_read_int w s =
     (let t = dropWhile isspace s;
          neg = (t \<noteq> [] \<and> hd t = CHR ''-'');
          u = (if t \<noteq> [] \<and> (hd t = CHR ''-'' \<or> hd t = CHR ''+'') then tl t else t);
          ds = takeWhile isdigit u;
          v = (if neg then - int (decimal_value ds) else int (decimal_value ds))
      in if ds = [] then Inl Invalid_argument
         else if v < - (2 ^ (w - 1)) \<or> v \<ge> 2 ^ (w - 1) then Inl Out_of_range
         else Inr v)"

definition std_stoi :: "string \<Rightarrow> std_exception + int" where "std_stoi = std_read_int 32"
definition std_stol :: "string \<Rightarrow> std_exception + int" where "std_stol = std_read_int 64"
definition std_stoll :: "string \<Rightarrow> std_exception + int" where "std_stoll = std_read_int 64"

lemma std_read_int_bounds: "std_read_int w s = Inr v \<Longrightarrow> - (2 ^ (w - 1)) \<le> v \<and> v < 2 ^ (w - 1)"
  by (auto simp: std_read_int_def Let_def split: if_splits)

lemma digit_not_space_sign: "isdigit c \<Longrightarrow> \<not> isspace c \<and> c \<noteq> CHR ''-'' \<and> c \<noteq> CHR ''+''"
  by (auto simp: isdigit_def isspace_def less_eq_char_def)

lemma span_digits:
  assumes "list_all isdigit ds" "rest = [] \<or> \<not> isdigit (hd rest)"
  shows "takeWhile isdigit (ds @ rest) = ds" "dropWhile isdigit (ds @ rest) = rest"
  using assms by (cases rest; simp add: list_all_iff takeWhile_append2 dropWhile_append2)+

text \<open>What is printed is read back.\<close>

lemma std_read_digits:
  assumes "ds \<noteq> []" "list_all isdigit ds" "rest = [] \<or> \<not> isdigit (hd rest)"
  shows "int (decimal_value ds) < 2 ^ (w - 1) \<Longrightarrow> std_read_int w (ds @ rest) = Inr (int (decimal_value ds))"
    and "int (decimal_value ds) \<le> 2 ^ (w - 1) \<Longrightarrow> std_read_int w (CHR ''-'' # ds @ rest) = Inr (- int (decimal_value ds))"
proof -
  obtain c cs where c: "ds = c # cs" using assms(1) by (cases ds) auto
  have "isdigit c" using assms(2) c by simp
  note cls = digit_not_space_sign [OF this]
  have tw: "takeWhile isdigit (c # cs @ rest) = ds" using span_digits(1) [OF assms(2,3)] c by simp
  show "std_read_int w (ds @ rest) = Inr (int (decimal_value ds))" if "int (decimal_value ds) < 2 ^ (w - 1)"
  proof -
    have "- (2 ^ (w - 1)) \<le> int (decimal_value ds)" by (rule order_trans [of _ 0]) simp_all
    then show ?thesis using that cls tw assms(1) by (simp add: std_read_int_def c del: takeWhile.simps)
  qed
  show "std_read_int w (CHR ''-'' # ds @ rest) = Inr (- int (decimal_value ds))" if "int (decimal_value ds) \<le> 2 ^ (w - 1)"
  proof -
    have "- int (decimal_value ds) < 2 ^ (w - 1)" by (rule order.strict_trans1 [of _ 0]) simp_all
    moreover have "\<not> isspace (CHR ''-'')" by (simp add: isspace_def)
    ultimately show ?thesis using that tw assms(1) by (simp add: std_read_int_def c del: takeWhile.simps)
  qed
qed

lemma std_read_print:
  assumes "- (2 ^ (w - 1)) \<le> v" "v < 2 ^ (w - 1)" "rest = [] \<or> \<not> isdigit (hd rest)"
  shows "std_read_int w (print_int v @ rest) = Inr v"
proof (cases "v < 0")
  case True
  then show ?thesis
    using std_read_digits(2) [of "print_nat (nat (- v))" rest w] print_nat_digits [of "nat (- v)"] assms
    by (simp add: print_int_def)
next
  case False
  then show ?thesis
    using std_read_digits(1) [of "print_nat (nat v)" rest w] print_nat_digits [of "nat v"] assms
    by (simp add: print_int_def)
qed

section \<open>Floating point\<close>

definition exponent :: "rat \<Rightarrow> int" where
  "exponent x =
     (let (a, b) = quotient_of x; l = bitlen a - bitlen b
      in if 2 powi l \<le> x then l else l - 1)"

definition round_even :: "rat \<Rightarrow> int" where
  "round_even x =
     (let f = \<lfloor>x\<rfloor>; d = x - of_int f
      in if d < 1 / 2 then f else if d > 1 / 2 then f + 1 else if even f then f else f + 1)"

definition fl_pos :: "nat \<Rightarrow> rat \<Rightarrow> rat" where
  "fl_pos p x = (let u = 2 powi (exponent x + 1 - int p) in of_int (round_even (x / u)) * u)"

definition fl :: "nat \<Rightarrow> rat \<Rightarrow> rat" where
  "fl p x = (if x = 0 then 0 else if x < 0 then - fl_pos p (- x) else fl_pos p x)"

abbreviation float32 :: "rat \<Rightarrow> rat" where "float32 \<equiv> fl 24"
abbreviation float64 :: "rat \<Rightarrow> rat" where "float64 \<equiv> fl 53"

text \<open>\<^verbatim>\<open>std::round\<close>: halves go away from zero.\<close>

definition std_round :: "rat \<Rightarrow> int" where
  "std_round x = (if x < 0 then - \<lfloor>1 / 2 - x\<rfloor> else \<lfloor>x + 1 / 2\<rfloor>)"

text \<open>The conversion of a floating-point number to an integer drops the fraction.\<close>

definition trunc :: "rat \<Rightarrow> int" where
  "trunc x = (if x < 0 then - \<lfloor>- x\<rfloor> else \<lfloor>x\<rfloor>)"

lemma round_even_error: "\<bar>of_int (round_even x) - x\<bar> \<le> 1 / 2"
proof -
  have "0 \<le> x - of_int \<lfloor>x\<rfloor>" "x - of_int \<lfloor>x\<rfloor> < 1" by (simp_all, linarith)
  then show ?thesis by (auto simp: round_even_def Let_def abs_le_iff)
qed

lemma round_even_of_int [simp]: "round_even (of_int n) = n"
  by (simp add: round_even_def)

lemma bitlen_powi:
  assumes "a > 0"
  shows "2 powi (bitlen a - 1) \<le> (of_int a :: rat)" "(of_int a :: rat) < 2 powi (bitlen a)"
proof -
  have n: "bitlen a - 1 \<ge> 0" using assms by (simp add: bitlen_alt_def)
  have "(2::int) ^ nat (bitlen a - 1) \<le> a" "a < 2 ^ nat (bitlen a)" using bitlen_bounds [OF assms] by auto
  then have "(of_int (2 ^ nat (bitlen a - 1)) :: rat) \<le> of_int a" "(of_int a :: rat) < of_int (2 ^ nat (bitlen a))"
    by (simp_all only: of_int_le_iff of_int_less_iff)
  then show "2 powi (bitlen a - 1) \<le> (of_int a :: rat)" "(of_int a :: rat) < 2 powi (bitlen a)"
    using n by (simp_all add: power_int_nonneg_exp)
qed

lemma exponent_bounds:
  assumes "x > 0"
  shows "2 powi exponent x \<le> x" "x < 2 powi (exponent x + 1)"
proof -
  obtain a b where q: "quotient_of x = (a, b)" by force
  have b: "b > 0" using quotient_of_denom_pos [OF q] .
  have x: "x = of_int a / of_int b" using quotient_of_div [OF q] .
  then have a: "a > 0" using assms b by (auto simp: zero_less_divide_iff)
  let ?l = "bitlen a - bitlen b"
  have "x < 2 powi (bitlen a) / 2 powi (bitlen b - 1)"
    unfolding x using bitlen_powi [OF a] bitlen_powi [OF b] a b by (intro frac_less) simp_all
  also have "\<dots> = 2 powi (?l + 1)" by (simp flip: power_int_diff add: algebra_simps)
  finally have up: "x < 2 powi (?l + 1)" .
  have "2 powi (?l - 1) = 2 powi (bitlen a - 1) / (2 powi (bitlen b) :: rat)"
    by (simp flip: power_int_diff add: algebra_simps)
  also have "\<dots> \<le> x"
    unfolding x using bitlen_powi [OF a] bitlen_powi [OF b] a b by (intro frac_le) simp_all
  finally have lo: "2 powi (?l - 1) \<le> x" .
  show "2 powi exponent x \<le> x" "x < 2 powi (exponent x + 1)"
    using up lo by (auto simp: exponent_def q Let_def)
qed

text \<open>The relative error of one rounding is at most one half in the last place.\<close>

lemma fl_error:
  assumes "x \<ge> 0"
  shows "\<bar>fl p x - x\<bar> \<le> x / 2 ^ p"
proof (cases "x = 0")
  case False
  then have x: "x > 0" using assms by simp
  let ?u = "2 powi (exponent x + 1 - int p) :: rat"
  have u: "?u > 0" by simp
  have "fl p x - x = (of_int (round_even (x / ?u)) - x / ?u) * ?u"
    using x by (simp add: fl_def fl_pos_def Let_def algebra_simps)
  then have "\<bar>fl p x - x\<bar> = \<bar>of_int (round_even (x / ?u)) - x / ?u\<bar> * ?u" using u by (simp add: abs_mult)
  also have "\<dots> \<le> 1 / 2 * ?u" using round_even_error u by (intro mult_right_mono) simp_all
  also have "\<dots> = 2 powi exponent x / 2 ^ p"
    by (simp add: power_int_diff power_int_add_1)
  also have "\<dots> \<le> x / 2 ^ p" using exponent_bounds(1) [OF x] by (intro divide_right_mono) simp_all
  finally show ?thesis .
qed (simp add: fl_def)

text \<open>Integers of at most \<open>p\<close> bits, scaled by a power of two, are exact.\<close>

lemma fl_dyadic:
  assumes "0 \<le> n" "n < 2 ^ p"
  shows "fl p (of_int n * 2 powi j) = of_int n * 2 powi j"
proof (cases "n = 0")
  case False
  let ?x = "of_int n * 2 powi j :: rat"
  have x: "?x > 0" using False assms by simp
  have "(of_int n :: rat) < of_int (2 ^ p)" using assms(2) by (simp only: of_int_less_iff)
  then have "?x < 2 powi (int p + j)" by (simp add: power_int_add)
  with exponent_bounds(1) [OF x] have "(2::rat) powi exponent ?x < 2 powi (int p + j)" by (rule order.strict_trans1)
  then have "exponent ?x < int p + j"
    using power_int_increasing [of "int p + j" "exponent ?x" "2::rat"] by (simp add: not_le [symmetric] del: not_le) force
  then obtain k where k: "exponent ?x + 1 - int p = j - int k"
    by (metis add_diff_eq diff_diff_eq2 diff_le_eq zle_iff_zadd add.commute add1_zle_eq add_diff_cancel_left')
  have u: "?x / 2 powi (j - int k) = of_int (n * 2 ^ k)" by (simp add: power_int_diff)
  have "fl p ?x = of_int (round_even (of_int (n * 2 ^ k))) * 2 powi (j - int k)"
    using x by (simp only: fl_def fl_pos_def k u Let_def) (simp add: False)
  also have "\<dots> = ?x" by (simp only: round_even_of_int) (simp add: power_int_diff)
  finally show ?thesis .
qed (simp add: fl_def)

lemma fl_of_int: "0 \<le> n \<Longrightarrow> n < 2 ^ p \<Longrightarrow> fl p (of_int n) = of_int n"
  using fl_dyadic [of n p 0] by simp

lemma fl_half: "0 \<le> n \<Longrightarrow> n < 2 ^ p \<Longrightarrow> fl p (of_int n / 2) = of_int n / 2"
  using fl_dyadic [of n p "- 1"] by simp

text \<open>
  A quotient of integers of at most \<open>p\<close> bits rounds to an integer only if it is one, so its ceiling and
  its nearest integer are the exact ones.
\<close>

lemma fl_quotient_between:
  assumes "0 \<le> a" "a < 2 ^ p" "0 < b" "of_int k < (of_int a / of_int b :: rat)" "(of_int a / of_int b :: rat) < of_int (k + 1)"
  shows "of_int k < fl p (of_int a / of_int b)" "fl p (of_int a / of_int b) < of_int (k + 1)"
proof -
  let ?x = "of_int a / of_int b :: rat"
  have b: "(of_int b :: rat) > 0" using assms(3) by simp
  have "of_int (k * b) < (of_int a :: rat)" "(of_int a :: rat) < of_int ((k + 1) * b)"
    using assms(4,5) b by (simp_all add: pos_less_divide_eq pos_divide_less_eq)
  then have "k * b + 1 \<le> a" "a + 1 \<le> (k + 1) * b" by (simp_all only: of_int_less_iff)
  then have "of_int (k * b + 1) \<le> (of_int a :: rat)" "(of_int (a + 1) :: rat) \<le> of_int ((k + 1) * b)"
    by (simp_all only: of_int_le_iff)
  then have "of_int (k * b + 1) / of_int b \<le> ?x" "of_int (a + 1) / of_int b \<le> of_int ((k + 1) * b) / (of_int b :: rat)"
    using b by (simp_all only: divide_right_mono less_imp_le)
  then have gap: "of_int k + 1 / of_int b \<le> ?x" "?x + 1 / of_int b \<le> of_int (k + 1)"
    using b by (simp_all add: add_divide_distrib)
  have "(of_int a :: rat) < of_int (2 ^ p)" using assms(2) by (simp only: of_int_less_iff)
  then have "?x / 2 ^ p < 1 / of_int b" using b by (simp add: field_simps)
  then have "\<bar>fl p ?x - ?x\<bar> < 1 / of_int b" using fl_error [of ?x p] assms(1,3) by simp
  then show "of_int k < fl p ?x" "fl p ?x < of_int (k + 1)" using gap by (simp_all add: abs_less_iff)
qed

lemma ceiling_fl_quotient:
  assumes "0 \<le> a" "a < 2 ^ p" "0 < b"
  shows "\<lceil>fl p (of_int a / of_int b)\<rceil> = \<lceil>of_int a / of_int b :: rat\<rceil>"
proof (cases "b dvd a")
  case True
  then obtain c where c: "a = b * c" by (auto elim: dvdE)
  then have "0 \<le> c" "c \<le> a" using assms(1,3) by (simp_all add: zero_le_mult_iff mult_le_cancel_right1)
  moreover have "(of_int a / of_int b :: rat) = of_int c" using c assms(3) by simp
  ultimately show ?thesis using fl_of_int [of c p] assms(2) by simp
next
  case False
  let ?x = "of_int a / of_int b :: rat" and ?k = "a div b"
  have k: "\<lfloor>?x\<rfloor> = ?k" by (simp add: floor_divide_of_int_eq)
  have "of_int ?k \<noteq> ?x" 
  proof
    assume "of_int ?k = ?x"
    then have "(of_int (?k * b) :: rat) = of_int a" using assms(3) by (simp add: field_simps)
    then show False using False by (simp only: of_int_eq_iff) (metis dvd_triv_right)
  qed
  moreover have "of_int ?k \<le> ?x" "?x < of_int (?k + 1)" using k floor_correct [of ?x] by auto
  ultimately have strict: "of_int ?k < ?x" "?x < of_int (?k + 1)" by auto
  have "\<lceil>?x\<rceil> = ?k + 1" using strict by (simp add: ceiling_eq_iff)
  moreover have "\<lceil>fl p ?x\<rceil> = ?k + 1"
    using fl_quotient_between [OF assms strict] by (simp add: ceiling_eq_iff)
  ultimately show ?thesis by simp
qed

text \<open>The same holds for halves, so a quotient is rounded to the nearest integer as if it were exact.\<close>

lemma fl_quotient_half:
  assumes "0 \<le> a" "2 * a < 2 ^ p" "0 < b"
  shows "of_int k / 2 \<le> fl p (of_int a / of_int b) \<longleftrightarrow> of_int k / 2 \<le> (of_int a / of_int b :: rat)"
proof -
  let ?x = "of_int a / of_int b :: rat"
  have b: "(of_int b :: rat) > 0" and a: "(of_int a :: rat) \<ge> 0" using assms(1,3) by simp_all
  have "(of_int (2 * a) :: rat) < of_int (2 ^ p)" using assms(2) by (simp only: of_int_less_iff)
  then have "?x / 2 ^ p < 1 / (2 * of_int b)" using b by (simp add: field_simps)
  then have err: "\<bar>fl p ?x - ?x\<bar> < 1 / (2 * of_int b)" using fl_error [of ?x p] a b by simp
  consider "of_int k / 2 = ?x" | "of_int k / 2 < ?x" | "?x < of_int k / 2" by linarith
  then show ?thesis
  proof cases
    case 1
    then have "(of_int (k * b) :: rat) = of_int (2 * a)" using b by (simp add: field_simps)
    then have kb: "k * b = 2 * a" by (simp only: of_int_eq_iff)
    have "0 \<le> k * b" using kb assms(1) by simp
    then have "0 \<le> k" using assms(3) by (simp add: zero_le_mult_iff)
    moreover from this have "k \<le> k * b" using assms(3) by (simp add: mult_le_cancel_left1)
    ultimately have "0 \<le> k" "k \<le> 2 * a" using kb by simp_all
    then have "fl p ?x = ?x" using fl_half [of k p] assms(2) 1 by simp
    then show ?thesis by simp
  next
    case 2
    then have "(of_int (k * b) :: rat) < of_int (2 * a)" using b by (simp add: field_simps)
    then have "k * b + 1 \<le> 2 * a" by (simp only: of_int_less_iff)
    then have "(of_int (k * b + 1) :: rat) / (2 * of_int b) \<le> of_int (2 * a) / (2 * of_int b)"
      using b by (intro divide_right_mono, simp only: of_int_le_iff) simp
    then have "of_int k / 2 + 1 / (2 * of_int b) \<le> ?x" using b by (simp add: add_divide_distrib)
    then show ?thesis using err 2 by (simp add: abs_less_iff)
  next
    case 3
    then have "(of_int (2 * a) :: rat) < of_int (k * b)" using b by (simp add: field_simps)
    then have "2 * a + 1 \<le> k * b" by (simp only: of_int_less_iff)
    then have "(of_int (2 * a + 1) :: rat) / (2 * of_int b) \<le> of_int (k * b) / (2 * of_int b)"
      using b by (intro divide_right_mono, simp only: of_int_le_iff) simp
    then have "?x + 1 / (2 * of_int b) \<le> of_int k / 2" using b by (simp add: add_divide_distrib)
    then show ?thesis using err 3 by (simp add: abs_less_iff)
  qed
qed

lemma std_round_fl_quotient:
  assumes "0 \<le> a" "2 * a < 2 ^ p" "0 < b"
  shows "std_round (fl p (of_int a / of_int b)) = std_round (of_int a / of_int b)"
proof -
  let ?x = "of_int a / of_int b :: rat"
  have "0 \<le> ?x" using assms(1,3) by simp
  then have "0 \<le> fl p ?x" using fl_quotient_half [OF assms, of 0] by simp
  moreover have "\<lfloor>fl p ?x + 1 / 2\<rfloor> = \<lfloor>?x + 1 / 2\<rfloor>"
  proof (rule floor_unique)
    let ?m = "\<lfloor>?x + 1 / 2\<rfloor>"
    have m: "of_int ?m \<le> ?x + 1 / 2" "?x + 1 / 2 < of_int ?m + 1" by linarith+
    show "of_int ?m \<le> fl p ?x + 1 / 2" using m(1) fl_quotient_half [OF assms, of "2 * ?m - 1"] by (simp add: diff_divide_distrib del: le_floor_add) linarith
    show "fl p ?x + 1 / 2 < of_int ?m + 1" using m(2) fl_quotient_half [OF assms, of "2 * ?m + 1"] by (simp add: add_divide_distrib)
  qed
  ultimately show ?thesis using \<open>0 \<le> ?x\<close> by (simp add: std_round_def)
qed

end
