(* ===== verification/Host_Info.thy ===== *)
theory Host_Info
  imports Std_Numbers
begin

text \<open>
  What the collector finds out about its host: \<^verbatim>\<open>HostInfo.h\<close> and \<^verbatim>\<open>HostInfo.cpp\<close> with the version of the kernel and the
  lazily filled caches, and the heuristics of \<^verbatim>\<open>HostHeuristics.cpp\<close> that decide whether it can run at all. The environment,
  the files of the host and the answers of libbpf are a record \<open>host\<close>. A failure is an exception nobody
  catches, an access outside of a string, or a fatal log message, which ends the program.
\<close>

section \<open>The version of the kernel\<close>

datatype host_failure = Stoi_out_of_range | Undefined_access | Fatal string

record KernelVersion =
  kv_kernel :: int
  kv_major :: int
  kv_minor :: int
  kv_build_id :: int
  kv_release :: string
  kv_version :: string
  kv_machine :: string

definition KernelVersion_default :: KernelVersion where
  "KernelVersion_default =
     \<lparr>kv_kernel = 0, kv_major = 0, kv_minor = 0, kv_build_id = 0, kv_release = [], kv_version = [], kv_machine = []\<rparr>"

text \<open>
  The regular expression of the source. Its groups are the longest runs of digits, and the rest of the
  string must not contain the end of a line, which the dot does not match.
\<close>

definition digits_dot :: "string \<Rightarrow> (string \<times> string) option" where
  "digits_dot s =
     (let ds = takeWhile isdigit s; rest = dropWhile isdigit s
      in if ds = [] \<or> rest = [] \<or> hd rest \<noteq> CHR ''.'' then None else Some (ds, tl rest))"

definition release_match :: "string \<Rightarrow> (string \<times> string \<times> string \<times> string) option" where
  "release_match s =
     (case digits_dot s of
        None \<Rightarrow> None
      | Some (k, s1) \<Rightarrow>
          (case digits_dot s1 of
             None \<Rightarrow> None
           | Some (m, s2) \<Rightarrow>
               (let n = takeWhile isdigit s2;
                    rest = dropWhile isdigit s2;
                    b = (if rest \<noteq> [] \<and> hd rest = CHR ''-'' then takeWhile isdigit (tl rest) else [])
                in if n = [] \<or> CHR 0x0A \<in> set rest \<or> CHR 0x0D \<in> set rest then None else Some (k, m, n, b))))"

definition stoi :: "string \<Rightarrow> host_failure + int" where
  "stoi ds = (if decimal_value ds > 2147483647 then Inl Stoi_out_of_range else Inr (int (decimal_value ds)))"

definition mk_KernelVersion :: "string \<Rightarrow> string \<Rightarrow> string \<Rightarrow> host_failure + KernelVersion" where
  "mk_KernelVersion release version machine =
     (let kv = KernelVersion_default\<lparr>kv_release := release, kv_version := version, kv_machine := machine\<rparr>
      in case release_match release of
           None \<Rightarrow> Inr kv
         | Some (k, m, n, b) \<Rightarrow>
             (case stoi k of Inl e \<Rightarrow> Inl e | Inr kern \<Rightarrow>
              (case stoi m of Inl e \<Rightarrow> Inl e | Inr major \<Rightarrow>
               (case stoi n of Inl e \<Rightarrow> Inl e | Inr minor \<Rightarrow>
                  (let kv' = kv\<lparr>kv_kernel := kern, kv_major := major, kv_minor := minor\<rparr>
                   in if b = [] then Inr kv'
                      else case stoi b of Inl e \<Rightarrow> Inl e | Inr build_id \<Rightarrow> Inr (kv'\<lparr>kv_build_id := build_id\<rparr>))))))"

definition KernelVersion_HasEBPFSupport :: "KernelVersion \<Rightarrow> bool" where
  "KernelVersion_HasEBPFSupport kv \<longleftrightarrow> (if kv_kernel kv < 4 \<or> kv_kernel kv = 4 \<and> kv_major kv < 14 then False else True)"

definition HasSecureBootParam :: "KernelVersion \<Rightarrow> bool" where
  "HasSecureBootParam kv \<longleftrightarrow> (if kv_kernel kv < 4 \<or> kv_kernel kv = 4 \<and> kv_major kv < 11 then False else True)"

definition ShortRelease :: "KernelVersion \<Rightarrow> string" where
  "ShortRelease kv = print_int (kv_kernel kv) @ ''.'' @ print_int (kv_major kv) @ ''.'' @ print_int (kv_minor kv)"

section \<open>The host\<close>

datatype SecureBootStatus = SB_ENABLED | SB_DISABLED | SB_NOT_DETERMINED | SB_UNSET

text \<open>The numbers of the enumeration; the cast is only used for numbers it has.\<close>

fun SecureBootStatus_of :: "u8 \<Rightarrow> SecureBootStatus" where
  "SecureBootStatus_of s = (if s = 3 then SB_ENABLED else if s = 2 then SB_DISABLED else if s = 1 then SB_NOT_DETERMINED else SB_UNSET)"

text \<open>
  \<open>ho_file\<close> gives the lines of a file under the root of the host, \<open>ho_bytes\<close> its bytes, \<open>ho_readable\<close> whether a path can be read,
  \<open>ho_efivars\<close> the names in the directory of the EFI variables.
\<close>

record host =
  ho_getenv :: "string \<Rightarrow> string option"
  ho_uname :: "(string \<times> string \<times> string) option"
  ho_file :: "string \<Rightarrow> string list option"
  ho_bytes :: "string \<Rightarrow> bytes option"
  ho_readable :: "string \<Rightarrow> bool"
  ho_host_path :: "string \<Rightarrow> string"
  ho_efivars :: "string list option"
  ho_ringbuf_probe :: int
  ho_tracing_probe :: int
  ho_num_possible_cpus :: int

record HostInfo =
  hi_kernel_version :: KernelVersion
  hi_distro :: string
  hi_hostname :: string
  hi_build_id :: string
  hi_os_id :: string
  hi_secure_boot_status :: SecureBootStatus

definition HostInfo_init :: HostInfo where
  "HostInfo_init =
     \<lparr>hi_kernel_version = KernelVersion_default, hi_distro = [], hi_hostname = [], hi_build_id = [], hi_os_id = [],
      hi_secure_boot_status = SB_UNSET\<rparr>"

definition FromHost :: "host \<Rightarrow> host_failure + KernelVersion" where
  "FromHost ho =
     (let release = (case ho_getenv ho ''KERNEL_VERSION'' of None \<Rightarrow> [] | Some v \<Rightarrow> v)
      in case ho_uname ho of
           Some (r, v, m) \<Rightarrow> mk_KernelVersion (if release = [] then r else release) v m
         | None \<Rightarrow> mk_KernelVersion release [] [])"

definition GetKernelVersion :: "host \<Rightarrow> HostInfo \<Rightarrow> host_failure + KernelVersion \<times> HostInfo" where
  "GetKernelVersion ho hi =
     (if kv_release (hi_kernel_version hi) = [] then
        (case FromHost ho of Inl e \<Rightarrow> Inl e | Inr kv \<Rightarrow> Inr (kv, hi\<lparr>hi_kernel_version := kv\<rparr>))
      else Inr (hi_kernel_version hi, hi))"

text \<open>Quotation marks are removed; in an empty string the last character is outside of it.\<close>

definition dquote :: char where "dquote = CHR 0x22"

definition strip_quotes :: "string \<Rightarrow> host_failure + string" where
  "strip_quotes v =
     (let v1 = (if v \<noteq> [] \<and> hd v = dquote then tl v else v)
      in if v1 = [] then Inl Undefined_access
         else if last v1 = dquote then Inr (butlast v1) else Inr v1)"

fun filterForKey :: "string list \<Rightarrow> string \<Rightarrow> host_failure + string" where
  "filterForKey [] name = Inr []"
| "filterForKey (line # ls) name =
     (if CHR ''='' \<notin> set line then filterForKey ls name
      else if takeWhile (\<lambda>c. c \<noteq> CHR ''='') line = name then strip_quotes (tl (dropWhile (\<lambda>c. c \<noteq> CHR ''='') line))
      else filterForKey ls name)"

definition GetOSReleaseValue :: "host \<Rightarrow> string \<Rightarrow> host_failure + string" where
  "GetOSReleaseValue ho name =
     (case ho_file ho ''/etc/os-release'' of
        Some ls \<Rightarrow> filterForKey ls name
      | None \<Rightarrow> (case ho_file ho ''/usr/lib/os-release'' of Some ls \<Rightarrow> filterForKey ls name | None \<Rightarrow> Inr []))"

definition GetDistro :: "host \<Rightarrow> HostInfo \<Rightarrow> host_failure + string \<times> HostInfo" where
  "GetDistro ho hi =
     (if hi_distro hi = [] then
        (case GetOSReleaseValue ho ''PRETTY_NAME'' of
           Inl e \<Rightarrow> Inl e
         | Inr d \<Rightarrow> (let d' = (if d = [] then ''Linux'' else d) in Inr (d', hi\<lparr>hi_distro := d'\<rparr>)))
      else Inr (hi_distro hi, hi))"

definition GetBuildID :: "host \<Rightarrow> HostInfo \<Rightarrow> host_failure + string \<times> HostInfo" where
  "GetBuildID ho hi =
     (if hi_build_id hi = [] then
        (case GetOSReleaseValue ho ''BUILD_ID'' of Inl e \<Rightarrow> Inl e | Inr d \<Rightarrow> Inr (d, hi\<lparr>hi_build_id := d\<rparr>))
      else Inr (hi_build_id hi, hi))"

definition GetOSID :: "host \<Rightarrow> HostInfo \<Rightarrow> host_failure + string \<times> HostInfo" where
  "GetOSID ho hi =
     (if hi_os_id hi = [] then
        (case GetOSReleaseValue ho ''ID'' of Inl e \<Rightarrow> Inl e | Inr d \<Rightarrow> Inr (d, hi\<lparr>hi_os_id := d\<rparr>))
      else Inr (hi_os_id hi, hi))"

definition GetHostnameFromFile :: "host \<Rightarrow> string \<Rightarrow> string" where
  "GetHostnameFromFile ho path = (case ho_file ho path of Some (l # ls) \<Rightarrow> l | _ \<Rightarrow> [])"

definition GetHostnameInner :: "host \<Rightarrow> HostInfo \<Rightarrow> host_failure + string \<times> HostInfo" where
  "GetHostnameInner ho hi =
     (if hi_hostname hi \<noteq> [] then Inr (hi_hostname hi, hi)
      else case ho_getenv ho ''NODE_HOSTNAME'' of
             Some (c # cs) \<Rightarrow> Inr (c # cs, hi\<lparr>hi_hostname := c # cs\<rparr>)
           | _ \<Rightarrow>
               (let h1 = GetHostnameFromFile ho ''/etc/hostname'';
                    h2 = (if h1 \<noteq> [] then h1 else GetHostnameFromFile ho ''/proc/sys/kernel/hostname'')
                in if h2 = [] then Inl (Fatal ''Unable to determine the hostname.'')
                   else Inr (h2, hi\<lparr>hi_hostname := h2\<rparr>)))"

definition substring :: "string \<Rightarrow> string \<Rightarrow> bool" where
  "substring p s \<longleftrightarrow> (\<exists>i \<in> {0..length s}. take (length p) (drop i s) = p)"

definition isRHEL76 :: "KernelVersion \<Rightarrow> string \<Rightarrow> bool" where
  "isRHEL76 kv os_id \<longleftrightarrow>
     (if os_id = ''rhel'' \<or> os_id = ''centos'' then
        (if substring ''.el7.'' (kv_release kv) then
           (if kv_kernel kv = 3 \<and> kv_major kv = 10 then kv_build_id kv \<ge> 957 else False)
         else False)
      else False)"

definition hasEBPFSupport :: "KernelVersion \<Rightarrow> string \<Rightarrow> bool" where
  "hasEBPFSupport kv os_id \<longleftrightarrow> (if isRHEL76 kv os_id then True else KernelVersion_HasEBPFSupport kv)"

definition HasEBPFSupport :: "host \<Rightarrow> HostInfo \<Rightarrow> host_failure + bool \<times> HostInfo" where
  "HasEBPFSupport ho hi =
     (case GetKernelVersion ho hi of
        Inl e \<Rightarrow> Inl e
      | Inr (kv, hi1) \<Rightarrow>
          (case GetOSID ho hi1 of Inl e \<Rightarrow> Inl e | Inr (os_id, hi2) \<Rightarrow> Inr (hasEBPFSupport kv os_id, hi2)))"

definition IsDockerDesktop :: "host \<Rightarrow> HostInfo \<Rightarrow> host_failure + bool \<times> HostInfo" where
  "IsDockerDesktop ho hi =
     (case GetDistro ho hi of Inl e \<Rightarrow> Inl e | Inr (d, hi1) \<Rightarrow> Inr (d = ''Docker Desktop'', hi1))"

definition btf_locations :: "string \<Rightarrow> (string \<times> bool) list" where
  "btf_locations r =
     [(''/sys/kernel/btf/vmlinux'', False), (''/boot/vmlinux-'' @ r, False),
      (''/lib/modules/'' @ r @ ''/vmlinux-'' @ r, False), (''/lib/modules/'' @ r @ ''/build/vmlinux'', False),
      (''/usr/lib/modules/'' @ r @ ''/kernel/vmlinux'', True), (''/usr/lib/debug/boot/vmlinux-'' @ r, True),
      (''/usr/lib/debug/boot/vmlinux-'' @ r @ ''.debug'', True), (''/usr/lib/debug/lib/modules/'' @ r @ ''/vmlinux'', True)]"

definition HasBTFSymbols :: "host \<Rightarrow> HostInfo \<Rightarrow> bool" where
  "HasBTFSymbols ho hi =
     list_ex (\<lambda>(path, mounted). ho_readable ho (if mounted then ho_host_path ho (take 4095 path) else take 4095 path))
       (btf_locations (kv_release (hi_kernel_version hi)))"

definition HasBPFRingBufferSupport :: "host \<Rightarrow> bool" where
  "HasBPFRingBufferSupport ho \<longleftrightarrow> ho_ringbuf_probe ho \<noteq> 0"

definition HasBPFTracingSupport :: "host \<Rightarrow> bool" where
  "HasBPFTracingSupport ho \<longleftrightarrow> ho_tracing_probe ho \<noteq> 0"

definition NumPossibleCPU :: "host \<Rightarrow> int" where
  "NumPossibleCPU ho = (if ho_num_possible_cpus ho < 0 then 0 else ho_num_possible_cpus ho)"

section \<open>Secure boot\<close>

text \<open>When a file is too short the byte keeps its indeterminate value \<open>junk\<close>.\<close>

definition GetSecureBootFromVars :: "host \<Rightarrow> u8 \<Rightarrow> SecureBootStatus" where
  "GetSecureBootFromVars ho junk =
     (case ho_efivars ho of
        None \<Rightarrow> SB_NOT_DETERMINED
      | Some names \<Rightarrow>
          (case find (\<lambda>n. take 11 n = ''SecureBoot-'') names of
             None \<Rightarrow> SB_NOT_DETERMINED
           | Some n \<Rightarrow>
               (case ho_bytes ho (''/sys/firmware/efi/efivars/'' @ n) of
                  None \<Rightarrow> SB_NOT_DETERMINED
                | Some bs \<Rightarrow>
                    (let status = (if length bs > 4 then bs ! 4 else junk)
                     in if status \<noteq> 0 \<and> status \<noteq> 1 then SB_NOT_DETERMINED else SecureBootStatus_of status))))"

definition GetSecureBootFromParams :: "host \<Rightarrow> u8 \<Rightarrow> SecureBootStatus" where
  "GetSecureBootFromParams ho junk =
     (case ho_bytes ho ''/sys/kernel/boot_params/data'' of
        None \<Rightarrow> SB_NOT_DETERMINED
      | Some bs \<Rightarrow>
          (let status = (if length bs > 0x1EC then bs ! 0x1EC else junk)
           in if status < 1 \<or> status > 3 then SB_NOT_DETERMINED else SecureBootStatus_of status))"

definition GetSecureBootStatus :: "host \<Rightarrow> u8 \<Rightarrow> HostInfo \<Rightarrow> host_failure + SecureBootStatus \<times> HostInfo" where
  "GetSecureBootStatus ho junk hi =
     (case GetKernelVersion ho hi of
        Inl e \<Rightarrow> Inl e
      | Inr (kv, hi1) \<Rightarrow>
          if hi_secure_boot_status hi1 \<noteq> SB_UNSET then Inr (hi_secure_boot_status hi1, hi1)
          else
            (let status = (if HasSecureBootParam kv then GetSecureBootFromParams ho junk else GetSecureBootFromVars ho junk)
             in Inr (status, hi1\<lparr>hi_secure_boot_status := status\<rparr>)))"

section \<open>The heuristics\<close>

datatype CollectionMethod = EBPF | CORE_BPF

record HostConfig =
  hc_collection_method :: "CollectionMethod option"
  hc_num_possible_cpus :: int

text \<open>\<open>uninit\<close> is the indeterminate number of processors of a new \<^verbatim>\<open>HostConfig\<close>.\<close>

definition mk_HostConfig :: "int \<Rightarrow> HostConfig" where
  "mk_HostConfig uninit = \<lparr>hc_collection_method = None, hc_num_possible_cpus = uninit\<rparr>"

type_synonym heuristic = "host \<Rightarrow> CollectionMethod \<Rightarrow> HostInfo \<Rightarrow> HostConfig \<Rightarrow> host_failure + HostInfo \<times> HostConfig"

definition CollectionHeuristic :: heuristic where
  "CollectionHeuristic ho method hi hc =
     (case HasEBPFSupport ho hi of
        Inl e \<Rightarrow> Inl e
      | Inr (ebpf, hi1) \<Rightarrow>
          if \<not> ebpf then Inl (Fatal ''does not support eBPF, which is a requirement for Collector.'')
          else case GetKernelVersion ho hi1 of
                 Inl e \<Rightarrow> Inl e
               | Inr (kv, hi2) \<Rightarrow>
                   if method = CORE_BPF then
                     (if \<not> HasBTFSymbols ho hi2 then Inl (Fatal ''Missing BTF symbols, core_bpf is not available. '')
                      else if \<not> HasBPFRingBufferSupport ho then Inl (Fatal ''Missing RingBuffer support, core_bpf is not available. '')
                      else if \<not> HasBPFTracingSupport ho then Inl (Fatal ''Missing BPF tracepoint support.'')
                      else Inr (hi2, hc))
                   else Inr (hi2, hc))"

definition DockerDesktopHeuristic :: heuristic where
  "DockerDesktopHeuristic ho method hi hc =
     (case IsDockerDesktop ho hi of
        Inl e \<Rightarrow> Inl e
      | Inr (docker, hi1) \<Rightarrow> if docker then Inl (Fatal '' does not support eBPF.'') else Inr (hi1, hc))"

definition PowerHeuristic :: heuristic where
  "PowerHeuristic ho method hi hc =
     (case GetKernelVersion ho hi of
        Inl e \<Rightarrow> Inl e
      | Inr (kv, hi1) \<Rightarrow>
          if kv_machine kv \<noteq> ''ppc64le'' then Inr (hi1, hc)
          else if kv_kernel kv = 4 \<and> kv_major kv = 18 \<and> kv_build_id kv < 477
          then Inl (Fatal ''RHEL 8.6 (kernel < 4.18.0-477) on ppc64le does not support CORE_BPF'')
          else Inr (hi1, hc))"

definition CPUHeuristic :: heuristic where
  "CPUHeuristic ho method hi hc = Inr (hi, hc\<lparr>hc_num_possible_cpus := NumPossibleCPU ho\<rparr>)"

definition g_host_heuristics :: "heuristic list" where
  "g_host_heuristics = [CollectionHeuristic, DockerDesktopHeuristic, PowerHeuristic, CPUHeuristic]"

fun run_heuristics :: "heuristic list \<Rightarrow> host \<Rightarrow> CollectionMethod \<Rightarrow> HostInfo \<Rightarrow> HostConfig \<Rightarrow> host_failure + HostInfo \<times> HostConfig" where
  "run_heuristics [] ho method hi hc = Inr (hi, hc)"
| "run_heuristics (h # hs) ho method hi hc =
     (case h ho method hi hc of Inl e \<Rightarrow> Inl e | Inr (hi', hc') \<Rightarrow> run_heuristics hs ho method hi' hc')"

definition ProcessHostHeuristics :: "host \<Rightarrow> CollectionMethod \<Rightarrow> int \<Rightarrow> HostInfo \<Rightarrow> host_failure + HostInfo \<times> HostConfig" where
  "ProcessHostHeuristics ho method uninit hi = run_heuristics g_host_heuristics ho method hi (mk_HostConfig uninit)"

section \<open>Reading versions\<close>

lemmas span_print = span_digits [OF conjunct1 [OF conjunct2 [OF print_nat_digits]]]

lemma digits_dot_print: "digits_dot (print_nat n @ CHR ''.'' # rest) = Some (print_nat n, rest)"
proof -
  have "\<not> isdigit (CHR ''.'')" by (simp add: isdigit_def less_eq_char_def)
  then show ?thesis using print_nat_digits [of n] span_print [of "CHR ''.'' # rest" n] by (simp add: digits_dot_def)
qed

lemma stoi_print: "n < 2147483648 \<Longrightarrow> stoi (print_nat n) = Inr (int n)"
  using print_nat_digits [of n] by (simp add: stoi_def)

text \<open>A release as distributions write it: three numbers, a hyphen, the number of the build and anything after it.\<close>

definition release_string :: "nat \<Rightarrow> nat \<Rightarrow> nat \<Rightarrow> nat \<Rightarrow> string \<Rightarrow> string" where
  "release_string k m n b rest =
     print_nat k @ ''.'' @ print_nat m @ ''.'' @ print_nat n @ ''-'' @ print_nat b @ rest"

lemma digits_no_newline: "list_all isdigit ds \<Longrightarrow> CHR 0x0A \<notin> set ds \<and> CHR 0x0D \<notin> set ds"
  by (auto simp: list_all_iff isdigit_def less_eq_char_def)

lemma release_match_string:
  assumes "rest = [] \<or> \<not> isdigit (hd rest)" "CHR 0x0A \<notin> set rest" "CHR 0x0D \<notin> set rest"
  shows "release_match (release_string k m n b rest) = Some (print_nat k, print_nat m, print_nat n, print_nat b)"
proof -
  have hyphen: "\<not> isdigit (CHR ''-'')" by (simp add: isdigit_def less_eq_char_def)
  let ?tail = "CHR ''-'' # print_nat b @ rest"
  have "takeWhile isdigit (print_nat n @ ?tail) = print_nat n" "dropWhile isdigit (print_nat n @ ?tail) = ?tail"
    using span_print [of ?tail n] hyphen by simp_all
  moreover have "takeWhile isdigit (print_nat b @ rest) = print_nat b" using span_print [OF assms(1), of b] by simp
  ultimately show ?thesis
    using assms(2,3) print_nat_digits [of n] digits_no_newline [of "print_nat b"] print_nat_digits [of b]
    by (simp add: release_match_def release_string_def digits_dot_print Let_def)
qed

lemma mk_KernelVersion_string:
  assumes "k < 2147483648" "m < 2147483648" "n < 2147483648" "b < 2147483648"
    "rest = [] \<or> \<not> isdigit (hd rest)" "CHR 0x0A \<notin> set rest" "CHR 0x0D \<notin> set rest"
  shows "mk_KernelVersion (release_string k m n b rest) version machine =
    Inr \<lparr>kv_kernel = int k, kv_major = int m, kv_minor = int n, kv_build_id = int b,
         kv_release = release_string k m n b rest, kv_version = version, kv_machine = machine\<rparr>"
proof -
  have "print_nat b \<noteq> []" using print_nat_digits by blast
  then show ?thesis
    using assms(1-4)
    by (simp add: mk_KernelVersion_def release_match_string [OF assms(5-7)] stoi_print KernelVersion_default_def Let_def)
qed

text \<open>
  The version of the kernel is read as it is written: from a release string with three numbers and the number of
  the build the four numbers come back, the short release is the part before the hyphen, and support
  for eBPF is decided by the order of versions, from 4.14 on.
\<close>

theorem kernel_version_roundtrip:
  assumes "k < 2147483648" "m < 2147483648" "n < 2147483648" "b < 2147483648"
    "rest = [] \<or> \<not> isdigit (hd rest)" "CHR 0x0A \<notin> set rest" "CHR 0x0D \<notin> set rest"
  shows "\<exists>kv. mk_KernelVersion (release_string k m n b rest) version machine = Inr kv \<and>
    kv_kernel kv = int k \<and> kv_major kv = int m \<and> kv_minor kv = int n \<and> kv_build_id kv = int b \<and>
    ShortRelease kv = print_nat k @ ''.'' @ print_nat m @ ''.'' @ print_nat n \<and>
    (KernelVersion_HasEBPFSupport kv \<longleftrightarrow> k > 4 \<or> k = 4 \<and> m \<ge> 14)"
proof -
  let ?kv = "\<lparr>kv_kernel = int k, kv_major = int m, kv_minor = int n, kv_build_id = int b,
    kv_release = release_string k m n b rest, kv_version = version, kv_machine = machine\<rparr>"
  have "mk_KernelVersion (release_string k m n b rest) version machine = Inr ?kv" using mk_KernelVersion_string assms by blast
  moreover have "ShortRelease ?kv = print_nat k @ ''.'' @ print_nat m @ ''.'' @ print_nat n"
    by (simp add: ShortRelease_def print_int_def)
  moreover have "KernelVersion_HasEBPFSupport ?kv \<longleftrightarrow> k > 4 \<or> k = 4 \<and> m \<ge> 14"
    by (auto simp: KernelVersion_HasEBPFSupport_def)
  ultimately show ?thesis by (intro exI [of _ ?kv]) simp
qed

theorem kernel_version_roundtrip_witness:
  "\<exists>kv. mk_KernelVersion (release_string 5 14 0 503 ''.el9.x86_64'') [] ''x86_64'' = Inr kv \<and> KernelVersion_HasEBPFSupport kv"
  using kernel_version_roundtrip [of 5 14 0 503 "''.el9.x86_64''" "[]" "''x86_64''"]
  by (auto simp: isdigit_def less_eq_char_def)

section \<open>Transparent caches\<close>

definition distro_of :: "host \<Rightarrow> host_failure + string" where
  "distro_of ho = (case GetOSReleaseValue ho ''PRETTY_NAME'' of Inl e \<Rightarrow> Inl e | Inr d \<Rightarrow> Inr (if d = [] then ''Linux'' else d))"

text \<open>What is cached is what asking the host again would give.\<close>

definition cache_ok :: "host \<Rightarrow> HostInfo \<Rightarrow> bool" where
  "cache_ok ho hi \<longleftrightarrow>
     (kv_release (hi_kernel_version hi) = [] \<or> FromHost ho = Inr (hi_kernel_version hi)) \<and>
     (hi_os_id hi = [] \<or> GetOSReleaseValue ho ''ID'' = Inr (hi_os_id hi)) \<and>
     (hi_distro hi = [] \<or> distro_of ho = Inr (hi_distro hi))"

lemma GetKernelVersion_cached:
  assumes "cache_ok ho hi"
  shows "GetKernelVersion ho hi = (case FromHost ho of Inl e \<Rightarrow> Inl e | Inr kv \<Rightarrow> Inr (kv, hi\<lparr>hi_kernel_version := kv\<rparr>))"
    "FromHost ho = Inr kv \<Longrightarrow> cache_ok ho (hi\<lparr>hi_kernel_version := kv\<rparr>)"
  using assms by (auto simp: GetKernelVersion_def cache_ok_def split: sum.split)

lemma GetOSID_cached:
  assumes "cache_ok ho hi"
  shows "GetOSID ho hi = (case GetOSReleaseValue ho ''ID'' of Inl e \<Rightarrow> Inl e | Inr d \<Rightarrow> Inr (d, hi\<lparr>hi_os_id := d\<rparr>))"
    "GetOSReleaseValue ho ''ID'' = Inr d \<Longrightarrow> cache_ok ho (hi\<lparr>hi_os_id := d\<rparr>)"
  using assms by (auto simp: GetOSID_def cache_ok_def split: sum.split)

lemma GetDistro_cached:
  assumes "cache_ok ho hi"
  shows "GetDistro ho hi = (case distro_of ho of Inl e \<Rightarrow> Inl e | Inr d \<Rightarrow> Inr (d, hi\<lparr>hi_distro := d\<rparr>))"
    "distro_of ho = Inr d \<Longrightarrow> cache_ok ho (hi\<lparr>hi_distro := d\<rparr>)"
proof -
  show "GetDistro ho hi = (case distro_of ho of Inl e \<Rightarrow> Inl e | Inr d \<Rightarrow> Inr (d, hi\<lparr>hi_distro := d\<rparr>))"
  proof (cases "hi_distro hi = []")
    case True
    then show ?thesis by (auto simp: GetDistro_def distro_of_def Let_def split: sum.split)
  next
    case False
    then show ?thesis using assms by (simp add: GetDistro_def cache_ok_def)
  qed
qed (use assms in \<open>simp add: cache_ok_def\<close>)

section \<open>When the collector can run\<close>

definition host_supported :: "host \<Rightarrow> CollectionMethod \<Rightarrow> KernelVersion \<Rightarrow> string \<Rightarrow> string \<Rightarrow> bool" where
  "host_supported ho method kv os_id distro \<longleftrightarrow>
     (isRHEL76 kv os_id \<or> kv_kernel kv > 4 \<or> kv_kernel kv = 4 \<and> kv_major kv \<ge> 14) \<and>
     (method = CORE_BPF \<longrightarrow>
        list_ex (\<lambda>(path, mounted). ho_readable ho (if mounted then ho_host_path ho (take 4095 path) else take 4095 path))
          (btf_locations (kv_release kv)) \<and>
        HasBPFRingBufferSupport ho \<and> HasBPFTracingSupport ho) \<and>
     distro \<noteq> ''Docker Desktop'' \<and>
     \<not> (kv_machine kv = ''ppc64le'' \<and> kv_kernel kv = 4 \<and> kv_major kv = 18 \<and> kv_build_id kv < 477)"

lemma heuristic_steps:
  fixes cm :: CollectionMethod
  assumes "cache_ok ho hi" "FromHost ho = Inr kv" "GetOSReleaseValue ho ''ID'' = Inr os_id" "distro_of ho = Inr distro"
  defines "hi2 \<equiv> hi\<lparr>hi_kernel_version := kv\<rparr>\<lparr>hi_os_id := os_id\<rparr>" and "hi3 \<equiv> hi\<lparr>hi_kernel_version := kv\<rparr>\<lparr>hi_os_id := os_id\<rparr>\<lparr>hi_distro := distro\<rparr>"
    and "btf \<equiv> hasEBPFSupport kv os_id \<and>
      (cm = CORE_BPF \<longrightarrow> HasBTFSymbols ho (hi\<lparr>hi_kernel_version := kv\<rparr>\<lparr>hi_os_id := os_id\<rparr>) \<and> HasBPFRingBufferSupport ho \<and> HasBPFTracingSupport ho)"
  shows "cache_ok ho hi3"
    and "btf \<Longrightarrow> CollectionHeuristic ho cm hi hc = Inr (hi2, hc)"
    and "\<not> btf \<Longrightarrow> \<exists>e. CollectionHeuristic ho cm hi hc = Inl e"
    and "DockerDesktopHeuristic ho cm hi2 hc =
      (if distro = ''Docker Desktop'' then Inl (Fatal '' does not support eBPF.'') else Inr (hi3, hc))"
    and "GetKernelVersion ho hi3 = Inr (kv, hi3)"
proof -
  have c1: "cache_ok ho (hi\<lparr>hi_kernel_version := kv\<rparr>)" using GetKernelVersion_cached(2) [OF assms(1,2)] .
  then have c2: "cache_ok ho hi2" unfolding hi2_def using GetOSID_cached(2) assms(3) by blast
  then show c3: "cache_ok ho hi3" unfolding hi2_def hi3_def using GetDistro_cached(2) assms(4) by blast
  have ebpf: "HasEBPFSupport ho hi = Inr (hasEBPFSupport kv os_id, hi2)"
    using GetKernelVersion_cached(1) [OF assms(1)] GetOSID_cached(1) [OF c1] assms(2,3) by (simp add: HasEBPFSupport_def hi2_def)
  have kernel: "GetKernelVersion ho hi2 = Inr (kv, hi2)"
    using GetKernelVersion_cached(1) [OF c2] assms(2) by (simp add: hi2_def)
  show "GetKernelVersion ho hi3 = Inr (kv, hi3)"
    using GetKernelVersion_cached(1) [OF c3] assms(2) by (simp add: hi3_def)
  show "CollectionHeuristic ho cm hi hc = Inr (hi2, hc)" if btf
    using that by (simp add: CollectionHeuristic_def ebpf kernel btf_def flip: hi2_def)
  show "\<exists>e. CollectionHeuristic ho cm hi hc = Inl e" if "\<not> btf"
    using that by (auto simp: CollectionHeuristic_def ebpf kernel btf_def simp flip: hi2_def)
  show "DockerDesktopHeuristic ho cm hi2 hc =
      (if distro = ''Docker Desktop'' then Inl (Fatal '' does not support eBPF.'') else Inr (hi3, hc))"
    using GetDistro_cached(1) [OF c2] assms(4) by (simp add: DockerDesktopHeuristic_def IsDockerDesktop_def hi2_def hi3_def)
qed

lemma heuristics_run:
  assumes "cache_ok ho hi" "FromHost ho = Inr kv" "GetOSReleaseValue ho ''ID'' = Inr os_id" "distro_of ho = Inr distro"
  shows "(\<exists>hi' hc. ProcessHostHeuristics ho method uninit hi = Inr (hi', hc)) = host_supported ho method kv os_id distro \<and>
    (host_supported ho method kv os_id distro \<longrightarrow>
      (\<exists>hi'. cache_ok ho hi' \<and> ProcessHostHeuristics ho method uninit hi =
        Inr (hi', \<lparr>hc_collection_method = None, hc_num_possible_cpus = max 0 (ho_num_possible_cpus ho)\<rparr>)))"
proof -
  let ?hi2 = "hi\<lparr>hi_kernel_version := kv\<rparr>\<lparr>hi_os_id := os_id\<rparr>"
  let ?hi3 = "?hi2\<lparr>hi_distro := distro\<rparr>"
  let ?run = "ProcessHostHeuristics ho method uninit hi"
  let ?btf = "hasEBPFSupport kv os_id \<and>
    (method = CORE_BPF \<longrightarrow> HasBTFSymbols ho ?hi2 \<and> HasBPFRingBufferSupport ho \<and> HasBPFTracingSupport ho)"
  note steps = heuristic_steps [OF assms]
  note run = ProcessHostHeuristics_def g_host_heuristics_def
  have supports: "hasEBPFSupport kv os_id \<longleftrightarrow> isRHEL76 kv os_id \<or> kv_kernel kv > 4 \<or> kv_kernel kv = 4 \<and> kv_major kv \<ge> 14"
    by (auto simp: hasEBPFSupport_def KernelVersion_HasEBPFSupport_def)
  have spec: "host_supported ho method kv os_id distro \<longleftrightarrow> ?btf \<and> distro \<noteq> ''Docker Desktop'' \<and>
      \<not> (kv_machine kv = ''ppc64le'' \<and> kv_kernel kv = 4 \<and> kv_major kv = 18 \<and> kv_build_id kv < 477)"
    by (simp add: host_supported_def supports HasBTFSymbols_def)
  have yes: "?run = Inr (?hi3, \<lparr>hc_collection_method = None, hc_num_possible_cpus = max 0 (ho_num_possible_cpus ho)\<rparr>)"
    if "host_supported ho method kv os_id distro"
    using that unfolding spec
    by (simp add: run steps PowerHeuristic_def CPUHeuristic_def NumPossibleCPU_def) (auto simp: mk_HostConfig_def)
  have no: "\<exists>e. ?run = Inl e" if "\<not> host_supported ho method kv os_id distro"
  proof (cases ?btf)
    case True
    then show ?thesis using that unfolding spec by (auto simp: run steps PowerHeuristic_def)
  next
    case False
    then obtain e where "CollectionHeuristic ho method hi (mk_HostConfig uninit) = Inl e" using steps(3) by blast
    then show ?thesis by (simp add: run)
  qed
  show ?thesis using yes no steps(1) by (cases "host_supported ho method kv os_id distro") auto
qed

definition example_host :: host where
  "example_host =
     \<lparr>ho_getenv = (\<lambda>n. None), ho_uname = Some (release_string 5 14 0 503 ''.el9.x86_64'', ''#1 SMP'', ''x86_64''),
      ho_file = (\<lambda>p. if p = ''/etc/os-release'' then Some [''ID='' @ [dquote] @ ''rhel'' @ [dquote]] else None),
      ho_bytes = (\<lambda>p. None), ho_readable = (\<lambda>p. p = ''/sys/kernel/btf/vmlinux''), ho_host_path = (\<lambda>p. p),
      ho_efivars = None, ho_ringbuf_probe = 1, ho_tracing_probe = 1, ho_num_possible_cpus = 8\<rparr>"

lemma example_host_supported:
  defines "kv \<equiv> \<lparr>kv_kernel = int 5, kv_major = int 14, kv_minor = int 0, kv_build_id = int 503,
    kv_release = release_string 5 14 0 503 ''.el9.x86_64'', kv_version = ''#1 SMP'', kv_machine = ''x86_64''\<rparr>"
  shows "cache_ok example_host HostInfo_init" "FromHost example_host = Inr kv" "GetOSReleaseValue example_host ''ID'' = Inr ''rhel''"
    "distro_of example_host = Inr ''Linux''" "host_supported example_host CORE_BPF kv ''rhel'' ''Linux''"
proof -
  show "cache_ok example_host HostInfo_init" by (simp add: cache_ok_def HostInfo_init_def KernelVersion_default_def)
  show "FromHost example_host = Inr kv"
    unfolding FromHost_def kv_def by (simp add: example_host_def mk_KernelVersion_string isdigit_def less_eq_char_def del: of_nat_numeral)
  show "GetOSReleaseValue example_host ''ID'' = Inr ''rhel''"
    by (simp add: GetOSReleaseValue_def example_host_def strip_quotes_def dquote_def)
  show "distro_of example_host = Inr ''Linux''" by (simp add: distro_of_def GetOSReleaseValue_def example_host_def)
  show "host_supported example_host CORE_BPF kv ''rhel'' ''Linux''"
    by (simp add: kv_def host_supported_def example_host_def btf_locations_def HasBPFRingBufferSupport_def HasBPFTracingSupport_def)
qed

lemma example_host_passes:
  "\<exists>hi'. ProcessHostHeuristics example_host CORE_BPF 0 HostInfo_init = Inr (hi', \<lparr>hc_collection_method = None, hc_num_possible_cpus = 8\<rparr>)"
  using heuristics_run [OF example_host_supported(1-4), of CORE_BPF 0] example_host_supported(5) by (auto simp: example_host_def)

text \<open>
  The heuristics accept exactly the hosts the collector can run on, whatever has been cached before: the kernel
  supports eBPF by its version or is that of RHEL 7.6; for the CO-RE method there are BTF symbols, ring
  buffers and tracing; it is not Docker Desktop and not an old RHEL 8 kernel on Power. The resulting
  configuration carries the number of processors and no method.
\<close>

theorem heuristics_exact:
  assumes "cache_ok ho hi" "FromHost ho = Inr kv" "GetOSReleaseValue ho ''ID'' = Inr os_id" "distro_of ho = Inr distro"
  shows "(\<exists>hi' hc. ProcessHostHeuristics ho method uninit hi = Inr (hi', hc)) = host_supported ho method kv os_id distro \<and>
    (host_supported ho method kv os_id distro \<longrightarrow>
      (\<exists>hi'. cache_ok ho hi' \<and> ProcessHostHeuristics ho method uninit hi =
        Inr (hi', \<lparr>hc_collection_method = None, hc_num_possible_cpus = max 0 (ho_num_possible_cpus ho)\<rparr>)))"
  using heuristics_run [OF assms] .

theorem heuristics_exact_witness:
  "\<exists>hi'. ProcessHostHeuristics example_host CORE_BPF 0 HostInfo_init =
     Inr (hi', \<lparr>hc_collection_method = None, hc_num_possible_cpus = 8\<rparr>)"
  using heuristics_exact [OF example_host_supported(1-4), of CORE_BPF 0] example_host_supported(5) by (auto simp: example_host_def)

text \<open>
  Secure boot is misread from the EFI variable. The byte in it is 0 or 1, but the code takes it for
  the number of a status, where 1 means not determined and 0 means that nothing was detected; so on kernels before
  4.11 an enabled secure boot is never reported as enabled.
\<close>

theorem secure_boot_vars_misread:
  "GetSecureBootFromVars ho junk \<noteq> SB_ENABLED \<and> GetSecureBootFromVars ho junk \<noteq> SB_DISABLED \<and>
   GetSecureBootFromVars
     (ho\<lparr>ho_efivars := Some [''SecureBoot-8be4df61''], ho_bytes := \<lambda>p. Some [6, 0, 0, 0, 1]\<rparr>) junk = SB_NOT_DETERMINED"
  by (auto simp: GetSecureBootFromVars_def Let_def split: option.split)

text \<open>
  A value that is empty makes the reader of the file \<^verbatim>\<open>os-release\<close> look at the character before the start of the string;
  a value in quotation marks is returned without them.
\<close>

theorem filterForKey_values:
  assumes "CHR ''='' \<notin> set name"
  shows "filterForKey ((name @ ''='' @ []) # ls) name = Inl Undefined_access \<and>
    filterForKey ((name @ ''='' @ [dquote] @ v @ [dquote]) # ls) name = Inr v"
proof -
  have "takeWhile (\<lambda>c. c \<noteq> CHR ''='') (name @ CHR ''='' # v) = name \<and> dropWhile (\<lambda>c. c \<noteq> CHR ''='') (name @ CHR ''='' # v) = CHR ''='' # v" for v
    using assms by (induction name) auto
  then show ?thesis by (simp add: strip_quotes_def Let_def)
qed

section \<open>The distribution\<close>

definition os_id_test :: "(string \<Rightarrow> bool) \<Rightarrow> host \<Rightarrow> HostInfo \<Rightarrow> host_failure + bool \<times> HostInfo" where
  "os_id_test test ho hi = (case GetOSID ho hi of Inl e \<Rightarrow> Inl e | Inr (os_id, hi1) \<Rightarrow> Inr (test os_id, hi1))"

definition IsCOS :: "host \<Rightarrow> HostInfo \<Rightarrow> host_failure + bool \<times> HostInfo" where
  "IsCOS ho hi =
     (case os_id_test (\<lambda>i. i = ''cos'') ho hi of
        Inl e \<Rightarrow> Inl e
      | Inr (is_cos, hi1) \<Rightarrow>
          if \<not> is_cos then Inr (False, hi1)
          else case GetBuildID ho hi1 of Inl e \<Rightarrow> Inl e | Inr (build_id, hi2) \<Rightarrow> Inr (build_id \<noteq> [], hi2))"

definition IsCoreOS :: "host \<Rightarrow> HostInfo \<Rightarrow> host_failure + bool \<times> HostInfo" where
  "IsCoreOS = os_id_test (\<lambda>i. i = ''coreos'')"

definition IsUbuntu :: "host \<Rightarrow> HostInfo \<Rightarrow> host_failure + bool \<times> HostInfo" where
  "IsUbuntu = os_id_test (\<lambda>i. i = ''ubuntu'')"

definition IsGarden :: "host \<Rightarrow> HostInfo \<Rightarrow> host_failure + bool \<times> HostInfo" where
  "IsGarden ho hi =
     (case GetDistro ho hi of Inl e \<Rightarrow> Inl e | Inr (d, hi1) \<Rightarrow> Inr (take 12 d = ''Garden Linux'', hi1))"

definition IsMinikube :: "host \<Rightarrow> HostInfo \<Rightarrow> host_failure + bool \<times> HostInfo" where
  "IsMinikube ho hi =
     (case GetHostnameInner ho hi of Inl e \<Rightarrow> Inl e | Inr (h, hi1) \<Rightarrow> Inr (h = ''minikube'', hi1))"

definition IsRHEL76 :: "host \<Rightarrow> HostInfo \<Rightarrow> host_failure + bool \<times> HostInfo" where
  "IsRHEL76 ho hi =
     (case GetKernelVersion ho hi of
        Inl e \<Rightarrow> Inl e
      | Inr (kv, hi1) \<Rightarrow> os_id_test (isRHEL76 kv) ho hi1)"

definition IsRHEL86 :: "host \<Rightarrow> HostInfo \<Rightarrow> host_failure + bool \<times> HostInfo" where
  "IsRHEL86 ho hi =
     (case GetKernelVersion ho hi of
        Inl e \<Rightarrow> Inl e
      | Inr (kv, hi1) \<Rightarrow>
          os_id_test (\<lambda>i. if i = ''rhel'' \<or> i = ''rhcos'' then substring ''.el8_6.'' (kv_release kv) else False) ho hi1)"

text \<open>What \<open>stat\<close> says of the directory: \<open>None\<close> an error, otherwise whether it is a directory.\<close>

definition IsUEFI :: "bool option \<Rightarrow> bool" where
  "IsUEFI status = (case status of None \<Rightarrow> False | Some is_directory \<Rightarrow> if \<not> is_directory then False else True)"

text \<open>The regular expression of versions, tried at the start of a string and then from left to right.\<close>

definition version_match :: "string \<Rightarrow> string option" where
  "version_match s =
     (case s of
        [] \<Rightarrow> None
      | c # s0 \<Rightarrow>
          if c \<noteq> CHR ''v'' then None
          else case digits_dot s0 of
                 None \<Rightarrow> None
               | Some (k, s1) \<Rightarrow>
                   (case digits_dot s1 of
                      None \<Rightarrow> None
                    | Some (m, s2) \<Rightarrow>
                        (let n = takeWhile isdigit s2 in if n = [] then None else Some (''v'' @ k @ ''.'' @ m @ ''.'' @ n))))"

fun version_search :: "string \<Rightarrow> string option" where
  "version_search s =
     (case version_match s of
        Some v \<Rightarrow> Some v
      | None \<Rightarrow> (case s of [] \<Rightarrow> None | c # s' \<Rightarrow> version_search s'))"

definition GetMinikubeVersion :: "host \<Rightarrow> string" where
  "GetMinikubeVersion ho =
     (case ho_file ho ''/etc/VERSION'' of
        None \<Rightarrow> ''''
      | Some ls \<Rightarrow> (case version_search (case ls of [] \<Rightarrow> [] | l # _ \<Rightarrow> l) of None \<Rightarrow> '''' | Some v \<Rightarrow> v))"

declare version_search.simps [simp del]

definition is_number :: "string \<Rightarrow> bool" where
  "is_number ds \<longleftrightarrow> ds \<noteq> [] \<and> list_all isdigit ds"

lemma digits_dot_number:
  assumes "is_number ds"
  shows "digits_dot (ds @ CHR ''.'' # rest) = Some (ds, rest)"
proof -
  have "takeWhile isdigit (ds @ CHR ''.'' # rest) = ds" "dropWhile isdigit (ds @ CHR ''.'' # rest) = CHR ''.'' # rest"
    using assms by (auto simp: is_number_def list_all_iff takeWhile_append2 dropWhile_append2 isdigit_def)
  then show ?thesis using assms by (simp add: digits_dot_def is_number_def)
qed

lemma version_match_number:
  assumes "is_number k" "is_number m" "is_number n" and "post = [] \<or> \<not> isdigit (hd post)"
  shows "version_match (''v'' @ k @ ''.'' @ m @ ''.'' @ n @ post) = Some (''v'' @ k @ ''.'' @ m @ ''.'' @ n)"
proof -
  have "takeWhile isdigit (n @ post) = n" using assms(3,4)
    by (cases post) (auto simp: is_number_def list_all_iff takeWhile_append2)
  then show ?thesis using assms digits_dot_number [OF assms(1)] digits_dot_number [OF assms(2)]
    by (simp add: version_match_def is_number_def)
qed

lemma version_search_skips: "CHR ''v'' \<notin> set pre \<Longrightarrow> version_search (pre @ s) = version_search s"
proof (induction pre)
  case (Cons c pre)
  then have "version_match ((c # pre) @ s) = None" by (auto simp: version_match_def)
  then show ?case using Cons by (subst version_search.simps) simp
qed simp

text \<open>
  The version of Minikube is found in the first line of its file wherever it stands, with all the digits of its last number, if no
  other letter v comes before it.
\<close>

theorem minikube_version_found:
  assumes "ho_file ho ''/etc/VERSION'' = Some ((pre @ ''v'' @ k @ ''.'' @ m @ ''.'' @ n @ post) # ls)"
    and "CHR ''v'' \<notin> set pre" and "is_number k" "is_number m" "is_number n" and "post = [] \<or> \<not> isdigit (hd post)"
  shows "GetMinikubeVersion ho = ''v'' @ k @ ''.'' @ m @ ''.'' @ n"
  using assms(1) version_search_skips [OF assms(2)] version_match_number [OF assms(3-6)]
  by (simp add: GetMinikubeVersion_def) (subst version_search.simps, simp)

text \<open>
  A predicate on the distribution does not depend on what is cached: asking again, after any other question has filled the caches,
  gives the same answer and leaves the caches as they are.
\<close>

theorem os_id_test_stable:
  assumes "os_id_test test ho hi = Inr (b, hi')" and "hi_os_id hi' \<noteq> []"
  shows "os_id_test test ho hi' = Inr (b, hi')"
  using assms by (auto simp: os_id_test_def GetOSID_def split: sum.splits if_splits)

end
