(* ===== verification/Env_Settings.thy ===== *)
theory Env_Settings
  imports Std_Numbers Host_Info
begin

text \<open>
  Where settings come from: environment variables (\<^verbatim>\<open>EnvVar.h\<close>), the command line (\<^verbatim>\<open>CollectorArgs.cpp\<close> with
  the checks of \<^verbatim>\<open>GRPC.cpp\<close>, \<^verbatim>\<open>CollectionMethod.cpp\<close> and \<^verbatim>\<open>CollectorConfig::CheckConfiguration\<close>) and the level of logging
  (\<^verbatim>\<open>Logging.cpp\<close>, \<^verbatim>\<open>LogLevel.cpp\<close>). The environment is a function from names to values, and the JSON library
  a record of its functions. A failure is an exception that reaches the caller.
\<close>

section \<open>Environment variables\<close>

datatype cfg_failure =
    Uncaught std_exception
  | Bad_optional_access
  | Json_error string
  | Undefined_conversion
  | Host host_failure

type_synonym environment = "string \<Rightarrow> string option"

datatype 'a parsed = Parse_throws std_exception | Parse_fails | Parsed 'a

definition tryValue :: "(string \<Rightarrow> 'a parsed) \<Rightarrow> environment \<Rightarrow> string \<Rightarrow> 'a option \<Rightarrow> cfg_failure + 'a option" where
  "tryValue parse env env_var_name val =
     (case env env_var_name of
        None \<Rightarrow> Inr val
      | Some env_val \<Rightarrow>
          (case parse env_val of
             Parse_throws e \<Rightarrow> Inl (Uncaught e)
           | Parse_fails \<Rightarrow> Inr val
           | Parsed v \<Rightarrow> Inr (Some v)))"

definition hasValue :: "(string \<Rightarrow> 'a parsed) \<Rightarrow> environment \<Rightarrow> string \<Rightarrow> 'a option \<Rightarrow> cfg_failure + bool" where
  "hasValue parse env env_var_name val =
     (case tryValue parse env env_var_name val of Inl e \<Rightarrow> Inl e | Inr v \<Rightarrow> Inr (v \<noteq> None))"

definition env_value :: "(string \<Rightarrow> 'a parsed) \<Rightarrow> environment \<Rightarrow> string \<Rightarrow> 'a option \<Rightarrow> cfg_failure + 'a" where
  "env_value parse env env_var_name val =
     (case tryValue parse env env_var_name val of
        Inl e \<Rightarrow> Inl e
      | Inr None \<Rightarrow> Inl Bad_optional_access
      | Inr (Some v) \<Rightarrow> Inr v)"

definition valueOr :: "(string \<Rightarrow> 'a parsed) \<Rightarrow> environment \<Rightarrow> string \<Rightarrow> 'a option \<Rightarrow> 'a \<Rightarrow> cfg_failure + 'a" where
  "valueOr parse env env_var_name val alt =
     (case hasValue parse env env_var_name val of
        Inl e \<Rightarrow> Inl e
      | Inr has \<Rightarrow> if has then env_value parse env env_var_name val else Inr alt)"

definition ParseBool :: "string \<Rightarrow> bool parsed" where
  "ParseBool str_val = (if str_val = [] then Parse_fails else Parsed (map tolower str_val = ''true''))"

definition ParseStringList :: "string \<Rightarrow> string list parsed" where
  "ParseStringList str_val = Parsed (SplitStringView str_val (CHR '',''))"

definition ParseString :: "string \<Rightarrow> string parsed" where
  "ParseString str_val = Parsed str_val"

definition ParseInt :: "string \<Rightarrow> int parsed" where
  "ParseInt str_val = (case std_stoi str_val of Inl e \<Rightarrow> Parse_throws e | Inr v \<Rightarrow> Parsed v)"

definition ParsePath :: "string \<Rightarrow> string parsed" where
  "ParsePath str_val = Parsed str_val"

text \<open>\<open>stof\<close> is the reading of a \<^verbatim>\<open>float\<close>; a number that is not finite is \<open>None\<close>.\<close>

definition ParseFloat :: "(string \<Rightarrow> std_exception + rat option) \<Rightarrow> string \<Rightarrow> rat option parsed" where
  "ParseFloat stof str_val = (case stof str_val of Inl e \<Rightarrow> Parse_throws e | Inr v \<Rightarrow> Parsed v)"

text \<open>Only the parsers of numbers can throw; a variable with a default always has a value.\<close>

definition env_or :: "(string \<Rightarrow> 'a parsed) \<Rightarrow> environment \<Rightarrow> string \<Rightarrow> 'a \<Rightarrow> 'a" where
  "env_or parse env name def =
     (case env name of None \<Rightarrow> def | Some s \<Rightarrow> (case parse s of Parsed v \<Rightarrow> v | _ \<Rightarrow> def))"

definition env_opt :: "(string \<Rightarrow> 'a parsed) \<Rightarrow> environment \<Rightarrow> string \<Rightarrow> 'a option" where
  "env_opt parse env name =
     (case env name of None \<Rightarrow> None | Some s \<Rightarrow> (case parse s of Parsed v \<Rightarrow> Some v | _ \<Rightarrow> None))"

definition total_parser :: "(string \<Rightarrow> 'a parsed) \<Rightarrow> bool" where
  "total_parser parse \<longleftrightarrow> (\<forall>s e. parse s \<noteq> Parse_throws e)"

lemma total_parsers: "total_parser ParseBool" "total_parser ParseStringList" "total_parser ParseString" "total_parser ParsePath"
  by (simp_all add: total_parser_def ParseBool_def ParseStringList_def ParseString_def ParsePath_def)

lemma tryValue_total: "total_parser parse \<Longrightarrow> tryValue parse env name val = Inr (case env_opt parse env name of None \<Rightarrow> val | v \<Rightarrow> v)"
  by (auto simp: total_parser_def tryValue_def env_opt_def split: option.splits parsed.splits)

lemma env_value_total: "total_parser parse \<Longrightarrow> env_value parse env name (Some def) = Inr (env_or parse env name def)"
  by (auto simp: total_parser_def env_value_def tryValue_def env_or_def split: option.splits parsed.splits)

lemma valueOr_total: "total_parser parse \<Longrightarrow> valueOr parse env name None alt = Inr (env_or parse env name alt)"
  by (auto simp: total_parser_def valueOr_def hasValue_def env_value_def tryValue_def env_or_def split: option.splits parsed.splits)

section \<open>Levels of logging\<close>

datatype LogLevel = FATAL | CRITICAL | ERROR | WARNING | NOTICE | INFO | DEBUG | TRACE

fun LogLevel_u32 :: "LogLevel \<Rightarrow> nat" where
  "LogLevel_u32 FATAL = 1"
| "LogLevel_u32 CRITICAL = 2"
| "LogLevel_u32 ERROR = 3"
| "LogLevel_u32 WARNING = 4"
| "LogLevel_u32 NOTICE = 5"
| "LogLevel_u32 INFO = 6"
| "LogLevel_u32 DEBUG = 7"
| "LogLevel_u32 TRACE = 8"

definition all_levels :: "LogLevel list" where
  "all_levels = [TRACE, DEBUG, INFO, WARNING, ERROR, FATAL]"

fun GetLogLevelName :: "LogLevel \<Rightarrow> string" where
  "GetLogLevelName TRACE = ''TRACE''"
| "GetLogLevelName DEBUG = ''DEBUG''"
| "GetLogLevelName INFO = ''INFO''"
| "GetLogLevelName WARNING = ''WARNING''"
| "GetLogLevelName ERROR = ''ERROR''"
| "GetLogLevelName FATAL = ''FATAL''"
| "GetLogLevelName _ = ''UNKNOWN''"

fun GetLogLevelShortName :: "LogLevel \<Rightarrow> char" where
  "GetLogLevelShortName TRACE = CHR ''T''"
| "GetLogLevelShortName DEBUG = CHR ''D''"
| "GetLogLevelShortName INFO = CHR ''I''"
| "GetLogLevelShortName WARNING = CHR ''W''"
| "GetLogLevelShortName ERROR = CHR ''E''"
| "GetLogLevelShortName FATAL = CHR ''F''"
| "GetLogLevelShortName _ = CHR ''U''"

definition CheckLogLevel :: "LogLevel \<Rightarrow> LogLevel \<Rightarrow> bool" where
  "CheckLogLevel g_level level \<longleftrightarrow> LogLevel_u32 level \<le> LogLevel_u32 g_level"

definition GetNameToLevelMap :: "(string \<times> LogLevel) list" where
  "GetNameToLevelMap = map (\<lambda>level. (GetLogLevelName level, level)) all_levels"

definition ParseLogLevelName :: "string \<Rightarrow> LogLevel option" where
  "ParseLogLevelName name = map_of GetNameToLevelMap (map toupper name)"

text \<open>The severities of the inspector are those of the collector; relocation messages of libbpf become traces.\<close>

definition InspectorLogCallback :: "LogLevel \<Rightarrow> string \<Rightarrow> LogLevel \<Rightarrow> (LogLevel \<times> string) option" where
  "InspectorLogCallback g_level msg severity =
     (let collector_severity = (if severity = DEBUG \<and> matches_at msg ''libbpf:'' 0 then TRACE else severity)
      in if \<not> CheckLogLevel g_level collector_severity then None else Some (collector_severity, msg))"

text \<open>The answer to a request to change the level: its status, the level or the error, and the status line.\<close>

record log_response =
  lr_status :: string
  lr_level :: "string option"
  lr_error :: "string option"
  lr_http :: string

definition handlePost :: "string \<Rightarrow> LogLevel \<Rightarrow> log_response \<times> LogLevel" where
  "handlePost request g_level =
     (let ok = ''HTTP/1.1 200 OK''; bad = ''HTTP/1.1 400 Bad Request''
      in if request = []
         then (\<lparr>lr_status = ''Ok'', lr_level = Some (GetLogLevelName g_level), lr_error = None, lr_http = ok\<rparr>, g_level)
         else case ParseLogLevelName request of
                Some level \<Rightarrow> (\<lparr>lr_status = ''Ok'', lr_level = None, lr_error = None, lr_http = ok\<rparr>, level)
              | None \<Rightarrow>
                  (\<lparr>lr_status = ''Error'', lr_level = None,
                    lr_error = Some (''Invalid log level '' @ [CHR 0x27] @ request @ [CHR 0x27]), lr_http = bad\<rparr>, g_level))"

text \<open>
  A request sets the level exactly if it spells the name of one of the six named levels, in any mixture of upper
  and lower case; the following empty request then answers with that name. Every other request leaves the level.
\<close>

theorem log_level_requests:
  "(level \<in> set all_levels \<and> request \<noteq> [] \<and> map toupper request = GetLogLevelName level \<longrightarrow>
      handlePost request old = (\<lparr>lr_status = ''Ok'', lr_level = None, lr_error = None, lr_http = ''HTTP/1.1 200 OK''\<rparr>, level) \<and>
      lr_level (fst (handlePost [] (snd (handlePost request old)))) = Some (GetLogLevelName level)) \<and>
   (map toupper request \<notin> GetLogLevelName ` set all_levels \<longrightarrow> snd (handlePost request old) = old)"
proof -
  have "ParseLogLevelName request = Some level" if "level \<in> set all_levels" "map toupper request = GetLogLevelName level"
    using that by (auto simp: ParseLogLevelName_def GetNameToLevelMap_def all_levels_def)
  moreover have "ParseLogLevelName request = None" if "map toupper request \<notin> GetLogLevelName ` set all_levels"
    using that by (auto simp: ParseLogLevelName_def GetNameToLevelMap_def map_of_eq_None_iff image_image)
  ultimately show ?thesis by (auto simp: handlePost_def Let_def)
qed

theorem log_level_requests_witness:
  "snd (handlePost ''Debug'' INFO) = DEBUG \<and> snd (handlePost ''verbose'' INFO) = INFO"
proof -
  have "map toupper ''Debug'' = GetLogLevelName DEBUG" "DEBUG \<in> set all_levels" by code_simp+
  moreover have "map toupper ''verbose'' \<notin> GetLogLevelName ` set all_levels" by code_simp
  ultimately show ?thesis
    using log_level_requests [of DEBUG "''Debug''" INFO] log_level_requests [of DEBUG "''verbose''" INFO] by auto
qed

section \<open>Checks of values\<close>

definition CollectionMethodName :: "CollectionMethod \<Rightarrow> string" where
  "CollectionMethodName method = (case method of EBPF \<Rightarrow> ''ebpf'' | CORE_BPF \<Rightarrow> ''core_bpf'')"

definition ParseCollectionMethod :: "string \<Rightarrow> CollectionMethod" where
  "ParseCollectionMethod method =
     (let cm = map (\<lambda>c. if c = CHR ''-'' then CHR ''_'' else c) (map tolower method)
      in if cm = ''ebpf'' then EBPF
         else if cm = ''core_bpf'' then CORE_BPF
         else CORE_BPF)"

datatype ArgStatus = ARG_NONE | ARG_OK | ARG_IGNORE | ARG_ILLEGAL

definition missing_grpc :: string where
  "missing_grpc = ''Missing grpc list. Cannot configure GRPC client. Reverting to stdout.''"

definition CheckGrpcServer :: "string \<Rightarrow> ArgStatus \<times> string" where
  "CheckGrpcServer server =
     (if server = [] then (ARG_IGNORE, missing_grpc)
      else if length server > 255 then (ARG_ILLEGAL, ''GRPC Server addr too long (> 255)'')
      else case str_find_char server (CHR '':'') 0 of
             None \<Rightarrow> (ARG_ILLEGAL, ''Malformed grpc server addr'')
           | Some marker \<Rightarrow>
               (let host = take marker server; port = drop (marker + 1) server
                in if host = [] then (ARG_ILLEGAL, ''Missing grpc host'')
                   else if port = [] then (ARG_ILLEGAL, ''Missing grpc port'')
                   else (ARG_OK, [])))"

definition CheckGrpcServer_ptr :: "string option \<Rightarrow> ArgStatus \<times> string" where
  "CheckGrpcServer_ptr server = (case server of None \<Rightarrow> (ARG_IGNORE, missing_grpc) | Some s \<Rightarrow> CheckGrpcServer s)"

text \<open>
  The check of a server accepts exactly the strings of at most 255 characters of the form host, colon, port with both parts
  not empty and no colon in the host, and then it gives no message; every other string is rejected with one.
\<close>

theorem CheckGrpcServer_accepts:
  "(CheckGrpcServer s = (ARG_OK, []) \<longleftrightarrow>
      length s \<le> 255 \<and> (\<exists>host port. s = host @ '':'' @ port \<and> host \<noteq> [] \<and> port \<noteq> [] \<and> CHR '':'' \<notin> set host)) \<and>
   (fst (CheckGrpcServer s) = ARG_OK \<longleftrightarrow> snd (CheckGrpcServer s) = [])"
proof (cases "str_find_char s (CHR '':'') 0")
  case None
  then have "CHR '':'' \<notin> set s" by (simp add: str_find_char_def index_from_None)
  then have "\<nexists>host port. s = host @ '':'' @ port" by auto
  then show ?thesis using None by (simp add: CheckGrpcServer_def missing_grpc_def)
next
  case (Some n)
  note parts = str_find_char_Some [OF Some]
  have "host = take n s \<and> port = drop (n + 1) s" if "s = host @ '':'' @ port" "CHR '':'' \<notin> set host" for host port
  proof -
    have "n = length host" using Some str_find_char_append [OF that(2), of port] that(1) by simp
    then show ?thesis using that(1) by simp
  qed
  then have "(\<exists>host port. s = host @ '':'' @ port \<and> host \<noteq> [] \<and> port \<noteq> [] \<and> CHR '':'' \<notin> set host) \<longleftrightarrow>
      take n s \<noteq> [] \<and> drop (n + 1) s \<noteq> []"
    using parts(2,3) by (metis append_Cons append_Nil)
  then show ?thesis using Some parts(1) by (auto simp: CheckGrpcServer_def missing_grpc_def Let_def)
qed

lemma ParseCollectionMethod_name [simp]: "ParseCollectionMethod (CollectionMethodName m) = m"
proof (cases m)
  case EBPF
  have "ParseCollectionMethod (CollectionMethodName Host_Info.EBPF) = Host_Info.EBPF" by code_simp
  then show ?thesis using EBPF by simp
next
  case CORE_BPF
  have "ParseCollectionMethod (CollectionMethodName Host_Info.CORE_BPF) = Host_Info.CORE_BPF" by code_simp
  then show ?thesis using CORE_BPF by simp
qed

section \<open>The command line\<close>

text \<open>
  The functions of the JSON library: the null value, the parser with its formatted errors, the test for
  null or empty values, access to a member and the conversions, which throw.
\<close>

record 'j json_lib =
  js_null :: 'j
  js_parse :: "string \<Rightarrow> string + 'j"
  js_empty :: "'j \<Rightarrow> bool"
  js_member :: "'j \<Rightarrow> string \<Rightarrow> string + 'j"
  js_asString :: "'j \<Rightarrow> string + string"
  js_asInt :: "'j \<Rightarrow> string + int"
  js_asBool :: "'j \<Rightarrow> string + bool"

definition CheckConfiguration :: "'j json_lib \<Rightarrow> string option \<Rightarrow> 'j \<Rightarrow> (ArgStatus \<times> string) \<times> 'j" where
  "CheckConfiguration js config json_root =
     (case config of
        None \<Rightarrow> ((ARG_IGNORE, ''Missing collector config''), json_root)
      | Some s \<Rightarrow>
          (case js_parse js s of
             Inl err \<Rightarrow> ((ARG_ILLEGAL, ''A valid JSON configuration is required to start the collector: '' @ err), json_root)
           | Inr json_root' \<Rightarrow> ((ARG_OK, []), json_root')))"

record 'j CollectorArgs =
  ca_collectorConfig :: 'j
  ca_collectionMethod :: "CollectionMethod option"
  ca_message :: string
  ca_grpcServer :: string

definition mk_CollectorArgs :: "'j json_lib \<Rightarrow> 'j CollectorArgs" where
  "mk_CollectorArgs js = \<lparr>ca_collectorConfig = js_null js, ca_collectionMethod = None, ca_message = [], ca_grpcServer = []\<rparr>"

text \<open>The checks the option parser calls; the argument of an option may be missing, and \<open>msg\<close> asks for a message.\<close>

definition checkCollectionMethod :: "string option \<Rightarrow> bool \<Rightarrow> 'j CollectorArgs \<Rightarrow> ArgStatus \<times> 'j CollectorArgs" where
  "checkCollectionMethod arg msg ca =
     (case arg of
        None \<Rightarrow> (ARG_OK, if msg then ca\<lparr>ca_message := ''Missing collection method, using default.''\<rparr> else ca)
      | Some s \<Rightarrow> (ARG_OK, ca\<lparr>ca_collectionMethod := Some (ParseCollectionMethod s)\<rparr>))"

definition checkCollectorConfig :: "'j json_lib \<Rightarrow> string option \<Rightarrow> bool \<Rightarrow> 'j CollectorArgs \<Rightarrow> ArgStatus \<times> 'j CollectorArgs" where
  "checkCollectorConfig js arg msg ca =
     (let ((status, message), json_root) = CheckConfiguration js arg (js_null js);
          ca1 = (if msg then ca\<lparr>ca_message := message\<rparr> else ca)
      in (status, if status = ARG_OK then ca1\<lparr>ca_collectorConfig := json_root\<rparr> else ca1))"

definition checkGRPCServer :: "string option \<Rightarrow> bool \<Rightarrow> 'j CollectorArgs \<Rightarrow> ArgStatus \<times> 'j CollectorArgs" where
  "checkGRPCServer arg msg ca =
     (let (status, m) = CheckGrpcServer_ptr arg;
          ca1 = (if status = ARG_OK then ca\<lparr>ca_grpcServer := (case arg of Some s \<Rightarrow> s | None \<Rightarrow> [])\<rparr> else ca)
      in (status, if msg then ca1\<lparr>ca_message := m\<rparr> else ca1))"

text \<open>The option parser checks the options of a command line in order.\<close>

datatype cmd_option = Opt_config "string option" | Opt_method "string option" | Opt_grpc "string option"

fun check_option :: "'j json_lib \<Rightarrow> cmd_option \<Rightarrow> bool \<Rightarrow> 'j CollectorArgs \<Rightarrow> ArgStatus \<times> 'j CollectorArgs" where
  "check_option js (Opt_config arg) msg ca = checkCollectorConfig js arg msg ca"
| "check_option js (Opt_method arg) msg ca = checkCollectionMethod arg msg ca"
| "check_option js (Opt_grpc arg) msg ca = checkGRPCServer arg msg ca"

inductive args_reachable :: "'j json_lib \<Rightarrow> 'j CollectorArgs \<Rightarrow> bool" for js :: "'j json_lib" where
  args_init: "args_reachable js (mk_CollectorArgs js)"
| args_step: "args_reachable js ca \<Longrightarrow> args_reachable js (snd (check_option js opt msg ca))"

text \<open>A server in the arguments has passed its check, and a configuration is null or was parsed.\<close>

definition args_ok :: "'j json_lib \<Rightarrow> 'j CollectorArgs \<Rightarrow> bool" where
  "args_ok js ca \<longleftrightarrow>
     (ca_grpcServer ca \<noteq> [] \<longrightarrow> CheckGrpcServer (ca_grpcServer ca) = (ARG_OK, [])) \<and>
     (ca_collectorConfig ca = js_null js \<or> (\<exists>s. js_parse js s = Inr (ca_collectorConfig ca)))"

lemma CheckGrpcServer_no_message: "fst (CheckGrpcServer s) = ARG_OK \<Longrightarrow> CheckGrpcServer s = (ARG_OK, [])"
  by (auto simp: CheckGrpcServer_def Let_def split: if_splits option.splits)

lemma check_option_ok: "args_ok js ca \<Longrightarrow> args_ok js (snd (check_option js opt msg ca))"
proof (cases opt)
  case (Opt_config arg)
  assume "args_ok js ca"
  then show ?thesis using Opt_config
    by (cases arg) (auto simp: args_ok_def checkCollectorConfig_def CheckConfiguration_def Let_def split: sum.splits)
next
  case (Opt_method arg)
  assume "args_ok js ca"
  then show ?thesis using Opt_method by (cases arg) (auto simp: args_ok_def checkCollectionMethod_def)
next
  case (Opt_grpc arg)
  assume ok: "args_ok js ca"
  show ?thesis
  proof (cases "fst (CheckGrpcServer_ptr arg) = ARG_OK")
    case True
    then obtain s where "arg = Some s" "CheckGrpcServer s = (ARG_OK, [])"
      by (cases arg) (auto simp: CheckGrpcServer_ptr_def CheckGrpcServer_no_message)
    then show ?thesis using ok Opt_grpc by (simp add: args_ok_def checkGRPCServer_def CheckGrpcServer_ptr_def Let_def)
  next
    case False
    then show ?thesis using ok Opt_grpc
      by (cases "CheckGrpcServer_ptr arg") (simp add: args_ok_def checkGRPCServer_def Let_def)
  qed
qed

lemma args_reachable_ok: "args_reachable js ca \<Longrightarrow> args_ok js ca"
  by (induction rule: args_reachable.induct) (auto simp: check_option_ok, auto simp: args_ok_def mk_CollectorArgs_def)

end
