(* ===== verification/Net_Parse.thy ===== *)
theory Net_Parse
  imports Net_Connection Std_Numbers
begin

text \<open>
  Text forms of addresses, networks, endpoints and connections: the parsers and the output operators
  of \<^verbatim>\<open>NetworkConnection.cpp\<close> and \<^verbatim>\<open>NetworkConnection.h\<close>. Numeric addresses are read by \<^verbatim>\<open>getaddrinfo\<close> and
  written by \<^verbatim>\<open>inet_ntop\<close>; the two functions of the C library are parameters, collected in \<open>net_lib\<close>.
\<close>

section \<open>Parsing\<close>

datatype sa_family = AF_INET | AF_INET6 | AF_other nat

text \<open>The bytes of a socket address from its address field on, which may be followed by others.\<close>

record sockaddr_storage =
  ss_family :: sa_family
  ss_address :: bytes

text \<open>\<open>nl_getaddrinfo\<close> is the first result of a lookup with \<^verbatim>\<open>AI_NUMERICHOST\<close>, \<open>None\<close> an error or no address.\<close>

record net_lib =
  nl_getaddrinfo :: "string \<Rightarrow> sockaddr_storage option"
  nl_inet_ntop :: "sa_family \<Rightarrow> bytes \<Rightarrow> string option"

definition c_str :: "string \<Rightarrow> string" where
  "c_str s = takeWhile (\<lambda>c. c \<noteq> NUL) s"

definition parse_address :: "net_lib \<Rightarrow> string \<Rightarrow> sockaddr_storage option" where
  "parse_address nl address = nl_getaddrinfo nl address"

definition get_family :: "sockaddr_storage \<Rightarrow> Family" where
  "get_family sockaddr = (case ss_family sockaddr of AF_INET \<Rightarrow> IPV4 | AF_INET6 \<Rightarrow> IPV6 | AF_other _ \<Rightarrow> FUnknown)"

definition get_raw_address :: "sockaddr_storage \<Rightarrow> bytes option" where
  "get_raw_address sockaddr =
     (case ss_family sockaddr of
        AF_INET \<Rightarrow> Some (ss_address sockaddr)
      | AF_INET6 \<Rightarrow> Some (ss_address sockaddr)
      | AF_other _ \<Rightarrow> None)"

definition Address_parse :: "net_lib \<Rightarrow> string \<Rightarrow> Address option" where
  "Address_parse nl address_string =
     (case parse_address nl (c_str address_string) of
        None \<Rightarrow> None
      | Some sockaddr \<Rightarrow>
          (case get_raw_address sockaddr of
             None \<Rightarrow> None
           | Some raw_address \<Rightarrow> Some (Address_bytes (get_family sockaddr) raw_address)))"

text \<open>The length of the prefix is read as a signed number and stored in 32 bits.\<close>

definition IPNet_parse :: "net_lib \<Rightarrow> string \<Rightarrow> IPNet option" where
  "IPNet_parse nl ipnet_string =
     (let slash = str_find_char ipnet_string (CHR ''/'') 0;
          parsed = (case slash of
                      None \<Rightarrow> Some (0 :: u32, ipnet_string)
                    | Some i \<Rightarrow>
                        (case std_stol (drop (i + 1) ipnet_string) of
                           Inl _ \<Rightarrow> None
                         | Inr l \<Rightarrow> Some (of_int l, take i ipnet_string)))
      in case parsed of
           None \<Rightarrow> None
         | Some (prefix_length, address_string) \<Rightarrow>
             (case Address_parse nl address_string of
                None \<Rightarrow> None
              | Some address \<Rightarrow> Some (mk_IPNet address (unat prefix_length) (prefix_length \<noteq> 0))))"

section \<open>Printing\<close>

definition print_Address :: "net_lib \<Rightarrow> Address \<Rightarrow> string" where
  "print_Address nl addr =
     (let af = (if addr_family addr = IPV4 then AF_INET else AF_INET6)
      in case nl_inet_ntop nl af (addr_mem addr) of None \<Rightarrow> ''<invalid address>'' | Some s \<Rightarrow> s)"

definition print_IPNet :: "net_lib \<Rightarrow> IPNet \<Rightarrow> string" where
  "print_IPNet nl net = print_Address nl (ipn_address net) @ ''/'' @ print_nat (ipn_bits net)"

definition print_Endpoint :: "net_lib \<Rightarrow> Endpoint \<Rightarrow> string" where
  "print_Endpoint nl ep =
     (let net = ep_network ep
      in (if ipn_bits net = 8 * addr_length (ipn_address net)
          then (if ipn_family net = IPV6 then ''['' @ print_Address nl (ipn_address net) @ '']''
                else print_Address nl (ipn_address net))
          else (if ipn_family net = IPV6 then ''['' @ print_IPNet nl net @ '']''
                else print_IPNet nl net)) @
         '':'' @ print_nat (unat (ep_port ep)))"

text \<open>The number of an unknown protocol is a \<^verbatim>\<open>uint8_t\<close>, which the stream writes as a character.\<close>

definition print_L4Proto :: "L4Proto \<Rightarrow> string" where
  "print_L4Proto l4proto =
     (case l4proto of
        TCP \<Rightarrow> ''tcp''
      | UDP \<Rightarrow> ''udp''
      | ICMP \<Rightarrow> ''icmp''
      | L4Unknown \<Rightarrow> ''unknown('' @ [char_of (unat (L4Proto_u8 L4Unknown))] @ '')'')"

definition print_Connection :: "net_lib \<Rightarrow> Connection \<Rightarrow> string" where
  "print_Connection nl conn =
     conn_container conn @ '': '' @ print_Endpoint nl (conn_local conn) @
     (if conn_is_server conn then '' <- '' else '' -> '') @
     print_Endpoint nl (conn_remote conn) @ '' ['' @ print_L4Proto (conn_l4proto conn) @
     (if addr_family (ep_address (conn_local conn)) = IPV6 then ''6'' else '''') @ '']''"

section \<open>Round trip\<close>

lemma c_str_id: "NUL \<notin> set s \<Longrightarrow> c_str s = s"
  unfolding c_str_def by (rule takeWhile_eq_all_conv [THEN iffD2]) auto

text \<open>
  What the C library has to satisfy for one address: the text of its bytes contains no slash and no
  zero, and is read back to a socket address of the same family that starts with the same bytes.
\<close>

definition reads_back_address :: "net_lib \<Rightarrow> Address \<Rightarrow> bool" where
  "reads_back_address nl a \<longleftrightarrow>
     (let af = (if addr_family a = IPV4 then AF_INET else AF_INET6)
      in case nl_inet_ntop nl af (addr_mem a) of
           None \<Rightarrow> False
         | Some s \<Rightarrow> CHR ''/'' \<notin> set s \<and> NUL \<notin> set s \<and>
             (case nl_getaddrinfo nl s of
                None \<Rightarrow> False
              | Some sa \<Rightarrow> ss_family sa = af \<and> take (addr_length a) (ss_address sa) = take (addr_length a) (addr_mem a)))"

lemma Address_bytes_take: "Address_bytes f (take (Address_Length f) bs) = Address_bytes f bs"
  by (simp add: Address_bytes_def)

lemma Address_parse_print:
  assumes "wf_Address a" "addr_family a \<noteq> FUnknown" "reads_back_address nl a"
  shows "Address_parse nl (print_Address nl a) = Some a"
    and "CHR ''/'' \<notin> set (print_Address nl a)"
proof -
  let ?af = "if addr_family a = IPV4 then AF_INET else AF_INET6"
  obtain s sa where s: "nl_inet_ntop nl ?af (addr_mem a) = Some s" "CHR ''/'' \<notin> set s" "NUL \<notin> set s"
    and sa: "nl_getaddrinfo nl s = Some sa" "ss_family sa = ?af"
      "take (addr_length a) (ss_address sa) = take (addr_length a) (addr_mem a)"
    using assms(3) by (auto simp: reads_back_address_def Let_def split: option.splits)
  have p: "print_Address nl a = s" using s(1) by (simp add: print_Address_def)
  have "Address_bytes (addr_family a) (ss_address sa) = a"
    using Address_bytes_of_mem [OF assms(1)] Address_bytes_take [of "addr_family a" "ss_address sa"] sa(3)
    by (simp add: addr_length_def)
  then show "Address_parse nl (print_Address nl a) = Some a"
    using assms(2) s sa(1,2)
    by (cases "addr_family a") (auto simp: p Address_parse_def c_str_id parse_address_def get_raw_address_def get_family_def)
  show "CHR ''/'' \<notin> set (print_Address nl a)" using s(2) p by simp
qed

lemma std_stol_print: "n < 2 ^ 63 \<Longrightarrow> std_stol (print_nat n) = Inr (int n)"
  using std_read_print [of 64 "int n" "[]"] by (simp add: std_stol_def print_int_def order_trans [of _ 0])

text \<open>
  (C29) A printed network is parsed back to the same address and the same number of bits, provided the
  C library reads back what it writes; only the flag that tells addresses from networks is not preserved.
\<close>

theorem IPNet_parse_roundtrip:
  assumes "wf_Address a" "addr_family a \<noteq> FUnknown" "reads_back_address nl a" "bits \<le> 8 * addr_length a"
  shows "IPNet_parse nl (print_IPNet nl (mk_IPNet a bits is_addr)) = Some (mk_IPNet a bits (bits \<noteq> 0))"
proof -
  have b: "ipn_bits (mk_IPNet a bits is_addr) = bits" "ipn_address (mk_IPNet a bits is_addr) = a"
    using assms(4) by (simp_all add: mk_IPNet_def addr_length_def Let_def)
  have small: "bits \<le> 128" using assms(4) addr_length_le [of a] by linarith
  then have u: "unat (of_int (int bits) :: u32) = bits" by (simp add: unat_of_nat take_bit_nat_eq_self)
  then have z: "(of_int (int bits) :: u32) \<noteq> 0 \<longleftrightarrow> bits \<noteq> 0" by (simp only: unat_eq_0 [symmetric] u)
  have "std_stol (print_nat bits) = Inr (int bits)" using small by (intro std_stol_print) simp
  moreover have "print_IPNet nl (mk_IPNet a bits is_addr) = print_Address nl a @ CHR ''/'' # print_nat bits"
    by (simp only: print_IPNet_def b) simp
  ultimately show ?thesis
    using Address_parse_print [OF assms(1-3)] u z by (simp add: IPNet_parse_def str_find_char_append)
qed

definition example_lib4 :: net_lib where
  "example_lib4 =
     \<lparr>nl_getaddrinfo = (\<lambda>s. if s = ''10.0.0.0'' then Some \<lparr>ss_family = AF_INET, ss_address = [10, 0, 0, 0, 0, 0, 0, 0]\<rparr> else None),
      nl_inet_ntop = (\<lambda>af bs. if af = AF_INET \<and> take 4 bs = [10, 0, 0, 0] then Some ''10.0.0.0'' else None)\<rparr>"

theorem IPNet_parse_roundtrip_witness:
  "IPNet_parse example_lib4 (print_IPNet example_lib4 (mk_IPNet (Address_quad 10 0 0 0) 8 False)) =
     Some (mk_IPNet (Address_quad 10 0 0 0) 8 True)"
proof -
  have "wf_Address (Address_quad 10 0 0 0)" by code_simp
  moreover have "reads_back_address example_lib4 (Address_quad 10 0 0 0)" by code_simp
  ultimately show ?thesis using IPNet_parse_roundtrip [of "Address_quad 10 0 0 0" example_lib4 8 False] by simp
qed

lemma contains_loop_0: "contains_loop 0 as ms"
  by (cases "(0 :: nat, as, ms)" rule: contains_loop.cases) auto

text \<open>
  An address without a prefix is parsed as a network of no bits, which contains every address of
  its family, although the interface promises that an address can be parsed.
\<close>

theorem bare_address_contains_all:
  assumes "CHR ''/'' \<notin> set s" "Address_parse nl s = Some a"
  shows "\<exists>net. IPNet_parse nl s = Some net \<and> \<not> ipn_is_addr net \<and> (\<forall>b. Contains net b \<longleftrightarrow> addr_family b = addr_family a)"
proof -
  have "str_find_char s (CHR ''/'') 0 = None" using assms(1) by (simp add: str_find_char_def index_from_None)
  then have "IPNet_parse nl s = Some (mk_IPNet a 0 False)" using assms(2) by (simp add: IPNet_parse_def)
  moreover have "Contains (mk_IPNet a 0 False) b \<longleftrightarrow> addr_family b = addr_family a" for b
    by (auto simp: Contains_def mk_IPNet_def Let_def contains_loop_0)
  ultimately show ?thesis by (auto simp: mk_IPNet_def Let_def)
qed

theorem bare_address_contains_all_witness:
  "\<exists>net. IPNet_parse example_lib4 ''10.0.0.0'' = Some net \<and> Contains net (Address_quad 192 168 0 1)"
proof -
  have "Address_parse example_lib4 ''10.0.0.0'' = Some (Address_bytes IPV4 [10, 0, 0, 0, 0, 0, 0, 0])"
    by (simp add: Address_parse_def c_str_def parse_address_def example_lib4_def get_raw_address_def get_family_def)
  then show ?thesis using bare_address_contains_all [of "''10.0.0.0''" example_lib4] by fastforce
qed

end
