(* ===== verification/Collector_Config.thy ===== *)
theory Collector_Config
  imports Env_Settings Net_Parse External_IPs
begin

text \<open>
  The configuration of the collector: \<^verbatim>\<open>CollectorConfig.h\<close> and \<^verbatim>\<open>CollectorConfig.cpp\<close>. It merges the arguments of the
  command line, a JSON document, the environment and the defaults, and then runs the heuristics of the host.
  Parameters are the JSON library, the reading of floating-point numbers, the numeric addresses of the C library, the
  constants of the Falco library and the host. Messages to the log are left out.
\<close>

section \<open>The state\<close>

record TlsConfig =
  tls_ca :: string
  tls_clientCert :: string
  tls_clientKey :: string

definition TlsConfig_IsValid :: "TlsConfig \<Rightarrow> bool" where
  "TlsConfig_IsValid t \<longleftrightarrow> tls_ca t \<noteq> [] \<and> tls_clientCert t \<noteq> [] \<and> tls_clientKey t \<noteq> []"

definition kTurnOffScrape :: bool where "kTurnOffScrape = False"
definition kScrapeInterval :: int where "kScrapeInterval = 30"
definition kMaxConnectionsPerMinute :: int where "kMaxConnectionsPerMinute = 2048"
definition kCollectionMethod :: CollectionMethod where "kCollectionMethod = CORE_BPF"
definition kEnableProcessesListeningOnPorts :: bool where "kEnableProcessesListeningOnPorts = True"

text \<open>The system calls, without the one that is only compiled in for s390x.\<close>

definition kSyscalls :: "string list" where
  "kSyscalls =
     [''accept'', ''accept4'', ''chdir'', ''clone'', ''clone3'', ''close'', ''connect'', ''execve'', ''fchdir'', ''fork'',
      ''getsockopt'', ''procexit'', ''procinfo'', ''setresgid'', ''setresuid'', ''setgid'', ''setuid'', ''shutdown'', ''socket'',
      ''vfork'']"

definition kSendRecvSyscalls :: "string list" where
  "kSendRecvSyscalls = [''sendto'', ''sendmsg'', ''sendmmsg'', ''recvfrom'', ''recvmsg'', ''recvmmsg'']"

definition kIgnoredL4ProtoPortPairs :: "L4ProtoPortPair set" where
  "kIgnoredL4ProtoPortPairs = {(UDP, 9)}"

text \<open>A number of type \<^verbatim>\<open>double\<close> or \<^verbatim>\<open>float\<close> is \<open>None\<close> if it is not finite.\<close>

record CollectorConfig =
  cc_scrape_interval :: int
  cc_collection_method :: CollectionMethod
  cc_turn_off_scrape :: bool
  cc_syscalls :: "string list"
  cc_host_proc :: string
  cc_disable_network_flows :: bool
  cc_scrape_listen_endpoints :: bool
  cc_ignored_l4proto_port_pairs :: "L4ProtoPortPair set"
  cc_ignored_networks :: "IPNet list"
  cc_non_aggregated_networks :: "IPNet list"
  cc_host_config :: HostConfig
  cc_afterglow_period_micros :: i64
  cc_enable_afterglow :: bool
  cc_enable_core_dump :: bool
  cc_enable_processes_listening_on_ports :: bool
  cc_import_users :: bool
  cc_collect_connection_status :: bool
  cc_enable_external_ips :: bool
  cc_enable_connection_stats :: bool
  cc_enable_detailed_metrics :: bool
  cc_enable_runtime_config :: bool
  cc_use_docker_ce :: bool
  cc_use_podman_ce :: bool
  cc_enable_introspection :: bool
  cc_track_send_recv :: bool
  cc_connection_stats_quantiles :: "rat option list"
  cc_connection_stats_error :: "rat option"
  cc_connection_stats_window :: u32
  cc_max_connections_per_minute :: i64
  cc_grpc_server :: "string option"
  cc_nats_url :: "string option"
  cc_cluster_id :: string
  cc_disable_process_arguments :: bool
  cc_sinsp_cpu_per_buffer :: u32
  cc_sinsp_buffer_size :: u32
  cc_sinsp_total_buffer_size :: u32
  cc_sinsp_thread_cache_size :: u32
  cc_tls_config :: "TlsConfig option"
  cc_runtime_config :: "runtime_config option"

text \<open>
  The constructor. Members it does not initialise are given by \<open>any\<close>, a flag, and \<open>uninit\<close>, the number of processors
  of a new \<^verbatim>\<open>HostConfig\<close>; the initialisation overwrites all of them.
\<close>

definition mk_CollectorConfig :: "bool \<Rightarrow> rat option \<Rightarrow> u32 \<Rightarrow> int \<Rightarrow> CollectorConfig" where
  "mk_CollectorConfig any any_double any_uint uninit =
     \<lparr>cc_scrape_interval = kScrapeInterval, cc_collection_method = kCollectionMethod, cc_turn_off_scrape = kTurnOffScrape,
      cc_syscalls = [], cc_host_proc = [], cc_disable_network_flows = False, cc_scrape_listen_endpoints = False,
      cc_ignored_l4proto_port_pairs = {}, cc_ignored_networks = [], cc_non_aggregated_networks = [],
      cc_host_config = mk_HostConfig uninit, cc_afterglow_period_micros = 300000000, cc_enable_afterglow = False,
      cc_enable_core_dump = False, cc_enable_processes_listening_on_ports = any, cc_import_users = any,
      cc_collect_connection_status = any, cc_enable_external_ips = False, cc_enable_connection_stats = any,
      cc_enable_detailed_metrics = any, cc_enable_runtime_config = any, cc_use_docker_ce = any, cc_use_podman_ce = any,
      cc_enable_introspection = any, cc_track_send_recv = any, cc_connection_stats_quantiles = [],
      cc_connection_stats_error = any_double, cc_connection_stats_window = any_uint,
      cc_max_connections_per_minute = kMaxConnectionsPerMinute, cc_grpc_server = None, cc_nats_url = None,
      cc_cluster_id = ''local'', cc_disable_process_arguments = False, cc_sinsp_cpu_per_buffer = 0,
      cc_sinsp_buffer_size = 0, cc_sinsp_total_buffer_size = 512 * 1024 * 1024, cc_sinsp_thread_cache_size = 32768,
      cc_tls_config = None, cc_runtime_config = None\<rparr>"

section \<open>The parts of the initialisation\<close>

text \<open>\<open>fl_cpu_for_each_buffer\<close> and \<open>fl_buffer_bytes_dim\<close> are the constants of the Falco library.\<close>

record 'j cfg_lib =
  cl_json :: "'j json_lib"
  cl_net :: net_lib
  cl_stof :: "string \<Rightarrow> std_exception + rat option"
  cl_stod :: "string \<Rightarrow> std_exception + rat option"
  fl_cpu_for_each_buffer :: u32
  fl_buffer_bytes_dim :: u32

abbreviation bool_env :: "environment \<Rightarrow> string \<Rightarrow> bool \<Rightarrow> bool" where
  "bool_env \<equiv> env_or ParseBool"

text \<open>The operator \<^verbatim>\<open>/\<close> of paths.\<close>

definition path_append :: "string \<Rightarrow> string \<Rightarrow> string" where
  "path_append base p =
     (if p \<noteq> [] \<and> hd p = CHR ''/'' then p
      else if base = [] \<or> last base = CHR ''/'' then base @ p
      else base @ ''/'' @ p)"

definition relative_path :: "string \<Rightarrow> string" where
  "relative_path p = dropWhile (\<lambda>c. c = CHR ''/'') p"

definition GetHostPath :: "environment \<Rightarrow> string \<Rightarrow> string" where
  "GetHostPath env file =
     (let host_root = (case env ''COLLECTOR_HOST_ROOT'' of None \<Rightarrow> [] | Some r \<Rightarrow> r)
      in path_append host_root (if file \<noteq> [] \<and> hd file = CHR ''/'' then relative_path file else file))"

definition read_flags :: "environment \<Rightarrow> CollectorConfig \<Rightarrow> CollectorConfig" where
  "read_flags env c =
     (let track = bool_env env ''ROX_COLLECTOR_TRACK_SEND_RECV'' False
      in c\<lparr>cc_enable_processes_listening_on_ports := bool_env env ''ROX_PROCESSES_LISTENING_ON_PORT'' kEnableProcessesListeningOnPorts,
           cc_import_users := bool_env env ''ROX_COLLECTOR_SET_IMPORT_USERS'' False,
           cc_collect_connection_status := bool_env env ''ROX_COLLECT_CONNECTION_STATUS'' True,
           cc_enable_external_ips := bool_env env ''ROX_COLLECTOR_EXTERNAL_IPS_ENABLE'' False,
           cc_enable_connection_stats := bool_env env ''ROX_COLLECTOR_ENABLE_CONNECTION_STATS'' True,
           cc_enable_detailed_metrics := bool_env env ''ROX_COLLECTOR_ENABLE_DETAILED_METRICS'' True,
           cc_enable_runtime_config := bool_env env ''ROX_COLLECTOR_RUNTIME_CONFIG_ENABLED'' False,
           cc_use_docker_ce := bool_env env ''ROX_COLLECTOR_CE_USE_DOCKER'' False,
           cc_use_podman_ce := bool_env env ''ROX_COLLECTOR_CE_USE_PODMAN'' False,
           cc_enable_introspection := bool_env env ''ROX_COLLECTOR_INTROSPECTION_ENABLE'' False,
           cc_track_send_recv := track,
           cc_disable_process_arguments := bool_env env ''ROX_COLLECTOR_NO_PROCESS_ARGUMENTS'' False,
           cc_syscalls := cc_syscalls c @ kSyscalls @ (if track then kSendRecvSyscalls else []),
           cc_host_proc := GetHostPath env ''/proc''\<rparr>)"

text \<open>The JSON document of the command line, or else the one of the environment if it can be parsed.\<close>

definition json_config :: "'j cfg_lib \<Rightarrow> environment \<Rightarrow> 'j CollectorArgs \<Rightarrow> 'j" where
  "json_config cl env args =
     (let js = cl_json cl; config = ca_collectorConfig args
      in if js_empty js config \<and> env ''COLLECTOR_CONFIG'' \<noteq> None
         then (let ((status, msg), json_root) = CheckConfiguration js (map_option c_str (env ''COLLECTOR_CONFIG'')) (js_null js)
               in if status = ARG_OK then json_root else config)
         else config)"

text \<open>The value of a member: \<open>None\<close> if it is empty, otherwise its conversion.\<close>

definition json_setting :: "'j cfg_lib \<Rightarrow> 'j \<Rightarrow> string \<Rightarrow> ('j \<Rightarrow> string + 'a) \<Rightarrow> cfg_failure + 'a option" where
  "json_setting cl config key conv =
     (case js_member (cl_json cl) config key of
        Inl e \<Rightarrow> Inl (Json_error e)
      | Inr v \<Rightarrow>
          if js_empty (cl_json cl) v then Inr None
          else case conv v of Inl e \<Rightarrow> Inl (Json_error e) | Inr x \<Rightarrow> Inr (Some x))"

text \<open>A setting: the JSON document first, then the environment, then what the configuration has.\<close>

definition choose_setting :: "cfg_failure + 'a option \<Rightarrow> cfg_failure + 'a option \<Rightarrow> 'a \<Rightarrow> cfg_failure + 'a" where
  "choose_setting from_json from_env def =
     (case from_json of
        Inl e \<Rightarrow> Inl e
      | Inr (Some v) \<Rightarrow> Inr v
      | Inr None \<Rightarrow>
          (case from_env of Inl e \<Rightarrow> Inl e | Inr (Some v) \<Rightarrow> Inr v | Inr None \<Rightarrow> Inr def))"

definition set_log_level :: "'j cfg_lib \<Rightarrow> environment \<Rightarrow> 'j \<Rightarrow> LogLevel \<Rightarrow> cfg_failure + LogLevel" where
  "set_log_level cl env config g_level =
     (case json_setting cl config ''logLevel'' (js_asString (cl_json cl)) of
        Inl e \<Rightarrow> Inl e
      | Inr js \<Rightarrow>
          (case (case js of Some l \<Rightarrow> Some l | None \<Rightarrow> env_opt ParseString env ''ROX_COLLECTOR_LOG_LEVEL'') of
             None \<Rightarrow> Inr g_level
           | Some l \<Rightarrow> Inr (case ParseLogLevelName l of Some lvl \<Rightarrow> lvl | None \<Rightarrow> g_level)))"

definition json_tls_path :: "'j cfg_lib \<Rightarrow> 'j \<Rightarrow> string \<Rightarrow> cfg_failure + string" where
  "json_tls_path cl tls key =
     (case js_member (cl_json cl) tls key of
        Inl e \<Rightarrow> Inl (Json_error e)
      | Inr v \<Rightarrow> (case js_asString (cl_json cl) v of Inl e \<Rightarrow> Inl (Json_error e) | Inr s \<Rightarrow> Inr s))"

definition env_tls :: "environment \<Rightarrow> TlsConfig" where
  "env_tls env =
     (case env_opt ParsePath env ''ROX_COLLECTOR_TLS_CERTS'' of
        Some tls_base_path \<Rightarrow>
          \<lparr>tls_ca = env_or ParsePath env ''ROX_COLLECTOR_TLS_CA'' (path_append tls_base_path ''ca.pem''),
           tls_clientCert = env_or ParsePath env ''ROX_COLLECTOR_TLS_CLIENT_CERT'' (path_append tls_base_path ''cert.pem''),
           tls_clientKey = env_or ParsePath env ''ROX_COLLECTOR_TLS_CLIENT_KEY'' (path_append tls_base_path ''key.pem'')\<rparr>
      | None \<Rightarrow>
          \<lparr>tls_ca = env_or ParsePath env ''ROX_COLLECTOR_TLS_CA'' [],
           tls_clientCert = env_or ParsePath env ''ROX_COLLECTOR_TLS_CLIENT_CERT'' [],
           tls_clientKey = env_or ParsePath env ''ROX_COLLECTOR_TLS_CLIENT_KEY'' []\<rparr>)"

definition read_tls :: "'j cfg_lib \<Rightarrow> environment \<Rightarrow> 'j \<Rightarrow> cfg_failure + TlsConfig" where
  "read_tls cl env config =
     (case js_member (cl_json cl) config ''tlsConfig'' of
        Inl e \<Rightarrow> Inl (Json_error e)
      | Inr tls \<Rightarrow>
          if js_empty (cl_json cl) tls then Inr (env_tls env)
          else case json_tls_path cl tls ''caCertPath'' of Inl e \<Rightarrow> Inl e | Inr ca \<Rightarrow>
              (case json_tls_path cl tls ''clientCertPath'' of Inl e \<Rightarrow> Inl e | Inr cert \<Rightarrow>
              (case json_tls_path cl tls ''clientKeyPath'' of Inl e \<Rightarrow> Inl e | Inr key \<Rightarrow>
                 Inr \<lparr>tls_ca = ca, tls_clientCert = cert, tls_clientKey = key\<rparr>)))"

definition read_grpc_server :: "environment \<Rightarrow> 'j CollectorArgs \<Rightarrow> string option \<Rightarrow> string option" where
  "read_grpc_server env args old =
     (if ca_grpcServer args \<noteq> [] then Some (ca_grpcServer args)
      else case env_opt ParseString env ''GRPC_SERVER'' of
             None \<Rightarrow> old
           | Some s \<Rightarrow> (if fst (CheckGrpcServer s) = ARG_OK then Some s else old))"

definition read_args :: "'j cfg_lib \<Rightarrow> environment \<Rightarrow> 'j CollectorArgs \<Rightarrow> CollectorConfig \<times> LogLevel \<Rightarrow> cfg_failure + CollectorConfig \<times> LogLevel" where
  "read_args cl env args st =
     (let (c, g_level) = st; js = cl_json cl; config = json_config cl env args
      in case set_log_level cl env config g_level of Inl e \<Rightarrow> Inl e | Inr g_level' \<Rightarrow>
         (case choose_setting (json_setting cl config ''scrapeInterval'' (js_asInt js))
                 (tryValue ParseInt env ''ROX_COLLECTOR_SCRAPE_INTERVAL'' None) (cc_scrape_interval c) of
            Inl e \<Rightarrow> Inl e
          | Inr interval \<Rightarrow>
         (case choose_setting (json_setting cl config ''turnOffScrape'' (js_asBool js))
                 (tryValue ParseBool env ''ROX_COLLECTOR_SCRAPE_DISABLED'' None) (cc_turn_off_scrape c) of
            Inl e \<Rightarrow> Inl e
          | Inr off \<Rightarrow>
         (let cm = (case ca_collectionMethod args of
                      Some cm \<Rightarrow> cm
                    | None \<Rightarrow>
                        (case env_opt ParseString env ''COLLECTION_METHOD'' of
                           Some s \<Rightarrow> ParseCollectionMethod s
                         | None \<Rightarrow> cc_collection_method c))
          in case read_tls cl env config of
               Inl e \<Rightarrow> Inl e
             | Inr tls \<Rightarrow>
                 Inr (c\<lparr>cc_scrape_interval := interval, cc_turn_off_scrape := off, cc_collection_method := cm,
                        cc_tls_config := Some tls, cc_grpc_server := read_grpc_server env args (cc_grpc_server c)\<rparr>,
                      g_level')))))"

fun parse_networks :: "net_lib \<Rightarrow> string list \<Rightarrow> IPNet list" where
  "parse_networks nl [] = []"
| "parse_networks nl (str # strs) =
     (if str = [] then parse_networks nl strs
      else case IPNet_parse nl str of
             Some net \<Rightarrow> net # parse_networks nl strs
           | None \<Rightarrow> parse_networks nl strs)"

definition read_network_settings :: "'j cfg_lib \<Rightarrow> environment \<Rightarrow> CollectorConfig \<Rightarrow> CollectorConfig" where
  "read_network_settings cl env c =
     c\<lparr>cc_nats_url := (case env_opt ParseString env ''NATS_URL'' of Some u \<Rightarrow> Some u | None \<Rightarrow> cc_nats_url c),
       cc_cluster_id := env_or ParseString env ''CLUSTER_ID'' (cc_cluster_id c),
       cc_disable_network_flows := (if bool_env env ''ROX_COLLECTOR_DISABLE_NETWORK_FLOWS'' False then True else cc_disable_network_flows c),
       cc_scrape_listen_endpoints := (if bool_env env ''ROX_NETWORK_GRAPH_PORTS'' True then True else cc_scrape_listen_endpoints c),
       cc_ignored_l4proto_port_pairs :=
         (if bool_env env ''ROX_NETWORK_DROP_IGNORED'' True then kIgnoredL4ProtoPortPairs else cc_ignored_l4proto_port_pairs c),
       cc_ignored_networks := cc_ignored_networks c @
         parse_networks (cl_net cl) (env_or ParseStringList env ''ROX_IGNORE_NETWORKS'' [''169.254.0.0/16'', ''fe80::/10'']),
       cc_non_aggregated_networks := cc_non_aggregated_networks c @
         parse_networks (cl_net cl) (env_or ParseStringList env ''ROX_NON_AGGREGATED_NETWORKS'' []),
       cc_enable_core_dump := (if bool_env env ''ENABLE_CORE_DUMP'' False then True else cc_enable_core_dump c)\<rparr>"

text \<open>
  The period in microseconds is the rounded product as an unsigned number of 64 bits, which is undefined for a number outside of its
  range, read back as a signed one.
\<close>

definition afterglow_micros :: "rat option \<Rightarrow> cfg_failure + i64" where
  "afterglow_micros period =
     (case period of
        None \<Rightarrow> Inl Undefined_conversion
      | Some p \<Rightarrow>
          (let t = trunc (float32 (p * 1000000))
           in if t < 0 \<or> t \<ge> 2 ^ 64 then Inl Undefined_conversion else Inr (sint (of_int t :: u64))))"

definition HandleAfterglowEnvVars :: "'j cfg_lib \<Rightarrow> environment \<Rightarrow> CollectorConfig \<Rightarrow> cfg_failure + CollectorConfig" where
  "HandleAfterglowEnvVars cl env c =
     (let max_afterglow_period_micros = 300 * 1000000
      in case env_value (ParseFloat (cl_stof cl)) env ''ROX_AFTERGLOW_PERIOD'' (Some (Some 300)) of
           Inl e \<Rightarrow> Inl e
         | Inr period \<Rightarrow>
             (case afterglow_micros period of
                Inl e \<Rightarrow> Inl e
              | Inr micros \<Rightarrow>
                  (let c1 = c\<lparr>cc_afterglow_period_micros := micros\<rparr>
                   in Inr (if micros < 0 then c1
                           else if micros = 0 then c1
                           else (let c2 = (if micros > max_afterglow_period_micros
                                           then c1\<lparr>cc_afterglow_period_micros := max_afterglow_period_micros\<rparr> else c1)
                                 in c2\<lparr>cc_enable_afterglow := bool_env env ''ROX_ENABLE_AFTERGLOW'' True\<rparr>)))))"

text \<open>Reading the parts of a string stream up to each comma, until its end is reached.\<close>

function getline_all :: "string \<Rightarrow> string list" where
  "getline_all s =
     (let part = takeWhile (\<lambda>c. c \<noteq> CHR '','') s; rest = dropWhile (\<lambda>c. c \<noteq> CHR '','') s
      in if rest = [] then [part] else part # getline_all (tl rest))"
  by pat_completeness auto
termination
proof (relation "measure length")
  fix s :: string and part rest
  assume "rest = dropWhile (\<lambda>c. c \<noteq> CHR '','') s" "rest \<noteq> []"
  then have "length rest \<le> length s" "0 < length rest" using length_dropWhile_le by auto
  then show "(tl rest, s) \<in> measure length" by (cases rest) simp_all
qed simp

declare getline_all.simps [simp del]

fun read_quantiles :: "(string \<Rightarrow> std_exception + 'd) \<Rightarrow> string list \<Rightarrow> 'd list" where
  "read_quantiles stod [] = []"
| "read_quantiles stod (q # qs) =
     (case stod q of Inl _ \<Rightarrow> read_quantiles stod qs | Inr v \<Rightarrow> v # read_quantiles stod qs)"

text \<open>A setting that is kept if the variable is missing or its conversion throws.\<close>

definition try_env :: "environment \<Rightarrow> string \<Rightarrow> (string \<Rightarrow> std_exception + 'a) \<Rightarrow> 'a \<Rightarrow> 'a" where
  "try_env env name conv old =
     (case env name of None \<Rightarrow> old | Some s \<Rightarrow> (case conv s of Inl _ \<Rightarrow> old | Inr v \<Rightarrow> v))"

definition to_uint :: "std_exception + int \<Rightarrow> std_exception + u32" where
  "to_uint r = map_sum id of_int r"

definition HandleConnectionStatsEnvVars :: "'j cfg_lib \<Rightarrow> environment \<Rightarrow> CollectorConfig \<Rightarrow> CollectorConfig" where
  "HandleConnectionStatsEnvVars cl env c =
     c\<lparr>cc_connection_stats_quantiles :=
         (case env ''ROX_COLLECTOR_CONNECTION_STATS_QUANTILES'' of
            None \<Rightarrow> [Some (float64 (50 / 100)), Some (float64 (90 / 100)), Some (float64 (95 / 100))]
          | Some envvar \<Rightarrow> read_quantiles (cl_stod cl) (getline_all envvar)),
       cc_connection_stats_error := try_env env ''ROX_COLLECTOR_CONNECTION_STATS_ERROR'' (cl_stod cl) (Some (float64 (1 / 100))),
       cc_connection_stats_window := try_env env ''ROX_COLLECTOR_CONNECTION_STATS_WINDOW'' (to_uint \<circ> std_stoi) 60\<rparr>"

definition HandleSinspEnvVars :: "'j cfg_lib \<Rightarrow> environment \<Rightarrow> CollectorConfig \<Rightarrow> CollectorConfig" where
  "HandleSinspEnvVars cl env c =
     c\<lparr>cc_sinsp_cpu_per_buffer := try_env env ''ROX_COLLECTOR_SINSP_CPU_PER_BUFFER'' (to_uint \<circ> std_stoi) (fl_cpu_for_each_buffer cl),
       cc_sinsp_buffer_size := try_env env ''ROX_COLLECTOR_SINSP_BUFFER_SIZE'' (to_uint \<circ> std_stoll) (fl_buffer_bytes_dim cl),
       cc_sinsp_total_buffer_size :=
         try_env env ''ROX_COLLECTOR_SINSP_TOTAL_BUFFER_SIZE'' (to_uint \<circ> std_stoll) (cc_sinsp_total_buffer_size c),
       cc_sinsp_thread_cache_size :=
         try_env env ''ROX_COLLECTOR_SINSP_THREAD_CACHE_SIZE'' (to_uint \<circ> std_stoll) (cc_sinsp_thread_cache_size c)\<rparr>"

definition GetCollectionMethod :: "CollectorConfig \<Rightarrow> CollectionMethod" where
  "GetCollectionMethod c =
     (case hc_collection_method (cc_host_config c) of Some m \<Rightarrow> m | None \<Rightarrow> cc_collection_method c)"

section \<open>The initialisation\<close>

text \<open>The settings, before the heuristics of the host; the level of logging is changed too.\<close>

definition read_settings ::
  "'j cfg_lib \<Rightarrow> environment \<Rightarrow> 'j CollectorArgs option \<Rightarrow> CollectorConfig \<times> LogLevel \<Rightarrow> cfg_failure + CollectorConfig \<times> LogLevel" where
  "read_settings cl env args st =
     (let (c0, g_level) = st; c1 = read_flags env c0
      in case (case args of None \<Rightarrow> Inr (c1, g_level) | Some a \<Rightarrow> read_args cl env a (c1, g_level)) of
           Inl e \<Rightarrow> Inl e
         | Inr (c2, g_level') \<Rightarrow>
             (case HandleAfterglowEnvVars cl env (read_network_settings cl env c2) of
                Inl e \<Rightarrow> Inl e
              | Inr c3 \<Rightarrow> Inr (HandleSinspEnvVars cl env (HandleConnectionStatsEnvVars cl env c3), g_level')))"

text \<open>The heuristics fill the cache with the information on the host.\<close>

definition InitCollectorConfig ::
  "'j cfg_lib \<Rightarrow> environment \<Rightarrow> host \<Rightarrow> int \<Rightarrow> 'j CollectorArgs option \<Rightarrow> CollectorConfig \<times> LogLevel \<times> HostInfo \<Rightarrow>
     cfg_failure + CollectorConfig \<times> LogLevel \<times> HostInfo" where
  "InitCollectorConfig cl env ho uninit args st =
     (let (c0, g_level, hi) = st
      in case read_settings cl env args (c0, g_level) of
           Inl e \<Rightarrow> Inl e
         | Inr (c4, g_level') \<Rightarrow>
             (case ProcessHostHeuristics ho (GetCollectionMethod c4) uninit hi of
                Inl e \<Rightarrow> Inl (Host e)
              | Inr (hi', hc) \<Rightarrow> Inr (c4\<lparr>cc_host_config := hc\<rparr>, g_level', hi')))"

section \<open>Derived settings\<close>

definition GetExternalIPsConf :: "CollectorConfig \<Rightarrow> ExternalIPsConfig" where
  "GetExternalIPsConf c = mk_ExternalIPsConfig (cc_runtime_config c) (cc_enable_external_ips c)"

definition RuntimeConfigHeuristics :: "CollectorConfig \<Rightarrow> CollectorConfig" where
  "RuntimeConfigHeuristics c =
     (case cc_runtime_config c of
        None \<Rightarrow> c
      | Some r \<Rightarrow>
          if rc_max_connections_per_minute r = 0
          then c\<lparr>cc_runtime_config := Some (r\<lparr>rc_max_connections_per_minute := kMaxConnectionsPerMinute\<rparr>)\<rparr>
          else c)"

definition SetRuntimeConfig :: "runtime_config \<Rightarrow> CollectorConfig \<Rightarrow> CollectorConfig" where
  "SetRuntimeConfig r c = c\<lparr>cc_runtime_config := Some r\<rparr>"

definition ResetRuntimeConfig_cc :: "CollectorConfig \<Rightarrow> CollectorConfig" where
  "ResetRuntimeConfig_cc c = c\<lparr>cc_runtime_config := None\<rparr>"

definition MaxConnectionsPerMinute :: "CollectorConfig \<Rightarrow> i64" where
  "MaxConnectionsPerMinute c =
     (case cc_runtime_config c of
        Some r \<Rightarrow> rc_max_connections_per_minute r
      | None \<Rightarrow> cc_max_connections_per_minute c)"

definition PerContainerRateLimit :: "CollectorConfig \<Rightarrow> i64" where
  "PerContainerRateLimit c =
     std_round (float64 (float32 (float32 (of_int (MaxConnectionsPerMinute c)) * float32 (of_int (cc_scrape_interval c))) / 60))"

text \<open>
  The size of a ring buffer, undefined (\<open>None\<close>) if the limit does not fit into 32 bits after rounding. The library's binary
  logarithm of a number of 32 bits is cut to its integer part.
\<close>

definition ceil_fdiv :: "nat \<Rightarrow> nat \<Rightarrow> int" where
  "ceil_fdiv a b = \<lceil>float32 (float32 (of_nat a) / float32 (of_nat b))\<rceil>"

definition log2_floor :: "nat \<Rightarrow> nat" where
  "log2_floor m = floorlog 2 m - 1"

definition GetSinspBufferSize :: "CollectorConfig \<Rightarrow> nat option" where
  "GetSinspBufferSize c =
     (let size = unat (cc_sinsp_buffer_size c); total = unat (cc_sinsp_total_buffer_size c);
          cpu_per_buffer = unat (cc_sinsp_cpu_per_buffer c); cpus = nat (hc_num_possible_cpus (cc_host_config c))
      in if total = 0 then Some size
         else if cpu_per_buffer = 0 then Some size
         else if cpus = 0 then Some size
         else (let n_buffers = nat (ceil_fdiv cpus cpu_per_buffer);
                   max_buffer_size = ceil_fdiv total n_buffers
               in if max_buffer_size \<ge> 2 ^ 32 then None
                  else (let exponent = max 14 (log2_floor (nat max_buffer_size))
                        in Some (min size (2 ^ exponent)))))"

definition SetSinspBufferSize :: "u32 \<Rightarrow> CollectorConfig \<Rightarrow> CollectorConfig" where
  "SetSinspBufferSize n c = c\<lparr>cc_sinsp_buffer_size := n\<rparr>"

definition SetSinspTotalBufferSize :: "u32 \<Rightarrow> CollectorConfig \<Rightarrow> CollectorConfig" where
  "SetSinspTotalBufferSize n c = c\<lparr>cc_sinsp_total_buffer_size := n\<rparr>"

definition SetSinspCpuPerBuffer :: "u32 \<Rightarrow> CollectorConfig \<Rightarrow> CollectorConfig" where
  "SetSinspCpuPerBuffer n c = c\<lparr>cc_sinsp_cpu_per_buffer := n\<rparr>"

definition SetHostConfig :: "HostConfig \<Rightarrow> CollectorConfig \<Rightarrow> CollectorConfig" where
  "SetHostConfig hc c = c\<lparr>cc_host_config := hc\<rparr>"

section \<open>Afterglow\<close>

lemma HandleAfterglow_frame:
  assumes "HandleAfterglowEnvVars cl env c = Inr c'"
  shows "\<exists>period enable. c' = c\<lparr>cc_afterglow_period_micros := period, cc_enable_afterglow := enable\<rparr> \<and> period \<le> 300000000 \<and>
    (enable \<longleftrightarrow> (if period > 0 then bool_env env ''ROX_ENABLE_AFTERGLOW'' True else cc_enable_afterglow c))"
proof -
  obtain p micros where m: "env_value (ParseFloat (cl_stof cl)) env ''ROX_AFTERGLOW_PERIOD'' (Some (Some 300)) = Inr p"
      "afterglow_micros p = Inr micros"
    using assms by (auto simp: HandleAfterglowEnvVars_def Let_def split: sum.splits)
  let ?flag = "bool_env env ''ROX_ENABLE_AFTERGLOW'' True"
  have c': "c' = (if micros \<le> 0 then c\<lparr>cc_afterglow_period_micros := micros\<rparr>
      else c\<lparr>cc_afterglow_period_micros := min micros 300000000, cc_enable_afterglow := ?flag\<rparr>)"
    using assms m
    by (cases "micros < 0"; cases "micros = 0"; cases "micros > 300000000") (simp_all add: HandleAfterglowEnvVars_def Let_def min_def)
  show ?thesis
  proof (cases "micros \<le> 0")
    case True
    then show ?thesis using c' by (intro exI [of _ micros] exI [of _ "cc_enable_afterglow c"]) simp
  next
    case False
    then show ?thesis using c' by (intro exI [of _ "min micros 300000000"] exI [of _ ?flag]) simp
  qed
qed

section \<open>Frames of the parts\<close>

lemma read_args_frame:
  assumes "read_args cl env a (c, g) = Inr (c', g')"
  obtains interval off tls where
    "choose_setting (json_setting cl (json_config cl env a) ''scrapeInterval'' (js_asInt (cl_json cl)))
       (tryValue ParseInt env ''ROX_COLLECTOR_SCRAPE_INTERVAL'' None) (cc_scrape_interval c) = Inr interval"
    "choose_setting (json_setting cl (json_config cl env a) ''turnOffScrape'' (js_asBool (cl_json cl)))
       (tryValue ParseBool env ''ROX_COLLECTOR_SCRAPE_DISABLED'' None) (cc_turn_off_scrape c) = Inr off"
    "read_tls cl env (json_config cl env a) = Inr tls"
    "c' = c\<lparr>cc_scrape_interval := interval, cc_turn_off_scrape := off,
           cc_collection_method := (case ca_collectionMethod a of
                      Some cm \<Rightarrow> cm
                    | None \<Rightarrow>
                        (case env_opt ParseString env ''COLLECTION_METHOD'' of
                           Some s \<Rightarrow> ParseCollectionMethod s
                         | None \<Rightarrow> cc_collection_method c)),
           cc_tls_config := Some tls, cc_grpc_server := read_grpc_server env a (cc_grpc_server c)\<rparr>"
proof -
  let ?config = "json_config cl env a"
  obtain g1 where "set_log_level cl env ?config g = Inr g1"
    using assms by (cases "set_log_level cl env ?config g") (simp_all add: read_args_def Let_def)
  moreover obtain interval where i: "choose_setting (json_setting cl ?config ''scrapeInterval'' (js_asInt (cl_json cl)))
       (tryValue ParseInt env ''ROX_COLLECTOR_SCRAPE_INTERVAL'' None) (cc_scrape_interval c) = Inr interval"
    using assms calculation
    by (cases "choose_setting (json_setting cl ?config ''scrapeInterval'' (js_asInt (cl_json cl)))
       (tryValue ParseInt env ''ROX_COLLECTOR_SCRAPE_INTERVAL'' None) (cc_scrape_interval c)") (simp_all add: read_args_def Let_def)
  moreover obtain off where o: "choose_setting (json_setting cl ?config ''turnOffScrape'' (js_asBool (cl_json cl)))
       (tryValue ParseBool env ''ROX_COLLECTOR_SCRAPE_DISABLED'' None) (cc_turn_off_scrape c) = Inr off"
    using assms calculation
    by (cases "choose_setting (json_setting cl ?config ''turnOffScrape'' (js_asBool (cl_json cl)))
       (tryValue ParseBool env ''ROX_COLLECTOR_SCRAPE_DISABLED'' None) (cc_turn_off_scrape c)") (simp_all add: read_args_def Let_def)
  moreover obtain tls where t: "read_tls cl env ?config = Inr tls"
    using assms calculation by (cases "read_tls cl env ?config") (simp_all add: read_args_def Let_def)
  ultimately show thesis using assms by (intro that [of interval off tls]) (simp_all add: read_args_def Let_def)
qed

lemma read_network_keeps:
  "cc_enable_afterglow (read_network_settings cl env c) = cc_enable_afterglow c"
  "cc_syscalls (read_network_settings cl env c) = cc_syscalls c"
  "cc_grpc_server (read_network_settings cl env c) = cc_grpc_server c"
  "cc_tls_config (read_network_settings cl env c) = cc_tls_config c"
  "cc_scrape_interval (read_network_settings cl env c) = cc_scrape_interval c"
  "cc_turn_off_scrape (read_network_settings cl env c) = cc_turn_off_scrape c"
  "cc_collection_method (read_network_settings cl env c) = cc_collection_method c"
  "cc_host_config (read_network_settings cl env c) = cc_host_config c"
  by (simp_all add: read_network_settings_def)

lemma NumPossibleCPU_nonneg: "NumPossibleCPU ho \<ge> 0"
  by (simp add: NumPossibleCPU_def)

lemma ProcessHostHeuristics_cpus:
  "ProcessHostHeuristics ho m uninit hi = Inr (hi', hc) \<Longrightarrow> hc_num_possible_cpus hc = NumPossibleCPU ho"
  by (auto simp: ProcessHostHeuristics_def g_host_heuristics_def CPUHeuristic_def split: sum.splits)

text \<open>What a successful initialisation goes through.\<close>

lemma InitCollectorConfig_cases:
  assumes "InitCollectorConfig cl env ho uninit args (c0, g, hi) = Inr (c, g', hi')"
  obtains c2 c3 hc where
    "(case args of None \<Rightarrow> Inr (read_flags env c0, g) | Some a \<Rightarrow> read_args cl env a (read_flags env c0, g)) = Inr (c2, g')"
    "HandleAfterglowEnvVars cl env (read_network_settings cl env c2) = Inr c3"
    "c = (HandleSinspEnvVars cl env (HandleConnectionStatsEnvVars cl env c3))\<lparr>cc_host_config := hc\<rparr>"
    "hc_num_possible_cpus hc = NumPossibleCPU ho"
  using assms
  by (auto simp: InitCollectorConfig_def read_settings_def Let_def split: sum.splits) (metis ProcessHostHeuristics_cpus)

lemma stats_sinsp_keeps:
  "cc_grpc_server (HandleSinspEnvVars cl env (HandleConnectionStatsEnvVars cl env c)) = cc_grpc_server c"
  "cc_syscalls (HandleSinspEnvVars cl env (HandleConnectionStatsEnvVars cl env c)) = cc_syscalls c"
  "cc_tls_config (HandleSinspEnvVars cl env (HandleConnectionStatsEnvVars cl env c)) = cc_tls_config c"
  "cc_enable_afterglow (HandleSinspEnvVars cl env (HandleConnectionStatsEnvVars cl env c)) = cc_enable_afterglow c"
  "cc_afterglow_period_micros (HandleSinspEnvVars cl env (HandleConnectionStatsEnvVars cl env c)) = cc_afterglow_period_micros c"
  "cc_scrape_interval (HandleSinspEnvVars cl env (HandleConnectionStatsEnvVars cl env c)) = cc_scrape_interval c"
  "cc_turn_off_scrape (HandleSinspEnvVars cl env (HandleConnectionStatsEnvVars cl env c)) = cc_turn_off_scrape c"
  "cc_collection_method (HandleSinspEnvVars cl env (HandleConnectionStatsEnvVars cl env c)) = cc_collection_method c"
  by (simp_all add: HandleSinspEnvVars_def HandleConnectionStatsEnvVars_def)

section \<open>Properties of the initialisation\<close>

lemma read_flags_keeps:
  "cc_enable_afterglow (read_flags env c) = cc_enable_afterglow c"
  "cc_grpc_server (read_flags env c) = cc_grpc_server c"
  "cc_tls_config (read_flags env c) = cc_tls_config c"
  "cc_scrape_interval (read_flags env c) = cc_scrape_interval c"
  "cc_turn_off_scrape (read_flags env c) = cc_turn_off_scrape c"
  "cc_collection_method (read_flags env c) = cc_collection_method c"
  "cc_syscalls (read_flags env c) =
     cc_syscalls c @ kSyscalls @ (if bool_env env ''ROX_COLLECTOR_TRACK_SEND_RECV'' False then kSendRecvSyscalls else [])"
  by (simp_all add: read_flags_def Let_def)

lemmas config_keeps = read_flags_keeps read_network_keeps stats_sinsp_keeps

lemma read_grpc_server_checked:
  assumes "args_ok js a" "read_grpc_server env a None = Some s"
  shows "CheckGrpcServer s = (ARG_OK, [])"
  using assms
  by (auto simp: read_grpc_server_def args_ok_def CheckGrpcServer_no_message split: if_splits option.splits)

text \<open>
  (C27) A configuration that was initialised from arguments the command line can produce is consistent: afterglow is enabled
  only with a positive period of at most five minutes, a server to connect to has the form of a host and a port,
  TLS settings are there, no system call is listed twice, and the number of processors is the one of the host.
\<close>

theorem init_consistent:
  assumes "args_reachable (cl_json cl) a"
    "InitCollectorConfig cl env ho uninit (Some a) (mk_CollectorConfig any any_double any_uint uninit, g, hi) = Inr (c, g', hi')"
  shows "(cc_enable_afterglow c \<longrightarrow> 0 < cc_afterglow_period_micros c \<and> cc_afterglow_period_micros c \<le> 300000000) \<and>
    (\<forall>s. cc_grpc_server c = Some s \<longrightarrow> CheckGrpcServer s = (ARG_OK, [])) \<and>
    cc_tls_config c \<noteq> None \<and> distinct (cc_syscalls c) \<and>
    hc_num_possible_cpus (cc_host_config c) = NumPossibleCPU ho"
proof -
  let ?c0 = "mk_CollectorConfig any any_double any_uint uninit"
  obtain c2 c3 hc where c2: "read_args cl env a (read_flags env ?c0, g) = Inr (c2, g')"
    and c3: "HandleAfterglowEnvVars cl env (read_network_settings cl env c2) = Inr c3"
    and c: "c = (HandleSinspEnvVars cl env (HandleConnectionStatsEnvVars cl env c3))\<lparr>cc_host_config := hc\<rparr>"
    and hc: "hc_num_possible_cpus hc = NumPossibleCPU ho"
    using assms(2) by (rule InitCollectorConfig_cases) simp
  obtain period enable where p: "c3 = (read_network_settings cl env c2)\<lparr>cc_afterglow_period_micros := period, cc_enable_afterglow := enable\<rparr>"
      "period \<le> 300000000" "enable \<longleftrightarrow> (if period > 0 then bool_env env ''ROX_ENABLE_AFTERGLOW'' True
         else cc_enable_afterglow (read_network_settings cl env c2))"
    using HandleAfterglow_frame [OF c3] by blast
  note init = mk_CollectorConfig_def
  have c2': "cc_enable_afterglow c2 = False" "cc_grpc_server c2 = read_grpc_server env a None" "cc_tls_config c2 \<noteq> None"
    "cc_syscalls c2 = kSyscalls @ (if bool_env env ''ROX_COLLECTOR_TRACK_SEND_RECV'' False then kSendRecvSyscalls else [])"
    by (rule read_args_frame [OF c2], simp add: config_keeps init)+
  have "cc_enable_afterglow c \<longleftrightarrow> enable" "cc_afterglow_period_micros c = period" "cc_grpc_server c = read_grpc_server env a None"
    "cc_tls_config c \<noteq> None" "cc_syscalls c = cc_syscalls c2" "cc_host_config c = hc"
    using c2' by (simp_all add: c config_keeps p(1))
  moreover have "enable \<longrightarrow> 0 < period" using p(3) c2'(1) by (simp add: config_keeps split: if_splits)
  moreover have "distinct (kSyscalls @ kSendRecvSyscalls)" "distinct kSyscalls" by code_simp+
  ultimately show ?thesis
    using p(2) hc c2'(4) read_grpc_server_checked [OF args_reachable_ok [OF assms(1)]] by auto
qed

definition unit_json :: "unit json_lib" where
  "unit_json = \<lparr>js_null = (), js_parse = (\<lambda>_. Inr ()), js_empty = (\<lambda>_. True), js_member = (\<lambda>_ _. Inr ()),
     js_asString = (\<lambda>_. Inr []), js_asInt = (\<lambda>_. Inr 0), js_asBool = (\<lambda>_. Inr False)\<rparr>"

definition unit_lib :: "unit cfg_lib" where
  "unit_lib = \<lparr>cl_json = unit_json, cl_net = example_lib4, cl_stof = (\<lambda>_. Inl Invalid_argument), cl_stod = (\<lambda>_. Inl Invalid_argument),
     fl_cpu_for_each_buffer = 1, fl_buffer_bytes_dim = 8 * 1024 * 1024\<rparr>"

definition grpc_env :: environment where
  "grpc_env n = (if n = ''GRPC_SERVER'' then Some ''sensor:443'' else if n = ''ROX_IGNORE_NETWORKS'' then Some ''10.0.0.0/8,,bogus'' else None)"

theorem init_consistent_witness:
  "\<exists>c g hi. InitCollectorConfig unit_lib grpc_env example_host 0 (Some (mk_CollectorArgs unit_json))
      (mk_CollectorConfig False None 0 0, INFO, HostInfo_init) = Inr (c, g, hi) \<and>
    cc_grpc_server c = Some ''sensor:443'' \<and> cc_enable_afterglow c \<and> cc_afterglow_period_micros c \<le> 300000000"
proof -
  let ?settings = "read_settings unit_lib grpc_env (Some (mk_CollectorArgs unit_json)) (mk_CollectorConfig False None 0 0, INFO)"
  let ?init = "InitCollectorConfig unit_lib grpc_env example_host 0 (Some (mk_CollectorArgs unit_json))
      (mk_CollectorConfig False None 0 0, INFO, HostInfo_init)"
  have "case ?settings of Inl _ \<Rightarrow> False
      | Inr (c, g) \<Rightarrow> cc_grpc_server c = Some ''sensor:443'' \<and> cc_enable_afterglow c \<and> GetCollectionMethod c = CORE_BPF"
    by code_simp
  then obtain c4 g where c4: "?settings = Inr (c4, g)" "cc_grpc_server c4 = Some ''sensor:443''" "cc_enable_afterglow c4"
      "GetCollectionMethod c4 = CORE_BPF"
    by (auto split: sum.splits)
  then obtain c hi where c: "?init = Inr (c, g, hi)" "cc_grpc_server c = Some ''sensor:443''" "cc_enable_afterglow c"
    using example_host_passes by (auto simp: InitCollectorConfig_def)
  have "args_reachable (cl_json unit_lib) (mk_CollectorArgs unit_json)" unfolding unit_lib_def by (simp add: args_init)
  then show ?thesis using init_consistent [OF _ c(1)] c by blast
qed

lemma Init_settings:
  assumes "InitCollectorConfig cl env ho uninit (Some a) (c0, g, hi) = Inr (c, g', hi')"
  obtains c2 where "read_args cl env a (read_flags env c0, g) = Inr (c2, g')"
    "cc_scrape_interval c = cc_scrape_interval c2" "cc_turn_off_scrape c = cc_turn_off_scrape c2"
    "cc_collection_method c = cc_collection_method c2"
proof -
  obtain c2 c3 hc where c: "read_args cl env a (read_flags env c0, g) = Inr (c2, g')"
      "HandleAfterglowEnvVars cl env (read_network_settings cl env c2) = Inr c3"
      "c = (HandleSinspEnvVars cl env (HandleConnectionStatsEnvVars cl env c3))\<lparr>cc_host_config := hc\<rparr>"
    using assms by (rule InitCollectorConfig_cases) simp
  moreover obtain period enable where
      "c3 = (read_network_settings cl env c2)\<lparr>cc_afterglow_period_micros := period, cc_enable_afterglow := enable\<rparr>"
    using HandleAfterglow_frame [OF c(2)] by blast
  ultimately show thesis by (intro that [of c2]) (simp_all add: config_keeps)
qed

lemma choose_interval:
  assumes "from_json = Inr j" "choose_setting from_json (tryValue ParseInt env name None) def = Inr v" "def = d"
  shows "Inr v = (case j of Some i \<Rightarrow> Inr i | None \<Rightarrow> (case env name of Some s \<Rightarrow> std_stoi s | None \<Rightarrow> Inr d))"
  using assms by (auto simp: choose_setting_def tryValue_def ParseInt_def split: option.splits sum.splits)

lemma choose_switch:
  assumes "from_json = Inr j" "choose_setting from_json (tryValue ParseBool env name None) def = Inr v" "def = d"
  shows "v = (case j of Some b \<Rightarrow> b | None \<Rightarrow> bool_env env name d)"
  using assms by (auto simp: choose_setting_def tryValue_total total_parsers env_opt_def env_or_def split: option.splits parsed.splits)

text \<open>
  The sources of a setting have a fixed order. The interval of scraping and its switch come from the JSON document if it has
  them, otherwise from the environment, otherwise they keep their defaults; the collection method comes from the
  command line, otherwise from the environment, otherwise it is CO-RE BPF.
\<close>

theorem setting_precedence:
  assumes "InitCollectorConfig cl env ho uninit (Some a) (mk_CollectorConfig any any_double any_uint uninit, g, hi) = Inr (c, g', hi')"
    and json: "config = json_config cl env a"
    and from_json: "json_setting cl config ''scrapeInterval'' (js_asInt (cl_json cl)) = Inr interval"
      "json_setting cl config ''turnOffScrape'' (js_asBool (cl_json cl)) = Inr off"
  shows "Inr (cc_scrape_interval c) =
      (case interval of Some i \<Rightarrow> Inr i | None \<Rightarrow> (case env ''ROX_COLLECTOR_SCRAPE_INTERVAL'' of Some s \<Rightarrow> std_stoi s | None \<Rightarrow> Inr 30)) \<and>
    cc_turn_off_scrape c = (case off of Some b \<Rightarrow> b | None \<Rightarrow> bool_env env ''ROX_COLLECTOR_SCRAPE_DISABLED'' False) \<and>
    cc_collection_method c =
      (case ca_collectionMethod a of Some m \<Rightarrow> m
       | None \<Rightarrow> (case env ''COLLECTION_METHOD'' of Some s \<Rightarrow> ParseCollectionMethod s | None \<Rightarrow> CORE_BPF))"
proof -
  obtain c2 where c2: "read_args cl env a (read_flags env (mk_CollectorConfig any any_double any_uint uninit), g) = Inr (c2, g')"
    and c: "cc_scrape_interval c = cc_scrape_interval c2" "cc_turn_off_scrape c = cc_turn_off_scrape c2"
      "cc_collection_method c = cc_collection_method c2"
    using assms(1) by (rule Init_settings)
  let ?c1 = "read_flags env (mk_CollectorConfig any any_double any_uint uninit)"
  have defaults: "cc_scrape_interval ?c1 = 30" "cc_turn_off_scrape ?c1 = False" "cc_collection_method ?c1 = CORE_BPF"
    by (simp_all add: config_keeps mk_CollectorConfig_def kScrapeInterval_def kTurnOffScrape_def kCollectionMethod_def)
  have "Inr (cc_scrape_interval c2) =
      (case interval of Some i \<Rightarrow> Inr i | None \<Rightarrow> (case env ''ROX_COLLECTOR_SCRAPE_INTERVAL'' of Some s \<Rightarrow> std_stoi s | None \<Rightarrow> Inr 30))"
    by (rule read_args_frame [OF c2]) (drule choose_interval [OF from_json(1) [unfolded json] _ defaults(1)], simp)
  moreover have "cc_turn_off_scrape c2 = (case off of Some b \<Rightarrow> b | None \<Rightarrow> bool_env env ''ROX_COLLECTOR_SCRAPE_DISABLED'' False)"
    by (rule read_args_frame [OF c2], erule thin_rl) (drule choose_switch [OF from_json(2) [unfolded json] _ defaults(2)], simp)
  moreover have "cc_collection_method c2 = (case ca_collectionMethod a of Some m \<Rightarrow> m
       | None \<Rightarrow> (case env ''COLLECTION_METHOD'' of Some s \<Rightarrow> ParseCollectionMethod s | None \<Rightarrow> CORE_BPF))"
    by (rule read_args_frame [OF c2]) (simp add: env_opt_def ParseString_def defaults(3) split: option.splits)
  ultimately show ?thesis using c by simp
qed

text \<open>
  A number that cannot be read stops the collector: if the variable for the interval of scraping is set to a
  text that \<^verbatim>\<open>std::stoi\<close> rejects and the JSON document does not have the setting, the initialisation ends with that exception,
  although the interface of environment variables promises the default value for a text that cannot be parsed.
\<close>

theorem bad_interval_aborts:
  assumes "env ''ROX_COLLECTOR_SCRAPE_INTERVAL'' = Some s" "std_stoi s = Inl e"
    "json_setting cl (json_config cl env a) ''scrapeInterval'' (js_asInt (cl_json cl)) = Inr None"
    "set_log_level cl env (json_config cl env a) g = Inr g1"
  shows "InitCollectorConfig cl env ho uninit (Some a) (c, g, hi) = Inl (Uncaught e)"
  using assms
  by (simp add: InitCollectorConfig_def read_settings_def read_args_def choose_setting_def tryValue_def ParseInt_def)

definition interval_env :: "string \<Rightarrow> environment" where
  "interval_env v n = (if n = ''ROX_COLLECTOR_SCRAPE_INTERVAL'' then Some v else None)"

theorem setting_precedence_witness:
  "\<exists>c g hi. InitCollectorConfig unit_lib (interval_env ''15'') example_host 0 (Some (mk_CollectorArgs unit_json))
      (mk_CollectorConfig False None 0 0, INFO, HostInfo_init) = Inr (c, g, hi) \<and>
    cc_scrape_interval c = 15 \<and> \<not> cc_turn_off_scrape c \<and> cc_collection_method c = CORE_BPF"
proof -
  let ?env = "interval_env ''15''" and ?a = "mk_CollectorArgs unit_json"
  have "case read_settings unit_lib ?env (Some ?a) (mk_CollectorConfig False None 0 0, INFO) of
      Inl _ \<Rightarrow> False | Inr (c, g) \<Rightarrow> GetCollectionMethod c = CORE_BPF"
    by code_simp
  then obtain c g hi where c: "InitCollectorConfig unit_lib ?env example_host 0 (Some ?a)
      (mk_CollectorConfig False None 0 0, INFO, HostInfo_init) = Inr (c, g, hi)"
    using example_host_passes by (auto simp: InitCollectorConfig_def split: sum.splits)
  have "json_setting unit_lib (json_config unit_lib ?env ?a) ''scrapeInterval'' (js_asInt (cl_json unit_lib)) = Inr None"
    "json_setting unit_lib (json_config unit_lib ?env ?a) ''turnOffScrape'' (js_asBool (cl_json unit_lib)) = Inr None"
    by (simp_all add: json_setting_def unit_lib_def unit_json_def)
  note prec = setting_precedence [OF c refl this]
  have "std_stoi ''15'' = Inr 15" by code_simp
  then show ?thesis using prec c by (simp add: interval_env_def env_or_def mk_CollectorArgs_def)
qed

theorem bad_interval_aborts_witness:
  "InitCollectorConfig unit_lib (interval_env ''fast'') example_host 0 (Some (mk_CollectorArgs unit_json))
     (mk_CollectorConfig False None 0 0, INFO, HostInfo_init) = Inl (Uncaught Invalid_argument)"
proof -
  let ?env = "interval_env ''fast''" and ?a = "mk_CollectorArgs unit_json"
  have "std_stoi ''fast'' = Inl Invalid_argument" by code_simp
  moreover have "json_setting unit_lib (json_config unit_lib ?env ?a) ''scrapeInterval'' (js_asInt (cl_json unit_lib)) = Inr None"
    by (simp add: json_setting_def unit_lib_def unit_json_def)
  moreover have "set_log_level unit_lib ?env (json_config unit_lib ?env ?a) INFO = Inr INFO"
    by (simp add: set_log_level_def json_setting_def unit_lib_def unit_json_def env_opt_def interval_env_def)
  ultimately show ?thesis using bad_interval_aborts [of ?env "''fast''" Invalid_argument unit_lib ?a] by (simp add: interval_env_def)
qed

section \<open>Rates and buffers\<close>

text \<open>
  The limit per container and scrape is the exact share of the limit per minute, rounded to the nearest integer, as
  long as the product of the two settings has at most 24 bits; the floating-point arithmetic adds no error.
\<close>

theorem PerContainerRateLimit_exact:
  assumes "0 \<le> MaxConnectionsPerMinute c" "0 \<le> cc_scrape_interval c" "MaxConnectionsPerMinute c < 2 ^ 24" "cc_scrape_interval c < 2 ^ 24"
    "MaxConnectionsPerMinute c * cc_scrape_interval c < 2 ^ 24"
  shows "PerContainerRateLimit c = (MaxConnectionsPerMinute c * cc_scrape_interval c + 30) div 60"
proof -
  let ?m = "MaxConnectionsPerMinute c" and ?i = "cc_scrape_interval c"
  have p: "0 \<le> ?m * ?i" using assms(1,2) by simp
  define x where "x = ?m * ?i"
  have "x < 2 ^ 24" using assms(5) by (simp add: x_def)
  then have "2 * x < 2 ^ 53" by simp
  then have small: "2 * (?m * ?i) < 2 ^ 53" unfolding x_def .
  have "float32 (of_int ?m * of_int ?i) = of_int (?m * ?i)" using fl_of_int [OF p assms(5)] by simp
  then have "PerContainerRateLimit c = std_round (float64 (of_int (?m * ?i) / of_int 60))"
    using fl_of_int [OF assms(1,3)] fl_of_int [OF assms(2,4)] by (simp add: PerContainerRateLimit_def)
  also have "\<dots> = std_round (of_int (?m * ?i) / of_int 60)"
    by (rule std_round_fl_quotient [OF p small]) simp
  also have "\<dots> = \<lfloor>of_int (?m * ?i + 30) / (of_int 60 :: rat)\<rfloor>"
  proof -
    have "(0 :: rat) \<le> of_int (?m * ?i)" using p by (simp only: of_int_0_le_iff)
    then have "(of_int (?m * ?i) / of_int 60 :: rat) \<ge> 0" by (rule divide_nonneg_pos) simp
    moreover have "(of_int (?m * ?i) / of_int 60 + 1 / 2 :: rat) = of_int (?m * ?i + 30) / of_int 60"
      by (simp add: add_divide_distrib)
    ultimately show ?thesis by (simp only: std_round_def not_less [symmetric] if_False)
  qed
  also have "\<dots> = (?m * ?i + 30) div 60" by (rule floor_divide_of_int_eq)
  finally show ?thesis .
qed

theorem PerContainerRateLimit_exact_witness:
  "PerContainerRateLimit (mk_CollectorConfig False None 0 0) = 1024"
  using PerContainerRateLimit_exact [of "mk_CollectorConfig False None 0 0"]
  by (simp add: MaxConnectionsPerMinute_def mk_CollectorConfig_def kMaxConnectionsPerMinute_def kScrapeInterval_def)



lemma log2_floor_le: "m < 2 ^ (k + 1) \<Longrightarrow> log2_floor m \<le> k"
  using floorlog_leI [of m 2 "k + 1"] by (simp add: log2_floor_def)

lemma ceil_fdiv_exact:
  assumes "a < 2 ^ 24" "b < 2 ^ 24" "0 < b"
  shows "ceil_fdiv a b = \<lceil>of_nat a / of_nat b :: rat\<rceil>"
proof -
  have small: "int a < 2 ^ 24" "int b < 2 ^ 24" using assms(1,2) by simp_all
  then have "float32 (of_nat a) = of_int (int a)" "float32 (of_nat b) = of_int (int b)"
    using fl_of_int [of "int a" 24] fl_of_int [of "int b" 24] by simp_all
  then have "ceil_fdiv a b = \<lceil>float32 (of_int (int a) / of_int (int b))\<rceil>" by (simp only: ceil_fdiv_def)
  also have "\<dots> = \<lceil>of_int (int a) / of_int (int b) :: rat\<rceil>"
    using assms(3) small by (intro ceiling_fl_quotient) simp_all
  finally show ?thesis by simp
qed





text \<open>The scenario described beside the function: a limit of one gibibyte, buffers of eight mebibytes, one per processor, 150 processors.\<close>

definition commented_config :: CollectorConfig where
  "commented_config =
     SetHostConfig \<lparr>hc_collection_method = None, hc_num_possible_cpus = 150\<rparr>
       (SetSinspCpuPerBuffer 1 (SetSinspTotalBufferSize 0x40000000 (SetSinspBufferSize 0x800000 (mk_CollectorConfig False None 0 0))))"

lemma log2_floor_eqI: "2 ^ k \<le> m \<Longrightarrow> m < 2 ^ (k + 1) \<Longrightarrow> log2_floor m = k"
  using log2_floor_le [of m k] floorlog_ge_SucI [of 2 k m] by (simp add: log2_floor_def)

lemma commented_config_fields:
  "cc_sinsp_total_buffer_size commented_config = 0x40000000" "cc_sinsp_cpu_per_buffer commented_config = 1"
  "cc_sinsp_buffer_size commented_config = 0x800000"
  "cc_host_config commented_config = \<lparr>hc_collection_method = None, hc_num_possible_cpus = 150\<rparr>"
  by (simp_all add: commented_config_def SetHostConfig_def SetSinspCpuPerBuffer_def SetSinspTotalBufferSize_def SetSinspBufferSize_def)

lemma commented_config_size: "GetSinspBufferSize commented_config = Some 4194304"
proof -
  have "\<lceil>float32 (float32 1073741824 / float32 150)\<rceil> = 7158279" by code_simp
  then have "ceil_fdiv 1073741824 150 = 7158279" by (simp only: ceil_fdiv_def of_nat_numeral)
  moreover have "ceil_fdiv 150 1 = 150" using ceil_fdiv_exact [of 150 1] by simp
  moreover have "log2_floor 7158279 = 22" by (rule log2_floor_eqI) simp_all
  ultimately show ?thesis by (simp add: GetSinspBufferSize_def commented_config_fields)
qed




text \<open>
  The limit of all buffers is read as 64 bits and stored in 32. With a limit of four gibibytes it becomes
  zero, which means that there is no limit, so the requested size is used whatever the number of processors. In the
  scenario of the comment the size is 4 MiB and not 6 MiB as it says.
\<close>

definition limit_env :: environment where
  "limit_env n = (if n = ''ROX_COLLECTOR_SINSP_TOTAL_BUFFER_SIZE'' then Some ''4294967296'' else None)"

theorem total_buffer_limit_wraps:
  "cc_sinsp_total_buffer_size (HandleSinspEnvVars cl limit_env c) = 0 \<and>
   GetSinspBufferSize (HandleSinspEnvVars cl limit_env c) = Some (unat (fl_buffer_bytes_dim cl)) \<and>
   GetSinspBufferSize commented_config = Some (4 * 1024 * 1024)"
proof -
  have r: "std_stoll ''4294967296'' = Inr 4294967296"
    by (simp add: std_stoll_def std_read_int_def isdigit_def isspace_def less_eq_char_def decimal_value_def digit_val_def)
  have total: "cc_sinsp_total_buffer_size (HandleSinspEnvVars cl limit_env c) = 0"
    by (simp add: HandleSinspEnvVars_def try_env_def to_uint_def r limit_env_def)
  have "cc_sinsp_buffer_size (HandleSinspEnvVars cl limit_env c) = fl_buffer_bytes_dim cl"
    by (simp add: HandleSinspEnvVars_def try_env_def limit_env_def)
  then have "GetSinspBufferSize (HandleSinspEnvVars cl limit_env c) = Some (unat (fl_buffer_bytes_dim cl))"
    by (simp add: GetSinspBufferSize_def total)
  then show ?thesis using total commented_config_size by simp
qed

end
