(* ===== verification/Inspector_Service.thy ===== *)
theory Inspector_Service
  imports Process_Store Process_Signals Collector_Config
begin

text \<open>
  The service that takes events from the kernel and gives them to the signal handlers: \<^verbatim>\<open>system-inspector/Service.cpp\<close>
  with the handlers of \<^verbatim>\<open>SelfCheckHandler.cpp\<close>. A signal handler is the record of its virtual functions on a state
  \<open>'s\<close> that all handlers share. The inspector is the Falco library: what it returns in each turn of the loop, its
  thread table and the clock are arguments. A failure is an exception, a fatal log message, or undefined behaviour.
\<close>

section \<open>Events and handlers\<close>

datatype svc_failure = Exception string | Fatal_log string | Undefined

text \<open>An event with what the inspector and the extractor tell the service and the handlers about it.\<close>

record svc_event =
  se_type :: nat
  se_internal :: bool
  se_ts :: u64
  se_thread :: "thread option"
  se_comm :: "string option"
  se_exe :: "string option"
  se_server_port :: "u16 option"
  se_client_port :: "u16 option"
  se_net :: sinsp_evt
  se_proc :: process_evt
  se_clock :: "int \<times> int \<times> int"
  se_uuid :: string

text \<open>\<open>h_handle\<close> takes the time of the steady clock in nanoseconds, read once for the handlers of one event.\<close>

record 's handler =
  h_name :: string
  h_relevant :: "string list"
  h_start :: "'s \<Rightarrow> bool \<times> 's"
  h_stop :: "'s \<Rightarrow> svc_failure + bool \<times> 's"
  h_handle :: "int \<Rightarrow> svc_event \<Rightarrow> 's \<Rightarrow> svc_failure + SignalResult \<times> 's"
  h_existing :: "thread \<Rightarrow> 's \<Rightarrow> svc_failure + SignalResult \<times> 's"

section \<open>Self checks\<close>

definition kSelfChecksExePath :: string where "kSelfChecksExePath = ''/usr/local/bin/self-checks''"
definition kSelfChecksName :: string where "kSelfChecksName = ''self-checks''"
definition kSelfCheckServerPort :: u16 where "kSelfCheckServerPort = 13037"

record SelfCheckHandler =
  sc_start :: int
  sc_timeout :: int

definition mk_SelfCheckHandler :: "int \<Rightarrow> SelfCheckHandler" where
  "mk_SelfCheckHandler now = \<lparr>sc_start = now, sc_timeout = 5000000000\<rparr>"

definition isSelfCheckEvent :: "svc_event \<Rightarrow> bool" where
  "isSelfCheckEvent evt =
     (case (se_comm evt, se_exe evt) of
        (Some name, Some exe) \<Rightarrow> name = kSelfChecksName \<and> exe = kSelfChecksExePath
      | _ \<Rightarrow> False)"

definition hasTimedOut :: "SelfCheckHandler \<Rightarrow> int \<Rightarrow> bool" where
  "hasTimedOut sc now \<longleftrightarrow> now > sc_start sc + sc_timeout sc"

definition SelfCheckProcess_HandleSignal :: "SelfCheckHandler \<Rightarrow> int \<Rightarrow> svc_event \<Rightarrow> SignalResult" where
  "SelfCheckProcess_HandleSignal sc now evt =
     (if hasTimedOut sc now then SIG_FINISHED
      else if isSelfCheckEvent evt then SIG_FINISHED
      else SIG_IGNORED)"

definition SelfCheckNetwork_HandleSignal :: "SelfCheckHandler \<Rightarrow> int \<Rightarrow> svc_event \<Rightarrow> SignalResult" where
  "SelfCheckNetwork_HandleSignal sc now evt =
     (if hasTimedOut sc now then SIG_FINISHED
      else if \<not> isSelfCheckEvent evt then SIG_IGNORED
      else case (se_server_port evt, se_client_port evt) of
             (Some server_port, Some client_port) \<Rightarrow>
               if server_port = kSelfCheckServerPort \<and> client_port \<noteq> - 1 then SIG_FINISHED else SIG_IGNORED
           | _ \<Rightarrow> SIG_IGNORED)"

definition base_handler :: "string \<Rightarrow> string list \<Rightarrow> (int \<Rightarrow> svc_event \<Rightarrow> 's \<Rightarrow> svc_failure + SignalResult \<times> 's) \<Rightarrow> 's handler" where
  "base_handler name relevant handle =
     \<lparr>h_name = name, h_relevant = relevant, h_start = (\<lambda>s. (True, s)), h_stop = (\<lambda>s. Inr (True, s)), h_handle = handle,
      h_existing = (\<lambda>tinfo s. Inr (SIG_IGNORED, s))\<rparr>"

definition SelfCheckProcessHandler :: "int \<Rightarrow> 's handler" where
  "SelfCheckProcessHandler start =
     base_handler ''SelfCheckProcessHandler'' [''execve<'']
       (\<lambda>now evt s. Inr (SelfCheckProcess_HandleSignal (mk_SelfCheckHandler start) now evt, s))"

definition SelfCheckNetworkHandler :: "int \<Rightarrow> 's handler" where
  "SelfCheckNetworkHandler start =
     base_handler ''SelfCheckNetworkHandler'' [''close<'', ''shutdown<'', ''connect<'', ''accept<'', ''listen<'']
       (\<lambda>now evt s. Inr (SelfCheckNetwork_HandleSignal (mk_SelfCheckHandler start) now evt, s))"

section \<open>The service\<close>

record svc_stats =
  ss_nUserspaceEvents :: "nat \<Rightarrow> nat"
  ss_nFilteredEvents :: "nat \<Rightarrow> nat"
  ss_event_parse_micros :: "nat \<Rightarrow> int"
  ss_event_process_micros :: "nat \<Rightarrow> int"

type_synonym bitset = "nat \<Rightarrow> bool"

text \<open>\<open>sv_inspector\<close> says whether there is an inspector; the requests for process information are in \<open>sv_store\<close>.\<close>

record 's service =
  sv_inspector :: bool
  sv_signal_handlers :: "('s handler \<times> bitset) list"
  sv_userspace_stats :: svc_stats
  sv_global_event_filter :: bitset
  sv_running :: bool
  sv_store :: store
  sv_timestamp_distant_past :: nat
  sv_timestamp_future :: nat

fun set_ids :: "nat list \<Rightarrow> bitset \<Rightarrow> bitset" where
  "set_ids [] f = f"
| "set_ids (i # is) f = set_ids is (f(i := True))"

fun filter_loop :: "EventNames \<Rightarrow> string list \<Rightarrow> bitset \<times> bitset \<Rightarrow> string + bitset \<times> bitset" where
  "filter_loop en [] fs = Inr fs"
| "filter_loop en (name # names) (event_filter, global) =
     (case GetEventIDs en name of
        Inl e \<Rightarrow> Inl e
      | Inr ids \<Rightarrow> filter_loop en names (set_ids ids event_filter, set_ids ids global))"

definition AddSignalHandler :: "EventNames \<Rightarrow> 's handler \<Rightarrow> 's service \<Rightarrow> svc_failure + 's service" where
  "AddSignalHandler en h sv =
     (if h_relevant h = []
      then Inr (sv\<lparr>sv_signal_handlers := sv_signal_handlers sv @ [(h, \<lambda>_. True)]\<rparr>)
      else case filter_loop en (h_relevant h) (\<lambda>_. False, sv_global_event_filter sv) of
             Inl e \<Rightarrow> Inl (Exception e)
           | Inr (event_filter, global) \<Rightarrow>
               Inr (sv\<lparr>sv_signal_handlers := sv_signal_handlers sv @ [(h, event_filter)], sv_global_event_filter := global\<rparr>))"

definition ShouldHandle :: "bitset \<Rightarrow> svc_event \<Rightarrow> bool" where
  "ShouldHandle event_filter evt \<longleftrightarrow> event_filter (se_type evt)"

text \<open>Processes whose events are never wanted: the container runtime itself, and what runs from its own image.\<close>

definition FilterEvent_tinfo :: "thread option \<Rightarrow> bool" where
  "FilterEvent_tinfo tinfo =
     (case tinfo of
        None \<Rightarrow> False
      | Some t \<Rightarrow>
          (let exepath = ti_exepath (th_info t)
           in if (exepath = ''runc'' \<or> exepath = ''/usr/bin/runc'') \<and> ti_comm (th_info t) = ''6'' then False
              else (let sv = (case str_rfind exepath '':'' of None \<Rightarrow> exepath | Some marker \<Rightarrow> drop (marker + 1) exepath)
                    in \<not> matches_at sv ''/proc/self'' 0)))"

definition FilterEvent :: "svc_event \<Rightarrow> bool" where
  "FilterEvent evt = FilterEvent_tinfo (se_thread evt)"

text \<open>One call of the inspector: the event, if there is one, and the time before and after.\<close>

record next_input =
  ni_event :: "svc_event option"
  ni_before :: int
  ni_after :: int

definition Service_GetNext :: "bool \<Rightarrow> next_input \<Rightarrow> 's service \<Rightarrow> svc_event option \<times> 's service" where
  "Service_GetNext is_rhel76 inp sv =
     (case ni_event inp of
        None \<Rightarrow> (None, sv)
      | Some evt \<Rightarrow>
          if se_internal evt then (None, sv)
          else if is_rhel76 \<and> \<not> sv_global_event_filter sv (se_type evt) then (None, sv)
          else (let t = se_type evt; st = sv_userspace_stats sv;
                    st1 = st\<lparr>ss_event_parse_micros := (ss_event_parse_micros st)(t := ss_event_parse_micros st t + (ni_after inp - ni_before inp)),
                             ss_nUserspaceEvents := (ss_nUserspaceEvents st)(t := ss_nUserspaceEvents st t + 1)\<rparr>
                in if \<not> FilterEvent evt then (None, sv\<lparr>sv_userspace_stats := st1\<rparr>)
                   else (Some evt, sv\<lparr>sv_userspace_stats :=
                           st1\<lparr>ss_nFilteredEvents := (ss_nFilteredEvents st1)(t := ss_nFilteredEvents st1 t + 1)\<rparr>\<rparr>)))"

definition LogUnreasonableEventTime :: "int \<Rightarrow> svc_event \<Rightarrow> 's service \<Rightarrow> 's service" where
  "LogUnreasonableEventTime time_micros evt sv =
     (let evt_ts = uint (se_ts evt) div 1000;
          time_diff = time_micros - evt_ts;
          sv1 = (if time_diff > 3600000000 then sv\<lparr>sv_timestamp_distant_past := sv_timestamp_distant_past sv + 1\<rparr> else sv)
      in if time_diff < - 5000000 then sv1\<lparr>sv_timestamp_future := sv_timestamp_future sv1 + 1\<rparr> else sv1)"

text \<open>The threads known to the inspector, visited until one fails; \<open>None\<close> is a missing thread table.\<close>

fun existing_loop :: "'s handler \<Rightarrow> thread list \<Rightarrow> 's \<Rightarrow> svc_failure + bool \<times> 's" where
  "existing_loop h [] s = Inr (True, s)"
| "existing_loop h (t # ts) s =
     (if ti_container_id (th_info t) \<noteq> [] \<and> th_is_main t
      then (case h_existing h t s of
              Inl e \<Rightarrow> Inl e
            | Inr (result, s') \<Rightarrow>
                if result = SIG_ERROR \<or> result = SIG_NEEDS_REFRESH then Inr (False, s') else existing_loop h ts s')
      else existing_loop h ts s)"

definition SendExistingProcesses :: "bool \<Rightarrow> thread list option \<Rightarrow> 's handler \<Rightarrow> 's \<Rightarrow> svc_failure + bool \<times> 's" where
  "SendExistingProcesses inspector threads h s =
     (if \<not> inspector then Inl (Exception ''Invalid state: system inspector was not initialized'')
      else case threads of None \<Rightarrow> Inr (False, s) | Some ts \<Rightarrow> existing_loop h ts s)"

text \<open>One turn of the loop: the thread table for requests and refreshes, what the inspector returns, and the clocks.\<close>

record turn =
  tu_lookup :: "u64 \<Rightarrow> proc_info option"
  tu_next :: next_input
  tu_threads :: "thread list option"
  tu_now :: int
  tu_start :: int
  tu_end :: int

text \<open>The handlers in order; the service is returned with the handlers that are left.\<close>

definition keep_entry :: "'a \<Rightarrow> 'e + 'a list \<times> 'x \<Rightarrow> 'e + 'a list \<times> 'x" where
  "keep_entry a r = map_sum id (\<lambda>(hs, x). (a # hs, x)) r"

fun dispatch ::
  "turn \<Rightarrow> svc_event \<Rightarrow> ('s handler \<times> bitset) list \<Rightarrow> 's service \<times> 's \<Rightarrow> svc_failure + ('s handler \<times> bitset) list \<times> 's service \<times> 's" where
  "dispatch tu evt [] (sv, s) = Inr ([], sv, s)"
| "dispatch tu evt ((h, f) # hs) (sv, s) =
     (if \<not> ShouldHandle f evt then keep_entry (h, f) (dispatch tu evt hs (sv, s))
      else (let sv1 = LogUnreasonableEventTime (tu_start tu) evt sv
               in case h_handle h (tu_now tu) evt s of
                    Inl e \<Rightarrow> Inl e
                  | Inr (result, s1) \<Rightarrow>
                      if result = SIG_NEEDS_REFRESH
                      then (case SendExistingProcesses (sv_inspector sv1) (tu_threads tu) h s1 of
                              Inl e \<Rightarrow> Inl e
                            | Inr (sent, s2) \<Rightarrow>
                                if \<not> sent then keep_entry (h, f) (dispatch tu evt hs (sv1, s2))
                                else (case h_handle h (tu_now tu) evt s2 of
                                        Inl e \<Rightarrow> Inl e
                                      | Inr (_, s3) \<Rightarrow> keep_entry (h, f) (dispatch tu evt hs (sv1, s3))))
                      else if result = SIG_FINISHED then Inr (hs, sv1, s1)
                      else keep_entry (h, f) (dispatch tu evt hs (sv1, s1))))"

definition run_turn :: "bool \<Rightarrow> turn \<Rightarrow> 's service \<times> 's \<Rightarrow> svc_failure + 's service \<times> 's" where
  "run_turn is_rhel76 tu st =
     (let (sv0, s) = st; sv1 = sv0\<lparr>sv_store := ServePendingProcessRequests (tu_lookup tu) (sv_store sv0)\<rparr>
      in case Service_GetNext is_rhel76 (tu_next tu) sv1 of
           (None, sv2) \<Rightarrow> Inr (sv2, s)
         | (Some evt, sv2) \<Rightarrow>
             (case dispatch tu evt (sv_signal_handlers sv2) (sv2, s) of
                Inl e \<Rightarrow> Inl e
              | Inr (hs, sv3, s') \<Rightarrow>
                  (let t = se_type evt; us = sv_userspace_stats sv3
                   in Inr (sv3\<lparr>sv_signal_handlers := hs,
                               sv_userspace_stats := us\<lparr>ss_event_process_micros :=
                                 (ss_event_process_micros us)(t := ss_event_process_micros us t + (tu_end tu - tu_start tu))\<rparr>\<rparr>, s'))))"

text \<open>The turns that start while the control value says so.\<close>

fun run_loop :: "bool \<Rightarrow> turn list \<Rightarrow> 's service \<times> 's \<Rightarrow> svc_failure + 's service \<times> 's" where
  "run_loop is_rhel76 [] st = Inr st"
| "run_loop is_rhel76 (tu # tus) st =
     (case run_turn is_rhel76 tu st of Inl e \<Rightarrow> Inl e | Inr st' \<Rightarrow> run_loop is_rhel76 tus st')"

definition Run :: "bool \<Rightarrow> turn list \<Rightarrow> 's service \<times> 's \<Rightarrow> svc_failure + 's service \<times> 's" where
  "Run is_rhel76 turns st =
     (if \<not> sv_inspector (fst st) then Inl (Exception ''Invalid state: system inspector was not initialized'')
      else run_loop is_rhel76 turns st)"

definition start_handlers :: "('s handler \<times> bitset) list \<Rightarrow> 's \<Rightarrow> svc_failure + 's" where
  "start_handlers hs s =
     foldl (\<lambda>r (h, f). case r of
         Inl e \<Rightarrow> Inl e
       | Inr s \<Rightarrow> (let (ok, s') = h_start h s
                   in if ok then Inr s' else Inl (Fatal_log (''Error starting signal handler '' @ h_name h))))
       (Inr s) hs"

text \<open>Starting: the handlers first, then the capture; the process of the self checks runs on its own.\<close>

definition Start :: "'s service \<times> 's \<Rightarrow> svc_failure + 's service \<times> 's" where
  "Start st =
     (let (sv, s) = st
      in if \<not> sv_inspector sv then Inl (Exception ''Invalid state: system inspector was not initialized'')
         else case start_handlers (sv_signal_handlers sv) s of
                Inl e \<Rightarrow> Inl e
              | Inr s' \<Rightarrow> Inr (sv\<lparr>sv_running := True\<rparr>, s'))"

fun stop_handlers :: "('s handler \<times> bitset) list \<Rightarrow> 's \<Rightarrow> svc_failure + 's" where
  "stop_handlers [] s = Inr s"
| "stop_handlers ((h, f) # hs) s = (case h_stop h s of Inl e \<Rightarrow> Inl e | Inr (_, s') \<Rightarrow> stop_handlers hs s')"

text \<open>Closing an inspector that is not there would be undefined.\<close>

definition CleanUp :: "'s service \<times> 's \<Rightarrow> svc_failure + 's service \<times> 's" where
  "CleanUp st =
     (let (sv, s) = st
      in if \<not> sv_inspector sv then Inl Undefined
         else case stop_handlers (sv_signal_handlers sv) s of
                Inl e \<Rightarrow> Inl e
              | Inr s' \<Rightarrow> Inr (sv\<lparr>sv_running := False, sv_inspector := False, sv_signal_handlers := [],
                                   sv_store := cancel_requests (sv_store sv)\<rparr>, s'))"

record capture_stats =
  cs_n_evts :: nat
  cs_n_drops :: nat
  cs_n_drops_buffer :: nat
  cs_n_preemptions :: nat
  cs_thread_count :: nat
  cs_drops_full_threadtable :: "nat option"

record inspector_stats =
  nEvents :: nat
  nDrops :: nat
  nDropsBuffer :: nat
  nPreemptions :: nat
  nThreadCacheSize :: nat
  nDropsThreadCache :: nat
  nUserspace :: svc_stats

text \<open>The counter of dropped threads keeps its initial zero if the inspector has no statistics of its own.\<close>

definition GetStats :: "capture_stats \<Rightarrow> 's service \<Rightarrow> inspector_stats option" where
  "GetStats cs sv =
     (if \<not> sv_running sv \<or> \<not> sv_inspector sv then None
      else Some \<lparr>nEvents = cs_n_evts cs, nDrops = cs_n_drops cs, nDropsBuffer = cs_n_drops_buffer cs, nPreemptions = cs_n_preemptions cs,
                 nThreadCacheSize = cs_thread_count cs,
                 nDropsThreadCache = (case cs_drops_full_threadtable cs of Some n \<Rightarrow> n | None \<Rightarrow> 0),
                 nUserspace = sv_userspace_stats sv\<rparr>)"

section \<open>Setting it up\<close>

text \<open>What the constructor tells the inspector, with the numbers of the container engines of the Falco
  library, which are small: the code shifts an \<^verbatim>\<open>int\<close>.\<close>

record engine_types =
  CT_CRI :: nat
  CT_CRIO :: nat
  CT_CONTAINERD :: nat
  CT_DOCKER :: nat
  CT_PODMAN :: nat

record inspector_settings =
  is_snaplen :: nat
  is_min_log_severity :: LogLevel
  is_import_users :: bool
  is_thread_timeout_s :: nat
  is_auto_threads_purging_interval_s :: nat
  is_max_thread_table_size :: u32
  is_track_connection_status :: bool
  is_container_engine_mask :: "u64 option"
  is_container_labels_max_len :: "nat option"
  is_own_container_engine :: bool
  is_filter :: string

definition engine_mask :: "engine_types \<Rightarrow> CollectorConfig \<Rightarrow> u64" where
  "engine_mask ct c =
     (let mask = push_bit (CT_CRI ct) 1 OR push_bit (CT_CRIO ct) 1 OR push_bit (CT_CONTAINERD ct) 1;
          mask1 = (if cc_use_docker_ce c then mask OR push_bit (CT_DOCKER ct) 1 else mask)
      in if cc_use_podman_ce c then mask1 OR push_bit (CT_PODMAN ct) 1 else mask1)"

definition setup_inspector :: "engine_types \<Rightarrow> LogLevel \<Rightarrow> CollectorConfig \<Rightarrow> inspector_settings" where
  "setup_inspector ct g_level c =
     \<lparr>is_snaplen = 0, is_min_log_severity = g_level, is_import_users = cc_import_users c, is_thread_timeout_s = 30,
      is_auto_threads_purging_interval_s = 60, is_max_thread_table_size = cc_sinsp_thread_cache_size c,
      is_track_connection_status = cc_collect_connection_status c,
      is_container_engine_mask = (if cc_enable_runtime_config c then Some (engine_mask ct c) else None),
      is_container_labels_max_len = (if cc_enable_runtime_config c then Some 255 else None),
      is_own_container_engine = (\<not> cc_enable_runtime_config c),
      is_filter = ''container.id != '' @ [CHR 0x27] @ ''host'' @ [CHR 0x27]\<rparr>"

datatype signal_client_kind = Nats_client string string | Grpc_client | Stdout_client

text \<open>\<open>have_nats\<close> says whether the support for NATS is compiled in.\<close>

definition select_client :: "bool \<Rightarrow> bool \<Rightarrow> CollectorConfig \<Rightarrow> signal_client_kind" where
  "select_client have_nats grpc_channel c =
     (case cc_nats_url c of
        Some url \<Rightarrow>
          if have_nats \<and> url \<noteq> [] then Nats_client url (cc_cluster_id c)
          else if grpc_channel then Grpc_client else Stdout_client
      | None \<Rightarrow> if grpc_channel then Grpc_client else Stdout_client)"

definition empty_service :: "bool \<Rightarrow> 's service" where
  "empty_service instance =
     \<lparr>sv_inspector = True, sv_signal_handlers = [],
      sv_userspace_stats = \<lparr>ss_nUserspaceEvents = (\<lambda>_. 0), ss_nFilteredEvents = (\<lambda>_. 0), ss_event_parse_micros = (\<lambda>_. 0), ss_event_process_micros = (\<lambda>_. 0)\<rparr>,
      sv_global_event_filter = (\<lambda>_. False), sv_running = False, sv_store = mk_ProcessStore instance,
      sv_timestamp_distant_past = 0, sv_timestamp_future = 0\<rparr>"

text \<open>The self checks come first, then the handler of process signals; a service with self checks only is an internal error.\<close>

definition mk_Service :: "EventNames \<Rightarrow> int \<Rightarrow> 's handler \<Rightarrow> svc_failure + 's service" where
  "mk_Service en start process_handler =
     (case AddSignalHandler en (SelfCheckProcessHandler start) (empty_service True) of Inl e \<Rightarrow> Inl e | Inr sv1 \<Rightarrow>
     (case AddSignalHandler en (SelfCheckNetworkHandler start) sv1 of Inl e \<Rightarrow> Inl e | Inr sv2 \<Rightarrow>
     (case AddSignalHandler en process_handler sv2 of Inl e \<Rightarrow> Inl e | Inr sv3 \<Rightarrow>
        if length (sv_signal_handlers sv3) = 2 then Inl (Fatal_log ''Internal error: There are no signal handlers.'') else Inr sv3)))"

section \<open>The handlers of the collector\<close>

text \<open>The shared state: the handler of process signals with its client, and the connection tracker.\<close>

record 'c world =
  w_process :: "'c ProcessSignalHandler"
  w_tracker :: ConnectionTracker

definition process_handle ::
  "(ProcessSignal \<Rightarrow> 'c \<Rightarrow> (SignalResult \<times> 'c) option) \<Rightarrow> (string \<Rightarrow> nat) \<Rightarrow> bool \<Rightarrow> ProcessSignalType EventMap \<Rightarrow>
   int \<Rightarrow> svc_event \<Rightarrow> 'c world \<Rightarrow> svc_failure + SignalResult \<times> 'c world" where
  "process_handle push utf8_span disable_arguments types now evt w =
     (case HandleProcessSignal push (se_clock evt) utf8_span (se_uuid evt) disable_arguments types (se_proc evt) (w_process w) of
        Inl e \<Rightarrow> Inl (Exception e)
      | Inr None \<Rightarrow> Inl Undefined
      | Inr (Some (result, h)) \<Rightarrow> Inr (result, w\<lparr>w_process := h\<rparr>))"

definition process_existing ::
  "(ProcessSignal \<Rightarrow> 'c \<Rightarrow> (SignalResult \<times> 'c) option) \<Rightarrow> (string \<Rightarrow> nat) \<Rightarrow> int \<times> int \<times> int \<Rightarrow> string \<Rightarrow>
   thread \<Rightarrow> 'c world \<Rightarrow> svc_failure + SignalResult \<times> 'c world" where
  "process_existing push utf8_span clock uuid t w =
     (case HandleExistingProcess push clock utf8_span uuid (Some t) (w_process w) of
        None \<Rightarrow> Inl Undefined
      | Some (result, h) \<Rightarrow> Inr (result, w\<lparr>w_process := h\<rparr>))"

text \<open>Starting starts the client; stopping stops it, where that is defined, and forgets the rate limits.\<close>

definition process_start :: "('c \<Rightarrow> 'c) \<Rightarrow> 'c world \<Rightarrow> bool \<times> 'c world" where
  "process_start start_client w = (True, w\<lparr>w_process := (w_process w)\<lparr>ph_client := start_client (ph_client (w_process w))\<rparr>\<rparr>)"

definition process_stop :: "('c \<Rightarrow> 'c option) \<Rightarrow> 'c world \<Rightarrow> svc_failure + bool \<times> 'c world" where
  "process_stop stop_client w =
     (case ProcessSignalHandler_Stop stop_client (w_process w) of
        None \<Rightarrow> Inl Undefined
      | Some h \<Rightarrow> Inr (True, w\<lparr>w_process := h\<rparr>))"

definition process_signal_handler ::
  "('c \<Rightarrow> 'c) \<Rightarrow> ('c \<Rightarrow> 'c option) \<Rightarrow> (ProcessSignal \<Rightarrow> 'c \<Rightarrow> (SignalResult \<times> 'c) option) \<Rightarrow> (string \<Rightarrow> nat) \<Rightarrow> bool \<Rightarrow>
   ProcessSignalType EventMap \<Rightarrow> int \<times> int \<times> int \<Rightarrow> string \<Rightarrow> 'c world handler" where
  "process_signal_handler start_client stop_client push utf8_span disable_arguments types clock uuid =
     (base_handler ''ProcessSignalHandler'' [''execve<''] (process_handle push utf8_span disable_arguments types))
       \<lparr>h_start := process_start start_client, h_stop := process_stop stop_client,
        h_existing := process_existing push utf8_span clock uuid\<rparr>"

definition network_handle :: "Modifier EventMap \<Rightarrow> NetworkSignalHandler \<Rightarrow> int \<Rightarrow> svc_event \<Rightarrow> 'c world \<Rightarrow> svc_failure + SignalResult \<times> 'c world" where
  "network_handle mods nh now evt w =
     (case HandleSignal mods nh (se_net evt) (w_tracker w) of
        Inl e \<Rightarrow> Inl (Exception e)
      | Inr (result, ct) \<Rightarrow> Inr (result, w\<lparr>w_tracker := ct\<rparr>))"

text \<open>Its \<^verbatim>\<open>Stop\<close> clears the wrappers of the extractor only, which belong to the inspector.\<close>

definition network_signal_handler :: "Modifier EventMap \<Rightarrow> NetworkSignalHandler \<Rightarrow> 'c world handler" where
  "network_signal_handler mods nh = base_handler ''NetworkSignalHandler'' (GetRelevantEvents nh) (network_handle mods nh)"

section \<open>Handlers that stay\<close>

lemma keep_entry_Inr: "keep_entry a r = Inr (hs', x) \<longleftrightarrow> (\<exists>hs1. r = Inr (hs1, x) \<and> hs' = a # hs1)"
  by (cases r) (auto simp: keep_entry_def)

text \<open>What one handler does to the dispatch: it stays and the others follow, or it has finished and ends the turn.\<close>

lemma dispatch_Cons_cases:
  assumes "dispatch tu evt ((h, f) # hs) st = Inr (hs', st')"
  obtains (kept) st1 hs1 where "dispatch tu evt hs st1 = Inr (hs1, st')" "hs' = (h, f) # hs1"
  | (finished) "hs' = hs" "\<exists>s1 s2. h_handle h (tu_now tu) evt s1 = Inr (SIG_FINISHED, s2)"
proof -
  obtain sv s where st: "st = (sv, s)" by force
  show ?thesis
    using assms kept finished unfolding st
    by (simp add: Let_def keep_entry_Inr split: if_splits sum.splits prod.splits; blast)
qed

text \<open>A handler that never says it has finished, as all but the self checks.\<close>

locale steady_handler =
  fixes h :: "'s handler"
  assumes never_finished: "h_handle h now evt s = Inr (r, s') \<Longrightarrow> r \<noteq> SIG_FINISHED"
begin

lemma dispatch_Cons_steady:
  assumes "dispatch tu evt ((h, f) # hs) st = Inr (hs', st')"
  obtains st1 hs1 where "dispatch tu evt hs st1 = Inr (hs1, st')" "hs' = (h, f) # hs1"
  using assms by (rule dispatch_Cons_cases) (auto dest: never_finished)

end

lemma dispatch_steady:
  assumes "dispatch tu evt hs st = Inr (hs', st')" and "\<forall>h \<in> fst ` set hs. steady_handler h"
  shows "hs' = hs"
  using assms
proof (induction hs arbitrary: st hs')
  case Nil
  then show ?case by (cases st) simp
next
  case (Cons a hs)
  obtain h f where a: "a = (h, f)" by force
  have "steady_handler h" using Cons.prems(2) a by simp
  from steady_handler.dispatch_Cons_steady [OF this Cons.prems(1) [unfolded a]] obtain st1 hs1
    where d: "dispatch tu evt hs st1 = Inr (hs1, st')" "hs' = (h, f) # hs1" .
  have "hs1 = hs" by (rule Cons.IH [OF d(1)]) (use Cons.prems(2) in auto)
  then show ?case using d a by simp
qed

lemma dispatch_keeps_suffix:
  assumes "dispatch tu evt (pre @ keep) st = Inr (hs', st')" and "\<forall>h \<in> fst ` set keep. steady_handler h"
  shows "\<exists>pre'. hs' = pre' @ keep \<and> subseq pre' pre"
  using assms(1)
proof (induction pre arbitrary: st hs')
  case Nil
  from dispatch_steady [OF this [unfolded append_Nil] assms(2)] show ?case by simp
next
  case (Cons a pre)
  obtain h f where a: "a = (h, f)" by force
  from Cons.prems [unfolded a append_Cons] show ?case
  proof (cases rule: dispatch_Cons_cases)
    case (kept st1 hs1)
    from Cons.IH [OF kept(1)] obtain pre' where "hs1 = pre' @ keep" "subseq pre' pre" by blast
    then show ?thesis using kept(2) a by (intro exI [of _ "a # pre'"]) simp
  next
    case finished
    then show ?thesis by (intro exI [of _ pre]) (auto intro: list_emb_Cons)
  qed
qed

lemma run_turn_keeps_suffix:
  assumes "run_turn is_rhel76 tu (sv, s) = Inr (sv', s')" and "sv_signal_handlers sv = pre @ keep"
    and "\<forall>h \<in> fst ` set keep. steady_handler h"
  shows "\<exists>pre'. sv_signal_handlers sv' = pre' @ keep \<and> subseq pre' pre"
proof -
  define sv1 where "sv1 = sv\<lparr>sv_store := ServePendingProcessRequests (tu_lookup tu) (sv_store sv)\<rparr>"
  obtain e sv2 where g: "Service_GetNext is_rhel76 (tu_next tu) sv1 = (e, sv2)" by force
  have hs: "sv_signal_handlers sv2 = pre @ keep"
    using g assms(2) by (auto simp: Service_GetNext_def sv1_def Let_def split: option.splits if_splits)
  show ?thesis
  proof (cases e)
    case None
    then show ?thesis using assms(1) hs g by (auto simp: run_turn_def sv1_def)
  next
    case (Some evt)
    from assms(1) obtain hs' sv3 where d: "dispatch tu evt (sv_signal_handlers sv2) (sv2, s) = Inr (hs', sv3, s')"
      and "sv_signal_handlers sv' = hs'"
      by (auto simp: run_turn_def sv1_def [symmetric] g Some Let_def split: sum.splits)
    then show ?thesis using dispatch_keeps_suffix [OF _ assms(3)] hs by metis
  qed
qed

lemma run_loop_keeps_suffix:
  assumes "run_loop is_rhel76 turns (sv, s) = Inr (sv', s')" and "sv_signal_handlers sv = pre @ keep"
    and "\<forall>h \<in> fst ` set keep. steady_handler h"
  shows "\<exists>pre'. sv_signal_handlers sv' = pre' @ keep \<and> subseq pre' pre"
  using assms(1,2)
proof (induction turns arbitrary: sv s pre)
  case Nil
  then show ?case by auto
next
  case (Cons tu turns)
  from Cons.prems(1) obtain sv1 s1 where t: "run_turn is_rhel76 tu (sv, s) = Inr (sv1, s1)"
    and l: "run_loop is_rhel76 turns (sv1, s1) = Inr (sv', s')" by (auto split: sum.splits)
  from run_turn_keeps_suffix [OF t Cons.prems(2) assms(3)] obtain pre1
    where p1: "sv_signal_handlers sv1 = pre1 @ keep" "subseq pre1 pre" by blast
  with Cons.IH [OF l p1(1)] show ?case using subseq_order.order_trans by blast
qed

context signal_client
begin

lemma send_signal_never_finished: "send_signal push clock s h = Some (r, h') \<Longrightarrow> r \<noteq> SIG_FINISHED"
  using push_ignores_nothing [of s "ph_client h"]
  by (auto simp: send_signal_def Let_def split: option.splits if_splits)

end

sublocale signal_client \<subseteq> process: steady_handler "process_signal_handler start_client stop_client push utf8_span disable_arguments types clock uuid"
  for start_client stop_client utf8_span disable_arguments types clock uuid
  by unfold_locales
    (auto simp: process_signal_handler_def base_handler_def process_handle_def HandleProcessSignal_def Let_def
       dest: send_signal_never_finished split: option.splits sum.splits if_splits)

interpretation network: steady_handler "network_signal_handler mods nh"
  by unfold_locales
    (auto simp: network_signal_handler_def base_handler_def network_handle_def HandleSignal_def Let_def
       split: option.splits sum.splits if_splits)

text \<open>Dispatching changes only the counters of suspicious times, so it keeps the statistics, the filter and the requests.\<close>

definition same_books :: "'s service \<Rightarrow> 's service \<Rightarrow> bool" where
  "same_books a b \<longleftrightarrow> sv_userspace_stats a = sv_userspace_stats b \<and> sv_global_event_filter a = sv_global_event_filter b \<and>
     sv_inspector a = sv_inspector b \<and> sv_store a = sv_store b \<and> sv_running a = sv_running b"

lemma LogUnreasonableEventTime_books [simp]: "same_books (LogUnreasonableEventTime t evt sv) sv"
  by (simp add: LogUnreasonableEventTime_def same_books_def Let_def)

lemma same_books_trans: "same_books a b \<Longrightarrow> same_books b c \<Longrightarrow> same_books a c"
  by (simp add: same_books_def)

lemma dispatch_books:
  "dispatch tu evt hs (sv, s) = Inr (hs', sv', s') \<Longrightarrow> same_books sv' sv"
proof (induction hs arbitrary: sv s hs')
  case Nil
  then show ?case by (simp add: same_books_def)
next
  case (Cons a hs)
  obtain h f where a: "a = (h, f)" by force
  let ?sv1 = "LogUnreasonableEventTime (tu_start tu) evt sv"
  have sv1: "same_books ?sv1 sv" by simp
  have "(\<exists>s1 hs1. dispatch tu evt hs (sv, s1) = Inr (hs1, sv', s')) \<or>
    (\<exists>s1 hs1. dispatch tu evt hs (?sv1, s1) = Inr (hs1, sv', s')) \<or> sv' = ?sv1"
    using Cons.prems unfolding a
    by (simp add: Let_def keep_entry_Inr split: if_splits sum.splits prod.splits; blast)
  then show ?case using Cons.IH same_books_trans sv1 by blast
qed

section \<open>What is counted\<close>

text \<open>The turns in which the inspector returned an event of type \<open>t\<close> that the service looks at.\<close>

definition looked_at :: "bool \<Rightarrow> bitset \<Rightarrow> nat \<Rightarrow> turn \<Rightarrow> bool" where
  "looked_at is_rhel76 global t tu =
     (case ni_event (tu_next tu) of
        None \<Rightarrow> False
      | Some evt \<Rightarrow> se_type evt = t \<and> \<not> se_internal evt \<and> (is_rhel76 \<longrightarrow> global t))"

definition passed_on :: "bool \<Rightarrow> bitset \<Rightarrow> nat \<Rightarrow> turn \<Rightarrow> bool" where
  "passed_on is_rhel76 global t tu \<longleftrightarrow> looked_at is_rhel76 global t tu \<and> FilterEvent (the (ni_event (tu_next tu)))"

lemma run_turn_counts:
  assumes "run_turn is_rhel76 tu (sv, s) = Inr (sv', s')"
  shows "ss_nUserspaceEvents (sv_userspace_stats sv') t =
      ss_nUserspaceEvents (sv_userspace_stats sv) t + (if looked_at is_rhel76 (sv_global_event_filter sv) t tu then 1 else 0)"
    and "ss_nFilteredEvents (sv_userspace_stats sv') t =
      ss_nFilteredEvents (sv_userspace_stats sv) t + (if passed_on is_rhel76 (sv_global_event_filter sv) t tu then 1 else 0)"
    and "sv_global_event_filter sv' = sv_global_event_filter sv"
    and "sv_store sv' = ServePendingProcessRequests (tu_lookup tu) (sv_store sv)"
proof -
  define sv1 where "sv1 = sv\<lparr>sv_store := ServePendingProcessRequests (tu_lookup tu) (sv_store sv)\<rparr>"
  obtain e sv2 where g: "Service_GetNext is_rhel76 (tu_next tu) sv1 = (e, sv2)" by force
  have "ss_nUserspaceEvents (sv_userspace_stats sv') = ss_nUserspaceEvents (sv_userspace_stats sv2) \<and>
    ss_nFilteredEvents (sv_userspace_stats sv') = ss_nFilteredEvents (sv_userspace_stats sv2) \<and>
    sv_global_event_filter sv' = sv_global_event_filter sv2 \<and> sv_store sv' = sv_store sv2"
  proof (cases e)
    case None
    then show ?thesis using assms g by (auto simp: run_turn_def sv1_def)
  next
    case (Some evt)
    from assms obtain hs' sv3 where d: "dispatch tu evt (sv_signal_handlers sv2) (sv2, s) = Inr (hs', sv3, s')"
      and r: "\<exists>m. sv' = sv3\<lparr>sv_signal_handlers := hs', sv_userspace_stats := (sv_userspace_stats sv3)\<lparr>ss_event_process_micros := m\<rparr>\<rparr>"
      by (auto simp: run_turn_def sv1_def [symmetric] g Some Let_def split: sum.splits)
    from dispatch_books [OF d] r show ?thesis by (auto simp: same_books_def)
  qed
  then have stats: "ss_nUserspaceEvents (sv_userspace_stats sv') = ss_nUserspaceEvents (sv_userspace_stats sv2)"
    "ss_nFilteredEvents (sv_userspace_stats sv') = ss_nFilteredEvents (sv_userspace_stats sv2)"
    "sv_global_event_filter sv' = sv_global_event_filter sv2" "sv_store sv' = sv_store sv2"
    by simp_all
  show "ss_nUserspaceEvents (sv_userspace_stats sv') t =
      ss_nUserspaceEvents (sv_userspace_stats sv) t + (if looked_at is_rhel76 (sv_global_event_filter sv) t tu then 1 else 0)"
    and "ss_nFilteredEvents (sv_userspace_stats sv') t =
      ss_nFilteredEvents (sv_userspace_stats sv) t + (if passed_on is_rhel76 (sv_global_event_filter sv) t tu then 1 else 0)"
    and "sv_global_event_filter sv' = sv_global_event_filter sv"
    and "sv_store sv' = ServePendingProcessRequests (tu_lookup tu) (sv_store sv)"
    using g unfolding stats
    by (auto simp: Service_GetNext_def sv1_def Let_def looked_at_def passed_on_def split: option.splits if_splits)
qed

lemma run_loop_counts:
  assumes "run_loop is_rhel76 turns (sv, s) = Inr (sv', s')"
  shows "ss_nUserspaceEvents (sv_userspace_stats sv') t =
      ss_nUserspaceEvents (sv_userspace_stats sv) t + length (filter (looked_at is_rhel76 (sv_global_event_filter sv) t) turns) \<and>
    ss_nFilteredEvents (sv_userspace_stats sv') t =
      ss_nFilteredEvents (sv_userspace_stats sv) t + length (filter (passed_on is_rhel76 (sv_global_event_filter sv) t) turns)"
  using assms
proof (induction turns arbitrary: sv s)
  case (Cons tu turns)
  from Cons.prems obtain sv1 s1 where t: "run_turn is_rhel76 tu (sv, s) = Inr (sv1, s1)"
    and l: "run_loop is_rhel76 turns (sv1, s1) = Inr (sv', s')" by (auto split: sum.splits)
  show ?case using Cons.IH [OF l] run_turn_counts [OF t] by simp
qed simp

section \<open>Properties\<close>

lemma AddSignalHandler_appends:
  assumes "AddSignalHandler en h sv = Inr sv'"
  shows "\<exists>f. sv_signal_handlers sv' = sv_signal_handlers sv @ [(h, f)] \<and> sv_inspector sv' = sv_inspector sv"
  using assms by (auto simp: AddSignalHandler_def split: if_splits sum.splits)

lemma AddSignalHandler_single:
  assumes "AddSignalHandler en h sv = Inr sv'" and "h_relevant h = [name]" and "GetEventIDs en name = Inr ids"
  shows "sv_signal_handlers sv' = sv_signal_handlers sv @ [(h, set_ids ids (\<lambda>_. False))]"
  using assms by (auto simp: AddSignalHandler_def)

lemma mk_Service_handlers:
  assumes "mk_Service en start h = Inr sv"
  shows "\<exists>f1 f2 f3. sv_signal_handlers sv = [(SelfCheckProcessHandler start, f1), (SelfCheckNetworkHandler start, f2), (h, f3)]"
  using assms
  by (auto simp: mk_Service_def empty_service_def split: sum.splits if_splits dest!: AddSignalHandler_appends)

text \<open>
  (C32) The service never loses its real handlers: whatever events a service with the handlers of process and network
  signals runs on, those two stay at the end of its list in their order, and only self checks may have left it.
\<close>

theorem service_keeps_handlers:
  assumes "mk_Service en start (process_signal_handler start_client SignalServiceClient_Stop (PushSignals evs) utf8_span disable_arguments types clock uuid) = Inr sv"
    and "AddSignalHandler en (network_signal_handler mods nh) sv = Inr sv1"
    and "Run is_rhel76 turns (sv1, w) = Inr (sv2, w')"
  shows "\<exists>checks. map (h_name \<circ> fst) (sv_signal_handlers sv2) = checks @ [''ProcessSignalHandler'', ''NetworkSignalHandler''] \<and>
    subseq checks [''SelfCheckProcessHandler'', ''SelfCheckNetworkHandler'']"
proof -
  let ?ph = "process_signal_handler start_client SignalServiceClient_Stop (PushSignals evs) utf8_span disable_arguments types clock uuid"
  obtain f1 f2 f3 f4 where hs: "sv_signal_handlers sv1 =
      [(SelfCheckProcessHandler start, f1), (SelfCheckNetworkHandler start, f2)] @ [(?ph, f3), (network_signal_handler mods nh, f4)]"
    using mk_Service_handlers [OF assms(1)] AddSignalHandler_appends [OF assms(2)] by auto
  have run: "run_loop is_rhel76 turns (sv1, w) = Inr (sv2, w')" using assms(3) by (simp add: Run_def split: if_splits)
  have steady: "\<forall>h \<in> fst ` set [(?ph, f3), (network_signal_handler mods nh, f4)]. steady_handler h"
    by (simp only: list.set image_insert image_empty fst_conv ball_simps grpc_client.process.steady_handler_axioms
        network.steady_handler_axioms simp_thms)
  from run_loop_keeps_suffix [OF run hs steady] obtain pre where
    "sv_signal_handlers sv2 = pre @ [(?ph, f3), (network_signal_handler mods nh, f4)]"
    "subseq pre [(SelfCheckProcessHandler start, f1), (SelfCheckNetworkHandler start, f2)]" by blast
  moreover from this(2) have "subseq (map (h_name \<circ> fst) pre) [''SelfCheckProcessHandler'', ''SelfCheckNetworkHandler'']"
    using subseq_map [of pre _ "h_name \<circ> fst"]
    by (fastforce simp: SelfCheckProcessHandler_def SelfCheckNetworkHandler_def base_handler_def)
  ultimately show ?thesis
    by (auto simp: process_signal_handler_def network_signal_handler_def base_handler_def)
qed

text \<open>The handlers see an event in their order: those that do not want it are passed over.\<close>

lemma dispatch_finished_first:
  assumes "ShouldHandle f evt" and "h_handle h (tu_now tu) evt s = Inr (SIG_FINISHED, s')"
  shows "dispatch tu evt ((h, f) # hs) (sv, s) = Inr (hs, LogUnreasonableEventTime (tu_start tu) evt sv, s')"
  using assms by (simp add: Let_def)

lemma set_ids_mem [simp]: "set_ids is f i \<longleftrightarrow> i \<in> set is \<or> f i"
  by (induction "is" arbitrary: f) auto

text \<open>
  A self check that times out takes an event with it: the first process event after the five seconds makes the self
  check leave the list, and no other handler gets the event, so what the handlers share is unchanged and a process
  that was started is never reported.
\<close>

theorem self_check_timeout_drops_event:
  assumes "mk_Service en start h = Inr sv" and "GetEventIDs en ''execve<'' = Inr ids" and "se_type evt \<in> set ids"
    and "Service_GetNext is_rhel76 (tu_next tu) (sv\<lparr>sv_store := ServePendingProcessRequests (tu_lookup tu) (sv_store sv)\<rparr>) = (Some evt, sv1)"
    and "tu_now tu > start + 5000000000"
  shows "\<exists>sv'. run_turn is_rhel76 tu (sv, s) = Inr (sv', s) \<and> sv_signal_handlers sv' = tl (sv_signal_handlers sv)"
proof -
  from assms(1) obtain svp svn where p: "AddSignalHandler en (SelfCheckProcessHandler start) (empty_service True) = Inr svp"
    and n: "AddSignalHandler en (SelfCheckNetworkHandler start) svp = Inr svn" and l: "AddSignalHandler en h svn = Inr sv"
    by (auto simp: mk_Service_def split: sum.splits if_splits)
  let ?f = "set_ids ids (\<lambda>_. False)"
  have "sv_signal_handlers svp = [(SelfCheckProcessHandler start, ?f)]"
    using AddSignalHandler_single [OF p _ assms(2)] by (simp add: empty_service_def SelfCheckProcessHandler_def base_handler_def)
  then obtain hs where hs: "sv_signal_handlers sv = (SelfCheckProcessHandler start, ?f) # hs"
    using AddSignalHandler_appends [OF n] AddSignalHandler_appends [OF l] by auto
  have same: "sv_signal_handlers sv1 = sv_signal_handlers sv"
    using assms(4) by (auto simp: Service_GetNext_def Let_def split: option.splits if_splits)
  have "h_handle (SelfCheckProcessHandler start) (tu_now tu) evt s = Inr (SIG_FINISHED, s)"
    using assms(5) by (simp add: SelfCheckProcessHandler_def base_handler_def SelfCheckProcess_HandleSignal_def hasTimedOut_def
        mk_SelfCheckHandler_def)
  from dispatch_finished_first [of ?f evt, OF _ this] assms(3) show ?thesis
    by (simp add: run_turn_def assms(4) same hs ShouldHandle_def Let_def)
qed

text \<open>
  Which events are dropped as the container runtime's own: those without a thread, those of runc's step \<^verbatim>\<open>6\<close>, and those
  whose executable, less everything up to its last colon, starts with \<^verbatim>\<open>/proc/self\<close>.
\<close>

theorem FilterEvent_exact:
  "FilterEvent evt \<longleftrightarrow>
     (\<exists>t. se_thread evt = Some t \<and>
        \<not> (ti_exepath (th_info t) \<in> {''runc'', ''/usr/bin/runc''} \<and> ti_comm (th_info t) = ''6'') \<and>
        \<not> (\<exists>pre rest. ti_exepath (th_info t) = pre @ ''/proc/self'' @ rest \<and> (pre = [] \<or> last pre = CHR '':'') \<and> CHR '':'' \<notin> set rest))"
proof (cases "se_thread evt")
  case (Some t)
  let ?e = "ti_exepath (th_info t)"
  define sv where "sv = (case str_rfind ?e '':'' of None \<Rightarrow> ?e | Some marker \<Rightarrow> drop (marker + 1) ?e)"
  have "\<exists>p. ?e = p @ sv \<and> (p = [] \<or> last p = CHR '':'') \<and> CHR '':'' \<notin> set sv"
  proof (cases "str_rfind ?e '':''")
    case (Some i)
    note str_rfind_char_Some [OF this]
    then show ?thesis unfolding sv_def by (intro exI [of _ "take (i + 1) ?e"]) (simp add: Some)
  next
    case None
    then show ?thesis using str_rfind_char_None [of ?e "CHR '':''"] by (simp add: sv_def)
  qed
  then obtain p where p: "?e = p @ sv" "p = [] \<or> last p = CHR '':''" and sv: "CHR '':'' \<notin> set sv" by blast
  have self: "CHR '':'' \<notin> set ''/proc/self''" by simp
  have "matches_at sv ''/proc/self'' 0 \<longleftrightarrow> (\<exists>rest. sv = ''/proc/self'' @ rest)"
    unfolding matches_at_def by (metis append_eq_conv_conj append_take_drop_id drop_0)
  also have "\<dots> \<longleftrightarrow> (\<exists>pre rest. ?e = pre @ ''/proc/self'' @ rest \<and> (pre = [] \<or> last pre = CHR '':'') \<and> CHR '':'' \<notin> set rest)"
  proof
    assume "\<exists>pre rest. ?e = pre @ ''/proc/self'' @ rest \<and> (pre = [] \<or> last pre = CHR '':'') \<and> CHR '':'' \<notin> set rest"
    then obtain pre rest where r: "?e = pre @ ''/proc/self'' @ rest" "pre = [] \<or> last pre = CHR '':''" "CHR '':'' \<notin> set rest"
      by blast
    then have "sv = ''/proc/self'' @ rest"
      using after_last_unique [of p sv pre "''/proc/self'' @ rest" "CHR '':''"] p sv self by simp
    then show "\<exists>rest. sv = ''/proc/self'' @ rest" ..
  next
    assume "\<exists>rest. sv = ''/proc/self'' @ rest"
    then obtain rest where "sv = ''/proc/self'' @ rest" by blast
    then show "\<exists>pre rest. ?e = pre @ ''/proc/self'' @ rest \<and> (pre = [] \<or> last pre = CHR '':'') \<and> CHR '':'' \<notin> set rest"
      using p sv by (intro exI [of _ p] exI [of _ rest]) simp
  qed
  finally have m: "matches_at sv ''/proc/self'' 0 \<longleftrightarrow> (\<exists>pre rest. ?e = pre @ ''/proc/self'' @ rest \<and> (pre = [] \<or> last pre = CHR '':'') \<and> CHR '':'' \<notin> set rest)" .
  show ?thesis
    unfolding FilterEvent_def FilterEvent_tinfo_def Some option.case Let_def sv_def [symmetric] m if_bool_eq_conj
    by (simp only: option.inject insert_iff empty_iff simp_thms) blast
qed (simp add: FilterEvent_def FilterEvent_tinfo_def)

text \<open>
  The statistics count what they say: over a run of the service, the events of each type that the inspector returned and
  the service looked at, and those of them that passed the filter and went to the handlers.
\<close>

theorem event_counters_exact:
  assumes "Run is_rhel76 turns (sv, s) = Inr (sv', s')"
  shows "ss_nUserspaceEvents (sv_userspace_stats sv') t =
      ss_nUserspaceEvents (sv_userspace_stats sv) t + length (filter (looked_at is_rhel76 (sv_global_event_filter sv) t) turns)"
    and "ss_nFilteredEvents (sv_userspace_stats sv') t =
      ss_nFilteredEvents (sv_userspace_stats sv) t + length (filter (passed_on is_rhel76 (sv_global_event_filter sv) t) turns)"
  using run_loop_counts [of is_rhel76 turns sv s sv' s' t] assms by (simp_all add: Run_def split: if_splits)

text \<open>
  After a clean up in which every handler could be stopped the service is closed: it has no handlers, no pending requests and no statistics to report, every
  process that waited has been told that nothing is known about it, starting or running it again is an exception, and a
  second clean up uses the inspector that is gone.
\<close>

theorem CleanUp_closes:
  assumes "store_reach (sv_store sv)" and "sv_inspector sv" and "stop_handlers (sv_signal_handlers sv) s = Inr s'"
  shows "\<exists>sv'. CleanUp (sv, s) = Inr (sv', s') \<and> sv_signal_handlers sv' = [] \<and> st_queue (sv_store sv') = [] \<and>
    GetStats cs sv' = None \<and>
    (\<forall>i p'. st_heap (sv_store sv') i = Some p' \<longrightarrow> \<not> pc_pending p' \<and>
       (\<exists>p. st_heap (sv_store sv) i = Some p \<and> (pc_pending p \<longrightarrow> pc_threadinfo p' = None) \<and>
          ((pc_pid p, i) \<notin> set (st_queue (sv_store sv)) \<longrightarrow> p' = p))) \<and>
    Start (sv', s') = Inl (Exception ''Invalid state: system inspector was not initialized'') \<and>
    Run is_rhel76 turns (sv', s') = Inl (Exception ''Invalid state: system inspector was not initialized'') \<and>
    CleanUp (sv', s') = Inl Undefined"
  using assms(2,3) serve_loop_answers [OF assms(1), of "\<lambda>_. None"]
  by (fastforce simp: CleanUp_def Start_def Run_def GetStats_def cancel_requests_def serve_loop_frame)

lemma mk_Service_inspector: "mk_Service en start h = Inr sv \<Longrightarrow> sv_inspector sv"
  by (auto simp: mk_Service_def empty_service_def split: sum.splits if_splits dest!: AddSignalHandler_appends)

section \<open>Examples\<close>

definition example_names :: EventNames where
  "example_names =
     \<lparr>en_events_by_name = [(''execve<'', [293, 331]), (''close<'', [5]), (''shutdown<'', [6]), (''connect<'', [7]), (''accept<'', [8]),
        (''listen<'', [9]), (''accept4<'', [10]), (''getsockopt<'', [11])], en_names_by_id = [], en_syscall_by_id = []\<rparr>"

definition example_exec :: "svc_event" where
  "example_exec =
     \<lparr>se_type = 293, se_internal = False, se_ts = 0,
      se_thread = Some \<lparr>th_info = \<lparr>ti_comm = ''sh'', ti_exepath = ''/bin/sh'', ti_args = [], ti_pid = 7, ti_vpid = 1, ti_uid = 0, ti_gid = 0,
        ti_clone_ts = 0, ti_container_id = ''0123456789ab''\<rparr>, th_is_main = True, th_main_thread_known = True, th_ancestors = []\<rparr>,
      se_comm = Some ''sh'', se_exe = Some ''/bin/sh'', se_server_port = None, se_client_port = None, se_net = example_socket 0 0,
      se_proc = \<lparr>pe_type = 293, pe_ts = 0, pe_comm = Some ''sh'', pe_exepath = Some ''/bin/sh'', pe_proc_args = None, pe_pid = Some 7,
        pe_uid = None, pe_gid = None, pe_container_id = None, pe_thread = None\<rparr>, se_clock = (0, 0, 0), se_uuid = ''''\<rparr>"

definition example_turn :: turn where
  "example_turn =
     \<lparr>tu_lookup = (\<lambda>_. None), tu_next = \<lparr>ni_event = Some example_exec, ni_before = 0, ni_after = 1\<rparr>, tu_threads = None,
      tu_now = 6000000000, tu_start = 0, tu_end = 1\<rparr>"

definition example_world :: "nat SignalServiceClient world" where
  "example_world = \<lparr>w_process = example_handler, w_tracker = ConnectionTracker_init\<rparr>"

abbreviation example_process_handler :: "nat SignalServiceClient world handler" where
  "example_process_handler \<equiv> process_signal_handler id SignalServiceClient_Stop (PushSignals []) (\<lambda>_. 0) False [] (0, 0, 0) ''''"

definition example_service :: "nat SignalServiceClient world service" where
  "example_service = projr (mk_Service example_names 0 example_process_handler)"

lemmas example_add_defs = AddSignalHandler_def GetEventIDs_def example_names_def

lemma example_filters: "h_relevant (SelfCheckProcessHandler t) = [''execve<'']"
  "h_relevant (SelfCheckNetworkHandler t) = [''close<'', ''shutdown<'', ''connect<'', ''accept<'', ''listen<'']"
  "h_relevant (process_signal_handler a b c d e f g i) = [''execve<'']"
  "h_relevant (network_signal_handler m nh) = GetRelevantEvents nh"
  by (simp_all add: SelfCheckProcessHandler_def SelfCheckNetworkHandler_def process_signal_handler_def network_signal_handler_def base_handler_def)

lemma example_service_made: "mk_Service example_names 0 example_process_handler = Inr example_service"
proof -
  have "\<exists>sv. mk_Service example_names 0 example_process_handler = Inr sv"
    by (simp add: mk_Service_def example_add_defs example_filters empty_service_def Let_def)
  then show ?thesis by (auto simp: example_service_def)
qed


lemma example_next:
  "\<exists>sv1. Service_GetNext False (tu_next example_turn) (sv :: 's service) = (Some example_exec, sv1)"
  by (simp add: Service_GetNext_def example_turn_def example_exec_def FilterEvent_def FilterEvent_tinfo_def str_rfind_def matches_at_def Let_def)

theorem self_check_timeout_drops_event_witness:
  "\<exists>sv'. run_turn False example_turn (example_service, example_world) = Inr (sv', example_world) \<and>
    sv_signal_handlers sv' = tl (sv_signal_handlers example_service)"
proof -
  obtain sv1 where "Service_GetNext False (tu_next example_turn) (example_service\<lparr>sv_store :=
      ServePendingProcessRequests (tu_lookup example_turn) (sv_store example_service)\<rparr>) = (Some example_exec, sv1)"
    using example_next by blast
  from self_check_timeout_drops_event [OF example_service_made _ _ this, of "[293, 331]"] show ?thesis
    by (simp add: GetEventIDs_def example_names_def example_exec_def example_turn_def)
qed

lemma example_network_added:
  "\<exists>sv1. AddSignalHandler example_names (network_signal_handler [] mk_NetworkSignalHandler) (sv :: 'c world service) = Inr sv1"
  by (simp add: example_add_defs example_filters GetRelevantEvents_def mk_NetworkSignalHandler_def Let_def)

theorem service_keeps_handlers_witness:
  "\<exists>sv1 sv2 w' checks. AddSignalHandler example_names (network_signal_handler [] mk_NetworkSignalHandler) example_service = Inr sv1 \<and>
    Run False [] (sv1, example_world) = Inr (sv2, w') \<and>
    map (h_name \<circ> fst) (sv_signal_handlers sv2) = checks @ [''ProcessSignalHandler'', ''NetworkSignalHandler'']"
proof -
  obtain sv1 where add: "AddSignalHandler example_names (network_signal_handler [] mk_NetworkSignalHandler) example_service = Inr sv1"
    using example_network_added by blast
  have "sv_inspector sv1"
    using AddSignalHandler_appends [OF add] mk_Service_inspector [OF example_service_made] by auto
  then have run: "Run False [] (sv1, example_world) = Inr (sv1, example_world)" by (simp add: Run_def)
  from service_keeps_handlers [OF example_service_made add run] add run show ?thesis by blast
qed

lemma example_exec_simps: "FilterEvent example_exec" "\<not> se_internal example_exec" "se_type example_exec = 293"
  by (simp_all add: example_exec_def FilterEvent_def FilterEvent_tinfo_def str_rfind_def matches_at_def Let_def)

theorem event_counters_exact_witness:
  "\<exists>sv'. Run False [example_turn] (empty_service True, example_world) = Inr (sv', example_world) \<and>
    ss_nFilteredEvents (sv_userspace_stats sv') 293 = 1"
proof -
  obtain sv' where run: "Run False [example_turn] (empty_service True, example_world) = Inr (sv', example_world)"
    by (simp add: Run_def run_turn_def empty_service_def example_turn_def Service_GetNext_def example_exec_simps Let_def)
  from event_counters_exact(2) [OF run, of 293] run show ?thesis
    by (simp add: passed_on_def looked_at_def example_turn_def empty_service_def example_exec_simps)
qed

theorem CleanUp_closes_witness:
  "\<exists>sv' s'. CleanUp (empty_service True, example_world) = Inr (sv', s') \<and> CleanUp (sv', s') = Inl Undefined"
proof -
  let ?sv = "empty_service True :: nat SignalServiceClient world service"
  have "store_reach (sv_store ?sv)" "sv_inspector ?sv" "stop_handlers (sv_signal_handlers ?sv) example_world = Inr example_world"
    by (auto simp: empty_service_def intro: store_reach.intros)
  from CleanUp_closes [OF this] show ?thesis by blast
qed

end
