(* ===== verification/Collector_Stats.thy ===== *)
theory Collector_Stats
  imports Inspector_Service
begin

text \<open>
  The statistics: \<^verbatim>\<open>CollectorStats.h\<close>, their export to Prometheus in \<^verbatim>\<open>CollectorStatsExporter.cpp\<close>, and the statistics of connections
  in \<^verbatim>\<open>NetworkStatusNotifier.cpp\<close> with \<^verbatim>\<open>CollectorConnectionStats.h\<close>. The registry of Prometheus is a table from the name and the labels
  of a gauge to its value, which is a \<^verbatim>\<open>double\<close>.
\<close>

section \<open>Counters and timers\<close>

definition timer_type_to_name :: "string list" where
  "timer_type_to_name =
     [''net_scrape_read'', ''net_scrape_update'', ''net_fetch_state'', ''net_create_message'', ''net_write_message'', ''process_info_wait'']"

definition counter_type_to_name :: "string list" where
  "counter_type_to_name =
     [''net_conn_updates'', ''net_conn_deltas'', ''net_conn_inactive'', ''net_conn_rate_limited'', ''net_cep_updates'', ''net_cep_deltas'',
      ''net_cep_inactive'', ''net_known_ip_networks'', ''net_known_public_ips'', ''process_lineage_counts'', ''process_lineage_total'',
      ''process_lineage_sqr_total'', ''process_lineage_string_total'', ''process_info_hit'', ''process_info_miss'',
      ''rate_limit_flushing_counts'', ''procfs_could_not_open_fd_dir'', ''procfs_could_not_open_proc_dir'',
      ''procfs_could_not_open_pid_dir'', ''procfs_could_not_get_network_namespace'', ''procfs_could_not_get_socket_inodes'',
      ''procfs_could_not_read_exe'', ''procfs_could_not_read_cmdline'', ''procfs_zombie_process'', ''event_timestamp_distant_past'',
      ''event_timestamp_future'']"

record CollectorStats =
  st_timer_count :: "i64 list"
  st_timer_total_us :: "i64 list"
  st_counter :: "i64 list"

definition Reset :: CollectorStats where
  "Reset =
     \<lparr>st_timer_count = replicate (length timer_type_to_name) 0, st_timer_total_us = replicate (length timer_type_to_name) 0,
      st_counter = replicate (length counter_type_to_name) 0\<rparr>"

definition GetTimerCount :: "nat \<Rightarrow> CollectorStats \<Rightarrow> i64" where "GetTimerCount i st = st_timer_count st ! i"
definition GetTimerDurationMicros :: "nat \<Rightarrow> CollectorStats \<Rightarrow> i64" where "GetTimerDurationMicros i st = st_timer_total_us st ! i"
definition GetCounter :: "nat \<Rightarrow> CollectorStats \<Rightarrow> i64" where "GetCounter i st = st_counter st ! i"

definition EndTimerAt :: "nat \<Rightarrow> i64 \<Rightarrow> CollectorStats \<Rightarrow> CollectorStats" where
  "EndTimerAt i duration_us st =
     st\<lparr>st_timer_count := (st_timer_count st)[i := st_timer_count st ! i + 1],
        st_timer_total_us := (st_timer_total_us st)[i := st_timer_total_us st ! i + duration_us]\<rparr>"

definition CounterSet :: "nat \<Rightarrow> i64 \<Rightarrow> CollectorStats \<Rightarrow> CollectorStats" where
  "CounterSet i val st = st\<lparr>st_counter := (st_counter st)[i := val]\<rparr>"

definition CounterAdd :: "nat \<Rightarrow> i64 \<Rightarrow> CollectorStats \<Rightarrow> CollectorStats" where
  "CounterAdd i val st = st\<lparr>st_counter := (st_counter st)[i := st_counter st ! i + val]\<rparr>"

text \<open>A timer on the stack, from the time of its construction to that of its destruction.\<close>

definition ScopedTimer :: "nat \<Rightarrow> i64 \<Rightarrow> i64 \<Rightarrow> CollectorStats \<Rightarrow> CollectorStats" where
  "ScopedTimer i start now st = EndTimerAt i (now - start) st"

section \<open>Gauges\<close>

datatype gauge_value = Num rat | NaN

type_synonym gauge_key = "string \<times> (string \<times> string) list"
type_synonym gauges = "gauge_key \<rightharpoonup> gauge_value"

definition gauge_add :: "gauge_key \<Rightarrow> gauges \<Rightarrow> gauges" where
  "gauge_add k g = (if k \<in> dom g then g else g(k \<mapsto> Num 0))"

definition gauge_set :: "gauge_key \<Rightarrow> gauge_value \<Rightarrow> gauges \<Rightarrow> gauges" where
  "gauge_set k v g = g(k \<mapsto> v)"

definition gauge_int :: "int \<Rightarrow> gauge_value" where "gauge_int n = Num (fl 53 (of_int n))"

text \<open>Integer division drops the fraction.\<close>

definition c_div :: "int \<Rightarrow> int \<Rightarrow> int" where
  "c_div a b = (if a * b < 0 then - (\<bar>a\<bar> div \<bar>b\<bar>) else \<bar>a\<bar> div \<bar>b\<bar>)"

definition event_gauge :: "string \<Rightarrow> gauge_key" where "event_gauge t = (''rox_collector_events'', [(''type'', t)])"
definition counter_gauge :: "string \<Rightarrow> gauge_key" where "counter_gauge t = (''rox_collector_counters'', [(''type'', t)])"
definition lineage_gauge :: "string \<Rightarrow> gauge_key" where "lineage_gauge t = (''rox_collector_process_lineage_info'', [(''type'', t)])"
definition timer_gauge :: "string \<Rightarrow> string \<Rightarrow> gauge_key" where
  "timer_gauge name sfx = (''rox_collector_timers'', [(''type'', name @ sfx)])"

definition mk_CollectorTimerGauge :: "string \<Rightarrow> gauges \<Rightarrow> gauges" where
  "mk_CollectorTimerGauge name g =
     gauge_add (timer_gauge name ''_times_us_avg'') (gauge_add (timer_gauge name ''_times_us_total'') (gauge_add (timer_gauge name ''_events'') g))"

definition CollectorTimerGauge_Update :: "string \<Rightarrow> int \<Rightarrow> int \<Rightarrow> gauges \<Rightarrow> gauges" where
  "CollectorTimerGauge_Update name count total_us g =
     gauge_set (timer_gauge name ''_times_us_avg'') (gauge_int (if count \<noteq> 0 then c_div total_us count else 0))
       (gauge_set (timer_gauge name ''_times_us_total'') (gauge_int total_us)
         (gauge_set (timer_gauge name ''_events'') (gauge_int count) g))"

text \<open>The gauges of an event type: the family, the first label and its value.\<close>

definition typed_gauge :: "EventNames \<Rightarrow> (nat \<Rightarrow> bool) \<Rightarrow> string \<times> string \<times> string \<Rightarrow> nat \<Rightarrow> gauge_key" where
  "typed_gauge en is_enter fam i =
     (case fam of (family, label, v) \<Rightarrow>
        (family, [(label, v), (''event_type'', en_names_by_id en ! i), (''event_dir'', if is_enter i then ''>'' else ''<'')]))"

definition userspace_fam :: "string \<times> string \<times> string" where "userspace_fam = (''rox_collector_events_typed'', ''quantity'', ''userspace'')"
definition parse_total_fam :: "string \<times> string \<times> string" where "parse_total_fam = (''rox_collector_event_times_us_total'', ''step'', ''parse'')"
definition process_total_fam :: "string \<times> string \<times> string" where "process_total_fam = (''rox_collector_event_times_us_total'', ''step'', ''process'')"
definition parse_avg_fam :: "string \<times> string \<times> string" where "parse_avg_fam = (''rox_collector_event_times_us_avg'', ''step'', ''parse'')"
definition process_avg_fam :: "string \<times> string \<times> string" where "process_avg_fam = (''rox_collector_event_times_us_avg'', ''step'', ''process'')"

definition event_gauge_types :: "string list" where
  "event_gauge_types =
     [''kernel'', ''drops'', ''threadCacheDrops'', ''ringbufferDrops'', ''preemptions'', ''grpcSendFailures'', ''threadCacheSize'',
      ''processSent'', ''processSendFailures'', ''processResolutionFailuresByEvt'', ''processResolutionFailuresByTinfo'',
      ''processRateLimitCount'']"

text \<open>The event types with gauges of their own.\<close>

definition typed_events :: "EventNames \<Rightarrow> string list \<Rightarrow> nat list" where
  "typed_events en syscalls = filter (\<lambda>i. en_names_by_id en ! i \<in> set syscalls) [0..<length (en_names_by_id en)]"

definition exporter_setup :: "EventNames \<Rightarrow> (nat \<Rightarrow> bool) \<Rightarrow> CollectorConfig \<Rightarrow> gauges \<Rightarrow> gauges" where
  "exporter_setup en is_enter c g =
     (let g1 = fold (gauge_add \<circ> event_gauge) event_gauge_types g;
          g2 = fold mk_CollectorTimerGauge timer_type_to_name g1;
          g3 = fold (gauge_add \<circ> counter_gauge) counter_type_to_name g2;
          g4 = fold (gauge_add \<circ> lineage_gauge) [''lineage_count'', ''lineage_avg'', ''std_dev'', ''lineage_avg_string_len''] g3
      in if cc_enable_detailed_metrics c
         then fold (\<lambda>i. fold (\<lambda>fam. gauge_add (typed_gauge en is_enter fam i))
                     [userspace_fam, parse_total_fam, process_total_fam, parse_avg_fam, process_avg_fam])
                (typed_events en (cc_syscalls c)) (gauge_add (event_gauge ''userspace'') g4)
         else g4)"

definition update_typed :: "EventNames \<Rightarrow> (nat \<Rightarrow> bool) \<Rightarrow> svc_stats \<Rightarrow> nat \<Rightarrow> gauges \<Rightarrow> gauges" where
  "update_typed en is_enter us i g =
     gauge_set (typed_gauge en is_enter parse_avg_fam i)
       (gauge_int (if ss_nUserspaceEvents us i \<noteq> 0 then c_div (ss_event_parse_micros us i) (int (ss_nUserspaceEvents us i)) else 0))
       (gauge_set (typed_gauge en is_enter process_total_fam i) (gauge_int (ss_event_process_micros us i))
         (gauge_set (typed_gauge en is_enter parse_total_fam i) (gauge_int (ss_event_parse_micros us i))
           (gauge_set (typed_gauge en is_enter userspace_fam i) (gauge_int (int (ss_nUserspaceEvents us i))) g)))"

text \<open>Single precision; \<open>fsqrt\<close> is the square root of the C library, not a number for a negative argument.\<close>

definition float_avg :: "int \<Rightarrow> int \<Rightarrow> rat" where
  "float_avg tot count = (if count \<noteq> 0 then float32 (float32 (of_int tot) / float32 (of_int count)) else 0)"

definition lineage_variance :: "int \<Rightarrow> int \<Rightarrow> int \<Rightarrow> rat" where
  "lineage_variance count tot sqr_total =
     float32 (float_avg sqr_total count - float32 (float_avg tot count * float_avg tot count))"

definition std_dev :: "(rat \<Rightarrow> rat) \<Rightarrow> rat \<Rightarrow> gauge_value" where
  "std_dev fsqrt v = (if v < 0 then NaN else Num (fsqrt v))"

text \<open>
  One round of the exporter: the statistics of the inspector with those of the process signals. The number of failures to send
  over gRPC is a field that no code changes.
\<close>

definition nGRPCSendFailures :: nat where "nGRPCSendFailures = 0"

definition export_events :: "inspector_stats \<Rightarrow> gauges \<Rightarrow> gauges" where
  "export_events stats g =
     gauge_set (event_gauge ''threadCacheSize'') (gauge_int (int (nThreadCacheSize stats)))
       (gauge_set (event_gauge ''preemptions'') (gauge_int (int (nPreemptions stats)))
         (gauge_set (event_gauge ''ringbufferDrops'') (gauge_int (int (nDropsBuffer stats)))
           (gauge_set (event_gauge ''threadCacheDrops'') (gauge_int (int (nDropsThreadCache stats)))
             (gauge_set (event_gauge ''drops'') (gauge_int (int (nDrops stats)))
               (gauge_set (event_gauge ''kernel'') (gauge_int (int (nEvents stats))) g)))))"

definition export_detailed :: "EventNames \<Rightarrow> (nat \<Rightarrow> bool) \<Rightarrow> CollectorConfig \<Rightarrow> svc_stats \<Rightarrow> gauges \<Rightarrow> gauges" where
  "export_detailed en is_enter c us g =
     (if cc_enable_detailed_metrics c
      then gauge_set (event_gauge ''userspace'') (gauge_int (\<Sum>i = 0..<length (en_names_by_id en). int (ss_nUserspaceEvents us i)))
             (fold (update_typed en is_enter us) (typed_events en (cc_syscalls c)) g)
      else g)"

definition export_processes :: "process_stats \<Rightarrow> gauges \<Rightarrow> gauges" where
  "export_processes ps g =
     gauge_set (event_gauge ''processRateLimitCount'') (gauge_int (uint (nProcessRateLimitCount ps)))
       (gauge_set (event_gauge ''processResolutionFailuresByTinfo'') (gauge_int (uint (nProcessResolutionFailuresByTinfo ps)))
         (gauge_set (event_gauge ''processResolutionFailuresByEvt'') (gauge_int (uint (nProcessResolutionFailuresByEvt ps)))
           (gauge_set (event_gauge ''processSendFailures'') (gauge_int (uint (nProcessSendFailures ps)))
             (gauge_set (event_gauge ''processSent'') (gauge_int (uint (nProcessSent ps)))
               (gauge_set (event_gauge ''grpcSendFailures'') (gauge_int (int nGRPCSendFailures)) g)))))"

definition export_counters :: "CollectorStats \<Rightarrow> gauges \<Rightarrow> gauges" where
  "export_counters cs g =
     fold (\<lambda>i. gauge_set (counter_gauge (counter_type_to_name ! i)) (gauge_int (GetCounter i cs))) [0..<length counter_type_to_name]
       (fold (\<lambda>i. CollectorTimerGauge_Update (timer_type_to_name ! i) (GetTimerCount i cs) (GetTimerDurationMicros i cs))
         [0..<length timer_type_to_name] g)"

definition export_lineage :: "(rat \<Rightarrow> rat) \<Rightarrow> CollectorStats \<Rightarrow> gauges \<Rightarrow> gauges" where
  "export_lineage fsqrt cs g =
     (let count = GetCounter 9 cs; tot = GetCounter 10 cs; sqr_total = GetCounter 11 cs; string_total = GetCounter 12 cs
      in gauge_set (lineage_gauge ''lineage_avg_string_len'') (Num (float_avg string_total count))
           (gauge_set (lineage_gauge ''std_dev'') (std_dev fsqrt (lineage_variance count tot sqr_total))
             (gauge_set (lineage_gauge ''lineage_avg'') (Num (float_avg tot count))
               (gauge_set (lineage_gauge ''lineage_count'') (gauge_int count) g))))"

record export_input =
  ei_stats :: "inspector_stats option"
  ei_process :: process_stats
  ei_collector :: CollectorStats

definition export_round :: "EventNames \<Rightarrow> (nat \<Rightarrow> bool) \<Rightarrow> CollectorConfig \<Rightarrow> (rat \<Rightarrow> rat) \<Rightarrow> export_input \<Rightarrow> gauges \<Rightarrow> gauges" where
  "export_round en is_enter c fsqrt inp g =
     (case ei_stats inp of
        None \<Rightarrow> g
      | Some stats \<Rightarrow>
          export_lineage fsqrt (ei_collector inp)
            (export_counters (ei_collector inp)
              (export_processes (ei_process inp)
                (export_detailed en is_enter c (nUserspace stats) (export_events stats g)))))"

definition exporter_run :: "EventNames \<Rightarrow> (nat \<Rightarrow> bool) \<Rightarrow> CollectorConfig \<Rightarrow> (rat \<Rightarrow> rat) \<Rightarrow> export_input list \<Rightarrow> gauges \<Rightarrow> gauges" where
  "exporter_run en is_enter c fsqrt inps g = fold (export_round en is_enter c fsqrt) inps (exporter_setup en is_enter c g)"

section \<open>Connections\<close>

text \<open>What was observed: private and public connections, inbound and outbound.\<close>

type_synonym observation = "rat \<times> rat \<times> rat \<times> rat"

record conn_reporter =
  cr_total :: bool
  cr_rate :: bool
  cr_counter_last :: "Stats option"
  cr_last_report_time :: int

definition observe_total :: "Stats \<Rightarrow> observation" where
  "observe_total s = (rat_of_nat (unat (inbound_private s)), rat_of_nat (unat (inbound_public s)), rat_of_nat (unat (outbound_private s)), rat_of_nat (unat (outbound_public s)))"

definition float_u32 :: "u32 \<Rightarrow> rat" where "float_u32 x = float32 (of_int (uint x))"

definition connection_rate :: "u32 \<Rightarrow> u32 \<Rightarrow> int \<Rightarrow> rat" where
  "connection_rate new old delta_t = float32 (float32 (float_u32 new - float_u32 old) / float32 (of_int delta_t))"

text \<open>The time of the steady clock is in nanoseconds, the difference in whole seconds.\<close>

definition ReportConnectionStats ::
  "int \<Rightarrow> Stats \<Rightarrow> Stats \<Rightarrow> conn_reporter \<Rightarrow> observation option \<times> observation option \<times> conn_reporter" where
  "ReportConnectionStats now stored counters r =
     (let tot = (if cr_total r then Some (observe_total stored) else None)
      in if cr_rate r
         then (let delta_t = c_div (now - cr_last_report_time r) 1000000000;
                   rate = (case cr_counter_last r of
                             Some old \<Rightarrow>
                               if delta_t > 0
                               then Some (connection_rate (inbound_private counters) (inbound_private old) delta_t,
                                          connection_rate (inbound_public counters) (inbound_public old) delta_t,
                                          connection_rate (outbound_private counters) (outbound_private old) delta_t,
                                          connection_rate (outbound_public counters) (outbound_public old) delta_t)
                               else None
                           | None \<Rightarrow> None)
               in (tot, rate, r\<lparr>cr_counter_last := Some counters, cr_last_report_time := now\<rparr>))
         else (tot, None, r))"

section \<open>What a round leaves alone\<close>

lemma fold_keeps: "(\<And>x g. x \<in> set xs \<Longrightarrow> f x g k = g k) \<Longrightarrow> fold f xs g k = g k"
  by (induction xs arbitrary: g) auto

lemma gauge_set_apply: "gauge_set k v g j = (if j = k then Some v else g j)"
  by (simp add: gauge_set_def)

lemmas gauge_keys = event_gauge_def counter_gauge_def lineage_gauge_def timer_gauge_def typed_gauge_def

lemma export_lineage_other: "fst k \<noteq> ''rox_collector_process_lineage_info'' \<Longrightarrow> export_lineage fsqrt cs g k = g k"
  by (cases k) (simp add: export_lineage_def Let_def gauge_set_apply lineage_gauge_def)

lemma export_counters_other:
  assumes "fst k \<notin> {''rox_collector_counters'', ''rox_collector_timers''}"
  shows "export_counters cs g k = g k"
proof -
  have k: "k \<noteq> timer_gauge n s" "k \<noteq> counter_gauge n" for n s using assms by (auto simp: timer_gauge_def counter_gauge_def)
  have "fold (\<lambda>i. CollectorTimerGauge_Update (timer_type_to_name ! i) (GetTimerCount i cs) (GetTimerDurationMicros i cs)) is g k = g k" for "is" g
    by (rule fold_keeps) (simp add: CollectorTimerGauge_Update_def gauge_set_apply k)
  moreover have "fold (\<lambda>i. gauge_set (counter_gauge (counter_type_to_name ! i)) (gauge_int (GetCounter i cs))) is g k = g k" for "is" g
    by (rule fold_keeps) (simp add: gauge_set_apply k)
  ultimately show ?thesis by (simp add: export_counters_def)
qed

lemma event_gauge_inj [simp]: "event_gauge s = event_gauge t \<longleftrightarrow> s = t"
  by (simp add: event_gauge_def)

lemma typed_not_event [simp]: "event_gauge t \<noteq> typed_gauge en is_enter fam i"
  by (cases fam) (simp add: event_gauge_def typed_gauge_def)

lemma export_detailed_events: "t \<noteq> ''userspace'' \<Longrightarrow> export_detailed en is_enter c us g (event_gauge t) = g (event_gauge t)"
proof -
  assume "t \<noteq> ''userspace''"
  moreover have "fold (update_typed en is_enter us) is g (event_gauge t) = g (event_gauge t)" for "is" g
    by (intro fold_keeps) (simp add: update_typed_def gauge_set_apply)
  ultimately show ?thesis by (simp add: export_detailed_def gauge_set_apply)
qed

lemma export_round_events:
  assumes "ei_stats inp = Some stats"
  shows "export_round en is_enter c fsqrt inp g (event_gauge t) =
    export_processes (ei_process inp) (export_detailed en is_enter c (nUserspace stats) (export_events stats g)) (event_gauge t)"
  using export_lineage_other [of "event_gauge t"] export_counters_other [of "event_gauge t"]
  by (simp add: export_round_def assms event_gauge_def)

text \<open>
  A round of the exporter publishes the statistics it was given: the gauges of the events are the kernel's counters, and those
  of the process signals are the handler's, each rounded to double precision; without statistics nothing changes.
\<close>

theorem export_round_exact:
  assumes "ei_stats inp = Some stats"
  shows "let g' = export_round en is_enter c fsqrt inp g in
    g' (event_gauge ''kernel'') = Some (gauge_int (int (nEvents stats))) \<and>
    g' (event_gauge ''drops'') = Some (gauge_int (int (nDrops stats))) \<and>
    g' (event_gauge ''ringbufferDrops'') = Some (gauge_int (int (nDropsBuffer stats))) \<and>
    g' (event_gauge ''threadCacheDrops'') = Some (gauge_int (int (nDropsThreadCache stats))) \<and>
    g' (event_gauge ''processSent'') = Some (gauge_int (uint (nProcessSent (ei_process inp)))) \<and>
    g' (event_gauge ''processSendFailures'') = Some (gauge_int (uint (nProcessSendFailures (ei_process inp)))) \<and>
    g' (event_gauge ''processRateLimitCount'') = Some (gauge_int (uint (nProcessRateLimitCount (ei_process inp))))"
  unfolding Let_def export_round_events [OF assms]
  by (simp add: export_processes_def gauge_set_apply export_detailed_events export_events_def)

section \<open>The average that is never set\<close>

definition avg_key :: "gauge_key \<Rightarrow> bool" where
  "avg_key k \<longleftrightarrow> (\<exists>n d. k = (''rox_collector_event_times_us_avg'', [(''step'', ''process''), (''event_type'', n), (''event_dir'', d)]))"

lemma update_typed_avg: "avg_key k \<Longrightarrow> update_typed en is_enter us i g k = g k"
  by (auto simp: avg_key_def update_typed_def gauge_set_apply typed_gauge_def parse_avg_fam_def process_total_fam_def
      parse_total_fam_def userspace_fam_def)

lemma export_round_avg:
  assumes "avg_key k"
  shows "export_round en is_enter c fsqrt inp g k = g k"
proof -
  have fam: "fst k = ''rox_collector_event_times_us_avg''" and ev: "k \<noteq> event_gauge t" for t
    using assms by (auto simp: avg_key_def event_gauge_def)
  have "export_detailed en is_enter c us g k = g k" for us g
    using ev fold_keeps [of _ "update_typed en is_enter us" k] update_typed_avg [OF assms]
    by (simp add: export_detailed_def gauge_set_apply)
  then show ?thesis
    using ev export_lineage_other [of k] export_counters_other [of k]
    by (simp add: export_round_def fam export_processes_def export_events_def gauge_set_apply split: option.split)
qed

text \<open>Setting up adds gauges with the value zero and removes none.\<close>

definition zeros :: "gauges \<Rightarrow> bool" where
  "zeros g \<longleftrightarrow> ran g \<subseteq> {Num 0}"

lemma zeros_add: "zeros g \<Longrightarrow> zeros (gauge_add k g)"
  by (auto simp: zeros_def gauge_add_def ran_def)

lemma zeros_fold: "(\<And>x g. zeros g \<Longrightarrow> zeros (f x g)) \<Longrightarrow> zeros g \<Longrightarrow> zeros (fold f xs g)"
  by (induction xs arbitrary: g) auto

lemma dom_fold_grows: "(\<And>x g. dom g \<subseteq> dom (f x g)) \<Longrightarrow> dom g \<subseteq> dom (fold f xs g)"
proof (induction xs arbitrary: g)
  case (Cons x xs)
  have "dom (f x g) \<subseteq> dom (fold f xs (f x g))" by (rule Cons.IH [OF Cons.prems])
  then show ?case using Cons.prems [of g x] by simp
qed simp

lemma dom_fold_member:
  assumes "x \<in> set xs" and "\<And>g. k \<in> dom (f x g)" and "\<And>x g. dom g \<subseteq> dom (f x g)"
  shows "k \<in> dom (fold f xs g)"
proof -
  obtain ys zs where "xs = ys @ x # zs" using split_list [OF assms(1)] by blast
  then show ?thesis using assms(2) [of "fold f ys g"] dom_fold_grows [of f "f x (fold f ys g)" zs, OF assms(3)] by auto
qed

lemma dom_gauge_add [simp]: "dom (gauge_add k g) = insert k (dom g)"
  by (auto simp: gauge_add_def)

lemma mk_CollectorTimerGauge_zeros: "zeros g \<Longrightarrow> zeros (mk_CollectorTimerGauge n g)"
  by (simp add: mk_CollectorTimerGauge_def zeros_add)

lemma setup_zeros: "zeros g \<Longrightarrow> zeros (exporter_setup en is_enter c g)"
  unfolding exporter_setup_def Let_def
  by (auto intro!: zeros_fold zeros_add mk_CollectorTimerGauge_zeros)

lemma setup_typed:
  assumes "cc_enable_detailed_metrics c" and "i \<in> set (typed_events en (cc_syscalls c))"
    and "fam \<in> set [userspace_fam, parse_total_fam, process_total_fam, parse_avg_fam, process_avg_fam]"
  shows "typed_gauge en is_enter fam i \<in> dom (exporter_setup en is_enter c g)"
proof -
  let ?f = "\<lambda>i. fold (\<lambda>fam. gauge_add (typed_gauge en is_enter fam i)) [userspace_fam, parse_total_fam, process_total_fam, parse_avg_fam, process_avg_fam]"
  have "typed_gauge en is_enter fam i \<in> dom (fold ?f (typed_events en (cc_syscalls c)) g)" for g
  proof (rule dom_fold_member [OF assms(2)])
    show "typed_gauge en is_enter fam i \<in> dom (?f i g)" for g by (rule dom_fold_member [OF assms(3)]) auto
    show "dom g \<subseteq> dom (?f j g)" for j g by (rule dom_fold_grows) auto
  qed
  then show ?thesis using assms(1) by (simp only: exporter_setup_def Let_def if_True)
qed

text \<open>
  The average processing time is never published: with detailed metrics every event type of the configuration has a gauge for
  it, and however many rounds the exporter makes, that gauge stays zero, although the total processing time is published.
\<close>

theorem process_avg_never_set:
  assumes "cc_enable_detailed_metrics c" and "i \<in> set (typed_events en (cc_syscalls c))"
  shows "exporter_run en is_enter c fsqrt inps Map.empty (typed_gauge en is_enter process_avg_fam i) = Some (Num 0)"
proof -
  let ?k = "typed_gauge en is_enter process_avg_fam i"
  have "?k \<in> dom (exporter_setup en is_enter c Map.empty)" using setup_typed [OF assms, of process_avg_fam] by simp
  moreover have "zeros (exporter_setup en is_enter c Map.empty)" by (rule setup_zeros) (simp add: zeros_def)
  ultimately have "exporter_setup en is_enter c Map.empty ?k = Some (Num 0)" unfolding zeros_def by (blast dest: ranI)
  moreover have "avg_key ?k" by (auto simp: avg_key_def typed_gauge_def process_avg_fam_def)
  ultimately show ?thesis
    unfolding exporter_run_def by (subst fold_keeps) (simp_all add: export_round_avg)
qed

section \<open>Floating point\<close>

text \<open>
  The standard deviation of the lineage is not a number for harmless counters: after 16777217 processes, all with a lineage of
  three, the rounding of the averages makes the variance negative, and the gauge is set to the square root of a negative number.
\<close>

theorem std_dev_not_a_number:
  "lineage_variance 16777217 (3 * 16777217) (9 * 16777217) < 0"
  "std_dev fsqrt (lineage_variance 16777217 (3 * 16777217) (9 * 16777217)) = NaN"
proof -
  show neg: "lineage_variance 16777217 (3 * 16777217) (9 * 16777217) < 0" by code_simp
  show "std_dev fsqrt (lineage_variance 16777217 (3 * 16777217) (9 * 16777217)) = NaN" using neg by (simp add: std_dev_def)
qed

text \<open>
  The rate of connections is exact while the counters stay below the precision of a float: the difference of the counters over
  the seconds, rounded once. When a counter wraps around the rate is negative.
\<close>

theorem connection_rate_exact:
  assumes "uint new < 2 ^ 24" and "uint old \<le> uint new" and "0 < delta_t" and "delta_t < 2 ^ 24"
  shows "connection_rate new old delta_t = float32 (of_int (uint new - uint old) / of_int delta_t)"
proof -
  have "float_u32 new = of_int (uint new)" "float_u32 old = of_int (uint old)"
    using assms(1,2) fl_of_int [of "uint new" 24] fl_of_int [of "uint old" 24] by (simp_all add: float_u32_def)
  moreover have "float32 (of_int (uint new - uint old)) = of_int (uint new - uint old)"
    using assms(1,2) uint_nonnegative [of old] by (intro fl_of_int) linarith+
  moreover have "float32 (of_int delta_t) = of_int delta_t" using assms(3,4) by (intro fl_of_int) simp_all
  ultimately show ?thesis by (simp add: connection_rate_def)
qed

theorem connection_rate_wraps: "connection_rate 0 (- 1) 1 < 0"
  by code_simp

section \<open>Examples\<close>

definition example_input :: export_input where
  "example_input =
     \<lparr>ei_stats = Some \<lparr>nEvents = 7, nDrops = 1, nDropsBuffer = 1, nPreemptions = 0, nThreadCacheSize = 2, nDropsThreadCache = 0,
        nUserspace = \<lparr>ss_nUserspaceEvents = (\<lambda>_. 1), ss_nFilteredEvents = (\<lambda>_. 1), ss_event_parse_micros = (\<lambda>_. 3), ss_event_process_micros = (\<lambda>_. 5)\<rparr>\<rparr>,
      ei_process = ph_stats example_handler, ei_collector = Reset\<rparr>"

definition example_metrics_config :: CollectorConfig where
  "example_metrics_config = (mk_CollectorConfig True None 0 0)\<lparr>cc_syscalls := [''execve'']\<rparr>"

definition example_metrics_names :: EventNames where
  "example_metrics_names = \<lparr>en_events_by_name = [], en_names_by_id = [''execve''], en_syscall_by_id = []\<rparr>"

theorem export_round_exact_witness:
  "export_round example_metrics_names even example_metrics_config id example_input Map.empty (event_gauge ''kernel'') = Some (gauge_int 7)"
proof -
  have "\<exists>stats. ei_stats example_input = Some stats \<and> nEvents stats = 7" by (simp add: example_input_def)
  then obtain stats where "ei_stats example_input = Some stats" "nEvents stats = 7" by blast
  with export_round_exact [OF this(1), of example_metrics_names even example_metrics_config id Map.empty] show ?thesis by (simp add: Let_def)
qed

theorem process_avg_never_set_witness:
  "exporter_run example_metrics_names even example_metrics_config id [example_input] Map.empty
     (typed_gauge example_metrics_names even process_avg_fam 0) = Some (Num 0)"
  by (rule process_avg_never_set) (simp_all add: example_metrics_config_def example_metrics_names_def mk_CollectorConfig_def typed_events_def)

theorem connection_rate_exact_witness: "connection_rate 30 10 10 = float32 (of_int (uint (30 :: u32) - uint (10 :: u32)) / of_int 10)"
  by (rule connection_rate_exact) simp_all

end
