(* ===== verification/Nats_Client.thy ===== *)
theory Nats_Client
  imports Inspector_Service
begin

text \<open>
  The clients of the NATS broker: \<^verbatim>\<open>NatsSignalServiceClient.cpp\<close> of the collector, which publishes process signals as events
  of the broker's schema, and \<^verbatim>\<open>NatsClient.cpp\<close>, which publishes bytes. The library is an argument: a connection is a
  number, the attempt to connect gives a new one or fails and leaves the pointer alone, and publishing succeeds or fails and
  then tells whether the connection is closed. \<open>nc_open\<close> holds the connections that exist and have not been destroyed.
\<close>

section \<open>Events\<close>

record BrokerProcessEvent =
  pv_cluster_id :: string
  pv_timestamp_ns :: u64
  pv_container_id :: string
  pv_id :: string
  pv_name :: string
  pv_exec_file_path :: string
  pv_args :: string
  pv_pid :: int
  pv_uid :: u32
  pv_gid :: u32
  pv_lineage :: "(string \<times> u32) list"

text \<open>The formatter always sets the time of a signal.\<close>

definition ConvertToProcessEvent :: "ProcessSignal \<Rightarrow> string \<Rightarrow> BrokerProcessEvent" where
  "ConvertToProcessEvent signal cluster_id =
     \<lparr>pv_cluster_id = cluster_id, pv_timestamp_ns = ps_time_ns signal, pv_container_id = ps_container_id signal, pv_id = ps_id signal,
      pv_name = ps_name signal, pv_exec_file_path = ps_exec_file_path signal, pv_args = ps_args signal, pv_pid = ps_pid signal,
      pv_uid = ps_uid signal, pv_gid = ps_gid signal,
      pv_lineage = map (\<lambda>lineage. (li_parent_exec_file_path lineage, li_parent_uid lineage)) (ps_lineage_info signal)\<rparr>"

section \<open>The connection\<close>

record 'm nats =
  nc_conn :: "nat option"
  nc_connected :: bool
  nc_open :: "nat set"
  nc_published :: "(string \<times> 'm) list"

definition mk_nats :: "'m nats" where
  "mk_nats = \<lparr>nc_conn = None, nc_connected = False, nc_open = {}, nc_published = []\<rparr>"

definition Connect :: "nat option \<Rightarrow> 'm nats \<Rightarrow> bool \<times> 'm nats" where
  "Connect outcome c =
     (case outcome of
        None \<Rightarrow> (False, c)
      | Some conn \<Rightarrow> (True, c\<lparr>nc_conn := Some conn, nc_open := insert conn (nc_open c), nc_connected := True\<rparr>))"

definition Disconnect :: "'m nats \<Rightarrow> 'm nats" where
  "Disconnect c =
     (let c1 = (case nc_conn c of None \<Rightarrow> c | Some conn \<Rightarrow> c\<lparr>nc_open := nc_open c - {conn}, nc_conn := None\<rparr>)
      in c1\<lparr>nc_connected := False\<rparr>)"

text \<open>\<open>Nats_Start\<close> also says whether the client is connected, which only \<^verbatim>\<open>NatsClient\<close> returns.\<close>

definition Nats_Start :: "nat option \<Rightarrow> 'm nats \<Rightarrow> bool \<times> 'm nats" where
  "Nats_Start outcome c = (if nc_connected c then (True, c) else Connect outcome c)"

definition Nats_Stop :: "'m nats \<Rightarrow> 'm nats" where
  "Nats_Stop c = Disconnect c"

definition BuildSubject :: "string \<Rightarrow> string \<Rightarrow> string" where
  "BuildSubject cluster_id event_type = ''acs.'' @ cluster_id @ ''.'' @ event_type"

datatype publish_outcome = Published | Failed bool

text \<open>The pointer is used as it is: without a connection publishing would be undefined.\<close>

definition publish :: "publish_outcome \<Rightarrow> string \<Rightarrow> 'm \<Rightarrow> 'm nats \<Rightarrow> (bool \<times> 'm nats) option" where
  "publish outcome subject data c =
     (case nc_conn c of
        None \<Rightarrow> None
      | Some conn \<Rightarrow>
          Some (case outcome of
                  Published \<Rightarrow> (True, c\<lparr>nc_published := nc_published c @ [(subject, data)]\<rparr>)
                | Failed is_closed \<Rightarrow> (False, if is_closed then c\<lparr>nc_connected := False\<rparr> else c)))"

definition Nats_PushSignals ::
  "bool \<Rightarrow> publish_outcome \<Rightarrow> string \<Rightarrow> ProcessSignal \<Rightarrow> BrokerProcessEvent nats \<Rightarrow> (SignalResult \<times> BrokerProcessEvent nats) option" where
  "Nats_PushSignals serialized outcome cluster_id msg c =
     (if \<not> nc_connected c then Some (SIG_ERROR, c)
      else let event = ConvertToProcessEvent msg cluster_id
           in if \<not> serialized then Some (SIG_ERROR, c)
              else case publish outcome (BuildSubject cluster_id ''process-events'') event c of
                     None \<Rightarrow> None
                   | Some (ok, c') \<Rightarrow> Some (if ok then SIG_PROCESSED else SIG_ERROR, c'))"

definition Publish :: "publish_outcome \<Rightarrow> string \<Rightarrow> bytes \<Rightarrow> bytes nats \<Rightarrow> (bool \<times> bytes nats) option" where
  "Publish outcome subject data c = (if \<not> nc_connected c then Some (False, c) else publish outcome subject data c)"

definition PublishProcessEvent :: "publish_outcome \<Rightarrow> string \<Rightarrow> bytes \<Rightarrow> bytes nats \<Rightarrow> (bool \<times> bytes nats) option" where
  "PublishProcessEvent outcome cluster_id data c = Publish outcome (BuildSubject cluster_id ''process-events'') data c"

definition PublishNetworkEvent :: "publish_outcome \<Rightarrow> string \<Rightarrow> bytes \<Rightarrow> bytes nats \<Rightarrow> (bool \<times> bytes nats) option" where
  "PublishNetworkEvent outcome cluster_id data c = Publish outcome (BuildSubject cluster_id ''network-events'') data c"

section \<open>The contract of a client\<close>

lemma Nats_PushSignals_cases:
  assumes "Nats_PushSignals serialized outcome cluster_id s c = Some (r, c')"
  shows "r = SIG_PROCESSED \<and> nc_published c' = nc_published c @ [(BuildSubject cluster_id ''process-events'', ConvertToProcessEvent s cluster_id)] \<or>
    r = SIG_ERROR \<and> nc_published c' = nc_published c"
  using assms by (auto simp: Nats_PushSignals_def publish_def Let_def split: if_splits option.splits publish_outcome.splits)

interpretation nats_client: signal_client "Nats_PushSignals serialized outcome cluster_id" nc_published
  "\<lambda>s. (BuildSubject cluster_id ''process-events'', ConvertToProcessEvent s cluster_id)"
  by unfold_locales (auto dest!: Nats_PushSignals_cases)

section \<open>The life of a connection\<close>

text \<open>Whatever the caller does with a client; the numbers of new connections are fresh.\<close>

inductive nats_step :: "'m nats \<Rightarrow> 'm nats \<Rightarrow> bool" where
  step_start: "(\<And>conn. outcome = Some conn \<Longrightarrow> conn \<notin> nc_open c) \<Longrightarrow> nats_step c (snd (Nats_Start outcome c))"
| step_stop: "nats_step c (Nats_Stop c)"
| step_publish: "nc_connected c \<Longrightarrow> publish outcome subject data c = Some (ok, c') \<Longrightarrow> nats_step c c'"

definition nats_inv :: "'m nats \<Rightarrow> bool" where
  "nats_inv c \<longleftrightarrow> (nc_connected c \<longrightarrow> nc_conn c \<noteq> None) \<and> set_option (nc_conn c) \<subseteq> nc_open c \<and> finite (nc_open c)"

lemma nats_step_inv: "nats_step c c' \<Longrightarrow> nats_inv c \<Longrightarrow> nats_inv c'"
  by (induction rule: nats_step.induct)
    (auto simp: nats_inv_def Nats_Start_def Nats_Stop_def Connect_def Disconnect_def publish_def Let_def
       split: option.splits publish_outcome.splits if_splits)

lemma nats_reach_inv: "nats_step\<^sup>*\<^sup>* mk_nats c \<Longrightarrow> nats_inv c"
  by (induction rule: rtranclp_induct) (simp_all add: nats_step_inv, simp add: nats_inv_def mk_nats_def)

text \<open>
  The client never publishes through a pointer that is null or destroyed: in every state that starting, stopping and
  publishing can reach, a client that is connected holds an existing connection, so publishing is defined.
\<close>

theorem nats_publish_defined:
  assumes "nats_step\<^sup>*\<^sup>* mk_nats c" and "nc_connected c"
  shows "\<exists>conn ok c'. nc_conn c = Some conn \<and> conn \<in> nc_open c \<and> publish outcome subject data c = Some (ok, c')"
  using nats_reach_inv [OF assms(1)] assms(2) by (auto simp: nats_inv_def publish_def split: publish_outcome.split)

text \<open>
  A connection that is lost stays lost: once publishing has found the connection closed, every signal is refused and the
  client does not change, although the log says that it will attempt to reconnect.
\<close>

fun push_all :: "(bool \<times> publish_outcome \<times> ProcessSignal) list \<Rightarrow> string \<Rightarrow> BrokerProcessEvent nats \<Rightarrow> (SignalResult list \<times> BrokerProcessEvent nats) option" where
  "push_all [] cluster_id c = Some ([], c)"
| "push_all ((serialized, outcome, s) # xs) cluster_id c =
     (case Nats_PushSignals serialized outcome cluster_id s c of
        None \<Rightarrow> None
      | Some (r, c') \<Rightarrow> map_option (\<lambda>(rs, c''). (r # rs, c'')) (push_all xs cluster_id c'))"

lemma push_all_disconnected: "\<not> nc_connected c \<Longrightarrow> push_all xs cluster_id c = Some (replicate (length xs) SIG_ERROR, c)"
  by (induction xs) (auto simp: Nats_PushSignals_def)

theorem nats_never_reconnects:
  assumes "nc_connected c" and "nc_conn c = Some conn"
  shows "push_all ((True, Failed True, s) # xs) cluster_id c = Some (replicate (Suc (length xs)) SIG_ERROR, c\<lparr>nc_connected := False\<rparr>)"
  using assms by (simp add: Nats_PushSignals_def publish_def push_all_disconnected)

text \<open>
  Starting again after a lost connection leaks it: the pointer to the old connection is overwritten, and no later step of
  the client destroys it.
\<close>

lemma leaked_step: "nats_step c c' \<Longrightarrow> a \<in> nc_open c \<Longrightarrow> nc_conn c \<noteq> Some a \<Longrightarrow> a \<in> nc_open c' \<and> nc_conn c' \<noteq> Some a"
  by (induction rule: nats_step.induct)
    (auto simp: Nats_Start_def Nats_Stop_def Connect_def Disconnect_def publish_def Let_def
       split: option.splits publish_outcome.splits if_splits)

lemma leaked_steps: "nats_step\<^sup>*\<^sup>* c c' \<Longrightarrow> a \<in> nc_open c \<Longrightarrow> nc_conn c \<noteq> Some a \<Longrightarrow> a \<in> nc_open c'"
proof -
  assume "nats_step\<^sup>*\<^sup>* c c'" "a \<in> nc_open c" "nc_conn c \<noteq> Some a"
  then have "a \<in> nc_open c' \<and> nc_conn c' \<noteq> Some a" by (induction rule: rtranclp_induct) (auto dest: leaked_step)
  then show ?thesis ..
qed

theorem nats_restart_leaks:
  assumes "nats_step\<^sup>*\<^sup>* mk_nats c" and "nc_conn c = Some a" and "\<not> nc_connected c" and "b \<notin> nc_open c"
    and "nats_step\<^sup>*\<^sup>* (snd (Nats_Start (Some b) c)) c'"
  shows "a \<in> nc_open c'"
  using assms(5)
proof (rule leaked_steps)
  have "a \<in> nc_open c" using nats_reach_inv [OF assms(1)] assms(2) by (simp add: nats_inv_def)
  then show "a \<in> nc_open (snd (Nats_Start (Some b) c))" "nc_conn (snd (Nats_Start (Some b) c)) \<noteq> Some a"
    using assms(3,4) by (auto simp: Nats_Start_def Connect_def)
qed

lemma BuildSubject_inj:
  assumes "BuildSubject c t = BuildSubject c' t'" and "CHR ''.'' \<notin> set t" and "CHR ''.'' \<notin> set t'"
  shows "c = c' \<and> t = t'"
proof -
  have "t = t'"
    using after_last_unique [of "''acs.'' @ c @ ''.''" t "''acs.'' @ c' @ ''.''" t' "CHR ''.''"] assms by (simp add: BuildSubject_def)
  then show ?thesis using assms(1) by (simp add: BuildSubject_def)
qed

text \<open>An event says everything about its signal but whether it was scraped.\<close>

lemma ConvertToProcessEvent_eq_iff:
  "ConvertToProcessEvent s c = ConvertToProcessEvent s' c' \<longleftrightarrow> c = c' \<and> s = s'\<lparr>ps_scraped := ps_scraped s\<rparr>"
proof -
  have inj: "inj (\<lambda>l :: LineageInfo. (li_parent_exec_file_path l, li_parent_uid l))"
    by (auto intro!: injI LineageInfo.equality)
  show ?thesis
    by (cases s; cases s') (auto simp: ConvertToProcessEvent_def inj_map_eq_map [OF inj])
qed

section \<open>Processes that already run\<close>

text \<open>A handler that never asks for a refresh is never given the existing processes.\<close>

definition no_refresh :: "'s handler \<Rightarrow> bool" where
  "no_refresh h \<longleftrightarrow> (\<forall>now evt s r s'. h_handle h now evt s = Inr (r, s') \<longrightarrow> r \<noteq> SIG_NEEDS_REFRESH)"

lemma dispatch_no_refresh:
  "\<forall>h \<in> fst ` set hs. no_refresh h \<Longrightarrow> dispatch (tu\<lparr>tu_threads := ts\<rparr>) evt hs st = dispatch tu evt hs st"
proof (induction hs arbitrary: st)
  case Nil
  then show ?case by (cases st) simp
next
  case (Cons a hs)
  obtain h f where a: "a = (h, f)" by force
  obtain sv s where st: "st = (sv, s)" by force
  have IH: "dispatch (tu\<lparr>tu_threads := ts\<rparr>) evt hs st = dispatch tu evt hs st" for st using Cons by simp
  show ?case
  proof (cases "h_handle h (tu_now tu) evt s")
    case (Inr x)
    obtain r s1 where x: "x = (r, s1)" by force
    have "no_refresh h" using Cons.prems a by simp
    then have "r \<noteq> SIG_NEEDS_REFRESH" using Inr x unfolding no_refresh_def by blast
    then show ?thesis by (simp add: a st Inr x Let_def IH)
  qed (simp add: a st Let_def IH)
qed

lemma send_signal_nats:
  "send_signal (Nats_PushSignals serialized outcome cluster_id) clock s h = Some (r, h') \<Longrightarrow> r \<noteq> SIG_NEEDS_REFRESH"
  by (auto simp: send_signal_def Let_def split: option.splits if_splits dest!: Nats_PushSignals_cases)

lemma nats_no_refresh:
  "no_refresh (process_signal_handler start_client stop_client (Nats_PushSignals serialized outcome cluster_id) utf8_span disable_arguments types clock uuid)"
  by (auto simp: no_refresh_def process_signal_handler_def base_handler_def process_handle_def HandleProcessSignal_def Let_def
      split: option.splits sum.splits if_splits dest: send_signal_nats)

lemma self_checks_no_refresh: "no_refresh (SelfCheckProcessHandler t)" "no_refresh (SelfCheckNetworkHandler t)"
  by (auto simp: no_refresh_def SelfCheckProcessHandler_def SelfCheckNetworkHandler_def base_handler_def SelfCheckProcess_HandleSignal_def
      SelfCheckNetwork_HandleSignal_def split: if_splits option.splits)

lemma run_turn_no_refresh:
  assumes "\<forall>h \<in> fst ` set (sv_signal_handlers sv). no_refresh h"
  shows "run_turn is_rhel76 (tu\<lparr>tu_threads := ts\<rparr>) (sv, s) = run_turn is_rhel76 tu (sv, s)"
proof -
  obtain e sv2 where g: "Service_GetNext is_rhel76 (tu_next tu) (sv\<lparr>sv_store := ServePendingProcessRequests (tu_lookup tu) (sv_store sv)\<rparr>) = (e, sv2)"
    by force
  then have hs: "sv_signal_handlers sv2 = sv_signal_handlers sv"
    by (auto simp: Service_GetNext_def Let_def split: option.splits if_splits)
  have "dispatch (tu\<lparr>tu_threads := ts\<rparr>) evt (sv_signal_handlers sv2) (sv2, s) = dispatch tu evt (sv_signal_handlers sv2) (sv2, s)" for evt
    by (rule dispatch_no_refresh) (use assms hs in simp)
  then show ?thesis by (simp add: run_turn_def g Let_def split: option.split sum.split)
qed

lemma run_loop_no_refresh:
  assumes "\<forall>h \<in> fst ` set (sv_signal_handlers sv). no_refresh h"
  shows "run_loop is_rhel76 (map (\<lambda>tu. tu\<lparr>tu_threads := f tu\<rparr>) turns) (sv, s) = run_loop is_rhel76 turns (sv, s)"
  using assms
proof (induction turns arbitrary: sv s)
  case (Cons tu turns)
  show ?case
  proof (cases "run_turn is_rhel76 tu (sv, s)")
    case (Inr st')
    obtain sv' s' where st': "st' = (sv', s')" by force
    from run_turn_keeps_suffix [of is_rhel76 tu sv s sv' s' "sv_signal_handlers sv" "[]"] Inr st'
    have "subseq (sv_signal_handlers sv') (sv_signal_handlers sv)" by auto
    then have "set (sv_signal_handlers sv') \<subseteq> set (sv_signal_handlers sv)" by (auto dest: list_emb_set)
    then have "\<forall>h \<in> fst ` set (sv_signal_handlers sv'). no_refresh h" using Cons.prems by blast
    then show ?thesis using Cons.IH run_turn_no_refresh [OF Cons.prems] by (simp add: Inr st')
  qed (simp add: run_turn_no_refresh [OF Cons.prems])
qed simp

text \<open>
  Over NATS the processes that run already are never reported: what a service with this client does with its
  events does not depend on the inspector's table of threads, because the client never asks for a refresh.
\<close>

theorem nats_reports_no_existing:
  assumes "mk_Service en start (process_signal_handler start_client stop_client (Nats_PushSignals serialized outcome cluster_id)
      utf8_span disable_arguments types clock uuid) = Inr sv"
  shows "Run is_rhel76 (map (\<lambda>tu. tu\<lparr>tu_threads := f tu\<rparr>) turns) (sv, w) = Run is_rhel76 turns (sv, w)"
proof -
  have "\<forall>h \<in> fst ` set (sv_signal_handlers sv). no_refresh h"
    using mk_Service_handlers [OF assms] by (auto simp: nats_no_refresh self_checks_no_refresh)
  then show ?thesis by (simp add: Run_def run_loop_no_refresh)
qed


section \<open>Examples\<close>

definition example_nats :: "BrokerProcessEvent nats" where
  "example_nats = snd (Nats_Start (Some 1) mk_nats)"

lemma example_nats_reach: "nats_step\<^sup>*\<^sup>* mk_nats example_nats"
  unfolding example_nats_def by (rule r_into_rtranclp, rule step_start) (simp add: mk_nats_def)

lemma example_nats_simps: "nc_connected example_nats" "nc_conn example_nats = Some 1" "nc_open example_nats = {1}"
  by (simp_all add: example_nats_def Nats_Start_def Connect_def mk_nats_def)

theorem nats_publish_defined_witness:
  "\<exists>ok c'. publish Published ''x'' (ConvertToProcessEvent ProcessSignal_default ''c'') example_nats = Some (ok, c')"
  using nats_publish_defined [OF example_nats_reach example_nats_simps(1)] by blast

theorem nats_never_reconnects_witness:
  "push_all [(True, Failed True, ProcessSignal_default), (True, Published, ProcessSignal_default)] ''c'' example_nats =
     Some ([SIG_ERROR, SIG_ERROR], example_nats\<lparr>nc_connected := False\<rparr>)"
  using nats_never_reconnects [OF example_nats_simps(1,2), of ProcessSignal_default "[(True, Published, ProcessSignal_default)]" "''c''"]
  by simp

theorem nats_restart_leaks_witness:
  "1 \<in> nc_open (Nats_Stop (snd (Nats_Start (Some 2) (example_nats\<lparr>nc_connected := False\<rparr>))))"
proof -
  let ?c = "example_nats\<lparr>nc_connected := False\<rparr>"
  have "nats_step example_nats ?c"
    by (rule step_publish [of _ "Failed True" "''x''" undefined False]) (simp_all add: example_nats_simps publish_def)
  with example_nats_reach have reach: "nats_step\<^sup>*\<^sup>* mk_nats ?c" by (rule rtranclp.rtrancl_into_rtrancl)
  have stop: "nats_step\<^sup>*\<^sup>* (snd (Nats_Start (Some 2) ?c)) (Nats_Stop (snd (Nats_Start (Some 2) ?c)))"
    by (intro r_into_rtranclp step_stop)
  show ?thesis by (rule nats_restart_leaks [OF reach _ _ _ stop]) (simp_all add: example_nats_simps)
qed

abbreviation example_nats_handler :: "BrokerProcessEvent nats world handler" where
  "example_nats_handler \<equiv>
     process_signal_handler id (\<lambda>c. Some (Nats_Stop c)) (Nats_PushSignals True Published ''c'') (\<lambda>_. 0) False [] (0, 0, 0) ''''"

theorem nats_reports_no_existing_witness:
  "\<exists>sv. mk_Service example_names 0 example_nats_handler = Inr sv \<and>
    (\<forall>w. Run False [example_turn\<lparr>tu_threads := Some []\<rparr>] (sv, w) = Run False [example_turn] (sv, w))"
proof -
  obtain sv where sv: "mk_Service example_names 0 example_nats_handler = Inr sv"
    by (simp add: mk_Service_def example_add_defs example_filters empty_service_def Let_def)
  have "Run False (map (\<lambda>tu. tu\<lparr>tu_threads := Some []\<rparr>) [example_turn]) (sv, w) = Run False [example_turn] (sv, w)" for w
    using nats_reports_no_existing [OF sv, of False "\<lambda>_. Some []" "[example_turn]" w] .
  with sv show ?thesis by auto
qed

end
