(* ===== verification/Http_Endpoints.thy ===== *)
theory Http_Endpoints
  imports Inspector_Service
begin

text \<open>
  The endpoints of the collector's HTTP server: \<^verbatim>\<open>CivetWrapper.cpp\<close>, \<^verbatim>\<open>GetStatus.cpp\<close>, \<^verbatim>\<open>NetworkStatusInspector.cpp\<close>,
  \<^verbatim>\<open>ContainerInfoInspector.cpp\<close> with \<^verbatim>\<open>ContainerMetadata.cpp\<close>, \<^verbatim>\<open>CollectorRuntimeConfigInspector.cpp\<close> and
  \<^verbatim>\<open>ProfilerHandler.cpp\<close>. The server, the writer of JSON texts, the printer of addresses and the profilers are libraries: a
  request is a value, an answer is a value that holds the JSON tree, and \<open>sent\<close> says which calls of the server succeed.
\<close>

section \<open>Requests and answers\<close>

datatype json = J_bool bool | J_int int | J_string string | J_array "json list" | J_object "(string, json) umap"

datatype body = Json json | Text string | File string | Bytes string

datatype answer = Http_error nat string | Http_ok string body | Http_unavailable body

text \<open>\<open>ServerError\<close> and \<open>ClientError\<close> with the result of the call.\<close>

definition ServerError :: "bool \<Rightarrow> string \<Rightarrow> bool \<times> answer" where
  "ServerError sent err = (sent, Http_error 500 err)"

definition ClientError :: "bool \<Rightarrow> string \<Rightarrow> bool \<times> answer" where
  "ClientError sent err = (sent, Http_error 400 err)"

record request =
  rq_local_uri :: string
  rq_query_string :: "string option"

text \<open>
  The parameters are read line by line with \<^verbatim>\<open>&\<close> as the end of a line, while the stream is good; the line that ends with
  the text is the last one.
\<close>

type_synonym QueryParams = "(string, string) umap"

definition parse_statement :: "string \<Rightarrow> QueryParams \<Rightarrow> QueryParams" where
  "parse_statement statement params =
     (case str_find_char statement (CHR ''='') 0 of
        None \<Rightarrow> params
      | Some equal \<Rightarrow> um_assign (=) params (take equal statement) (drop (equal + 1) statement))"

function parse_lines :: "string \<Rightarrow> QueryParams \<Rightarrow> QueryParams" where
  "parse_lines s params =
     (case str_find_char s (CHR ''&'') 0 of
        None \<Rightarrow> parse_statement s params
      | Some n \<Rightarrow> parse_lines (drop (n + 1) s) (parse_statement (take n s) params))"
  by pat_completeness auto
termination
  by (relation "measure (\<lambda>(s, _). length s)") (auto dest!: str_find_char_bounds)

declare parse_lines.simps [simp del]

definition ParseParameters :: "string option \<Rightarrow> QueryParams" where
  "ParseParameters queryString = (case queryString of None \<Rightarrow> [] | Some s \<Rightarrow> parse_lines s [])"

definition GetParameter :: "QueryParams \<Rightarrow> string \<Rightarrow> string option" where
  "GetParameter params paramName = um_find (=) params paramName"

section \<open>Readiness\<close>

definition GetStatus_handleGet :: "string \<Rightarrow> capture_stats \<Rightarrow> 's service \<Rightarrow> bool \<times> answer" where
  "GetStatus_handleGet hostname cs sv =
     (True,
      case GetStats cs sv of
        None \<Rightarrow> Http_unavailable (Text ''{}'')
      | Some stats \<Rightarrow>
          Http_ok ''application/json'' (Json (J_object
            [(''status'', J_string ''ok''),
             (''collector'', J_object
               [(''node'', J_string hostname), (''events'', J_int (int (nEvents stats))),
                (''drops'', J_object
                  [(''total'', J_int (int (nDrops stats))), (''ringbuffer'', J_int (int (nDropsBuffer stats))),
                   (''threadcache'', J_int (int (nDropsThreadCache stats)))]),
                (''preemptions'', J_int (int (nPreemptions stats)))])])))"

section \<open>The state of the network\<close>

definition network_kBaseRoute :: string where "network_kBaseRoute = ''/state/network''"
definition kEndpointRoute :: string where "kEndpointRoute = network_kBaseRoute @ ''/endpoint''"
definition kConnectionRoute :: string where "kConnectionRoute = network_kBaseRoute @ ''/connection''"

text \<open>The code does not look at the result of the printer; what it leaves in the buffer on an error is the argument \<open>junk\<close>.\<close>

definition IP2str :: "net_lib \<Rightarrow> string \<Rightarrow> Address \<Rightarrow> string" where
  "IP2str nl junk addr =
     (case addr_family addr of
        IPV4 \<Rightarrow> (case nl_inet_ntop nl AF_INET (addr_mem addr) of Some s \<Rightarrow> s | None \<Rightarrow> junk)
      | IPV6 \<Rightarrow> (case nl_inet_ntop nl AF_INET6 (addr_mem addr) of Some s \<Rightarrow> s | None \<Rightarrow> junk)
      | FUnknown \<Rightarrow> ''unk'')"

definition Proto2str :: "L4Proto \<Rightarrow> string" where
  "Proto2str proto = (case proto of TCP \<Rightarrow> ''TCP'' | UDP \<Rightarrow> ''UDP'' | ICMP \<Rightarrow> ''ICMP'' | L4Unknown \<Rightarrow> ''UNKNOWN'')"

definition IPNet2str :: "net_lib \<Rightarrow> string \<Rightarrow> IPNet \<Rightarrow> string" where
  "IPNet2str nl junk net =
     IP2str nl junk (ipn_address net) @ (if ipn_bits net = 0 then '''' else ''/'' @ print_nat (ipn_bits net))"

definition SerializeEndpoint :: "net_lib \<Rightarrow> string \<Rightarrow> Endpoint \<Rightarrow> json" where
  "SerializeEndpoint nl junk ep =
     J_object [(''address'', J_string (IPNet2str nl junk (ep_network ep))), (''port'', J_int (uint (ep_port ep)))]"

definition shouldNormalize :: "QueryParams \<Rightarrow> bool" where
  "shouldNormalize query_params =
     (case GetParameter query_params ''normalize'' of None \<Rightarrow> True | Some normalize_flag \<Rightarrow> normalize_flag = ''true'')"

text \<open>The entries of a table by container, each list with the latest entry first.\<close>

fun by_container :: "('k \<Rightarrow> string) \<Rightarrow> string option \<Rightarrow> ('k \<times> 'v) list \<Rightarrow> (string, ('k \<times> 'v) list) umap \<Rightarrow> (string, ('k \<times> 'v) list) umap" where
  "by_container container container_filter [] m = m"
| "by_container container container_filter (e # es) m =
     by_container container container_filter es
       (if (case container_filter of None \<Rightarrow> True | Some c \<Rightarrow> c = container (fst e))
        then um_assign (=) m (container (fst e)) (e # (case um_find (=) m (container (fst e)) of None \<Rightarrow> [] | Some es \<Rightarrow> es))
        else m)"

definition endpoint_node :: "net_lib \<Rightarrow> string \<Rightarrow> ContainerEndpoint \<times> ConnStatus \<Rightarrow> json" where
  "endpoint_node nl junk es =
     J_object [(''active'', J_bool (IsActive (snd es))), (''l4proto'', J_string (Proto2str (cep_l4proto (fst es)))),
               (''endpoint'', SerializeEndpoint nl junk (cep_endpoint (fst es)))]"

definition connection_node :: "net_lib \<Rightarrow> string \<Rightarrow> Connection \<times> ConnStatus \<Rightarrow> json" where
  "connection_node nl junk cs =
     (let connection = fst cs
      in J_object ([(''active'', J_bool (IsActive (snd cs))), (''l4proto'', J_string (Proto2str (conn_l4proto connection)))] @
           (if conn_is_server connection
            then [(''from'', J_string (IPNet2str nl junk (ep_network (conn_remote connection)))),
                  (''port'', J_int (uint (ep_port (conn_local connection))))]
            else [(''to'', J_string (IPNet2str nl junk (ep_network (conn_remote connection)))),
                  (''port'', J_int (uint (ep_port (conn_remote connection))))])))"

definition json_of_groups :: "('e \<Rightarrow> json) \<Rightarrow> (string, 'e list) umap \<Rightarrow> json" where
  "json_of_groups node groups = J_object (map (\<lambda>(c, es). (c, J_array (map node es))) groups)"

definition handleGetEndpoints :: "net_lib \<Rightarrow> string \<Rightarrow> QueryParams \<Rightarrow> ConnectionTracker \<Rightarrow> (bool \<times> answer) \<times> ConnectionTracker" where
  "handleGetEndpoints nl junk query_params ct =
     (let (endpoint_states, ct') = FetchEndpointState (shouldNormalize query_params) False ct;
          container_filter = GetParameter query_params ''container''
      in ((True, Http_ok ''application/json''
             (Json (json_of_groups (endpoint_node nl junk) (by_container cep_container container_filter endpoint_states [])))), ct'))"

definition handleGetConnections :: "net_lib \<Rightarrow> string \<Rightarrow> QueryParams \<Rightarrow> ConnectionTracker \<Rightarrow> (bool \<times> answer) \<times> ConnectionTracker" where
  "handleGetConnections nl junk query_params ct =
     (let (connection_states, ct') = FetchConnState (shouldNormalize query_params) False ct;
          container_filter = GetParameter query_params ''container''
      in ((True, Http_ok ''application/json''
             (Json (json_of_groups (connection_node nl junk) (by_container conn_container container_filter connection_states [])))), ct'))"

definition NetworkStatusInspector_handleGet ::
  "net_lib \<Rightarrow> string \<Rightarrow> bool \<Rightarrow> request option \<Rightarrow> ConnectionTracker option \<Rightarrow> (bool \<times> answer) \<times> ConnectionTracker option" where
  "NetworkStatusInspector_handleGet nl junk sent req_info conntracker =
     (case req_info of
        None \<Rightarrow> (ServerError sent ''unable to read request'', conntracker)
      | Some req \<Rightarrow>
          (case conntracker of
             None \<Rightarrow> (ServerError sent ''not tracking network connections'', None)
           | Some ct \<Rightarrow>
               (let parameters = ParseParameters (rq_query_string req)
                in if rq_local_uri req = kEndpointRoute then map_prod id Some (handleGetEndpoints nl junk parameters ct)
                   else if rq_local_uri req = kConnectionRoute then map_prod id Some (handleGetConnections nl junk parameters ct)
                   else (ClientError sent ''unknown route'', Some ct))))"

section \<open>Containers\<close>

text \<open>The containers the inspector knows, with their labels.\<close>

type_synonym containers = "(string, (string, string) umap) umap"

definition GetContainerLabel :: "containers \<Rightarrow> string \<Rightarrow> string \<Rightarrow> string" where
  "GetContainerLabel containers container_id label =
     (case um_find (=) containers container_id of
        None \<Rightarrow> ''''
      | Some labels \<Rightarrow> (case um_find (=) labels label of None \<Rightarrow> '''' | Some v \<Rightarrow> v))"

definition GetNamespace :: "containers \<Rightarrow> string \<Rightarrow> string" where
  "GetNamespace containers container_id = GetContainerLabel containers container_id ''io.kubernetes.pod.namespace''"

definition ContainerInfoInspector_handleGet :: "bool \<Rightarrow> containers \<Rightarrow> request option \<Rightarrow> bool \<times> answer" where
  "ContainerInfoInspector_handleGet sent containers req_info =
     (case req_info of
        None \<Rightarrow> ServerError sent ''unable to read request''
      | Some req \<Rightarrow>
          (let url = rq_local_uri req;
               container_id = (case str_rfind url ''/'' of None \<Rightarrow> url | Some i \<Rightarrow> drop (i + 1) url)
           in if length container_id \<noteq> 12 then ClientError sent ''invalid container ID''
              else (True, Http_ok ''application/json'' (Json (J_object
                     [(''container_id'', J_string container_id), (''namespace'', J_string (GetNamespace containers container_id))])))))"

section \<open>The runtime configuration\<close>

text \<open>\<open>to_json\<close> is the printer of messages of protobuf.\<close>

definition configToJson :: "('m \<Rightarrow> string option) \<Rightarrow> 'm option \<Rightarrow> bool \<times> string" where
  "configToJson to_json runtime_config =
     (case runtime_config of
        None \<Rightarrow> (False, ''{}'')
      | Some config \<Rightarrow>
          (case to_json config of
             None \<Rightarrow> (True, ''{'' @ [CHR 0x22] @ ''error'' @ [CHR 0x22] @ '': '' @ [CHR 0x22] @ ''Failed to convert protobuf object to JSON'' @ [CHR 0x22] @ ''}'')
           | Some jsonString \<Rightarrow> (False, jsonString)))"

definition CollectorConfigInspector_handleGet :: "bool \<Rightarrow> ('m \<Rightarrow> string option) \<Rightarrow> 'm option \<Rightarrow> request option \<Rightarrow> bool \<times> answer" where
  "CollectorConfigInspector_handleGet sent to_json runtime_config req_info =
     (case req_info of
        None \<Rightarrow> ServerError sent ''unable to read request''
      | Some _ \<Rightarrow>
          (let (isError, jsonString) = configToJson to_json runtime_config
           in (True, if isError then Http_error 500 jsonString else Http_ok ''application/json'' (Text jsonString))))"

section \<open>Profiling\<close>

text \<open>
  The state of the handler with that of the profilers; \<open>pf_heap_profile\<close> is the text the library allocated. What the library and
  the file system answer in a request is \<open>profiler_lib\<close>.
\<close>

record ProfilerHandler =
  pf_cpu_enabled :: bool
  pf_heap_enabled :: bool
  pf_heap_profile :: "string option"
  pf_heap_profile_length :: nat
  pf_cpu_profile_length :: nat

record profiler_lib =
  pl_supported :: bool
  pl_start_cpu :: bool
  pl_stat :: "nat option"
  pl_remove :: bool
  pl_heap_profile :: "string option"

definition mk_ProfilerHandler :: ProfilerHandler where
  "mk_ProfilerHandler =
     \<lparr>pf_cpu_enabled = False, pf_heap_enabled = False, pf_heap_profile = None, pf_heap_profile_length = 0, pf_cpu_profile_length = 0\<rparr>"

definition kCPUProfileFilename :: string where "kCPUProfileFilename = ''/var/profiles/cpu_profile''"
definition profiler_kBaseRoute :: string where "profiler_kBaseRoute = ''/profile''"
definition kCPURoute :: string where "kCPURoute = profiler_kBaseRoute @ ''/cpu''"
definition kHeapRoute :: string where "kHeapRoute = profiler_kBaseRoute @ ''/heap''"

definition SendCPUProfile :: "bool \<Rightarrow> ProfilerHandler \<Rightarrow> bool \<times> answer" where
  "SendCPUProfile sent p =
     (if pf_cpu_profile_length p = 0 then (sent, Http_ok ''text/plain'' (Text []))
      else (True, Http_ok ''application/octet-stream'' (File kCPUProfileFilename)))"

text \<open>Writing a number of bytes from a null pointer is undefined: \<open>None\<close>. \<open>written\<close> is what the server says it wrote.\<close>

definition SendHeapProfile :: "bool \<Rightarrow> int \<Rightarrow> ProfilerHandler \<Rightarrow> (bool \<times> answer) option" where
  "SendHeapProfile sent written p =
     (if pf_heap_profile_length p = 0 then Some (sent, Http_ok ''text/plain'' (Text []))
      else if \<not> sent then Some (False, Http_ok ''application/octet-stream'' (Bytes []))
      else case pf_heap_profile p of
             None \<Rightarrow> None
           | Some s \<Rightarrow>
               Some (written = sint (of_nat (pf_heap_profile_length p) :: 32 word),
                     Http_ok ''application/octet-stream'' (Bytes (take (pf_heap_profile_length p) s))))"

definition SendStatus :: "bool \<Rightarrow> int \<Rightarrow> profiler_lib \<Rightarrow> ProfilerHandler \<Rightarrow> bool \<times> answer" where
  "SendStatus sent written pl p =
     (if \<not> sent then False else written \<ge> 0,
      Http_ok ''application/json'' (Json (J_object
        [(''supports_cpu'', J_bool (pl_supported pl)), (''supports_heap'', J_bool (pl_supported pl)),
         (''cpu'', J_string (if pf_cpu_enabled p then ''on'' else if pf_cpu_profile_length p > 0 then ''off'' else ''empty'')),
         (''heap'', J_string (if pf_heap_enabled p then ''on'' else if pf_heap_profile_length p > 0 then ''off'' else ''empty''))])))"

definition HandleCPURoute :: "bool \<Rightarrow> profiler_lib \<Rightarrow> string \<Rightarrow> ProfilerHandler \<Rightarrow> (bool \<times> answer) \<times> ProfilerHandler" where
  "HandleCPURoute sent pl post_data p =
     (let ok = (sent, Http_ok ''text/plain'' (Text []))
      in if post_data = ''on''
         then (if \<not> pf_cpu_enabled p
               then (if \<not> pl_start_cpu pl then (ServerError sent ''failed starting cpu profiler'', p)
                     else (ok, p\<lparr>pf_cpu_enabled := True\<rparr>))
               else (ok, p))
         else if post_data = ''off''
         then (if pf_cpu_enabled p
               then (ok, p\<lparr>pf_cpu_enabled := False,
                           pf_cpu_profile_length := (case pl_stat pl of Some n \<Rightarrow> n | None \<Rightarrow> pf_cpu_profile_length p)\<rparr>)
               else (ok, p))
         else if post_data = ''empty''
         then (if pf_cpu_profile_length p \<noteq> 0
               then (if \<not> pl_remove pl then (ServerError sent ''failure while deleting cpu profile'', p\<lparr>pf_cpu_profile_length := 0\<rparr>)
                     else (ok, p\<lparr>pf_cpu_profile_length := 0\<rparr>))
               else (ok, p))
         else (ClientError sent ''invalid post data'', p))"

text \<open>The length is that of the C string the library allocated.\<close>

definition HandleHeapRoute :: "bool \<Rightarrow> profiler_lib \<Rightarrow> string \<Rightarrow> ProfilerHandler \<Rightarrow> (bool \<times> answer) \<times> ProfilerHandler" where
  "HandleHeapRoute sent pl post_data p =
     (let ok = (sent, Http_ok ''text/plain'' (Text []))
      in if post_data = ''on''
         then (if \<not> pf_heap_enabled p then (ok, p\<lparr>pf_heap_enabled := True\<rparr>) else (ok, p))
         else if post_data = ''off''
         then (if pf_heap_enabled p
               then (let p1 = p\<lparr>pf_heap_profile := pl_heap_profile pl\<rparr>
                     in case pl_heap_profile pl of
                          None \<Rightarrow> (ServerError sent ''failed get heap profile'', p1)
                        | Some s \<Rightarrow> (ok, p1\<lparr>pf_heap_profile_length := length (c_str s), pf_heap_enabled := False\<rparr>))
               else (ok, p))
         else if post_data = ''empty''
         then (if pf_heap_profile_length p \<noteq> 0
               then (ok, p\<lparr>pf_heap_profile_length := 0, pf_heap_profile := None\<rparr>)
               else (ok, p))
         else (ClientError sent ''invalid post data'', p))"

definition ProfilerHandler_handlePost ::
  "bool \<Rightarrow> profiler_lib \<Rightarrow> request option \<Rightarrow> string \<Rightarrow> ProfilerHandler \<Rightarrow> (bool \<times> answer) \<times> ProfilerHandler" where
  "ProfilerHandler_handlePost sent pl req_info post_data p =
     (if \<not> pl_supported pl then (ServerError sent ''not supported'', p)
      else case req_info of
             None \<Rightarrow> (ServerError sent ''unable to read request'', p)
           | Some req \<Rightarrow>
               if rq_local_uri req = kCPURoute then HandleCPURoute sent pl post_data p
               else if rq_local_uri req = kHeapRoute then HandleHeapRoute sent pl post_data p
               else (ClientError sent ''unknown route'', p))"

definition ProfilerHandler_handleGet :: "bool \<Rightarrow> int \<Rightarrow> profiler_lib \<Rightarrow> request option \<Rightarrow> ProfilerHandler \<Rightarrow> (bool \<times> answer) option" where
  "ProfilerHandler_handleGet sent written pl req_info p =
     (case req_info of
        None \<Rightarrow> Some (ServerError sent ''unable to read request'')
      | Some req \<Rightarrow>
          if rq_local_uri req = profiler_kBaseRoute then Some (SendStatus sent written pl p)
          else if rq_local_uri req = kHeapRoute then SendHeapProfile sent written p
          else if rq_local_uri req = kCPURoute then Some (SendCPUProfile sent p)
          else Some (ClientError sent ''unknown route''))"

section \<open>Query parameters\<close>

lemma parse_lines_Cons: "CHR ''&'' \<notin> set p \<Longrightarrow> parse_lines (p @ CHR ''&'' # s) m = parse_lines s (parse_statement p m)"
  by (subst parse_lines.simps) (simp add: str_find_char_append)

lemma parse_lines_last: "CHR ''&'' \<notin> set p \<Longrightarrow> parse_lines p m = parse_statement p m"
proof -
  assume p: "CHR ''&'' \<notin> set p"
  have "str_find_char p (CHR ''&'') 0 = None"
  proof (cases "str_find_char p (CHR ''&'') 0")
    case (Some n)
    from str_find_char_Some(2) [OF this] have "CHR ''&'' \<in> set p" by (metis in_set_conv_decomp)
    then show ?thesis using p by simp
  qed
  then show ?thesis by (subst parse_lines.simps) simp
qed

lemma parse_statement_pair:
  "CHR ''='' \<notin> set k \<Longrightarrow> parse_statement (k @ CHR ''='' # v) m = um_assign (=) m k v"
  by (simp add: parse_statement_def str_find_char_append)

definition query_of :: "(string \<times> string) list \<Rightarrow> string" where
  "query_of ps = join (CHR ''&'') (map (\<lambda>(k, v). k @ CHR ''='' # v) ps)"

definition query_safe :: "(string \<times> string) list \<Rightarrow> bool" where
  "query_safe ps \<longleftrightarrow> (\<forall>(k, v) \<in> set ps. CHR ''='' \<notin> set k \<and> CHR ''&'' \<notin> set k \<and> CHR ''&'' \<notin> set v)"

lemma parse_query: "query_safe ps \<Longrightarrow> parse_lines (query_of ps) m = fold (\<lambda>(k, v) m. um_assign (=) m k v) ps m"
proof (induction ps arbitrary: m)
  case Nil
  then show ?case by (simp add: query_of_def parse_lines_last parse_statement_def str_find_char_def)
next
  case (Cons a ps)
  note IH = Cons.IH
  obtain k v where a: "a = (k, v)" by force
  have safe: "CHR ''='' \<notin> set k" "CHR ''&'' \<notin> set (k @ CHR ''='' # v)" "query_safe ps"
    using Cons.prems by (auto simp: a query_safe_def)
  show ?case
  proof (cases ps)
    case Nil
    then show ?thesis using safe by (simp add: a query_of_def parse_lines_last parse_statement_pair)
  next
    case (Cons b qs)
    then have "query_of (a # ps) = (k @ CHR ''='' # v) @ CHR ''&'' # query_of ps"
      by (simp add: a query_of_def split_beta)
    then show ?thesis
      using parse_lines_Cons [OF safe(2)] IH [OF safe(3)] parse_statement_pair [OF safe(1)] by (simp only: a fold_simps prod.case)
  qed
qed

lemma find_fold_assign:
  "um_find (=) (fold (\<lambda>(k, v) m. um_assign (=) m k v) ps m) k =
     (case map_of (rev ps) k of None \<Rightarrow> um_find (=) m k | Some v \<Rightarrow> Some v)"
proof (induction ps arbitrary: m)
  case (Cons a ps)
  then show ?case by (cases a) (auto simp: val_key.find_assign map_add_def split: option.splits)
qed simp

text \<open>
  A query that was built from parameters is read back: every parameter has the last value given for it, and there are no others.
\<close>

theorem query_roundtrip:
  assumes "query_safe ps"
  shows "GetParameter (ParseParameters (Some (query_of ps))) = map_of (rev ps)"
  using parse_query [OF assms, of "[]"] by (intro ext) (auto simp: GetParameter_def ParseParameters_def find_fold_assign split: option.splits)

section \<open>The listing of the network state\<close>

definition listed :: "('k \<Rightarrow> string) \<Rightarrow> string option \<Rightarrow> ('k \<times> 'v) list \<Rightarrow> string \<Rightarrow> ('k \<times> 'v) list" where
  "listed container container_filter es c =
     (if container_filter = None \<or> container_filter = Some c then filter (\<lambda>e. container (fst e) = c) es else [])"

lemma find_by_container:
  "um_find (=) (by_container container container_filter es m) c =
     (let xs = listed container container_filter es c
      in if xs = [] then um_find (=) m c else Some (rev xs @ (case um_find (=) m c of None \<Rightarrow> [] | Some ys \<Rightarrow> ys)))"
proof (induction es arbitrary: m)
  case Nil
  then show ?case by (simp add: listed_def)
next
  case (Cons e es)
  show ?case
    unfolding by_container.simps Cons
    by (cases "container (fst e) = c"; cases container_filter; cases "um_find (=) m c")
      (auto simp: listed_def val_key.find_assign Let_def)
qed

lemma find_json_groups:
  "um_find (=) (map (\<lambda>(c, es). (c, J_array (map node es))) groups) c = map_option (\<lambda>es. J_array (map node es)) (um_find (=) groups c)"
  by (induction groups) auto

lemma FetchState_keeps: "snd (FetchState keq st False p f) = st"
  by (simp add: FetchState_def fetch_loop_eq)

lemma FetchConnState_keeps: "snd (FetchConnState n False ct) = ct"
  unfolding FetchConnState_def Let_def by (simp add: FetchState_keeps split_beta)

lemma FetchEndpointState_keeps:
  "snd (FetchEndpointState n False ct) =
     ct\<lparr>ct_net_cep_inactive := ct_net_cep_inactive ct + (of_nat (length (ct_conn_state ct)) - of_nat (length (ct_endpoint_state ct)))\<rparr>"
  unfolding FetchEndpointState_def Let_def by (simp add: FetchState_keeps split_beta)

text \<open>
  The listing of connections is exact and only reads: the answer has a member for exactly the containers that pass the
  filter and have a connection in the tracker's normal form, each with all its connections and no others, and the tracker is unchanged.
\<close>

theorem connection_listing_exact:
  "\<exists>groups. handleGetConnections nl junk params ct = ((True, Http_ok ''application/json'' (Json (J_object groups))), ct) \<and>
    (\<forall>c. um_find (=) groups c =
       (let es = listed conn_container (GetParameter params ''container'') (fst (FetchConnState (shouldNormalize params) False ct)) c
        in if es = [] then None else Some (J_array (map (connection_node nl junk) (rev es)))))"
proof -
  obtain es where f: "FetchConnState (shouldNormalize params) False ct = (es, ct)"
    using FetchConnState_keeps by (metis prod.collapse)
  show ?thesis by (simp add: handleGetConnections_def f json_of_groups_def find_json_groups find_by_container Let_def)
qed

text \<open>
  Listing the endpoints spoils a statistic: the request reads the tables without changing them, but it adds the difference of
  the sizes of two unrelated tables to the number of inactive endpoints.
\<close>

theorem endpoint_listing_counts:
  "snd (handleGetEndpoints nl junk params ct) =
     ct\<lparr>ct_net_cep_inactive := ct_net_cep_inactive ct + (of_nat (length (ct_conn_state ct)) - of_nat (length (ct_endpoint_state ct)))\<rparr>"
  by (simp add: handleGetEndpoints_def split_beta FetchEndpointState_keeps)

section \<open>The heap profile\<close>

text \<open>The requests that can change the state of the profiler.\<close>

definition post_all ::
  "(bool \<times> profiler_lib \<times> request option \<times> string) list \<Rightarrow> ProfilerHandler \<Rightarrow> ProfilerHandler" where
  "post_all rs p = fold (\<lambda>(sent, pl, req, data) p. snd (ProfilerHandler_handlePost sent pl req data p)) rs p"

definition heap_ok :: "ProfilerHandler \<Rightarrow> bool" where
  "heap_ok p \<longleftrightarrow> (pf_heap_profile_length p \<noteq> 0 \<longrightarrow> (\<exists>s. pf_heap_profile p = Some s \<and> pf_heap_profile_length p = length (c_str s)))"

lemma HandleCPURoute_heap:
  "pf_heap_profile (snd (HandleCPURoute sent pl data p)) = pf_heap_profile p"
  "pf_heap_profile_length (snd (HandleCPURoute sent pl data p)) = pf_heap_profile_length p"
  by (simp_all add: HandleCPURoute_def Let_def)

lemma HandleHeapRoute_ok: "heap_ok p \<Longrightarrow> pl_heap_profile pl = Some s \<Longrightarrow> heap_ok (snd (HandleHeapRoute sent pl data p))"
  by (simp add: heap_ok_def HandleHeapRoute_def Let_def)

lemma heap_ok_post:
  assumes "heap_ok p" and "pl_heap_profile pl \<noteq> None"
  shows "heap_ok (snd (ProfilerHandler_handlePost sent pl req data p))"
proof -
  have "heap_ok (snd (HandleCPURoute sent pl data p))" using assms(1) by (simp add: heap_ok_def HandleCPURoute_heap)
  moreover have "heap_ok (snd (HandleHeapRoute sent pl data p))" using assms HandleHeapRoute_ok by blast
  ultimately show ?thesis using assms(1) by (simp add: ProfilerHandler_handlePost_def split: option.split)
qed

lemma heap_ok_post_all:
  assumes "heap_ok p" and "\<forall>(sent, pl, req, data) \<in> set rs. pl_heap_profile pl \<noteq> None"
  shows "heap_ok (post_all rs p)"
  using assms
proof (induction rs arbitrary: p)
  case (Cons r rs)
  then show ?case by (cases r) (auto simp: post_all_def heap_ok_post)
qed (simp add: post_all_def)

lemma take_c_str: "take (length (c_str s)) s = c_str s"
  unfolding c_str_def by (metis takeWhile_eq_take)

text \<open>
  As long as the library delivers heap profiles, asking for the profile is defined and sends the bytes of the latest one.
\<close>

theorem heap_profile_sent:
  assumes "\<forall>(sent, pl, req, data) \<in> set rs. pl_heap_profile pl \<noteq> None"
  shows "\<exists>r. SendHeapProfile True written (post_all rs mk_ProfilerHandler) = Some r \<and>
    (pf_heap_profile_length (post_all rs mk_ProfilerHandler) \<noteq> 0 \<longrightarrow>
       snd r = Http_ok ''application/octet-stream'' (Bytes (c_str (the (pf_heap_profile (post_all rs mk_ProfilerHandler))))))"
proof -
  have "heap_ok (post_all rs mk_ProfilerHandler)"
    using assms by (rule heap_ok_post_all [rotated]) (simp add: heap_ok_def mk_ProfilerHandler_def)
  then show ?thesis by (auto simp: heap_ok_def SendHeapProfile_def take_c_str)
qed

text \<open>
  A heap profile that the library fails to deliver leaves a trap: the pointer is null while the length of the profile before
  is kept, and the next request for the profile reads that many bytes through the null pointer.
\<close>

theorem heap_profile_null:
  assumes "pf_heap_profile_length p \<noteq> 0" and "pf_heap_enabled p" and "pl_supported pl" and "pl_heap_profile pl = None"
  shows "SendHeapProfile True written
    (snd (ProfilerHandler_handlePost sent pl (Some \<lparr>rq_local_uri = kHeapRoute, rq_query_string = q\<rparr>) ''off'' p)) = None"
  using assms by (simp add: SendHeapProfile_def ProfilerHandler_handlePost_def HandleHeapRoute_def kHeapRoute_def kCPURoute_def)

section \<open>Examples\<close>

theorem query_roundtrip_witness: "GetParameter (ParseParameters (Some ''normalize=false&container=abc'')) ''container'' = Some ''abc''"
proof -
  have "query_safe [(''normalize'', ''false''), (''container'', ''abc'')]" by (simp add: query_safe_def)
  from query_roundtrip [OF this] show ?thesis by (simp add: query_of_def)
qed

definition example_profiler_lib :: "string option \<Rightarrow> profiler_lib" where
  "example_profiler_lib profile =
     \<lparr>pl_supported = True, pl_start_cpu = True, pl_stat = None, pl_remove = True, pl_heap_profile = profile\<rparr>"

definition example_posts :: "(bool \<times> profiler_lib \<times> request option \<times> string) list" where
  "example_posts = map (\<lambda>d. (True, example_profiler_lib (Some ''heap''), Some \<lparr>rq_local_uri = kHeapRoute, rq_query_string = None\<rparr>, d)) [''on'', ''off'', ''on'']"

lemma example_posts_state:
  "post_all example_posts mk_ProfilerHandler = mk_ProfilerHandler\<lparr>pf_heap_enabled := True, pf_heap_profile := Some ''heap'', pf_heap_profile_length := 4\<rparr>"
  by (simp add: post_all_def example_posts_def example_profiler_lib_def ProfilerHandler_handlePost_def HandleHeapRoute_def kHeapRoute_def kCPURoute_def
      mk_ProfilerHandler_def c_str_def)

theorem heap_profile_sent_witness: "\<exists>r. SendHeapProfile True 4 (post_all example_posts mk_ProfilerHandler) = Some r"
proof -
  have "\<forall>(sent, pl, req, data) \<in> set example_posts. pl_heap_profile pl \<noteq> None"
    by (simp add: example_posts_def example_profiler_lib_def)
  from heap_profile_sent [OF this, of 4] show ?thesis by blast
qed

theorem heap_profile_null_witness:
  "SendHeapProfile True 4 (snd (ProfilerHandler_handlePost True (example_profiler_lib None)
     (Some \<lparr>rq_local_uri = kHeapRoute, rq_query_string = None\<rparr>) ''off'' (post_all example_posts mk_ProfilerHandler))) = None"
  by (rule heap_profile_null) (simp_all add: example_posts_state example_profiler_lib_def)

end
