(* ===== verification/Collector_Main.thy ===== *)
theory Collector_Main
  imports Nats_Client Http_Endpoints Config_Yaml Notifier_Thread
begin

text \<open>
  How the parts are put together: \<^verbatim>\<open>CollectorService.cpp\<close> and the main program \<^verbatim>\<open>collector.cpp\<close>, with the threads of
  \<^verbatim>\<open>StoppableThread.cpp\<close> and the waiting for the channel of \<^verbatim>\<open>GRPCUtil.cpp\<close>. What the operating system, the channel and the
  driver answer are arguments. A fatal log message ends the program at once.
\<close>

section \<open>Waiting for the channel\<close>

text \<open>What one look at the channel says; the closure \<open>check_interrupted\<close> has a state of its own. A wait that never ends is \<open>None\<close>.\<close>

datatype poll = Poll_connected | Poll_shutdown | Poll_waiting

partial_function (option) WaitForChannelReady ::
  "('p \<Rightarrow> bool \<times> 'p) \<Rightarrow> (nat \<Rightarrow> poll) \<Rightarrow> nat \<Rightarrow> 'p \<Rightarrow> (svc_failure + bool) option" where
  "WaitForChannelReady check_interrupted polls i p =
     (case check_interrupted p of
        (interrupted, p') \<Rightarrow>
          if interrupted then Some (Inr False)
          else case polls i of
                 Poll_connected \<Rightarrow> Some (Inr True)
               | Poll_shutdown \<Rightarrow>
                   Some (Inl (Fatal_log ''Fatal error waiting for GRPC channel to connect; channel is in shutdown state.''))
               | Poll_waiting \<Rightarrow> WaitForChannelReady check_interrupted polls (Suc i) p')"

definition MAX_GRPC_CONNECTION_POLLS :: int where "MAX_GRPC_CONNECTION_POLLS = 30"

definition attemptGRPCConnection :: "(nat \<Rightarrow> poll) \<Rightarrow> (svc_failure + bool) option" where
  "attemptGRPCConnection polls = WaitForChannelReady (\<lambda>n. (n = 0, n - 1)) polls 0 MAX_GRPC_CONNECTION_POLLS"

section \<open>Threads\<close>

record StoppableThread =
  th_running :: bool
  th_should_stop :: bool

definition prepareStart :: "bool \<Rightarrow> StoppableThread \<Rightarrow> bool \<times> StoppableThread" where
  "prepareStart pipe t =
     (if th_running t then (False, t)
      else if \<not> pipe then (False, t\<lparr>th_should_stop := False\<rparr>)
      else (True, t\<lparr>th_should_stop := False\<rparr>))"

definition doStart :: "StoppableThread \<Rightarrow> bool \<times> StoppableThread" where
  "doStart t = (True, t\<lparr>th_running := True\<rparr>)"

definition Thread_Start :: "bool \<Rightarrow> StoppableThread \<Rightarrow> bool \<times> StoppableThread" where
  "Thread_Start pipe t = (case prepareStart pipe t of (ok, t') \<Rightarrow> if \<not> ok then (False, t') else doStart t')"

text \<open>
  Stopping joins the thread through its pointer; without a thread that is undefined, and if the function of the thread does not return once
  the flag is set, the join waits for ever, which is \<open>None\<close>.
\<close>

definition Thread_Stop :: "bool \<Rightarrow> StoppableThread \<Rightarrow> (svc_failure + StoppableThread) option" where
  "Thread_Stop ends t =
     (if \<not> th_running t then Some (Inl Undefined)
      else if \<not> ends then None
      else Some (Inr (t\<lparr>th_should_stop := True, th_running := False\<rparr>)))"

definition new_thread :: StoppableThread where
  "new_thread = \<lparr>th_running = False, th_should_stop = False\<rparr>"

section \<open>The service\<close>

text \<open>The tracker is in the state that the handlers share; \<open>co_tracking\<close> says whether there is one.\<close>

record 'c CollectorService =
  co_inspector :: "'c world service"
  co_world :: "'c world"
  co_tracking :: bool
  co_endpoints :: "string list"
  co_config_loader :: StoppableThread
  co_notifier :: "StoppableThread option"
  co_exporter :: StoppableThread

definition new_tracker :: "CollectorConfig \<Rightarrow> ConnectionTracker" where
  "new_tracker c =
     UpdateNonAggregatedNetworks (cc_non_aggregated_networks c)
       (UpdateIgnoredNetworks (cc_ignored_networks c)
         (UpdateIgnoredL4ProtoPortPairs (cc_ignored_l4proto_port_pairs c) ConnectionTracker_init))"

definition new_network_handler :: "CollectorConfig \<Rightarrow> NetworkSignalHandler" where
  "new_network_handler c =
     mk_NetworkSignalHandler\<lparr>nh_collect_connection_status := cc_collect_connection_status c, nh_track_send_recv := cc_track_send_recv c\<rparr>"

definition civet_endpoints :: "CollectorConfig \<Rightarrow> string list" where
  "civet_endpoints c =
     [''/ready'', ''/loglevel'', profiler_kBaseRoute] @
     (if cc_enable_introspection c then [''/state/containers/'', network_kBaseRoute, ''/state/runtime-config''] else [])"

definition mk_CollectorService ::
  "EventNames \<Rightarrow> int \<Rightarrow> Modifier EventMap \<Rightarrow> 'c world handler \<Rightarrow> bool \<Rightarrow> CollectorConfig \<Rightarrow> 'c world \<Rightarrow> svc_failure + 'c CollectorService" where
  "mk_CollectorService en start mods process_handler grpc_channel c w =
     (case mk_Service en start process_handler of
        Inl e \<Rightarrow> Inl e
      | Inr sv \<Rightarrow>
          (let tracking = (\<not> grpc_channel \<or> \<not> cc_disable_network_flows c);
               finish = (\<lambda>sv w. \<lparr>co_inspector = sv, co_world = w, co_tracking = tracking, co_endpoints = civet_endpoints c,
                                  co_config_loader = new_thread, co_notifier = (if tracking then Some new_thread else None),
                                  co_exporter = new_thread\<rparr>)
           in if tracking
              then (case AddSignalHandler en (network_signal_handler mods (new_network_handler c)) sv of
                      Inl e \<Rightarrow> Inl e
                    | Inr sv' \<Rightarrow> Inr (finish sv' (w\<lparr>w_tracker := new_tracker c\<rparr>)))
              else Inr (finish sv w)))"

text \<open>
  The turns of the inspector until each interruption; \<open>pipes\<close> says whether the pipes of the three threads could be made. Only the
  exporter's start is checked.
\<close>

fun run_until_stopped :: "bool \<Rightarrow> turn list list \<Rightarrow> 's service \<times> 's \<Rightarrow> svc_failure + 's service \<times> 's" where
  "run_until_stopped is_rhel76 [] st = Inr st"
| "run_until_stopped is_rhel76 (turns # rest) st =
     (case Run is_rhel76 turns st of Inl e \<Rightarrow> Inl e | Inr st' \<Rightarrow> run_until_stopped is_rhel76 rest st')"

definition RunForever ::
  "bool \<Rightarrow> bool \<times> bool \<times> bool \<Rightarrow> turn list list \<Rightarrow> 'c CollectorService \<Rightarrow> svc_failure + 'c CollectorService" where
  "RunForever is_rhel76 pipes runs co =
     (case pipes of (p1, p2, p3) \<Rightarrow>
        (let co1 = co\<lparr>co_config_loader := snd (Thread_Start p1 (co_config_loader co)),
                      co_notifier := map_option (\<lambda>t. snd (Thread_Start p2 t)) (co_notifier co)\<rparr>
         in case Thread_Start p3 (co_exporter co1) of
              (False, _) \<Rightarrow> Inl (Fatal_log ''Unable to start collector stats exporter'')
            | (True, exporter) \<Rightarrow>
                (case Start (co_inspector co1, co_world co1) of
                   Inl e \<Rightarrow> Inl e
                 | Inr st \<Rightarrow>
                     (case run_until_stopped is_rhel76 runs st of
                        Inl e \<Rightarrow> Inl e
                      | Inr (sv, w) \<Rightarrow> Inr (co1\<lparr>co_exporter := exporter, co_inspector := sv, co_world := w\<rparr>)))))"

definition stop_notifier :: "bool \<Rightarrow> StoppableThread option \<Rightarrow> (svc_failure + StoppableThread option) option" where
  "stop_notifier ends n =
     (case n of None \<Rightarrow> Some (Inr None) | Some t \<Rightarrow> map_option (map_sum id Some) (Thread_Stop ends t))"

text \<open>\<open>ends\<close> says of the loader, the notifier and the exporter whether their threads return.\<close>

definition destroy_CollectorService :: "bool \<times> bool \<times> bool \<Rightarrow> 'c CollectorService \<Rightarrow> (svc_failure + 'c CollectorService) option" where
  "destroy_CollectorService ends co =
     (case ends of (loader_ends, notifier_ends, exporter_ends) \<Rightarrow>
        (case Thread_Stop loader_ends (co_config_loader co) of
           None \<Rightarrow> None
         | Some (Inl e) \<Rightarrow> Some (Inl e)
         | Some (Inr loader) \<Rightarrow>
             (case stop_notifier notifier_ends (co_notifier co) of
                None \<Rightarrow> None
              | Some (Inl e) \<Rightarrow> Some (Inl e)
              | Some (Inr notifier) \<Rightarrow>
                  (case Thread_Stop exporter_ends (co_exporter co) of
                     None \<Rightarrow> None
                   | Some (Inl e) \<Rightarrow> Some (Inl e)
                   | Some (Inr exporter) \<Rightarrow>
                       (case CleanUp (co_inspector co, co_world co) of
                          Inl e \<Rightarrow> Some (Inl e)
                        | Inr (sv, w) \<Rightarrow>
                            Some (Inr (co\<lparr>co_config_loader := loader, co_notifier := notifier, co_exporter := exporter,
                                          co_inspector := sv, co_world := w\<rparr>)))))))"

section \<open>The main program\<close>

record Diagnostics =
  dg_connected :: bool
  dg_drivers :: "string list"

definition DriverAvailable :: "string \<Rightarrow> Diagnostics \<Rightarrow> Diagnostics" where
  "DriverAvailable candidate d = d\<lparr>dg_drivers := dg_drivers d @ [''   '' @ candidate @ '' (available)'']\<rparr>"

definition DriverUnavailable :: "string \<Rightarrow> Diagnostics \<Rightarrow> Diagnostics" where
  "DriverUnavailable candidate d = d\<lparr>dg_drivers := dg_drivers d @ [''   '' @ candidate @ '' (unavailable)'']\<rparr>"

definition DriverSuccess :: "string \<Rightarrow> Diagnostics \<Rightarrow> Diagnostics" where
  "DriverSuccess candidate d = d\<lparr>dg_drivers := dg_drivers d @ ['' Driver loaded into kernel: '' @ candidate]\<rparr>"

definition InitKernel :: "bool \<Rightarrow> string \<Rightarrow> Diagnostics \<Rightarrow> bool \<times> Diagnostics" where
  "InitKernel driver cm_name d =
     (let d1 = DriverAvailable cm_name d in if driver then (True, DriverSuccess cm_name d1) else (False, d1))"

text \<open>The answers of the outside world to one run of the program.\<close>

record 'c outside =
  ou_args :: "string option"
  ou_args_ok :: bool
  ou_load :: LoadResult
  ou_runtime_config :: runtime_config
  ou_polls :: "nat \<Rightarrow> poll"
  ou_driver :: bool
  ou_pipes :: "bool \<times> bool \<times> bool"
  ou_runs :: "turn list list"
  ou_ends :: "bool \<times> bool \<times> bool"
  ou_world :: "'c world"

definition RunService ::
  "EventNames \<Rightarrow> int \<Rightarrow> Modifier EventMap \<Rightarrow> 'c world handler \<Rightarrow> bool \<Rightarrow> bool \<Rightarrow> CollectorConfig \<Rightarrow> 'c outside \<Rightarrow>
   (svc_failure + 'c CollectorService) option" where
  "RunService en start mods process_handler is_rhel76 grpc_channel c ou =
     (case mk_CollectorService en start mods process_handler grpc_channel c (ou_world ou) of
        Inl e \<Rightarrow> Some (Inl e)
      | Inr co \<Rightarrow>
          if \<not> ou_driver ou then Some (Inl (Fatal_log ''Failed to initialize collector kernel components.''))
          else case RunForever is_rhel76 (ou_pipes ou) (ou_runs ou) co of
                 Inl e \<Rightarrow> Some (Inl e)
               | Inr co' \<Rightarrow> destroy_CollectorService (ou_ends ou) co')"

text \<open>\<open>None\<close> is a program that waits for ever; \<open>init\<close> is the configuration the arguments lead to.\<close>

definition main_collector ::
  "EventNames \<Rightarrow> int \<Rightarrow> Modifier EventMap \<Rightarrow> (CollectorConfig \<Rightarrow> bool \<Rightarrow> 'c world handler) \<Rightarrow> bool \<Rightarrow> svc_failure + CollectorConfig \<Rightarrow> 'c outside \<Rightarrow>
   (svc_failure + 'c CollectorService) option" where
  "main_collector en start mods process_handler is_rhel76 init ou =
     (if \<not> ou_args_ok ou
      then Some (Inl (Fatal_log (case ou_args ou of Some msg \<Rightarrow> msg | None \<Rightarrow> ''Error parsing arguments'')))
      else case init of
             Inl e \<Rightarrow> Some (Inl e)
           | Inr config0 \<Rightarrow>
               if ou_load ou = PARSE_ERROR then Some (Inl (Fatal_log ''Unable to parse configuration file''))
               else let config = (if ou_load ou = SUCCESS then SetRuntimeConfig (ou_runtime_config ou) config0 else config0)
                    in case cc_grpc_server config of
                      None \<Rightarrow> RunService en start mods (process_handler config False) is_rhel76 False config ou
                    | Some server \<Rightarrow>
                        (case attemptGRPCConnection (ou_polls ou) of
                           None \<Rightarrow> None
                         | Some (Inl e) \<Rightarrow> Some (Inl e)
                         | Some (Inr False) \<Rightarrow>
                             Some (Inl (Fatal_log (''Unable to connect to Sensor at '' @ [CHR 0x27] @ server @ [CHR 0x27] @ ''.'')))
                         | Some (Inr True) \<Rightarrow> RunService en start mods (process_handler config True) is_rhel76 True config ou))"

section \<open>Starting up\<close>

definition poll_result :: "(nat \<Rightarrow> poll) \<Rightarrow> nat option \<Rightarrow> svc_failure + bool" where
  "poll_result polls found =
     (case found of
        None \<Rightarrow> Inr False
      | Some i \<Rightarrow> if polls i = Poll_connected then Inr True
                  else Inl (Fatal_log ''Fatal error waiting for GRPC channel to connect; channel is in shutdown state.''))"

lemma wait_bounded:
  "WaitForChannelReady (\<lambda>n :: int. (n = 0, n - 1)) polls i (int k) =
     Some (poll_result polls (List.find (\<lambda>j. polls j \<noteq> Poll_waiting) [i..<i + k]))"
proof (induction k arbitrary: i)
  case 0
  show ?case by (subst WaitForChannelReady.simps) (simp add: poll_result_def)
next
  case (Suc k)
  have upt: "[i..<i + Suc k] = i # [Suc i..<Suc i + k]" by (simp add: upt_rec)
  show ?case
    unfolding upt
    by (subst WaitForChannelReady.simps, cases "polls i") (simp_all add: Suc.IH [of "Suc i"] poll_result_def del: upt_Suc)
qed

text \<open>
  (C34) The attempt to connect always ends: it looks at the channel at most thirty times, and its result is decided by the first
  look that does not tell it to go on waiting, success for a connected channel and a fatal error for one that is shut down.
\<close>

theorem connection_attempt_ends:
  "attemptGRPCConnection polls = Some (poll_result polls (List.find (\<lambda>i. polls i \<noteq> Poll_waiting) [0..<30]))"
  using wait_bounded [of polls 0 30] by (simp add: attemptGRPCConnection_def MAX_GRPC_CONNECTION_POLLS_def)

section \<open>Putting the service together\<close>

text \<open>
  The service is built as the configuration says: connections are tracked exactly if there is no channel or network flows
  are not disabled; then the tracker ignores what the configuration lists and the handler of network signals comes after those of
  the self checks and of process signals.
\<close>

theorem service_wiring:
  assumes "mk_CollectorService en start mods (process_signal_handler sc tc push utf8_span da types clock uuid) grpc_channel c w = Inr co"
  shows "(co_tracking co \<longleftrightarrow> \<not> grpc_channel \<or> \<not> cc_disable_network_flows c) \<and> (co_notifier co \<noteq> None \<longleftrightarrow> co_tracking co) \<and>
    map (h_name \<circ> fst) (sv_signal_handlers (co_inspector co)) =
      [''SelfCheckProcessHandler'', ''SelfCheckNetworkHandler'', ''ProcessSignalHandler''] @ (if co_tracking co then [''NetworkSignalHandler''] else []) \<and>
    (co_tracking co \<longrightarrow> ct_ignored_l4proto_port_pairs (w_tracker (co_world co)) = cc_ignored_l4proto_port_pairs c \<and>
      ct_ignored_networks (w_tracker (co_world co)) = NRadixTree (cc_ignored_networks c) \<and>
      ct_non_aggregated_networks (w_tracker (co_world co)) = NRadixTree (cc_non_aggregated_networks c))"
proof (intro conjI impI)
  from assms obtain sv where sv: "mk_Service en start (process_signal_handler sc tc push utf8_span da types clock uuid) = Inr sv"
    by (auto simp: mk_CollectorService_def split: sum.splits)
  have names: "map (h_name \<circ> fst) (sv_signal_handlers sv) = [''SelfCheckProcessHandler'', ''SelfCheckNetworkHandler'', ''ProcessSignalHandler'']"
    using mk_Service_handlers [OF sv]
    by (auto simp: SelfCheckProcessHandler_def SelfCheckNetworkHandler_def process_signal_handler_def base_handler_def)
  note split_run = assms [unfolded mk_CollectorService_def sv Let_def sum.case]
  show "co_tracking co \<longleftrightarrow> \<not> grpc_channel \<or> \<not> cc_disable_network_flows c" "co_notifier co \<noteq> None \<longleftrightarrow> co_tracking co"
    using split_run by (auto split: if_splits sum.splits)
  show "map (h_name \<circ> fst) (sv_signal_handlers (co_inspector co)) =
      [''SelfCheckProcessHandler'', ''SelfCheckNetworkHandler'', ''ProcessSignalHandler''] @ (if co_tracking co then [''NetworkSignalHandler''] else [])"
    using split_run names
    by (auto split: if_splits sum.splits dest!: AddSignalHandler_appends simp: network_signal_handler_def base_handler_def)
  assume "co_tracking co"
  then show "ct_ignored_l4proto_port_pairs (w_tracker (co_world co)) = cc_ignored_l4proto_port_pairs c"
    "ct_ignored_networks (w_tracker (co_world co)) = NRadixTree (cc_ignored_networks c)"
    "ct_non_aggregated_networks (w_tracker (co_world co)) = NRadixTree (cc_non_aggregated_networks c)"
    using split_run
    by (auto split: if_splits sum.splits simp: new_tracker_def UpdateNonAggregatedNetworks_def UpdateIgnoredNetworks_def
        UpdateIgnoredL4ProtoPortPairs_def)
qed

section \<open>Shutting down\<close>

lemma mk_CollectorService_parts:
  assumes "mk_CollectorService en start mods h grpc_channel c w = Inr co"
  shows "co_config_loader co = new_thread" and "co_exporter co = new_thread"
    and "co_notifier co = None \<or> co_notifier co = Some new_thread"
    and "\<not> grpc_channel \<Longrightarrow> \<exists>sv. mk_Service en start h = Inr sv \<and>
      AddSignalHandler en (network_signal_handler mods (new_network_handler c)) sv = Inr (co_inspector co)"
  using assms by (auto simp: mk_CollectorService_def Let_def split: sum.splits if_splits)

lemma run_turn_inspector:
  assumes "run_turn is_rhel76 tu (sv, s) = Inr (sv', s')"
  shows "sv_inspector sv' = sv_inspector sv"
proof -
  obtain e sv2 where g: "Service_GetNext is_rhel76 (tu_next tu) (sv\<lparr>sv_store := ServePendingProcessRequests (tu_lookup tu) (sv_store sv)\<rparr>) = (e, sv2)"
    by force
  then have i: "sv_inspector sv2 = sv_inspector sv" by (auto simp: Service_GetNext_def Let_def split: option.splits if_splits)
  show ?thesis
  proof (cases e)
    case None
    then show ?thesis using assms g i by (auto simp: run_turn_def)
  next
    case (Some evt)
    from assms obtain hs' sv3 where d: "dispatch tu evt (sv_signal_handlers sv2) (sv2, s) = Inr (hs', sv3, s')"
      and "sv_inspector sv' = sv_inspector sv3"
      by (auto simp: run_turn_def g Some Let_def split: sum.splits)
    then show ?thesis using dispatch_books [OF d] i by (simp add: same_books_def)
  qed
qed

lemma run_loop_inspector: "run_loop is_rhel76 turns (sv, s) = Inr (sv', s') \<Longrightarrow> sv_inspector sv' = sv_inspector sv"
proof (induction turns arbitrary: sv s)
  case (Cons tu turns)
  from Cons.prems obtain sv1 s1 where t: "run_turn is_rhel76 tu (sv, s) = Inr (sv1, s1)"
    and l: "run_loop is_rhel76 turns (sv1, s1) = Inr (sv', s')" by (auto split: sum.splits)
  show ?case using Cons.IH [OF l] run_turn_inspector [OF t] by simp
qed simp

lemma run_until_stopped_inspector: "run_until_stopped is_rhel76 runs (sv, s) = Inr (sv', s') \<Longrightarrow> sv_inspector sv' = sv_inspector sv"
proof (induction runs arbitrary: sv s)
  case (Cons turns runs)
  from Cons.prems obtain sv1 s1 where t: "Run is_rhel76 turns (sv, s) = Inr (sv1, s1)"
    and l: "run_until_stopped is_rhel76 runs (sv1, s1) = Inr (sv', s')" by (auto split: sum.splits)
  show ?case using Cons.IH [OF l] run_loop_inspector [of is_rhel76 turns sv s sv1 s1] t by (simp add: Run_def split: if_splits)
qed simp

lemma Start_inspector: "Start (sv, s) = Inr st \<Longrightarrow> sv_inspector (fst st)"
  by (cases "start_handlers (sv_signal_handlers sv) s"; cases "sv_inspector sv") (auto simp add: Start_def)

lemma RunForever_cases:
  assumes "RunForever is_rhel76 (p1, p2, p3) runs co = Inr co'"
  shows "co_config_loader co' = snd (Thread_Start p1 (co_config_loader co)) \<and>
    co_notifier co' = map_option (\<lambda>t. snd (Thread_Start p2 t)) (co_notifier co) \<and>
    (\<exists>t. Thread_Start p3 (co_exporter co) = (True, t) \<and> co_exporter co' = t) \<and> sv_inspector (co_inspector co')"
proof -
  obtain ok t where t: "Thread_Start p3 (co_exporter co) = (ok, t)" by force
  have ok using assms t by (cases ok) (simp_all add: RunForever_def Let_def)
  obtain st where s: "Start (co_inspector co, co_world co) = Inr st"
    using assms t \<open>ok\<close> by (cases "Start (co_inspector co, co_world co)") (simp_all add: RunForever_def Let_def)
  obtain sv w where r: "run_until_stopped is_rhel76 runs st = Inr (sv, w)"
    using assms t \<open>ok\<close> s by (cases "run_until_stopped is_rhel76 runs st") (auto simp add: RunForever_def Let_def)
  have co': "co' = co\<lparr>co_config_loader := snd (Thread_Start p1 (co_config_loader co)),
        co_notifier := map_option (\<lambda>t. snd (Thread_Start p2 t)) (co_notifier co), co_exporter := t, co_inspector := sv, co_world := w\<rparr>"
    using assms t \<open>ok\<close> s r by (simp add: RunForever_def Let_def)
  have "sv_inspector (fst st)" by (rule Start_inspector [OF s])
  moreover have "sv_inspector sv = sv_inspector (fst st)"
    by (rule run_until_stopped_inspector [of is_rhel76 runs _ "snd st"]) (simp add: r)
  ultimately show ?thesis using t \<open>ok\<close> co' by simp
qed

lemma new_thread_start [simp]: "Thread_Start True new_thread = (True, \<lparr>th_running = True, th_should_stop = False\<rparr>)"
  "Thread_Start False new_thread = (False, new_thread)"
  by (simp_all add: Thread_Start_def prepareStart_def doStart_def new_thread_def)


text \<open>
  (C33) A service that has run shuts down cleanly: if the pipes of all threads could be made, the threads return and the handlers can be stopped, the
  destructor is defined; after it no thread runs and the inspector is closed with no handlers left.
\<close>

theorem shutdown_clean:
  assumes "mk_CollectorService en start mods h grpc_channel c w = Inr co"
    and "RunForever is_rhel76 (True, True, True) runs co = Inr co1"
    and "stop_handlers (sv_signal_handlers (co_inspector co1)) (co_world co1) = Inr w'"
  shows "\<exists>co2. destroy_CollectorService (True, True, True) co1 = Some (Inr co2) \<and> \<not> th_running (co_config_loader co2) \<and> \<not> th_running (co_exporter co2) \<and>
    (\<forall>t. co_notifier co2 = Some t \<longrightarrow> \<not> th_running t) \<and> \<not> sv_inspector (co_inspector co2) \<and> sv_signal_handlers (co_inspector co2) = []"
proof -
  note new = mk_CollectorService_parts(1-3) [OF assms(1)]
  note run = RunForever_cases [OF assms(2)]
  have threads: "th_running (co_config_loader co1)" "th_running (co_exporter co1)"
    using run new by auto
  have notifier: "co_notifier co1 = None \<or> (\<exists>t. co_notifier co1 = Some t \<and> th_running t)" using run new by auto
  have clean: "CleanUp (co_inspector co1, co_world co1) = Inr ((co_inspector co1)\<lparr>sv_running := False, sv_inspector := False, sv_signal_handlers := [],
      sv_store := cancel_requests (sv_store (co_inspector co1))\<rparr>, w')"
    using run assms(3) by (simp add: CleanUp_def)
  show ?thesis using threads notifier clean by (auto simp: destroy_CollectorService_def Thread_Stop_def stop_notifier_def)
qed

text \<open>
  A thread that could not be started is stopped all the same: if the pipe for the loader of the configuration could not be made,
  the service runs without it, and when it ends the destructor joins a thread that does not exist.
\<close>

theorem failed_start_crashes:
  assumes "mk_CollectorService en start mods h grpc_channel c w = Inr co"
    and "RunForever is_rhel76 (False, p2, True) runs co = Inr co1"
  shows "destroy_CollectorService ends co1 = Some (Inl Undefined)"
proof -
  have "co_config_loader co1 = new_thread"
    using RunForever_cases [OF assms(2)] mk_CollectorService_parts(1) [OF assms(1)] by simp
  then show ?thesis by (simp add: destroy_CollectorService_def Thread_Stop_def new_thread_def split: prod.split)
qed

text \<open>
  (C36) A collector without a channel never shuts down: it always has a notifier, which then writes to standard output and does not return
  once its first pause is over, so the destructor waits for it for ever.
\<close>

theorem stdout_service_hangs:
  assumes "mk_CollectorService en start mods h False c w = Inr co"
    and "RunForever is_rhel76 (True, True, True) runs co = Inr co1" and "at_pause (attempts 0)"
  shows "destroy_CollectorService (True, Notifier_Run cfg False (\<lambda>i. (stdout_writer, [])) attempts 0 ct \<noteq> None, exporter_ends) co1 = None"
proof -
  have "co_notifier co = Some new_thread" using assms(1) by (auto simp: mk_CollectorService_def Let_def split: sum.splits)
  then have "th_running (co_config_loader co1)" "\<exists>t. co_notifier co1 = Some t \<and> th_running t"
    using RunForever_cases [OF assms(2)] mk_CollectorService_parts(1) [OF assms(1)] by auto
  moreover have "Notifier_Run cfg False (\<lambda>i. (stdout_writer, [])) attempts 0 ct = None"
    using assms(3) by (simp add: stdout_notifier_hangs)
  ultimately show ?thesis by (auto simp: destroy_CollectorService_def Thread_Stop_def stop_notifier_def)
qed


section \<open>Examples\<close>

abbreviation example_config :: CollectorConfig where "example_config \<equiv> mk_CollectorConfig False None 0 0"

abbreviation example_stdout_handler :: "ProcessSignal list world handler" where
  "example_stdout_handler \<equiv>
     process_signal_handler id Some (\<lambda>s c. Some (PushSignals_stdout s c)) (\<lambda>_. 0) False [] (0, 0, 0) ''''"

definition example_stdout_world :: "ProcessSignal list world" where
  "example_stdout_world =
     \<lparr>w_process = \<lparr>ph_rate_limiter = RateLimitCache_default, ph_stats = ph_stats example_handler, ph_lineage_stats = ph_lineage_stats example_handler, ph_client = []\<rparr>,
      w_tracker = ConnectionTracker_init\<rparr>"

lemma example_collector_made:
  "\<exists>co. mk_CollectorService example_names 0 [] example_stdout_handler False example_config example_stdout_world = Inr co"
proof -
  obtain sv where sv: "mk_Service example_names 0 example_stdout_handler = Inr sv"
    by (simp add: mk_Service_def example_add_defs example_filters empty_service_def Let_def)
  obtain sv1 where "AddSignalHandler example_names (network_signal_handler [] (new_network_handler example_config)) sv = Inr sv1"
    by (simp add: example_add_defs example_filters GetRelevantEvents_def new_network_handler_def mk_CollectorConfig_def Let_def)
  with sv show ?thesis by (simp add: mk_CollectorService_def Let_def)
qed

definition example_collector :: "ProcessSignal list CollectorService" where
  "example_collector = projr (mk_CollectorService example_names 0 [] example_stdout_handler False example_config example_stdout_world)"

lemma example_collector: "mk_CollectorService example_names 0 [] example_stdout_handler False example_config example_stdout_world = Inr example_collector"
  using example_collector_made by (auto simp: example_collector_def)

theorem service_wiring_witness: "co_tracking example_collector \<and>
  ct_ignored_networks (w_tracker (co_world example_collector)) = NRadixTree (cc_ignored_networks example_config)"
  using service_wiring [OF example_collector] by simp


lemma example_collector_handlers:
  "\<exists>f1 f2 f3 f4. sv_signal_handlers (co_inspector example_collector) =
     [(SelfCheckProcessHandler 0, f1), (SelfCheckNetworkHandler 0, f2), (example_stdout_handler, f3),
      (network_signal_handler [] (new_network_handler example_config), f4)] \<and> sv_inspector (co_inspector example_collector)"
proof -
  obtain sv where sv: "mk_Service example_names 0 example_stdout_handler = Inr sv"
    and add: "AddSignalHandler example_names (network_signal_handler [] (new_network_handler example_config)) sv = Inr (co_inspector example_collector)"
    using mk_CollectorService_parts(4) [OF example_collector] by auto
  show ?thesis using mk_Service_handlers [OF sv] AddSignalHandler_appends [OF add] mk_Service_inspector [OF sv] by auto
qed

lemma example_starts: "\<exists>st. Start (co_inspector example_collector, w) = Inr st \<and> sv_signal_handlers (fst st) = sv_signal_handlers (co_inspector example_collector)"
  using example_collector_handlers
  by (auto simp: Start_def start_handlers_def SelfCheckProcessHandler_def SelfCheckNetworkHandler_def process_signal_handler_def
      network_signal_handler_def base_handler_def process_start_def)

lemma example_stops: "\<exists>w'. stop_handlers (sv_signal_handlers (co_inspector example_collector)) w = Inr w'"
  using example_collector_handlers
  by (auto simp: SelfCheckProcessHandler_def SelfCheckNetworkHandler_def process_signal_handler_def
      network_signal_handler_def base_handler_def process_stop_def ProcessSignalHandler_Stop_def)

lemma example_runs:
  "\<exists>co1. RunForever False (p1, p2, True) [] example_collector = Inr co1 \<and>
     sv_signal_handlers (co_inspector co1) = sv_signal_handlers (co_inspector example_collector)"
proof -
  note exporter = mk_CollectorService_parts(2) [OF example_collector]
  obtain sv w where "Start (co_inspector example_collector, co_world example_collector) = Inr (sv, w)"
    "sv_signal_handlers sv = sv_signal_handlers (co_inspector example_collector)" using example_starts by fastforce
  then show ?thesis by (simp add: RunForever_def exporter)
qed

lemma example_collector_channel: "mk_CollectorService example_names 0 [] example_stdout_handler True example_config example_stdout_world = Inr example_collector"
  using example_collector by (simp add: mk_CollectorService_def mk_CollectorConfig_def cong: sum.case_cong)

theorem shutdown_clean_witness:
  "\<exists>co1 co2. RunForever False (True, True, True) [] example_collector = Inr co1 \<and> destroy_CollectorService (True, True, True) co1 = Some (Inr co2) \<and>
    \<not> th_running (co_config_loader co2)"
proof -
  obtain co1 where run: "RunForever False (True, True, True) [] example_collector = Inr co1"
    and hs: "sv_signal_handlers (co_inspector co1) = sv_signal_handlers (co_inspector example_collector)" using example_runs by blast
  obtain w' where "stop_handlers (sv_signal_handlers (co_inspector co1)) (co_world co1) = Inr w'" unfolding hs using example_stops by blast
  from shutdown_clean [OF example_collector_channel run this] run show ?thesis by blast
qed

theorem failed_start_crashes_witness:
  "\<exists>co1. RunForever False (False, True, True) [] example_collector = Inr co1 \<and> destroy_CollectorService (True, True, True) co1 = Some (Inl Undefined)"
proof -
  obtain co1 where run: "RunForever False (False, True, True) [] example_collector = Inr co1" using example_runs by blast
  from failed_start_crashes [OF example_collector run] run show ?thesis by blast
qed

theorem stdout_service_hangs_witness:
  "\<exists>co1. RunForever False (True, True, True) [] example_collector = Inr co1 \<and>
    destroy_CollectorService (True, Notifier_Run sample_config False (\<lambda>i. (stdout_writer, [])) (\<lambda>_. example_attempt) 0 ConnectionTracker_init \<noteq> None, True) co1 = None"
proof -
  obtain co1 where run: "RunForever False (True, True, True) [] example_collector = Inr co1" using example_runs by blast
  have "at_pause example_attempt" by (simp add: example_attempt_def)
  with stdout_service_hangs [OF example_collector run, of "\<lambda>_. example_attempt"] run show ?thesis by blast
qed

end
