(* ===== verification/Kernel_Driver.thy ===== *)
theory Kernel_Driver
  imports Inspector_Service
begin

text \<open>
  What the collector asks of the kernel driver, and how it reads the fields of events: \<^verbatim>\<open>KernelDriver.h\<close> and
  \<^verbatim>\<open>EventExtractor.h\<close>. The tables, the inspector and the field checks of the Falco libraries are arguments.
\<close>

section \<open>The system calls to capture\<close>

text \<open>\<open>table\<close> is \<^verbatim>\<open>g_syscall_table\<close>: the code of a system call. A code is kept once.\<close>

fun syscall_codes :: "(u16 \<Rightarrow> nat) \<Rightarrow> EventNames \<Rightarrow> nat list \<Rightarrow> nat list \<Rightarrow> string + nat list" where
  "syscall_codes table en [] ppm_sc = Inr ppm_sc"
| "syscall_codes table en (event_id # ids) ppm_sc =
     (case GetEventSyscallID en event_id of
        Inl e \<Rightarrow> Inl e
      | Inr syscall_id \<Rightarrow>
          if syscall_id = 0 then syscall_codes table en ids ppm_sc
          else syscall_codes table en ids (List.insert (table syscall_id) ppm_sc))"

fun syscall_list_loop :: "(u16 \<Rightarrow> nat) \<Rightarrow> EventNames \<Rightarrow> string list \<Rightarrow> nat list \<Rightarrow> string + nat list" where
  "syscall_list_loop table en [] ppm_sc = Inr ppm_sc"
| "syscall_list_loop table en (syscall_str # syscalls) ppm_sc =
     (case GetEventIDs en syscall_str of
        Inl e \<Rightarrow> Inl e
      | Inr ids \<Rightarrow>
          (case syscall_codes table en ids ppm_sc of
             Inl e \<Rightarrow> Inl e
           | Inr ppm_sc' \<Rightarrow> syscall_list_loop table en syscalls ppm_sc'))"

definition GetSyscallList :: "(u16 \<Rightarrow> nat) \<Rightarrow> nat \<times> nat \<Rightarrow> EventNames \<Rightarrow> string list \<Rightarrow> string + nat list" where
  "GetSyscallList table always en syscalls =
     (case always of (process_exit, sched_switch) \<Rightarrow>
        (case syscall_list_loop table en syscalls [] of
           Inl e \<Rightarrow> Inl e
         | Inr ppm_sc \<Rightarrow> Inr (List.insert sched_switch (List.insert process_exit ppm_sc))))"

text \<open>What the inspector is opened with; \<open>open_bpf\<close> is the exception it throws, if any.\<close>

record open_call =
  oc_buffer_size :: int
  oc_cpu_per_buffer :: int
  oc_online_only :: bool
  oc_ppm_sc :: "nat list"

definition Setup ::
  "(u16 \<Rightarrow> nat) \<Rightarrow> nat \<times> nat \<Rightarrow> EventNames \<Rightarrow> int \<Rightarrow> int \<Rightarrow> string list \<Rightarrow> (open_call \<Rightarrow> string option) \<Rightarrow> svc_failure + bool \<times> open_call" where
  "Setup table always en buffer_size cpu_per_buffer syscalls open_bpf =
     (case GetSyscallList table always en syscalls of
        Inl e \<Rightarrow> Inl (Exception e)
      | Inr ppm_sc \<Rightarrow>
          (let call = \<lparr>oc_buffer_size = buffer_size, oc_cpu_per_buffer = cpu_per_buffer, oc_online_only = True, oc_ppm_sc = ppm_sc\<rparr>
           in case open_bpf call of Some ex \<Rightarrow> Inl (Exception ex) | None \<Rightarrow> Inr (True, call)))"

definition Service_InitKernel :: "svc_failure + bool \<times> open_call \<Rightarrow> svc_failure + bool" where
  "Service_InitKernel result =
     (case result of Inl e \<Rightarrow> Inl e | Inr (ok, call) \<Rightarrow> if \<not> ok then Inr False else Inr True)"

section \<open>Fields of events\<close>

text \<open>
  A field check returns no value or the bytes of one. The macros of the class give one getter for each field: those that compare the
  size with the type, as a pointer or copied, and those for strings and for the record of the thread.
\<close>

definition get_FIELD_RAW :: "nat \<Rightarrow> bytes option \<Rightarrow> bytes option" where
  "get_FIELD_RAW size_of extracted =
     (case extracted of None \<Rightarrow> None | Some buf \<Rightarrow> if length buf \<noteq> size_of then None else Some buf)"

definition get_FIELD_RAW_SAFE :: "nat \<Rightarrow> (bytes \<Rightarrow> 'v) \<Rightarrow> bytes option \<Rightarrow> 'v option" where
  "get_FIELD_RAW_SAFE size_of read extracted =
     (case extracted of None \<Rightarrow> None | Some buf \<Rightarrow> if length buf \<noteq> size_of then None else Some (read buf))"

definition get_FIELD_CSTR :: "bytes option \<Rightarrow> bytes option" where
  "get_FIELD_CSTR extracted = (case extracted of None \<Rightarrow> None | Some buf \<Rightarrow> Some (takeWhile (\<lambda>b. b \<noteq> 0) buf))"

text \<open>An event may be missing, and so may its thread.\<close>

definition get_TINFO_FIELD :: "('t \<Rightarrow> 'v) \<Rightarrow> 't option option \<Rightarrow> 'v option" where
  "get_TINFO_FIELD field event =
     (case event of None \<Rightarrow> None | Some None \<Rightarrow> None | Some (Some tinfo) \<Rightarrow> Some (field tinfo))"

text \<open>The wrappers in the order of their registration, each with its check once it is made.\<close>

record 'f wrapper =
  wr_event_name :: string
  wr_filter_check :: "'f option"

definition register_wrapper :: "string \<Rightarrow> 'f wrapper list \<Rightarrow> 'f wrapper list" where
  "register_wrapper name wrappers = wrappers @ [\<lparr>wr_event_name = name, wr_filter_check = None\<rparr>]"

definition Extractor_Init :: "(string \<Rightarrow> 'f) \<Rightarrow> 'f wrapper list \<Rightarrow> 'f wrapper list" where
  "Extractor_Init new_check wrappers = map (\<lambda>w. w\<lparr>wr_filter_check := Some (new_check (wr_event_name w))\<rparr>) wrappers"

text \<open>The checks are dropped from the wrappers, and the list is emptied.\<close>

definition Extractor_ClearWrappers :: "'f wrapper list \<Rightarrow> 'f wrapper list \<times> 'f wrapper list" where
  "Extractor_ClearWrappers wrappers = (map (\<lambda>w. w\<lparr>wr_filter_check := None\<rparr>) wrappers, [])"

section \<open>What is captured\<close>

lemma syscall_codes_set:
  "syscall_codes table en ids ppm_sc = Inr out \<Longrightarrow>
   set out = set ppm_sc \<union> {table (en_syscall_by_id en ! i) | i. i \<in> set ids \<and> en_syscall_by_id en ! i \<noteq> 0} \<and>
   (distinct ppm_sc \<longrightarrow> distinct out) \<and> (\<forall>i \<in> set ids. i < length (en_syscall_by_id en))"
proof (induction ids arbitrary: ppm_sc)
  case (Cons i ids)
  from Cons.prems have i: "GetEventSyscallID en i = Inr (en_syscall_by_id en ! i)" "i < length (en_syscall_by_id en)"
    by (auto simp: GetEventSyscallID_def split: if_splits)
  define acc where "acc = (if en_syscall_by_id en ! i = 0 then ppm_sc else List.insert (table (en_syscall_by_id en ! i)) ppm_sc)"
  have "syscall_codes table en ids acc = Inr out" using Cons.prems i by (simp add: acc_def split: if_splits)
  note IH = Cons.IH [OF this]
  have acc: "set acc = set ppm_sc \<union> {table (en_syscall_by_id en ! j) | j. j = i \<and> en_syscall_by_id en ! j \<noteq> 0}" "distinct ppm_sc \<longrightarrow> distinct acc"
    by (auto simp: acc_def)
  have "set out = set ppm_sc \<union> {table (en_syscall_by_id en ! j) | j. j \<in> set (i # ids) \<and> en_syscall_by_id en ! j \<noteq> 0}"
    using IH acc(1) by auto
  then show ?case using IH acc(2) i(2) by simp
qed simp

definition captured :: "(u16 \<Rightarrow> nat) \<Rightarrow> EventNames \<Rightarrow> string list \<Rightarrow> nat set" where
  "captured table en syscalls =
     {table (en_syscall_by_id en ! i) | i s ids. s \<in> set syscalls \<and> GetEventIDs en s = Inr ids \<and> i \<in> set ids \<and> en_syscall_by_id en ! i \<noteq> 0}"

lemma captured_Cons:
  "GetEventIDs en s = Inr ids \<Longrightarrow>
   captured table en (s # ss) = {table (en_syscall_by_id en ! i) | i. i \<in> set ids \<and> en_syscall_by_id en ! i \<noteq> 0} \<union> captured table en ss"
  by (auto simp: captured_def)

lemma syscall_list_loop_set:
  "syscall_list_loop table en syscalls ppm_sc = Inr out \<Longrightarrow> distinct ppm_sc \<Longrightarrow>
   set out = set ppm_sc \<union> captured table en syscalls \<and> distinct out"
proof (induction syscalls arbitrary: ppm_sc)
  case Nil
  then show ?case by (simp add: captured_def)
next
  case (Cons s ss)
  from Cons.prems obtain ids acc where ids: "GetEventIDs en s = Inr ids" and acc: "syscall_codes table en ids ppm_sc = Inr acc"
    and rest: "syscall_list_loop table en ss acc = Inr out" by (auto split: sum.splits)
  note a = syscall_codes_set [OF acc]
  show ?case using Cons.IH [OF rest] a Cons.prems(2) captured_Cons [OF ids] by auto
qed

text \<open>
  The driver captures exactly the system calls of the events that the configured names have, each once, and always the end of
  processes and the switching between them. Events without a system call add nothing.
\<close>

theorem syscall_list_exact:
  assumes "GetSyscallList table (process_exit, sched_switch) en syscalls = Inr out"
  shows "set out = captured table en syscalls \<union> {process_exit, sched_switch} \<and> distinct out"
proof -
  from assms obtain ppm_sc where l: "syscall_list_loop table en syscalls [] = Inr ppm_sc"
    and out: "out = List.insert sched_switch (List.insert process_exit ppm_sc)"
    by (auto simp: GetSyscallList_def split: sum.splits)
  show ?thesis using syscall_list_loop_set [OF l] by (auto simp: out)
qed

text \<open>The driver is opened with these system calls, or setting it up ends in an exception; it never reports failure by its result.\<close>

theorem Setup_result:
  "Setup table always en buffer_size cpu_per_buffer syscalls open_bpf = Inr (ok, call) \<Longrightarrow>
   ok \<and> Service_InitKernel (Inr (ok, call)) = Inr True \<and> GetSyscallList table always en syscalls = Inr (oc_ppm_sc call)"
  by (auto simp: Setup_def Service_InitKernel_def Let_def split: sum.splits option.splits)

end
