(* ===== verification/Log_Writer.thy ===== *)
theory Log_Writer
  imports Env_Settings
begin

text \<open>
  The writing of log messages: the headers and messages of \<^verbatim>\<open>Logging.h\<close>, with the throttled messages that count what they suppress, and the
  termination log of \<^verbatim>\<open>Logging.cpp\<close>. The time, printed or as a number, is an argument.
\<close>

section \<open>Headers\<close>

definition TerminationLog :: string where "TerminationLog = ''/dev/termination-log''"

definition LevelPaddingWidth :: nat where "LevelPaddingWidth = 7"

definition pad_left :: "nat \<Rightarrow> string \<Rightarrow> string" where
  "pad_left n s = s @ replicate (n - length s) (CHR '' '')"

text \<open>The name of the file in a path; a path that ends in a slash has none and is kept.\<close>

definition header_file :: "string \<Rightarrow> string" where
  "header_file path =
     (let name = rev (takeWhile (\<lambda>c. c \<noteq> CHR ''/'') (rev path)) in if name = [] then path else name)"

record log_header =
  lh_file :: string
  lh_line :: nat
  lh_level :: LogLevel

definition mk_log_header :: "string \<Rightarrow> nat \<Rightarrow> LogLevel \<Rightarrow> log_header" where
  "mk_log_header path line level = \<lparr>lh_file = header_file path, lh_line = line, lh_level = level\<rparr>"

definition PrintPrefix :: "string \<Rightarrow> string \<Rightarrow> log_header \<Rightarrow> string" where
  "PrintPrefix log_prefix time h = log_prefix @ ''['' @ pad_left LevelPaddingWidth (GetLogLevelName (lh_level h)) @ '' '' @ time @ ''] ''"

definition PrintFile :: "LogLevel \<Rightarrow> log_header \<Rightarrow> string" where
  "PrintFile g_level h =
     (if CheckLogLevel g_level DEBUG then ''('' @ lh_file h @ '':'' @ print_nat (lh_line h) @ '') '' else [])"

definition PrintHeader :: "string \<Rightarrow> LogLevel \<Rightarrow> string \<Rightarrow> log_header \<Rightarrow> string" where
  "PrintHeader log_prefix g_level time h = PrintPrefix log_prefix time h @ PrintFile g_level h"

section \<open>Throttled headers\<close>

text \<open>The time of the last message and the number of messages since; the clock starts with the host.\<close>

record throttle =
  tl_last_log :: int
  tl_interval :: int
  tl_count :: nat

definition mk_throttle :: "int \<Rightarrow> throttle" where
  "mk_throttle interval = \<lparr>tl_last_log = 0, tl_interval = interval, tl_count = 0\<rparr>"

definition Suppress :: "int \<Rightarrow> throttle \<Rightarrow> bool \<times> throttle" where
  "Suppress now t =
     (let t1 = t\<lparr>tl_count := tl_count t + 1\<rparr>
      in if now - tl_last_log t < tl_interval t then (True, t1) else (False, t1\<lparr>tl_last_log := now\<rparr>))"

definition Throttled_PrintHeader :: "string \<Rightarrow> LogLevel \<Rightarrow> string \<Rightarrow> log_header \<Rightarrow> throttle \<Rightarrow> string \<times> throttle" where
  "Throttled_PrintHeader log_prefix g_level time h t =
     (PrintPrefix log_prefix time h @ ''[Throttled '' @ print_nat (tl_count t) @ '' messages] '' @ PrintFile g_level h,
      t\<lparr>tl_count := 0\<rparr>)"

section \<open>Messages\<close>

text \<open>What is printed, and the text for the termination log if the program ends.\<close>

definition WriteTerminationLog :: "bool \<Rightarrow> string \<Rightarrow> string option" where
  "WriteTerminationLog is_open message = (if is_open then Some message else None)"

definition finish_message :: "LogLevel \<Rightarrow> string \<Rightarrow> string \<Rightarrow> string \<times> string option" where
  "finish_message level header buf = (header @ buf @ [CHR 0x0A], if level = FATAL then Some buf else None)"

text \<open>Streaming a list puts each of its elements on a line.\<close>

definition stream_list :: "('a \<Rightarrow> string) \<Rightarrow> 'a list \<Rightarrow> string \<Rightarrow> string" where
  "stream_list show_arg args buf = buf @ concat (map (\<lambda>a. show_arg a @ [CHR 0x0A]) args)"

definition CLOG :: "string \<Rightarrow> LogLevel \<Rightarrow> string \<Rightarrow> log_header \<Rightarrow> bool \<Rightarrow> string \<Rightarrow> (string \<times> string option) option" where
  "CLOG log_prefix g_level time h cond msg =
     (if CheckLogLevel g_level (lh_level h) \<and> cond
      then Some (finish_message (lh_level h) (PrintHeader log_prefix g_level time h) msg) else None)"

definition CLOG_THROTTLED ::
  "string \<Rightarrow> LogLevel \<Rightarrow> string \<Rightarrow> int \<Rightarrow> log_header \<Rightarrow> bool \<Rightarrow> string \<Rightarrow> throttle \<Rightarrow> (string \<times> string option) option \<times> throttle" where
  "CLOG_THROTTLED log_prefix g_level time now h cond msg t =
     (if CheckLogLevel g_level (lh_level h) \<and> cond
      then (case Suppress now t of
              (True, t1) \<Rightarrow> (None, t1)
            | (False, t1) \<Rightarrow>
                (case Throttled_PrintHeader log_prefix g_level time h t1 of
                   (header, t2) \<Rightarrow> (Some (finish_message (lh_level h) header msg), t2)))
      else (None, t))"

section \<open>What is suppressed\<close>

text \<open>The times of a sequence of messages; the result has the count of each one printed, with its time.\<close>

fun throttle_run :: "int list \<Rightarrow> throttle \<Rightarrow> (int \<times> nat) list \<times> throttle" where
  "throttle_run [] t = ([], t)"
| "throttle_run (now # ts) t =
     (case Suppress now t of
        (True, t1) \<Rightarrow> throttle_run ts t1
      | (False, t1) \<Rightarrow> (case throttle_run ts (t1\<lparr>tl_count := 0\<rparr>) of (out, t2) \<Rightarrow> ((now, tl_count t1) # out, t2)))"

lemma throttle_counts:
  "sum_list (map snd (fst (throttle_run ts t))) + tl_count (snd (throttle_run ts t)) = tl_count t + length ts"
proof (induction ts arbitrary: t)
  case (Cons now ts)
  show ?case
    using Cons.IH [of "t\<lparr>tl_count := tl_count t + 1\<rparr>"] Cons.IH [of "t\<lparr>tl_last_log := now, tl_count := 0\<rparr>"]
    by (auto simp: Suppress_def Let_def split: prod.splits)
qed simp

fun spaced :: "int \<Rightarrow> int \<Rightarrow> int list \<Rightarrow> bool" where
  "spaced gap prev [] \<longleftrightarrow> True"
| "spaced gap prev (x # xs) \<longleftrightarrow> x - prev \<ge> gap \<and> spaced gap x xs"

lemma throttle_spaced: "spaced (tl_interval t) (tl_last_log t) (map fst (fst (throttle_run ts t)))"
proof (induction ts arbitrary: t)
  case (Cons now ts)
  show ?case
    using Cons.IH [of "t\<lparr>tl_count := tl_count t + 1\<rparr>"] Cons.IH [of "t\<lparr>tl_last_log := now, tl_count := 0\<rparr>"]
    by (auto simp: Suppress_def Let_def split: prod.splits)
qed simp

text \<open>
  Throttling loses no message: however the messages are spaced in time, those printed are at least the interval apart, and the counts they
  print, with the count kept for the next one, add up to the number of messages.
\<close>

theorem throttle_exact:
  "case throttle_run ts (mk_throttle interval) of (printed, t) \<Rightarrow>
     spaced interval 0 (map fst printed) \<and> sum_list (map snd printed) + tl_count t = length ts"
  using throttle_counts [of ts "mk_throttle interval"] throttle_spaced [of "mk_throttle interval" ts]
  by (cases "throttle_run ts (mk_throttle interval)") (simp add: mk_throttle_def)

text \<open>A fatal message is always printed, whatever the level of logging, and ends the program with its text in the termination log.\<close>

theorem fatal_always_ends:
  assumes "lh_level h = FATAL"
  shows "\<exists>out. CLOG log_prefix g_level time h True msg = Some (out, Some msg)"
  using assms by (cases g_level) (simp_all add: CLOG_def CheckLogLevel_def finish_message_def)

end
