(* ===== verification/Program_Start.thy ===== *)
theory Program_Start
  imports Collector_Main Kernel_Driver Log_Writer
begin

text \<open>
  The beginning of the main program that is not in \<open>Collector_Main\<close>: what \<^verbatim>\<open>CollectorArgs::parse\<close> makes of the result of the option
  parser, the channel to Sensor of \<^verbatim>\<open>collector.cpp\<close> and \<^verbatim>\<open>GRPC.cpp\<close>, the limit of core dumps and the handler of the signals that stop the
  collector.
\<close>

section \<open>Arguments\<close>

datatype optionIndex = Option_UNKNOWN | Option_HELP | Option_COLLECTOR_CONFIG | Option_COLLECTION_METHOD | Option_GRPC_SERVER

text \<open>The result of the option parser: its error flag, the options in order, the text of the usage, the name of the unknown option.\<close>

record parse_outcome =
  po_error :: bool
  po_options :: "optionIndex list"
  po_usage :: string
  po_unknown_name :: string

text \<open>The result, the exit code and the message, which the checks of the options may have set before.\<close>

definition CollectorArgs_parse :: "parse_outcome \<Rightarrow> string \<Rightarrow> bool \<times> int \<times> string" where
  "CollectorArgs_parse po message =
     (if po_error po then (False, 1, message)
      else if Option_HELP \<in> set (po_options po) then (False, 0, po_usage po)
      else if Option_UNKNOWN \<in> set (po_options po) then (False, 1, ''Unknown option: '' @ po_unknown_name po)
      else (True, 0, message))"

definition args_outside :: "parse_outcome \<Rightarrow> string \<Rightarrow> 'c outside \<Rightarrow> 'c outside" where
  "args_outside po message ou =
     (case CollectorArgs_parse po message of
        (ok, exitCode, msg) \<Rightarrow> ou\<lparr>ou_args_ok := ok, ou_args := (if msg = [] then None else Some msg)\<rparr>)"

section \<open>The channel\<close>

datatype credentials = Insecure | Ssl string string string

text \<open>A file that cannot be read has no content.\<close>

definition ReadFileContents :: "(string \<Rightarrow> string option) \<Rightarrow> string \<Rightarrow> string" where
  "ReadFileContents files filename = (case files filename of None \<Rightarrow> [] | Some s \<Rightarrow> s)"

definition TLSCredentialsFromConfig :: "(string \<Rightarrow> string option) \<Rightarrow> TlsConfig \<Rightarrow> credentials" where
  "TLSCredentialsFromConfig files config =
     Ssl (ReadFileContents files (tls_ca config)) (ReadFileContents files (tls_clientKey config)) (ReadFileContents files (tls_clientCert config))"

record channel =
  ch_address :: string
  ch_credentials :: credentials
  ch_ints :: "(string \<times> int) list"
  ch_target_name_override :: "string option"

definition CreateChannel :: "string \<Rightarrow> string \<Rightarrow> credentials \<Rightarrow> channel" where
  "CreateChannel server_address hostname_override creds =
     \<lparr>ch_address = server_address, ch_credentials = creds,
      ch_ints =
        [(''GRPC_ARG_KEEPALIVE_TIME_MS'', 10000), (''GRPC_ARG_KEEPALIVE_TIMEOUT_MS'', 10000),
         (''GRPC_ARG_KEEPALIVE_PERMIT_WITHOUT_CALLS'', 1), (''GRPC_ARG_HTTP2_BDP_PROBE'', 1),
         (''GRPC_ARG_HTTP2_MIN_RECV_PING_INTERVAL_WITHOUT_DATA_MS'', 5000),
         (''GRPC_ARG_HTTP2_MIN_SENT_PING_INTERVAL_WITHOUT_DATA_MS'', 10000), (''GRPC_ARG_HTTP2_MAX_PINGS_WITHOUT_DATA'', 0)],
      ch_target_name_override = (if hostname_override \<noteq> [] then Some hostname_override else None)\<rparr>"

text \<open>Only called if there is a server.\<close>

definition createChannel :: "(string \<Rightarrow> string option) \<Rightarrow> string option \<Rightarrow> CollectorConfig \<Rightarrow> channel option" where
  "createChannel files sni c =
     (case cc_grpc_server c of
        None \<Rightarrow> None
      | Some grpc_server \<Rightarrow>
          (let creds = (case cc_tls_config c of
                          None \<Rightarrow> Insecure
                        | Some tls \<Rightarrow> if TlsConfig_IsValid tls then TLSCredentialsFromConfig files tls else Insecure)
           in Some (CreateChannel grpc_server (GetSNIHostname sni) creds)))"

section \<open>Limits and signals\<close>

text \<open>Soft and hard limit; \<open>None\<close> is no limit.\<close>

definition setCoreDumpLimit :: "bool \<Rightarrow> int option \<times> int option" where
  "setCoreDumpLimit enableCoreDump = (if enableCoreDump then (None, None) else (Some 0, Some 0))"

datatype ControlValue = RUN | STOP_COLLECTOR

record control =
  ct_signum :: int
  ct_control :: ControlValue

definition ShutdownHandler :: "int \<Rightarrow> control \<Rightarrow> control" where
  "ShutdownHandler signum g = \<lparr>ct_signum = signum, ct_control = STOP_COLLECTOR\<rparr>"

definition initialChecks :: "bool \<Rightarrow> svc_failure + unit" where
  "initialChecks is_lock_free =
     (if \<not> is_lock_free then Inl (Fatal_log ''Internal error: could not create a lock-free control variable.'') else Inr ())"

section \<open>Properties\<close>

text \<open>
  The connection to Sensor is encrypted exactly if the paths of the authority, the certificate and the key are all set; with some of
  them missing the channel is made without encryption.
\<close>

theorem channel_encrypted_iff:
  assumes "createChannel files sni c = Some ch"
  shows "(ch_credentials ch \<noteq> Insecure \<longleftrightarrow> (\<exists>tls. cc_tls_config c = Some tls \<and> TlsConfig_IsValid tls)) \<and>
    cc_grpc_server c = Some (ch_address ch) \<and> ch_target_name_override ch \<noteq> None"
  using assms by (auto simp: createChannel_def CreateChannel_def TLSCredentialsFromConfig_def GetSNIHostname_def split: option.splits if_splits)

text \<open>Files that cannot be read give credentials all the same, with empty certificates.\<close>

theorem unreadable_certificates:
  assumes "cc_tls_config c = Some tls" "TlsConfig_IsValid tls" "\<And>f. files f = None"
    and "createChannel files sni c = Some ch"
  shows "ch_credentials ch = Ssl [] [] []"
  using assms by (auto simp: createChannel_def CreateChannel_def TLSCredentialsFromConfig_def ReadFileContents_def split: option.splits)

text \<open>
  Asking for help ends the program with a fatal error: the parser sets the exit code 0 and leaves the usage in its message, but the main
  program takes every result that is not a success for an error and ends with a fatal message.
\<close>

theorem help_is_fatal:
  assumes "\<not> po_error po" and "Option_HELP \<in> set (po_options po)" and "po_usage po \<noteq> []"
  shows "fst (snd (CollectorArgs_parse po message)) = 0 \<and>
    main_collector en start mods process_handler is_rhel76 init (args_outside po message ou) = Some (Inl (Fatal_log (po_usage po)))"
  using assms by (simp add: CollectorArgs_parse_def args_outside_def main_collector_def)

end
