(* ===== verification/Self_Checks.thy ===== *)
theory Self_Checks
  imports Inspector_Service
begin

text \<open>
  The self-check program \<^verbatim>\<open>self-checks.cpp\<close>, which makes a process and a connection for the collector to see, and the function of
  \<^verbatim>\<open>SelfChecks.cpp\<close> that runs it and looks at its exit status. The answers of the operating system are arguments; statuses are numbers as
  \<^verbatim>\<open>waitpid\<close> gives them.
\<close>

section \<open>Statuses\<close>

text \<open>What a process leaves: it exits with the low byte of a value, or a signal kills it.\<close>

datatype ending = Exits int | Killed nat

definition wait_status :: "ending \<Rightarrow> int" where
  "wait_status e = (case e of Exits code \<Rightarrow> (code mod 256) * 256 | Killed sig \<Rightarrow> int sig)"

definition WEXITSTATUS :: "int \<Rightarrow> int" where "WEXITSTATUS status = (status div 256) mod 256"

abbreviation EBADF :: int where "EBADF \<equiv> 9"
abbreviation EINVAL :: int where "EINVAL \<equiv> 22"

section \<open>The listener\<close>

definition g_connection_retries :: nat where "g_connection_retries = 5"
definition g_timeout_seconds :: int where "g_timeout_seconds = 10"

record listen_answers =
  la_socket :: int
  la_bind :: int
  la_listen :: int
  la_ready :: "int \<Rightarrow> bool"
  la_accept :: int

text \<open>The number of ready descriptors of the set below the limit: 0 when the time is over.\<close>

definition os_select :: "int \<Rightarrow> int list \<Rightarrow> (int \<Rightarrow> bool) \<Rightarrow> int" where
  "os_select nfds fds ready = int (length (filter (\<lambda>fd. fd < nfds \<and> ready fd) fds))"

text \<open>The result, and the descriptors closed at the end.\<close>

definition startListeningPort :: "listen_answers \<Rightarrow> bool \<times> int list" where
  "startListeningPort a =
     (let listener = la_socket a; err = (False, [- 1, listener])
      in if listener < 0 then err
         else if la_bind a < 0 then err
         else if la_listen a < 0 then err
         else if os_select 1 [listener] (la_ready a) \<le> 0 then err
         else if la_accept a < 0 then (False, [la_accept a, listener])
         else (True, [la_accept a, listener]))"

section \<open>The client\<close>

datatype connect_answer = Connects | Refused | Fails int

text \<open>The tries from the one with number \<open>i\<close> on: an error other than a refused connection ends them.\<close>

fun connect_loop :: "nat \<Rightarrow> nat \<Rightarrow> (nat \<Rightarrow> connect_answer) \<Rightarrow> int + unit" where
  "connect_loop 0 i answers = Inr ()"
| "connect_loop (Suc n) i answers =
     (case answers i of Connects \<Rightarrow> Inr () | Refused \<Rightarrow> connect_loop n (Suc i) answers | Fails err \<Rightarrow> Inl err)"

text \<open>A failure comes with the error number; closing a descriptor that is not open sets it too.\<close>

definition connectToPort :: "int \<Rightarrow> (nat \<Rightarrow> connect_answer) \<Rightarrow> int + unit" where
  "connectToPort connection answers =
     (if connection < 0 then Inl EBADF else connect_loop g_connection_retries 0 answers)"

section \<open>The program\<close>

record check_answers =
  ca_argc :: int
  ca_port :: "int option"
  ca_fork_error :: "int option"
  ca_listen :: listen_answers
  ca_socket :: int
  ca_connects :: "nat \<Rightarrow> connect_answer"

text \<open>The child closes a descriptor that is not open whenever it fails.\<close>

definition child_main :: "listen_answers \<Rightarrow> ending" where
  "child_main a = (if \<not> fst (startListeningPort a) then Exits EBADF else Exits 0)"

definition self_checks_main :: "check_answers \<Rightarrow> ending" where
  "self_checks_main a =
     (if ca_argc a \<noteq> 2 then Exits EINVAL
      else case ca_port a of
             None \<Rightarrow> Killed 6
           | Some port \<Rightarrow>
               (case ca_fork_error a of
                  Some err \<Rightarrow> Exits err
                | None \<Rightarrow>
                    (case connectToPort (ca_socket a) (ca_connects a) of
                       Inl err \<Rightarrow> Exits err
                     | Inr _ \<Rightarrow> Exits (wait_status (child_main (ca_listen a))))))"

text \<open>The collector's side; \<open>None\<close> for the fork that failed, otherwise how the program ended.\<close>

definition start_self_check_process :: "(int \<Rightarrow> string) \<Rightarrow> ending option \<Rightarrow> svc_failure + unit" where
  "start_self_check_process StrError child =
     (case child of
        None \<Rightarrow> Inl (Fatal_log ''Failed to fork self-check process'')
      | Some e \<Rightarrow>
          (let status = wait_status e
           in if status \<noteq> 0 then Inl (Fatal_log (''self-checks failed to execute: '' @ StrError (WEXITSTATUS status)))
              else Inr ()))"

section \<open>What the checks check\<close>

lemma listener_not_seen: "la_socket a \<noteq> 0 \<Longrightarrow> \<not> fst (startListeningPort a)"
  by (auto simp: startListeningPort_def os_select_def Let_def)

lemma connect_loop_no_error: "(\<And>j err. answers j \<noteq> Fails err) \<Longrightarrow> connect_loop n i answers = Inr ()"
  by (induction n arbitrary: i) (auto split: connect_answer.split)

lemma status_of_status: "wait_status (Exits (wait_status (Exits code))) = 0"
  by (simp add: wait_status_def)

text \<open>
  The listener of the self check never accepts: it asks for readiness of the descriptors below 1 only, so a listening socket with
  any other number is not seen and the function fails after its timeout.
\<close>

theorem listener_never_accepts:
  assumes "la_socket a \<noteq> 0"
  shows "startListeningPort a = (False, [- 1, la_socket a])"
  using assms by (auto simp: startListeningPort_def os_select_def Let_def)

text \<open>
  (C40) The self check hides its failures: the listener never accepts, and a client whose every try is refused counts as connected, yet the
  program exits with the low byte of the status of its child, which is 0, and the collector goes on as if the check had passed.
\<close>

theorem self_check_hides_failure:
  assumes "ca_argc a = 2" "ca_port a = Some port" "ca_fork_error a = None" "0 \<le> ca_socket a"
    and "\<And>j err. ca_connects a j \<noteq> Fails err"
    and "la_socket (ca_listen a) \<noteq> 0"
  shows "child_main (ca_listen a) = Exits EBADF \<and> start_self_check_process StrError (Some (self_checks_main a)) = Inr ()"
proof -
  have child: "child_main (ca_listen a) = Exits EBADF" using listener_not_seen [OF assms(6)] by (simp add: child_main_def)
  have "connectToPort (ca_socket a) (ca_connects a) = Inr ()" using assms(4) connect_loop_no_error [OF assms(5)] by (simp add: connectToPort_def)
  then have "self_checks_main a = Exits (wait_status (Exits EBADF))" using assms(1-3) child by (simp add: self_checks_main_def)
  then show ?thesis using child by (simp add: start_self_check_process_def status_of_status)
qed

theorem self_check_hides_failure_witness:
  "start_self_check_process (\<lambda>_. []) (Some (self_checks_main
     \<lparr>ca_argc = 2, ca_port = Some 13037, ca_fork_error = None,
      ca_listen = \<lparr>la_socket = 3, la_bind = 0, la_listen = 0, la_ready = (\<lambda>_. True), la_accept = 4\<rparr>,
      ca_socket = 3, ca_connects = (\<lambda>_. Refused)\<rparr>)) = Inr ()"
  by (rule self_check_hides_failure [where port = 13037, THEN conjunct2]) auto

text \<open>
  What the collector does notice: a program that could not be started or run, an error other than a refused connection, and
  a number of arguments or a port the program cannot read.
\<close>

theorem self_check_fatal_iff:
  "(\<exists>msg. start_self_check_process StrError child = Inl (Fatal_log msg)) \<longleftrightarrow> child = None \<or> (\<exists>e. child = Some e \<and> wait_status e \<noteq> 0)"
  by (auto simp: start_self_check_process_def Let_def split: option.split)

end
