(* ===== verification/File_System.thy ===== *)
theory File_System
  imports Collector_Prelude
begin

text \<open>
  The owners of operating system resources of \<^verbatim>\<open>FileSystem.h\<close>: the wrapper for every kind of resource, the handles of descriptors,
  files and directories over a table of what is open, and the decompression of a file. The locale \<open>closable\<close> is what the wrapper needs of a
  resource; descriptors and streams interpret it.
\<close>

section \<open>The wrapper\<close>

text \<open>What a derived class provides: the value for no resource and how to close one.\<close>

record ('r, 'w) derived =
  dv_Invalid :: 'r
  dv_Close :: "'r \<Rightarrow> 'w \<Rightarrow> bool \<times> 'w"

definition RW_default :: "('r, 'w) derived \<Rightarrow> 'r" where "RW_default d = dv_Invalid d"

definition RW_valid :: "('r, 'w) derived \<Rightarrow> 'r \<Rightarrow> bool" where "RW_valid d r \<longleftrightarrow> r \<noteq> dv_Invalid d"

text \<open>The released resource and what is left in the wrapper.\<close>

definition RW_release :: "('r, 'w) derived \<Rightarrow> 'r \<Rightarrow> 'r \<times> 'r" where "RW_release d r = (r, dv_Invalid d)"

definition RW_close :: "('r, 'w) derived \<Rightarrow> 'r \<Rightarrow> 'w \<Rightarrow> bool \<times> 'r \<times> 'w" where
  "RW_close d r w =
     (if r = dv_Invalid d then (True, r, w)
      else case dv_Close d r w of (success, w') \<Rightarrow> (success, dv_Invalid d, w'))"

definition RW_assign :: "('r, 'w) derived \<Rightarrow> 'r \<Rightarrow> 'r \<Rightarrow> 'w \<Rightarrow> 'r \<times> 'w" where
  "RW_assign d resource r w = (case RW_close d r w of (_, _, w') \<Rightarrow> (resource, w'))"

text \<open>Both wrappers after the assignment of one to the other.\<close>

definition RW_move_assign :: "('r, 'w) derived \<Rightarrow> 'r \<Rightarrow> 'r \<Rightarrow> 'w \<Rightarrow> 'r \<times> 'r \<times> 'w" where
  "RW_move_assign d other r w = (case RW_close d r w of (_, _, w') \<Rightarrow> (other, dv_Invalid d, w'))"

definition RW_destroy :: "('r, 'w) derived \<Rightarrow> 'r \<Rightarrow> 'w \<Rightarrow> 'w" where
  "RW_destroy d r w = snd (snd (RW_close d r w))"

fun RW_destroy_all :: "('r, 'w) derived \<Rightarrow> 'r list \<Rightarrow> 'w \<Rightarrow> 'w" where
  "RW_destroy_all d [] w = w"
| "RW_destroy_all d (r # rs) w = RW_destroy_all d rs (RW_destroy d r w)"

section \<open>Descriptors and streams\<close>

text \<open>What is open: descriptors, and streams with the descriptor of each. A null pointer is 0.\<close>

record os =
  os_fds :: "int list"
  os_streams :: "(nat \<times> int) list"

definition os_close :: "int \<Rightarrow> os \<Rightarrow> int \<times> os" where
  "os_close fd w = (if fd \<in> set (os_fds w) then (0, w\<lparr>os_fds := filter (\<lambda>x. x \<noteq> fd) (os_fds w)\<rparr>) else (- 1, w))"

text \<open>\<open>fdopen\<close>, \<open>fdopendir\<close> and \<open>gzdopen\<close>: \<open>p\<close> is the pointer the library would return, 0 if it fails.\<close>

definition os_fdopen :: "nat \<Rightarrow> int \<Rightarrow> os \<Rightarrow> nat \<times> os" where
  "os_fdopen p fd w =
     (if p = 0 \<or> fd \<notin> set (os_fds w) then (0, w) else (p, w\<lparr>os_streams := (p, fd) # os_streams w\<rparr>))"

definition os_fclose :: "nat \<Rightarrow> os \<Rightarrow> int \<times> os" where
  "os_fclose p w =
     (case map_of (os_streams w) p of
        None \<Rightarrow> (- 1, w)
      | Some fd \<Rightarrow> os_close fd (w\<lparr>os_streams := filter (\<lambda>x. fst x \<noteq> p) (os_streams w)\<rparr>))"

definition FDHandle :: "(int, os) derived" where
  "FDHandle = \<lparr>dv_Invalid = - 1, dv_Close = (\<lambda>fd w. case os_close fd w of (rv, w') \<Rightarrow> (rv = 0, w'))\<rparr>"

definition FileHandle :: "(nat, os) derived" where
  "FileHandle = \<lparr>dv_Invalid = 0, dv_Close = (\<lambda>f w. case os_fclose f w of (rv, w') \<Rightarrow> (rv = 0, w'))\<rparr>"

text \<open>A stream made from the handle of a descriptor: the stream, what is left in that handle, and what is open.\<close>

definition FileHandle_from_fd :: "nat \<Rightarrow> int \<Rightarrow> os \<Rightarrow> nat \<times> int \<times> os" where
  "FileHandle_from_fd p h w =
     (case RW_release FDHandle h of (fd, h') \<Rightarrow> (case os_fdopen p fd w of (f, w') \<Rightarrow> (f, h', w')))"

definition DirHandle :: "(nat, os) derived" where
  "DirHandle = \<lparr>dv_Invalid = 0, dv_Close = (\<lambda>dir w. case os_fclose dir w of (rv, w') \<Rightarrow> (rv = 0, w'))\<rparr>"

definition DirHandle_from_fd :: "nat \<Rightarrow> int \<Rightarrow> os \<Rightarrow> nat \<times> int \<times> os" where
  "DirHandle_from_fd p h w =
     (case RW_release FDHandle h of (fd, h') \<Rightarrow> (case os_fdopen p fd w of (dir, w') \<Rightarrow> (dir, h', w')))"

text \<open>\<open>answer\<close> is the descriptor the kernel returns, negative if it fails.\<close>

definition os_openat :: "int \<Rightarrow> os \<Rightarrow> int \<times> os" where
  "os_openat answer w = (if answer < 0 then (- 1, w) else (answer, w\<lparr>os_fds := answer # os_fds w\<rparr>))"

definition DirHandle_openat :: "int \<Rightarrow> nat \<Rightarrow> os \<Rightarrow> int \<times> os" where
  "DirHandle_openat answer dir w = (if \<not> RW_valid DirHandle dir then (- 1, w) else os_openat answer w)"

definition DirHandle_read :: "'e option \<Rightarrow> nat \<Rightarrow> 'e option" where
  "DirHandle_read entry dir = (if \<not> RW_valid DirHandle dir then None else entry)"

text \<open>The scope \<^verbatim>\<open>FileHandle f(FDHandle(openat(...)), mode)\<close> of the scraper: the temporary is destroyed first, then the file.\<close>

definition file_scope :: "int \<Rightarrow> nat \<Rightarrow> os \<Rightarrow> os" where
  "file_scope answer p w =
     (let (fd, w1) = os_openat answer w;
          (f, h, w2) = FileHandle_from_fd p fd w1;
          w3 = RW_destroy FDHandle h w2
      in RW_destroy FileHandle f w3)"

section \<open>Decompression\<close>

definition GZ_BUFFER_SIZE :: nat where "GZ_BUFFER_SIZE = 8192"

text \<open>What each call of \<open>gzread\<close> returns: the bytes, or \<open>None\<close> for a negative count; after the last one there is nothing to read.\<close>

fun Decompress_loop :: "'b list option list \<Rightarrow> 'b list \<Rightarrow> bool \<times> 'b list" where
  "Decompress_loop [] out = (True, out)"
| "Decompress_loop (None # rest) out = (False, out)"
| "Decompress_loop (Some bytes # rest) out =
     (if bytes = [] then (True, out)
      else if length bytes = GZ_BUFFER_SIZE then Decompress_loop rest (out @ bytes)
      else (True, out @ bytes))"

definition Decompress :: "bool \<Rightarrow> 'b list option list \<Rightarrow> 'b list \<Rightarrow> bool \<times> 'b list" where
  "Decompress gzeof reads out =
     (case Decompress_loop reads out of (ok, out') \<Rightarrow> if \<not> ok \<or> \<not> gzeof then (False, out') else (True, out'))"

definition DecompressFile :: "(bool \<times> 'b list option list) option \<Rightarrow> bool \<Rightarrow> bool \<times> 'b list option" where
  "DecompressFile input output_open =
     (case input of
        None \<Rightarrow> (False, None)
      | Some (gzeof, reads) \<Rightarrow>
          if \<not> output_open then (False, None) else map_prod id Some (Decompress gzeof reads []))"

text \<open>The error message of a file: what the library says, with the system's error if that is the cause.\<close>

definition ErrorMessage :: "string option \<Rightarrow> bool \<Rightarrow> string \<Rightarrow> string \<Rightarrow> string" where
  "ErrorMessage gz_error is_errno strerror errno_text =
     (case gz_error of
        None \<Rightarrow> ''''
      | Some msg \<Rightarrow> if is_errno then msg @ '' - '' @ strerror @ '' ('' @ errno_text @ '')'' else msg)"

section \<open>Owners close once\<close>

locale closable =
  fixes d :: "('r, 'w) derived" and opened :: "'w \<Rightarrow> 'r set"
  assumes invalid_not_open: "dv_Invalid d \<notin> opened w"
    and close_removes: "r \<in> opened w \<Longrightarrow> fst (dv_Close d r w) \<and> opened (snd (dv_Close d r w)) = opened w - {r}"
begin

lemma valid_if_open: "r \<in> opened w \<Longrightarrow> RW_valid d r"
  using invalid_not_open by (auto simp: RW_valid_def)

lemma close_once:
  assumes "r \<in> opened w"
  shows "\<exists>w'. RW_close d r w = (True, dv_Invalid d, w') \<and> opened w' = opened w - {r} \<and> RW_close d (dv_Invalid d) w' = (True, dv_Invalid d, w')"
  using close_removes [OF assms] valid_if_open [OF assms] by (cases "dv_Close d r w") (auto simp: RW_close_def RW_valid_def)

lemma destroy_closes: "r \<in> opened w \<Longrightarrow> opened (RW_destroy d r w) = opened w - {r}"
  using close_once by (fastforce simp: RW_destroy_def)

lemma destroy_invalid: "RW_destroy d (dv_Invalid d) w = w"
  by (simp add: RW_destroy_def RW_close_def)

lemma destroy_all_closes:
  "distinct (filter (RW_valid d) rs) \<Longrightarrow> set (filter (RW_valid d) rs) \<subseteq> opened w \<Longrightarrow>
   opened (RW_destroy_all d rs w) = opened w - set (filter (RW_valid d) rs)"
proof (induction rs arbitrary: w)
  case (Cons r rs)
  show ?case
  proof (cases "RW_valid d r")
    case True
    then have "r \<in> opened w" using Cons.prems by simp
    then have "opened (RW_destroy d r w) = opened w - {r}" by (rule destroy_closes)
    with Cons.IH [of "RW_destroy d r w"] Cons.prems True show ?thesis by auto
  next
    case False
    then show ?thesis using Cons by (auto simp: RW_valid_def destroy_invalid)
  qed
qed simp

lemma move_assign_keeps_owner:
  assumes "r \<in> opened w" and "other \<in> opened w" and "r \<noteq> other"
  shows "\<exists>w'. RW_move_assign d other r w = (other, dv_Invalid d, w') \<and> opened w' = opened w - {r}"
  using close_once [OF assms(1)] by (auto simp: RW_move_assign_def)

end

definition fds_open :: "os \<Rightarrow> int set" where "fds_open w = {fd \<in> set (os_fds w). 0 \<le> fd}"

text \<open>No two streams share a descriptor. A stream is open if its descriptor is.\<close>

definition one_each :: "(nat \<Rightarrow> int option) \<Rightarrow> bool" where "one_each m \<longleftrightarrow> inj_on m (dom m)"

definition streams_open :: "os \<Rightarrow> nat set" where
  "streams_open w = {p. p \<noteq> 0 \<and> (\<exists>fd. map_of (os_streams w) p = Some fd \<and> fd \<in> set (os_fds w)) \<and> one_each (map_of (os_streams w))}"

interpretation fd: closable FDHandle fds_open
  by unfold_locales (auto simp: FDHandle_def fds_open_def os_close_def)

lemma map_of_filter_ne: "map_of (filter (\<lambda>x. fst x \<noteq> p) xs) = (map_of xs)(p := None)"
  by (induction xs) auto

lemma one_each_upd: "one_each m \<Longrightarrow> one_each (m(p := None))"
  by (auto simp: one_each_def inj_on_def)

lemma one_each_other: "one_each m \<Longrightarrow> m p = Some fd \<Longrightarrow> q \<noteq> p \<Longrightarrow> m q \<noteq> Some fd"
  unfolding one_each_def by (metis domI inj_onD)

lemma os_fclose_open:
  assumes "p \<in> streams_open w"
  shows "fst (os_fclose p w) = 0" and "streams_open (snd (os_fclose p w)) = streams_open w - {p}"
proof -
  from assms obtain fd where fd: "map_of (os_streams w) p = Some fd" "fd \<in> set (os_fds w)"
    and one: "one_each (map_of (os_streams w))" by (auto simp: streams_open_def)
  show "fst (os_fclose p w) = 0" using fd by (auto simp: os_fclose_def os_close_def)
  have "snd (os_fclose p w) = w\<lparr>os_streams := filter (\<lambda>x. fst x \<noteq> p) (os_streams w), os_fds := filter (\<lambda>x. x \<noteq> fd) (os_fds w)\<rparr>"
    using fd by (auto simp: os_fclose_def os_close_def)
  then show "streams_open (snd (os_fclose p w)) = streams_open w - {p}"
    using one one_each_upd [OF one] one_each_other [OF one fd(1)] by (auto simp: streams_open_def map_of_filter_ne simp del: fun_upd_apply) (auto split: if_splits)
qed

lemma null_not_open: "0 \<notin> streams_open w"
  by (simp add: streams_open_def)

interpretation stream: closable FileHandle streams_open
  using os_fclose_open null_not_open by unfold_locales (auto simp: FileHandle_def case_prod_beta)

interpretation dir: closable DirHandle streams_open
  using os_fclose_open null_not_open by unfold_locales (auto simp: DirHandle_def case_prod_beta)

section \<open>What a scope leaves open\<close>

text \<open>
  A scope that opens a file and wraps it leaves open exactly what was open before, unless the stream for the descriptor could not be made:
  then the descriptor has been taken out of its owner already and stays open for ever.
\<close>

theorem file_scope_balance:
  assumes "- 1 \<notin> set (os_fds w)" and "answer \<notin> set (os_fds w)" and "p \<notin> fst ` set (os_streams w)"
  shows "file_scope answer p w = (if 0 \<le> answer \<and> p = 0 then w\<lparr>os_fds := answer # os_fds w\<rparr> else w)"
proof -
  have f: "filter (\<lambda>x. x \<noteq> answer) (os_fds w) = os_fds w" "filter (\<lambda>x. fst x \<noteq> p) (os_streams w) = os_streams w"
    using assms by (auto simp: filter_id_conv)
  show ?thesis
    using assms(1) by (auto simp: file_scope_def os_openat_def FileHandle_from_fd_def RW_release_def RW_destroy_def RW_close_def FDHandle_def FileHandle_def os_fdopen_def
        os_fclose_def os_close_def f Let_def split: prod.split)
qed

theorem file_scope_balance_witness:
  "file_scope 3 7 \<lparr>os_fds = [0, 1, 2], os_streams = []\<rparr> = \<lparr>os_fds = [0, 1, 2], os_streams = []\<rparr> \<and>
   file_scope 3 0 \<lparr>os_fds = [0, 1, 2], os_streams = []\<rparr> = \<lparr>os_fds = [3, 0, 1, 2], os_streams = []\<rparr>"
  using file_scope_balance [of "\<lparr>os_fds = [0, 1, 2], os_streams = []\<rparr>" 3 7] file_scope_balance [of "\<lparr>os_fds = [0, 1, 2], os_streams = []\<rparr>" 3 0] by simp

text \<open>
  Owners close what they own and nothing else: destroying handles whose valid descriptors are open and distinct closes exactly those, each once.
\<close>

theorem handles_close_owned:
  assumes "distinct (filter (RW_valid FDHandle) hs)" and "set (filter (RW_valid FDHandle) hs) \<subseteq> fds_open w"
  shows "fds_open (RW_destroy_all FDHandle hs w) = fds_open w - set (filter (RW_valid FDHandle) hs)"
  using assms by (rule fd.destroy_all_closes)

section \<open>Decompressing\<close>

text \<open>What the library returns for a file with the given content that it can read to its end.\<close>

function gz_reads :: "'b list \<Rightarrow> 'b list option list" where
  "gz_reads content =
     (if length content < GZ_BUFFER_SIZE then [Some content]
      else Some (take GZ_BUFFER_SIZE content) # gz_reads (drop GZ_BUFFER_SIZE content))"
  by auto
termination by (relation "measure length") (auto simp: GZ_BUFFER_SIZE_def)

declare gz_reads.simps [simp del]

lemma Decompress_loop_complete: "Decompress_loop (gz_reads content) out = (True, out @ content)"
proof (induction content arbitrary: out rule: gz_reads.induct)
  case (1 content)
  show ?case
  proof (cases "length content < GZ_BUFFER_SIZE")
    case True
    then show ?thesis by (subst gz_reads.simps) (auto simp: GZ_BUFFER_SIZE_def)
  next
    case False
    then have "length (take GZ_BUFFER_SIZE content) = GZ_BUFFER_SIZE" "take GZ_BUFFER_SIZE content \<noteq> []" by (auto simp: GZ_BUFFER_SIZE_def)
    with False show ?thesis using 1 [of "out @ take GZ_BUFFER_SIZE content"] by (subst gz_reads.simps) (simp del: length_take)
  qed
qed

text \<open>
  A file that can be read to its end is written in full, also when its length is a multiple of the buffer's; and if the library fails or
  has not reached the end, the operation says so.
\<close>

theorem Decompress_complete:
  "Decompress True (gz_reads content) out = (True, out @ content) \<and>
   (fst (Decompress gzeof reads out) \<longrightarrow> gzeof \<and> (\<exists>k. snd (Decompress gzeof reads out) = out @ concat (map the (take k reads)) \<and> None \<notin> set (take k reads)))"
proof
  show "Decompress True (gz_reads content) out = (True, out @ content)" by (simp add: Decompress_def Decompress_loop_complete)
  have "\<exists>k. out' = out @ concat (map the (take k reads)) \<and> None \<notin> set (take k reads)" if "Decompress_loop reads out = (True, out')" for out'
    using that
  proof (induction reads out rule: Decompress_loop.induct)
    case (3 bytes rest out)
    consider (empty) "bytes = []" | (full) "bytes \<noteq> []" "length bytes = GZ_BUFFER_SIZE" | (short) "bytes \<noteq> []" "length bytes \<noteq> GZ_BUFFER_SIZE" by blast
    then show ?case
    proof cases
      case full
      with 3 obtain k where "out' = (out @ bytes) @ concat (map the (take k rest))" "None \<notin> set (take k rest)" by auto
      then show ?thesis by (intro exI [of _ "Suc k"]) simp
    next
      case short
      with 3 show ?thesis by (intro exI [of _ 1]) simp
    qed (use 3 in \<open>auto intro!: exI [of _ 0]\<close>)
  qed auto
  then show "fst (Decompress gzeof reads out) \<longrightarrow> gzeof \<and> (\<exists>k. snd (Decompress gzeof reads out) = out @ concat (map the (take k reads)) \<and> None \<notin> set (take k reads))"
    by (auto simp: Decompress_def split: prod.splits if_splits)
qed

end
