(* ===== verification/Abort_Handler.thy ===== *)
theory Abort_Handler
  imports Str_Util
begin

text \<open>
  The handler of fatal signals, \<^verbatim>\<open>AbortHandler.cpp\<close>: the lines it prints through a buffer of fixed size. What the C library finds out about
  an address is an argument.
\<close>

section \<open>The buffer\<close>

definition NUL :: char where "NUL = CHR 0x00"

text \<open>\<open>snprintf\<close> cuts the text to fit with its end mark, leaves the rest of the buffer alone and returns the full length.\<close>

definition snprintf :: "string \<Rightarrow> string \<Rightarrow> nat \<times> string" where
  "snprintf buffer text_out =
     (let t = take (length buffer - 1) text_out in (length text_out, t @ NUL # drop (length t + 1) buffer))"

text \<open>What is written, and the buffer afterwards.\<close>

definition WriteBuffer :: "string \<Rightarrow> nat \<Rightarrow> string \<times> string" where
  "WriteBuffer buffer num_bytes =
     (if num_bytes > length buffer
      then (let b = buffer[length buffer - 1 := CHR 0x0A] in (b, b))
      else (take num_bytes buffer, buffer))"

definition write_line :: "string \<Rightarrow> string \<Rightarrow> string \<times> string" where
  "write_line buffer text_out = (case snprintf buffer text_out of (n, b) \<Rightarrow> WriteBuffer b n)"

section \<open>The handler\<close>

text \<open>A frame: its printed address and, if known, the file, the name, the name in readable form and the shift from the symbol.\<close>

record frame_info =
  fi_fname :: string
  fi_sname :: string
  fi_demangled :: "string option"
  fi_has_saddr :: bool
  fi_shift :: string

definition frame_text :: "string \<times> frame_info option \<Rightarrow> string" where
  "frame_text f =
     (case f of
        (address, Some info) \<Rightarrow>
          fi_fname info @ '' '' @ (case fi_demangled info of Some d \<Rightarrow> d | None \<Rightarrow> fi_sname info) @ '' '' @ address @ '' + '' @
          (if fi_has_saddr info then fi_shift info else ''0'') @ [CHR 0x0A]
      | (address, None) \<Rightarrow> address @ [CHR 0x0A])"

fun write_frames :: "string \<Rightarrow> (string \<times> frame_info option) list \<Rightarrow> string \<times> string" where
  "write_frames buffer [] = ([], buffer)"
| "write_frames buffer (f # fs) =
     (case write_line buffer (frame_text f) of (out, b) \<Rightarrow> (case write_frames b fs of (outs, b') \<Rightarrow> (out @ outs, b')))"

definition max_frames :: nat where "max_frames = 32"

definition AbortHandler :: "string \<Rightarrow> string \<Rightarrow> string \<Rightarrow> int \<Rightarrow> (string \<times> frame_info option) list \<Rightarrow> string" where
  "AbortHandler buffer signum_text strsignal signum frames =
     (let n_frames = min max_frames (length frames);
          (out, b) = write_frames buffer (take n_frames frames);
          truncated = (if n_frames = max_frames then ''[truncated]'' @ [CHR 0x0A, NUL] else []);
          (line, _) = write_line b (''Caught signal '' @ signum_text @ '' ('' @ SignalName signum @ ''): '' @ strsignal @ [CHR 0x0A])
      in out @ truncated @ line)"

section \<open>What is printed\<close>

lemma snprintf_length: "buffer \<noteq> [] \<Longrightarrow> length (snd (snprintf buffer t)) = length buffer"
  by (cases buffer) (auto simp: snprintf_def Let_def min_def)

text \<open>
  A line that is shorter than the buffer is printed as it is. A longer one is cut, and its last character is a line feed; but a line
  of exactly the buffer's length ends in a null byte instead.
\<close>

theorem write_line_exact:
  assumes "buffer \<noteq> []"
  shows "fst (write_line buffer t) =
    (if length t < length buffer then t
     else take (length buffer - 1) t @ [if length t = length buffer then NUL else CHR 0x0A])"
proof -
  consider "length t < length buffer" | "length t = length buffer" | "length t > length buffer" by linarith
  then show ?thesis
  proof cases
    case 1
    then show ?thesis by (simp add: write_line_def snprintf_def WriteBuffer_def Let_def min_def)
  next
    case 2
    then show ?thesis using assms by (cases t rule: rev_cases) (auto simp: write_line_def snprintf_def WriteBuffer_def Let_def)
  next
    case 3
    define n where "n = length buffer - 1"
    have n: "length buffer = Suc n" using assms by (simp add: n_def)
    have "length (take n t) = n" using 3 n by simp
    then show ?thesis using 3 n by (simp add: write_line_def snprintf_def WriteBuffer_def Let_def list_update_append)
  qed
qed

lemma write_line_bounded: "buffer \<noteq> [] \<Longrightarrow> length (fst (write_line buffer t)) \<le> length buffer \<and> length (snd (write_line buffer t)) = length buffer"
  using snprintf_length [of buffer t]
  by (cases "snprintf buffer t") (auto simp: write_line_def WriteBuffer_def Let_def split: if_splits)

lemma write_frames_bounded:
  "buffer \<noteq> [] \<Longrightarrow> length (fst (write_frames buffer fs)) \<le> length fs * length buffer \<and> length (snd (write_frames buffer fs)) = length buffer"
proof (induction fs arbitrary: buffer)
  case (Cons f fs)
  obtain out b where w: "write_line buffer (frame_text f) = (out, b)" by force
  have b: "length out \<le> length buffer" "length b = length buffer" using write_line_bounded [OF Cons.prems, of "frame_text f"] w by auto
  then have "b \<noteq> []" using Cons.prems by auto
  from Cons.IH [OF this] b w show ?case by (auto split: prod.splits)
qed simp

text \<open>The handler writes within its buffer: at most thirty-two frames, the mark that they were cut, and the line of the signal.\<close>

theorem AbortHandler_bounded:
  assumes "length buffer = 256"
  shows "length (AbortHandler buffer signum_text strsignal signum frames) \<le> 33 * 256 + 13"
proof -
  let ?fs = "take (min max_frames (length frames)) frames"
  obtain out b where w: "write_frames buffer ?fs = (out, b)" by force
  have ne: "buffer \<noteq> []" using assms by auto
  have b: "length out \<le> length ?fs * 256" "length b = 256" using write_frames_bounded [OF ne, of ?fs] w assms by auto
  have "length ?fs \<le> 32" by (simp add: max_frames_def)
  then have "length out \<le> 32 * 256" using b(1) by linarith
  moreover have "b \<noteq> []" using b(2) by auto
  then have line: "length (fst (write_line b t)) \<le> 256" for t using write_line_bounded [of b t] b(2) by simp
  ultimately have sum: "length out + length (fst (write_line b t)) \<le> 33 * 256" for t by (rule order_trans [OF add_mono]) simp
  have "length out + length (fst (write_line b t)) \<le> 33 * 256 + 13 \<and> length out + 13 + length (fst (write_line b t)) \<le> 33 * 256 + 13" for t
    using sum [of t] by simp
  then show ?thesis unfolding AbortHandler_def Let_def w prod.case case_prod_beta by simp
qed

end
