(* ===== verification/Proto_Allocator.thy ===== *)
theory Proto_Allocator
  imports Collector_Prelude
begin

text \<open>
  The allocators of messages, \<^verbatim>\<open>ProtoAllocator.h\<close>: the pool that an arena starts with and that grows after a round that needed more, and the
  allocator that keeps one message. How much memory a round used is what the protobuf library says.
\<close>

section \<open>The arena\<close>

definition kDefaultPoolSize :: u64 where "kDefaultPoolSize = 524288"

record ArenaProtoAllocator =
  ap_pool_size :: u64
  ap_initial_block :: u64

definition mk_ArenaProtoAllocator :: "u64 \<Rightarrow> ArenaProtoAllocator" where
  "mk_ArenaProtoAllocator pool_size = \<lparr>ap_pool_size = pool_size, ap_initial_block = pool_size\<rparr>"

definition Arena_Reset :: "u64 \<Rightarrow> ArenaProtoAllocator \<Rightarrow> ArenaProtoAllocator" where
  "Arena_Reset bytes_used a =
     (if bytes_used > ap_pool_size a
      then (let new_pool_size = (bytes_used div kDefaultPoolSize + 1) * kDefaultPoolSize
            in \<lparr>ap_pool_size = new_pool_size, ap_initial_block = new_pool_size\<rparr>)
      else a)"

section \<open>The heap\<close>

text \<open>One message is kept and cleared each time it is handed out.\<close>

definition Heap_Reset :: "'m \<Rightarrow> 'm" where "Heap_Reset message = message"

definition Heap_AllocateRoot :: "'m \<Rightarrow> 'm \<Rightarrow> 'm" where "Heap_AllocateRoot cleared message = cleared"

section \<open>The size of the pool\<close>

definition pool_inv :: "ArenaProtoAllocator \<Rightarrow> bool" where
  "pool_inv a \<longleftrightarrow> ap_initial_block a = ap_pool_size a"

lemma grown_pool:
  assumes "unat bytes_used + 524288 < 2 ^ 64"
  shows "unat ((bytes_used div kDefaultPoolSize + 1) * kDefaultPoolSize) = (unat bytes_used div 524288 + 1) * 524288"
proof -
  let ?q = "unat bytes_used div 524288"
  have k: "unat kDefaultPoolSize = 524288" by (simp add: kDefaultPoolSize_def)
  have q: "?q * 524288 \<le> unat bytes_used" by simp
  then have small: "(?q + 1) * 524288 < 2 ^ 64" using assms by simp
  have "unat (bytes_used div kDefaultPoolSize) = ?q" by (simp add: unat_div_distrib k)
  then have "unat (bytes_used div kDefaultPoolSize + 1) = ?q + 1"
    using small by (simp add: unat_word_ariths)
  then show ?thesis using small by (simp add: unat_word_ariths k)
qed

text \<open>
  After a reset the pool would have held what the round used, it has not shrunk, and it has grown by no more than one default size
  over what was used, as long as that is less than the default size away from the largest number of 64 bits.
\<close>

theorem Arena_Reset_bounds:
  assumes "unat bytes_used + 524288 < 2 ^ 64"
  shows "unat bytes_used \<le> unat (ap_pool_size (Arena_Reset bytes_used a)) \<and>
    unat (ap_pool_size a) \<le> unat (ap_pool_size (Arena_Reset bytes_used a)) \<and>
    unat (ap_pool_size (Arena_Reset bytes_used a)) \<le> max (unat (ap_pool_size a)) (unat bytes_used + 524288)"
proof (cases "bytes_used > ap_pool_size a")
  case True
  let ?b = "unat bytes_used"
  have new: "unat (ap_pool_size (Arena_Reset bytes_used a)) = (?b div 524288 + 1) * 524288"
    using True grown_pool [OF assms] by (simp add: Arena_Reset_def Let_def)
  have old: "unat (ap_pool_size a) < ?b" using True by (simp add: word_less_nat_alt)
  have "?b \<le> (?b div 524288 + 1) * 524288" "(?b div 524288 + 1) * 524288 \<le> ?b + 524288"
    using div_mult_mod_eq [of ?b 524288] mod_less_divisor [of 524288 ?b] by (simp_all add: algebra_simps)
  then show ?thesis using new old by simp
next
  case False
  then have "unat bytes_used \<le> unat (ap_pool_size a)" by (simp add: not_less word_le_nat_alt)
  then show ?thesis using False by (simp add: Arena_Reset_def)
qed

text \<open>A round that used almost all addresses makes the size wrap around, and the new pool is smaller than what was used.\<close>

theorem Arena_Reset_wraps:
  "ap_pool_size (Arena_Reset (2 ^ 64 - 1) (mk_ArenaProtoAllocator kDefaultPoolSize)) = 0"
  by (simp add: Arena_Reset_def mk_ArenaProtoAllocator_def kDefaultPoolSize_def Let_def)

lemma Arena_Reset_inv: "pool_inv a \<Longrightarrow> pool_inv (Arena_Reset bytes_used a)"
  by (simp add: pool_inv_def Arena_Reset_def Let_def)

end
