(* ===== verification/Spec2Isabelle.thy ===== *)
theory Spec2Isabelle
  imports Notifier_View Procfs_Scraper Config_Watch Config_Types Notifier_Stop Collector_Stats Program_Start Self_Checks
    File_System Abort_Handler Proto_Allocator
begin

text \<open>
  Verification of the core of the collector (C++ sources under
  \<^verbatim>\<open>collector/collector/lib\<close>).

  The collector watches the containers of a node. Kernel events and periodic scrapes of
  \<^verbatim>\<open>/proc\<close> tell it which connections and listening endpoints exist; the connection tracker keeps them
  with the time they were last seen; every scrape interval the network status notifier fetches the
  tracker's state in a normal form, computes the difference to what it reported last and sends it
  to Sensor, which in turn sends the public addresses and networks it knows. Process events become signals
  that a second stream carries to Sensor.

  \<^bold>\<open>Theories, in the order of dependence\<close>

  \<^item> \<open>Collector_Prelude\<close>: machine integers, byte order, and the model of \<^verbatim>\<open>std::unordered_map\<close> with the
    locale \<open>key_equality\<close>, the contract of a key type, and the laws of the table proved in it.
  \<^item> \<open>Net_Address\<close>, \<open>Net_IPNet\<close>: \<^verbatim>\<open>Address\<close> and \<^verbatim>\<open>IPNet\<close> of \<^verbatim>\<open>NetworkConnection.h\<close>, as words in network byte
    order with the masks the constructor computes; containment as agreement of leading bits.
  \<^item> \<open>NRadix\<close>: the radix tree of \<^verbatim>\<open>NRadix.cpp\<close> with its bit cursor, refined to a tree addressed by bit
    lists; longest prefix match and the comparison of two trees.
  \<^item> \<open>Net_Connection\<close>: \<^verbatim>\<open>Endpoint\<close>, \<^verbatim>\<open>ContainerEndpoint\<close>, \<^verbatim>\<open>Connection\<close>, and the three key equalities of the
    tables, each an interpretation of \<open>key_equality\<close>.
  \<^item> \<open>External_IPs\<close>: \<^verbatim>\<open>ExternalIPsConfig\<close>.
  \<^item> \<open>Conn_Status\<close>: \<^verbatim>\<open>ConnStatus\<close>, time and flag packed in 64 bits, with the order merging uses.
  \<^item> \<open>Conn_Delta\<close>: the table algorithms of \<^verbatim>\<open>ConnTracker.h\<close> and \<^verbatim>\<open>ConnTracker.cpp\<close> that are templates in the
    code, with a specification of each by key.
  \<^item> \<open>Conn_Tracker\<close>: the state of \<^verbatim>\<open>ConnectionTracker\<close> and all its operations, a step relation for the
    interleavings of other threads, and what no operation does to an entry that is active.
  \<^item> \<open>Rate_Limit\<close>: token bucket, limiter cache and count limiter of \<^verbatim>\<open>RateLimit.cpp\<close>.
  \<^item> \<open>Network_Status\<close>: \<^verbatim>\<open>NetworkStatusNotifier.cpp\<close>: decoding of control messages, the reporting loop with
    afterglow and the change of the External-IPs switch, and the messages built under the rate limit.
  \<^item> \<open>Notifier_View\<close>: a receiver that applies the messages the notifier builds, compared with the notifier's own state.
    The locale \<open>wire_format\<close> says when a table can be known by what is written of its keys; connections and endpoints
    interpret it.
  \<^item> \<open>Str_Util\<close>: the string helpers of \<^verbatim>\<open>Utility.cpp\<close> and of the C library: splitting, base 64, container
    identifiers in cgroup paths, sanitising of UTF-8.
  \<^item> \<open>Procfs_Scraper\<close>: \<^verbatim>\<open>ProcfsScraper.cpp\<close> on a file system given as a value: parsing of what the kernel
    prints, the scrape of all processes and of one.
  \<^item> \<open>Duplex_Stream\<close>: the stream client of \<^verbatim>\<open>DuplexGRPC.h\<close>, its flag word and its event handling as a step
    relation, with the waiting operations as sequences of steps.
  \<^item> \<open>Network_Signals\<close>: the event tables of \<^verbatim>\<open>EventNames.cpp\<close> and \<^verbatim>\<open>EventMap.h\<close> and the handler of socket events
    of \<^verbatim>\<open>NetworkSignalHandler.cpp\<close>, which feeds the connection tracker.
  \<^item> \<open>Process_Signals\<close>: \<^verbatim>\<open>ProcessSignalFormatter.cpp\<close>, \<^verbatim>\<open>ProcessSignalHandler.cpp\<close> and \<^verbatim>\<open>SignalServiceClient.cpp\<close>: the
    signal for a process with its lineage, the rate limit, and the stream it is sent through, with the
    locale \<open>signal_client\<close> as the contract between handler and client.
  \<^item> \<open>Config_Yaml\<close>: the parser of \<^verbatim>\<open>ConfigLoader.cpp\<close> that fills a message from a YAML document, with the printing of a
    message as its inverse, and the loading of the runtime configuration.
  \<^item> \<open>Config_Watch\<close>: \<^verbatim>\<open>Inotify.cpp\<close> and the handlers of \<^verbatim>\<open>ConfigLoader\<close>: the buffer of raw events as a queue, the store of
    watchers and its invariant, and what every event does to the configuration.
  \<^item> \<open>Std_Numbers\<close>: reading of integers by the standard library, and floating-point numbers as rational numbers with
    rounding to a number of significant bits.
  \<^item> \<open>Net_Parse\<close>: the parsers and output operators of addresses, networks, endpoints and connections in
    \<^verbatim>\<open>NetworkConnection.cpp\<close>, over numeric addresses of the C library.
  \<^item> \<open>Host_Info\<close>: \<^verbatim>\<open>HostInfo.cpp\<close> and \<^verbatim>\<open>HostHeuristics.cpp\<close>: the kernel version, cached properties of the host, and
    the heuristics that decide whether the collector can run.
  \<^item> \<open>Env_Settings\<close>: environment variables (\<^verbatim>\<open>EnvVar.h\<close>), the checks of the command line (\<^verbatim>\<open>CollectorArgs.cpp\<close>, \<^verbatim>\<open>GRPC.cpp\<close>),
    and the levels of logging.
  \<^item> \<open>Collector_Config\<close>: \<^verbatim>\<open>CollectorConfig.cpp\<close>: the initialisation of the configuration from arguments, a JSON
    document, the environment and defaults, and the settings derived from it.
  \<^item> \<open>Process_Store\<close>: \<^verbatim>\<open>Process.cpp\<close>: the shared process objects with their reference counts and the requests for
    information about them. The release of an object's last owner and its destructor are separate steps, between which other
    threads may fetch; the invariant of the store holds on all of them. A second relation has the interleavings inside a callback.
  \<^item> \<open>Inspector_Service\<close>: \<^verbatim>\<open>system-inspector/Service.cpp\<close> and \<^verbatim>\<open>SelfCheckHandler.cpp\<close>: the loop that gives events to the
    signal handlers, with the locale \<open>steady_handler\<close> as the contract of a handler that stays registered. The
    handlers of process and network signals interpret it.
  \<^item> \<open>Nats_Client\<close>: \<^verbatim>\<open>NatsSignalServiceClient.cpp\<close> and \<^verbatim>\<open>NatsClient.cpp\<close>, a third interpretation of \<open>signal_client\<close>, with the
    life of a connection as a step relation and what the service does with this client.
  \<^item> \<open>Http_Endpoints\<close>: the handlers of the HTTP server: readiness, the listings of \<^verbatim>\<open>NetworkStatusInspector.cpp\<close>, containers, the
    runtime configuration and the profiler.
  \<^item> \<open>Notifier_Thread\<close>: the thread of \<^verbatim>\<open>NetworkStatusNotifier.cpp\<close> over any writer, as partial functions, with the locales
    \<open>mortal_writer\<close> and \<open>tireless_writer\<close>; the stream that fails interprets the first, the writer to standard output the second.
  \<^item> \<open>Notifier_Stop\<close>: \<^verbatim>\<open>NetworkConnectionInfoServiceComm.cpp\<close> and the interleavings of stopping the notifier with its thread, as a step
    relation in which the look at the flag, the wait for the channel and the opening of the stream are separate steps: when the
    thread ends, after at most seven steps of both threads, and how stopping can wait for ever.
  \<^item> \<open>Collector_Main\<close>: \<^verbatim>\<open>CollectorService.cpp\<close> and \<^verbatim>\<open>collector.cpp\<close>: how the parts are put together, started and stopped.
  \<^item> \<open>Collector_Stats\<close>: \<^verbatim>\<open>CollectorStats.h\<close> and \<^verbatim>\<open>CollectorStatsExporter.cpp\<close>: counters, timers and the gauges published from them.
  \<^item> \<open>Config_Types\<close>: the parser of \<open>Config_Yaml\<close> respects the types of the descriptor.
  \<^item> \<open>Kernel_Driver\<close>: \<^verbatim>\<open>KernelDriver.h\<close> and \<^verbatim>\<open>EventExtractor.h\<close>: the system calls that are captured and the getters for fields of events.
  \<^item> \<open>Log_Writer\<close>: \<^verbatim>\<open>Logging.h\<close>: headers, messages, and the throttling that counts what it suppresses.
  \<^item> \<open>Program_Start\<close>: the start of \<^verbatim>\<open>collector.cpp\<close>: arguments, the channel to Sensor of \<^verbatim>\<open>GRPC.cpp\<close>, limits and signals.
  \<^item> \<open>Self_Checks\<close>: \<^verbatim>\<open>self-checks.cpp\<close> and \<^verbatim>\<open>SelfChecks.cpp\<close>, with what the exit status of the program tells the collector.
  \<^item> \<open>File_System\<close>: the owners of descriptors and files in \<^verbatim>\<open>FileSystem.h\<close>, with the locale \<open>closable\<close> as the contract of a resource that
    descriptors, files and directories interpret.
  \<^item> \<open>Abort_Handler\<close>, \<open>Proto_Allocator\<close>: the buffer of \<^verbatim>\<open>AbortHandler.cpp\<close> and the pool of \<^verbatim>\<open>ProtoAllocator.h\<close>.

  \<^bold>\<open>Conventions\<close>

  A class is a record, its methods are functions that take and return it; a pointer that may be null
  is an option. Loops over a table are folds or recursive functions over its association list, whose
  order is arbitrary. 64-bit times and token counts on which the code computes without overflow are
  integers, bounds being proved where the width matters (\<open>Conn_Status\<close>); flags, masks, ports, counters
  and packed words keep their width. Hash functions are the values given to \<^verbatim>\<open>HashAll\<close>, taken to be free
  of collisions. Operations of the tracker are atomic steps: the code holds the mutex in them, except in
  \<^verbatim>\<open>SetExternalIPsConfig\<close>, \<^verbatim>\<open>ShouldNormalizeConnection\<close> and \<^verbatim>\<open>CloseConnectionsOnExternalIPsConfigChange\<close>, which the
  notifier's thread calls, and the operations named \<^verbatim>\<open>NoLock\<close>, which rely on their caller; in the reporting loop the effect of other threads between two calls is an arbitrary function.
  Loops that are not structural have a termination measure; the loop that sanitises strings has the
  length of the string as fuel, and it is proved to be enough. Loops that may run for ever are partial functions, and that they
  return, or do not, is proved.

  \<^bold>\<open>Not modelled\<close>

  Libraries outside of the repository are parameters: gRPC, protobuf, YAML and JSON, the resolver of numeric
  addresses, the Falco libraries, NATS, Prometheus, zlib, the HTTP server and the kernel's files. The text of most log messages and the
  vendored option parser \<^verbatim>\<open>optionparser.h\<close> are left out, whose result is an argument, and so are the programs under \<^verbatim>\<open>integration-tests\<close>,
  which only make traffic for tests.
\<close>

end
